(* ===== verification/Pgfox_Prelude.thy ===== *)
theory Pgfox_Prelude
  imports Main "HOL-Library.Word"
begin

text \<open>
  Shared vocabulary of the development: Go byte slices and strings, big-endian integers,
  Go errors and the byte stream under a \<open>bufio.Reader\<close>, NUL-terminated strings and the
  functions of \<open>strings\<close>, \<open>strconv\<close> and \<open>fmt\<close> that several components use, with the
  generic lemmas about them.

  A Go \<open>string\<close> and a Go \<open>[]byte\<close> are both a list of bytes here; a byte is an Isabelle
  \<^typ>\<open>char\<close>, which has exactly eight bits. \<open>uint32\<close> and \<open>int32\<close> are 32-bit words.
\<close>

unbundle bit_operations_syntax

named_theorems wire_simps \<open>encoding and decoding of protocol fields\<close>
named_theorems stream_simps \<open>reading from a byte stream\<close>

type_synonym byte = char
type_synonym bytes = "char list"

abbreviation NUL :: byte where
  "NUL \<equiv> CHR 0x00"

section \<open>Big-endian integers\<close>

text \<open>Go's conversions \<open>byte(w)\<close> and \<open>uint32(b)\<close>.\<close>

definition byte_of :: "'a::len word \<Rightarrow> byte" where
  "byte_of w = char_of (unat w)"

definition word_of :: "byte \<Rightarrow> 'a::len word" where
  "word_of c = word_of_nat (of_char c)"

text \<open>\<open>binary.BigEndian.PutUint32\<close> and \<open>binary.BigEndian.Uint32\<close>; the latter panics on
  fewer than four bytes, which every caller rules out, so it is total on the first four.\<close>

definition PutUint32 :: "32 word \<Rightarrow> bytes" where
  "PutUint32 w = [byte_of (drop_bit 24 w), byte_of (drop_bit 16 w), byte_of (drop_bit 8 w), byte_of w]"

fun Uint32 :: "bytes \<Rightarrow> 32 word" where
  "Uint32 (a # b # c # d # _) =
     (word_of d OR push_bit 8 (word_of c) OR push_bit 16 (word_of b) OR push_bit 24 (word_of a))"
| "Uint32 _ = 0"

definition PutUint16 :: "16 word \<Rightarrow> bytes" where
  "PutUint16 w = [byte_of (drop_bit 8 w), byte_of w]"

section \<open>Go errors\<close>

text \<open>
  The error values the code distinguishes: \<open>io.EOF\<close>, \<open>io.ErrUnexpectedEOF\<close>, a bare
  \<open>*net.OpError\<close> (with its \<open>Timeout()\<close> and its text), an error wrapped by
  \<open>fmt.Errorf("...: %w", err)\<close>, and a leaf error made by \<open>fmt.Errorf\<close>.
\<close>

datatype goerr = Eof | UnexpectedEof | OpError bool string | Wrapf string goerr | Errorf string

fun err_text :: "goerr \<Rightarrow> string" where
  "err_text Eof = ''EOF''"
| "err_text UnexpectedEof = ''unexpected EOF''"
| "err_text (OpError _ s) = s"
| "err_text (Wrapf s e) = s @ '': '' @ err_text e"
| "err_text (Errorf s) = s"

text \<open>The type assertion \<open>err.(*net.OpError)\<close> followed by \<open>Timeout()\<close>: it looks at the
  outermost value only and does not unwrap.\<close>

fun is_op_timeout :: "goerr \<Rightarrow> bool" where
  "is_op_timeout (OpError t _) = t"
| "is_op_timeout _ = False"

section \<open>Byte streams\<close>

text \<open>What a \<open>bufio.Reader\<close> will deliver: the bytes still to come, and the error the
  connection reports once they are used up.\<close>

record reader =
  rbuf :: bytes
  rend :: goerr

definition readByte :: "reader \<Rightarrow> goerr + byte \<times> reader" where
  "readByte r = (case rbuf r of [] \<Rightarrow> Inl (rend r) | b # bs \<Rightarrow> Inr (b, r\<lparr>rbuf := bs\<rparr>))"

text \<open>\<open>io.ReadFull\<close>: all \<open>n\<close> bytes or an error; an end of file after some but not all of
  them is \<open>io.ErrUnexpectedEOF\<close>.\<close>

definition readFull :: "nat \<Rightarrow> reader \<Rightarrow> goerr + bytes \<times> reader" where
  "readFull n r =
     (if n \<le> length (rbuf r) then Inr (take n (rbuf r), r\<lparr>rbuf := drop n (rbuf r)\<rparr>)
      else if rbuf r \<noteq> [] \<and> rend r = Eof then Inl UnexpectedEof
      else Inl (rend r))"

section \<open>NUL-terminated strings\<close>

text \<open>The loop \<open>for i, b := range body { if b == 0 { idx = i; break } }\<close> that many
  functions of the code start with; \<open>None\<close> is the initial \<open>-1\<close>.\<close>

fun find_nul :: "bytes \<Rightarrow> nat option" where
  "find_nul [] = None"
| "find_nul (b # bs) = (if b = NUL then Some 0 else map_option Suc (find_nul bs))"

section \<open>Go's strings, strconv and fmt\<close>

text \<open>\<open>strings.HasPrefix\<close>, \<open>strings.Index\<close>, \<open>strings.Contains\<close>, \<open>strings.Split\<close> on a
  one-byte separator, \<open>strings.TrimRight\<close> and \<open>strings.TrimLeft\<close> with an ASCII cutset.\<close>

fun has_prefix :: "string \<Rightarrow> string \<Rightarrow> bool" where
  "has_prefix s [] = True"
| "has_prefix [] (p # ps) = False"
| "has_prefix (c # s) (p # ps) = (c = p \<and> has_prefix s ps)"

fun str_index :: "string \<Rightarrow> string \<Rightarrow> nat option" where
  "str_index [] p = (if p = [] then Some 0 else None)"
| "str_index (c # s) p = (if has_prefix (c # s) p then Some 0 else map_option Suc (str_index s p))"

definition str_contains :: "string \<Rightarrow> string \<Rightarrow> bool" where
  "str_contains s p = (str_index s p \<noteq> None)"

fun str_split :: "byte \<Rightarrow> string \<Rightarrow> string list" where
  "str_split sep [] = [[]]"
| "str_split sep (c # s) =
     (if c = sep then [] # str_split sep s
      else (case str_split sep s of [] \<Rightarrow> [[c]] | w # ws \<Rightarrow> (c # w) # ws))"

definition trim_left :: "(byte \<Rightarrow> bool) \<Rightarrow> string \<Rightarrow> string" where
  "trim_left p s = dropWhile p s"

definition trim_right :: "(byte \<Rightarrow> bool) \<Rightarrow> string \<Rightarrow> string" where
  "trim_right p s = rev (dropWhile p (rev s))"

text \<open>\<open>%d\<close> of a non-negative number.\<close>

definition digit_char :: "nat \<Rightarrow> byte" where
  "digit_char d = char_of (48 + d)"

fun fmt_nat :: "nat \<Rightarrow> string" where
  "fmt_nat n = (if n < 10 then [digit_char n] else fmt_nat (n div 10) @ [digit_char (n mod 10)])"

declare fmt_nat.simps [simp del]

text \<open>\<open>%d\<close> of a signed number, \<open>%c\<close> of a byte (a rune below 256, printed as UTF-8), and
  \<open>%x\<close> of a byte slice.\<close>

definition fmt_int :: "int \<Rightarrow> string" where
  "fmt_int i = (if i < 0 then CHR ''-'' # fmt_nat (nat (- i)) else fmt_nat (nat i))"

definition fmt_c :: "byte \<Rightarrow> string" where
  "fmt_c c = (let n = of_char c :: nat in
     if n < 128 then [c] else [char_of (192 + n div 64), char_of (128 + n mod 64)])"

definition hex_digit :: "nat \<Rightarrow> byte" where
  "hex_digit d = (if d < 10 then char_of (48 + d) else char_of (87 + d))"

definition fmt_hex :: "bytes \<Rightarrow> string" where
  "fmt_hex bs = concat (map (\<lambda>b. [hex_digit (of_char b div 16), hex_digit (of_char b mod 16)]) bs)"

section \<open>Lemmas\<close>

subsection \<open>Big-endian integers\<close>

lemma of_char_take_bit: "take_bit 8 (of_char c :: nat) = of_char c"
  by (simp add: take_bit_eq_mod)

lemma bit_word_of [bit_simps]:
  "bit (word_of c :: 'a::len word) n \<longleftrightarrow> n < LENGTH('a) \<and> n < 8 \<and> bit (of_char c :: nat) n"
  using of_char_take_bit [of c]
  by (simp add: word_of_def bit_simps) (metis bit_take_bit_iff)

lemma word_of_byte_of: "(word_of (byte_of (w :: 'a::len word)) :: 'a word) = take_bit 8 w"
proof -
  have "(word_of (byte_of w) :: 'a word) = word_of_nat (take_bit 8 (unat w))"
    by (simp add: word_of_def byte_of_def take_bit_eq_mod)
  also have "\<dots> = take_bit 8 (word_of_nat (unat w))"
    by (rule take_bit_of_nat [symmetric])
  finally show ?thesis by simp
qed

lemma byte_of_eqI:
  assumes "8 \<le> LENGTH('a)" and "take_bit 8 w = (word_of c :: 'a::len word)"
  shows "byte_of w = c"
proof -
  have lt: "(of_char c :: nat) < 2 ^ LENGTH('a)"
  proof -
    have "(of_char c :: nat) < 2 ^ 8" by simp
    also have "\<dots> \<le> 2 ^ LENGTH('a)" by (rule power_increasing) (use assms(1) in auto)
    finally show ?thesis .
  qed
  have "unat w mod 256 = unat (take_bit 8 w)"
    using take_bit_eq_mod [of 8 "unat w"] by (simp only: unsigned_take_bit_eq) simp
  also have "\<dots> = of_char c"
    using lt by (simp add: assms(2) word_of_def unat_of_nat)
  finally show ?thesis
    by (metis byte_of_def char_of_mod_256 char_of_char)
qed

lemma byte_of_word_of [simp]:
  "8 \<le> LENGTH('a) \<Longrightarrow> byte_of (word_of c :: 'a::len word) = c"
  by (rule byte_of_eqI) (auto intro!: bit_word_eqI simp: bit_simps)

lemma length_PutUint32 [simp]: "length (PutUint32 w) = 4"
  by (simp add: PutUint32_def)

lemma length_PutUint16 [simp]: "length (PutUint16 w) = 2"
  by (simp add: PutUint16_def)

lemma Uint32_PutUint32 [simp, wire_simps]: "Uint32 (PutUint32 w @ r) = w"
proof -
  have "bit (Uint32 (PutUint32 w @ r)) n \<longleftrightarrow> bit w n" if "n < 32" for n
  proof -
    from that have "n < 8 \<or> (8 \<le> n \<and> n < 16) \<or> (16 \<le> n \<and> n < 24) \<or> 24 \<le> n" by arith
    with that show ?thesis
      by (auto simp: PutUint32_def word_of_byte_of bit_simps)
  qed
  then show ?thesis by (auto intro: bit_word_eqI)
qed

lemma Uint32_PutUint32_Nil [simp, wire_simps]: "Uint32 (PutUint32 w) = w"
  using Uint32_PutUint32 [of w "[]"] by simp

lemma PutUint32_Uint32 [wire_simps]: "PutUint32 (Uint32 [a, b, c, d]) = [a, b, c, d]"
  by (simp add: PutUint32_def)
    (intro conjI byte_of_eqI; (auto intro!: bit_word_eqI simp: bit_simps)?)

subsection \<open>Streams\<close>

lemma readByte_Cons [simp, stream_simps]:
  "readByte \<lparr>rbuf = b # bs, rend = e\<rparr> = Inr (b, \<lparr>rbuf = bs, rend = e\<rparr>)"
  by (simp add: readByte_def)

lemma readByte_Nil [simp, stream_simps]: "readByte \<lparr>rbuf = [], rend = e\<rparr> = Inl e"
  by (simp add: readByte_def)

lemma readFull_append [simp, stream_simps]:
  "length xs = n \<Longrightarrow> readFull n \<lparr>rbuf = xs @ ys, rend = e\<rparr> = Inr (xs, \<lparr>rbuf = ys, rend = e\<rparr>)"
  by (simp add: readFull_def)

lemma readByte_length: "readByte r = Inr (b, r') \<Longrightarrow> length (rbuf r) = Suc (length (rbuf r'))"
  by (auto simp: readByte_def split: list.splits)

lemma readFull_length:
  "readFull n r = Inr (bs, r') \<Longrightarrow> length bs = n \<and> length (rbuf r) = n + length (rbuf r')"
  by (auto simp: readFull_def split: if_splits)

subsection \<open>NUL-terminated strings\<close>

lemma find_nul_None [simp]: "find_nul bs = None \<longleftrightarrow> NUL \<notin> set bs"
  by (induction bs) auto

lemma find_nul_append [simp]: "NUL \<notin> set s \<Longrightarrow> find_nul (s @ NUL # r) = Some (length s)"
  by (induction s) auto

lemma find_nul_SomeE:
  assumes "find_nul bs = Some i"
  obtains r where "bs = take i bs @ NUL # r" and "NUL \<notin> set (take i bs)" and "i < length bs"
    and "r = drop (Suc i) bs"
  using assms
proof (induction bs arbitrary: i thesis)
  case Nil
  then show ?case by simp
next
  case (Cons b bs)
  show ?case
  proof (cases "b = NUL")
    case True
    with Cons.prems show ?thesis by (auto intro: Cons.prems(1))
  next
    case False
    with Cons.prems(2) obtain j where j: "find_nul bs = Some j" "i = Suc j" by auto
    obtain r where r: "bs = take j bs @ NUL # r" "NUL \<notin> set (take j bs)" "j < length bs"
      "r = drop (Suc j) bs"
      by (rule Cons.IH [OF _ j(1)])
    show ?thesis
    proof (rule Cons.prems(1))
      show "b # bs = take i (b # bs) @ NUL # r" using j r(1) by simp
      show "NUL \<notin> set (take i (b # bs))" using j r(2) False by simp
    qed (use j r(3,4) in auto)
  qed
qed

subsection \<open>Lists\<close>

lemma list_all_remove_nth:
  assumes "list_all P xs"
  shows "list_all P (take i xs @ drop j xs)"
  using assms by (auto simp: list_all_iff dest!: in_set_takeD in_set_dropD)

subsection \<open>Prefixes and pairs\<close>

lemma has_prefix_append [simp]: "has_prefix (p @ s) p"
  by (induction p) auto

lemma has_prefix_iff: "has_prefix s p \<longleftrightarrow> (\<exists>r. s = p @ r)"
  by (induction s p rule: has_prefix.induct) auto

lemma has_prefix_sep: "p0 \<notin> set t \<Longrightarrow> has_prefix t (p0 # p) = False"
  by (cases t) auto

lemma pair_of_fst: "fst p = x \<Longrightarrow> p = (x, snd p)"
  by auto

end
