(* ===== verification/Pgfox_Protocol.thy ===== *)
theory Pgfox_Protocol
  imports Pgfox_Prelude
begin

text \<open>
  The wire protocol layer: \<open>src/pkg/pgfox/protocol.go\<close>, the framing in
  \<open>Client.ReadMessage\<close>/\<open>WriteMessage\<close> and \<open>Backend.ReadMessage\<close>/\<open>WriteMessage\<close>, the
  message bodies the \<open>Client.Send...\<close> methods build, and \<open>splitNullTerminated\<close> of
  \<open>startup.go\<close>. A connection is a byte stream (\<^typ>\<open>reader\<close>); what a write puts on the
  wire is a byte list. The abstract view of a stream is the list of messages it holds
  (\<open>decode_stream\<close>), and reading refines taking the head of that list.
\<close>

section \<open>Constants and data (protocol.go)\<close>

definition AuthenticationOK :: "32 word" where "AuthenticationOK = 0"
definition AuthenticationCleartextPassword :: "32 word" where "AuthenticationCleartextPassword = 3"
definition AuthenticationMD5 :: "32 word" where "AuthenticationMD5 = 5"
definition AuthenticationSASL :: "32 word" where "AuthenticationSASL = 10"
definition AuthenticationSASLContinue :: "32 word" where "AuthenticationSASLContinue = 11"
definition AuthenticationSASLFinal :: "32 word" where "AuthenticationSASLFinal = 12"

definition ProtocolVersion30 :: "32 word" where "ProtocolVersion30 = 196608"
definition SSLRequestCode :: "32 word" where "SSLRequestCode = 80877103"
definition CancelRequestCode :: "32 word" where "CancelRequestCode = 80877102"

record NotificationMessage =
  ProcessID :: "32 word"
  ChannelName :: string
  Payload :: string

text \<open>A protocol message: its type byte and its body.\<close>

type_synonym msg = "byte \<times> bytes"

section \<open>Integers on the wire\<close>

definition readUint32 :: "reader \<Rightarrow> goerr + 32 word \<times> reader" where
  "readUint32 r = (case readFull 4 r of Inl e \<Rightarrow> Inl e | Inr (buf, r') \<Rightarrow> Inr (Uint32 buf, r'))"

definition readInt32 :: "reader \<Rightarrow> goerr + 32 word \<times> reader" where
  "readInt32 r = (case readFull 4 r of Inl e \<Rightarrow> Inl e | Inr (buf, r') \<Rightarrow> Inr (Uint32 buf, r'))"

section \<open>Error messages\<close>

definition err_field :: "byte \<Rightarrow> string \<Rightarrow> string" where
  "err_field fieldType fieldValue =
     (if fieldType = CHR ''S'' then ''Severity: '' @ fieldValue @ ''; ''
      else if fieldType = CHR ''C'' then ''Code: '' @ fieldValue @ ''; ''
      else if fieldType = CHR ''M'' then ''Message: '' @ fieldValue @ ''; ''
      else if fieldType = CHR ''D'' then ''Detail: '' @ fieldValue @ ''; ''
      else if fieldType = CHR ''H'' then ''Hint: '' @ fieldValue @ ''; ''
      else [])"

text \<open>The loop over the fields; the argument is \<open>body[i:]\<close>.\<close>

function err_fields :: "bytes \<Rightarrow> string" where
  "err_fields [] = []"
| "err_fields (fieldType # bs) =
     (if fieldType = NUL then []
      else let fieldValue = takeWhile (\<lambda>b. b \<noteq> NUL) bs;
               rest = dropWhile (\<lambda>b. b \<noteq> NUL) bs
           in (if fieldValue \<noteq> [] then err_field fieldType fieldValue else []) @ err_fields (drop 1 rest))"
  by pat_completeness auto
termination
  by (relation "measure length")
    (auto simp: less_Suc_eq_le intro: le_trans [OF diff_le_self length_dropWhile_le])

definition trim_suffix :: "string \<Rightarrow> string \<Rightarrow> string" where
  "trim_suffix s suf =
     (if length suf \<le> length s \<and> drop (length s - length suf) s = suf
      then take (length s - length suf) s else s)"

definition ParseErrorMessage :: "bytes \<Rightarrow> string" where
  "ParseErrorMessage body =
     (if body = [] then ''unknown error''
      else let result = err_fields body
           in if result = [] then ''unknown error'' else trim_suffix result ''; '')"

section \<open>Startup parameters\<close>

fun param_pairs :: "string list \<Rightarrow> (string \<rightharpoonup> string) \<Rightarrow> (string \<rightharpoonup> string)" where
  "param_pairs (key # value # ps) params = param_pairs ps (params(key \<mapsto> value))"
| "param_pairs _ params = params"

definition parseStartupParams :: "bytes \<Rightarrow> (string \<rightharpoonup> string)" where
  "parseStartupParams data =
     (if data = [] then Map.empty
      else let cleanParts = filter (\<lambda>p. p \<noteq> []) (str_split NUL data)
           in param_pairs cleanParts Map.empty)"

definition buildStartupMessage :: "string \<Rightarrow> string \<Rightarrow> bytes" where
  "buildStartupMessage user database =
     (let params = ''user'' @ NUL # user @ NUL # ''database'' @ NUL # database @ [NUL, NUL]
      in PutUint32 (of_nat (8 + length params)) @ PutUint32 196608 @ params)"

text \<open>\<open>splitNullTerminated\<close> of startup.go; \<open>cur\<close> is \<open>b[start:i]\<close>.\<close>

fun splitNul_loop :: "bytes \<Rightarrow> bytes \<Rightarrow> string list" where
  "splitNul_loop cur [] = (if cur \<noteq> [] then [cur] else [])"
| "splitNul_loop cur (c # cs) =
     (if c = NUL then (if cur \<noteq> [] then [cur] else []) @ splitNul_loop [] cs
      else splitNul_loop (cur @ [c]) cs)"

definition splitNullTerminated :: "bytes \<Rightarrow> string list" where
  "splitNullTerminated b = splitNul_loop [] b"

section \<open>Notifications\<close>

definition parseNotificationResponse :: "bytes \<Rightarrow> NotificationMessage option" where
  "parseNotificationResponse body =
     (if length body < 8 then None
      else let processID = Uint32 (take 4 body); rest = drop 4 body
           in case find_nul rest of
                None \<Rightarrow> None
              | Some nullPos \<Rightarrow>
                  let channel = take nullPos rest;
                      payloadBytes = drop (nullPos + 1) rest;
                      payload = (if nullPos + 1 < length rest
                                 then (if payloadBytes \<noteq> [] \<and> last payloadBytes = NUL
                                       then butlast payloadBytes else payloadBytes)
                                 else [])
                  in Some \<lparr>ProcessID = processID, ChannelName = channel, Payload = payload\<rparr>)"

text \<open>The body \<open>Client.SendNotificationToClient\<close> writes.\<close>

definition notificationBody :: "NotificationMessage \<Rightarrow> bytes" where
  "notificationBody n = PutUint32 (ProcessID n) @ ChannelName n @ NUL # Payload n @ [NUL]"

section \<open>Message bodies sent to clients (client.go)\<close>

definition cString :: "bytes \<Rightarrow> string" where
  "cString b = (case find_nul b of None \<Rightarrow> b | Some i \<Rightarrow> take i b)"

definition SendAuthenticationOK :: msg where
  "SendAuthenticationOK = (CHR ''R'', PutUint32 AuthenticationOK)"

definition SendAuthenticationMD5 :: "bytes \<Rightarrow> msg" where
  "SendAuthenticationMD5 salt = (CHR ''R'', PutUint32 AuthenticationMD5 @ salt)"

definition SendAuthenticationCleartext :: msg where
  "SendAuthenticationCleartext = (CHR ''R'', PutUint32 AuthenticationCleartextPassword)"

definition SendBackendKeyData :: "32 word \<Rightarrow> 32 word \<Rightarrow> msg" where
  "SendBackendKeyData processID secretKey = (CHR ''K'', PutUint32 processID @ PutUint32 secretKey)"

definition SendParameterStatus :: "string \<Rightarrow> string \<Rightarrow> msg" where
  "SendParameterStatus name value = (CHR ''S'', name @ NUL # value @ [NUL])"

definition SendReadyForQuery :: "byte \<Rightarrow> msg" where
  "SendReadyForQuery status = (CHR ''Z'', [status])"

definition SendErrorResponse :: "string \<Rightarrow> string \<Rightarrow> string \<Rightarrow> msg" where
  "SendErrorResponse severity code message =
     (CHR ''E'', CHR ''S'' # severity @ NUL # CHR ''C'' # code @ NUL # CHR ''M'' # message @ [NUL, NUL])"

definition SendCommandComplete :: "string \<Rightarrow> msg" where
  "SendCommandComplete command = (CHR ''C'', command @ [NUL])"

definition SendNotificationToClient :: "NotificationMessage \<Rightarrow> msg" where
  "SendNotificationToClient n = (CHR ''A'', notificationBody n)"

section \<open>Framing (client.go, backend.go)\<close>

text \<open>The bytes \<open>WriteMessage\<close> hands to the writer. Go's \<open>uint32(len(body)+4)\<close> wraps.\<close>

definition frame :: "msg \<Rightarrow> bytes" where
  "frame m = fst m # PutUint32 (of_nat (length (snd m) + 4)) @ snd m"

definition Backend_WriteMessage :: "int \<Rightarrow> msg \<Rightarrow> goerr + bytes" where
  "Backend_WriteMessage maxMessageSize m =
     (if int (length (snd m)) > maxMessageSize
      then Inl (Errorf (''message body '' @ fmt_nat (length (snd m)) @
             '' bytes exceeds max_message_size '' @ fmt_int maxMessageSize))
      else Inr (frame m))"

definition Client_WriteMessage :: "int \<Rightarrow> msg \<Rightarrow> goerr + bytes" where
  "Client_WriteMessage maxMessageSize m =
     (if int (length (snd m)) > maxMessageSize
      then Inl (Errorf (''message body too large: '' @ fmt_nat (length (snd m)) @ '' bytes''))
      else Inr (frame m))"

definition Backend_ReadMessage :: "int \<Rightarrow> reader \<Rightarrow> goerr + msg \<times> reader" where
  "Backend_ReadMessage maxMessageSize r =
     (case readByte r of
        Inl e \<Rightarrow> Inl (if e = Eof then Errorf ''backend connection closed''
                      else Wrapf ''failed to read message type'' e)
      | Inr (msgType, r1) \<Rightarrow>
          (case readUint32 r1 of
             Inl e \<Rightarrow> Inl (Wrapf (''failed to read message length after type '' @ fmt_c msgType) e)
           | Inr (len, r2) \<Rightarrow>
               if len < 4 then
                 Inl (Errorf (''invalid message length '' @ fmt_nat (unat len) @ '' for type '' @
                   fmt_c msgType @ '' (must be >= 4)''))
               else if len > word_of_int maxMessageSize then
                 Inl (Errorf (''message length '' @ fmt_nat (unat len) @ '' exceeds max_message_size '' @
                   fmt_int maxMessageSize @ '' for type '' @ fmt_c msgType))
               else
                 (let bodyLength = unat (len - 4)
                  in case readFull bodyLength r2 of
                       Inl e \<Rightarrow> Inl (Wrapf (''failed to read message body ('' @ fmt_nat bodyLength @
                                  '' bytes) for type '' @ fmt_c msgType) e)
                     | Inr (body, r3) \<Rightarrow> Inr ((msgType, body), r3))))"

definition Client_ReadMessage :: "int \<Rightarrow> reader \<Rightarrow> goerr + msg \<times> reader" where
  "Client_ReadMessage maxMessageSize r =
     (case readByte r of
        Inl e \<Rightarrow> Inl (if e = Eof then Eof else Wrapf ''failed to read message type from client'' e)
      | Inr (msgType, r1) \<Rightarrow>
          (case readUint32 r1 of
             Inl e \<Rightarrow> Inl (Wrapf (''failed to read message length after type '' @ fmt_c msgType @
                        '' from client'') e)
           | Inr (len, r2) \<Rightarrow>
               if len < 4 then
                 Inl (Errorf (''invalid message length '' @ fmt_nat (unat len) @ '' for type '' @
                   fmt_c msgType @ '' from client (must be >= 4)''))
               else if len > word_of_int maxMessageSize then
                 Inl (Errorf (''message length '' @ fmt_nat (unat len) @ '' exceeds max_message_size '' @
                   fmt_int maxMessageSize @ '' for type '' @ fmt_c msgType @ '' from client''))
               else
                 (let bodyLength = unat (len - 4)
                  in case readFull bodyLength r2 of
                       Inl e \<Rightarrow> Inl (Wrapf (''failed to read message body ('' @ fmt_nat bodyLength @
                                  '' bytes) for type '' @ fmt_c msgType @ '' from client'') e)
                     | Inr (body, r3) \<Rightarrow> Inr ((msgType, body), r3))))"

text \<open>\<open>forwardMessage\<close>: the length is not checked before 4 is subtracted from it; the result
  is the message handed to the client's \<open>WriteMessage\<close>, or the number of bytes it would
  wait for.\<close>

definition forwardMessage :: "byte \<Rightarrow> reader \<Rightarrow> goerr + msg \<times> reader" where
  "forwardMessage msgType r =
     (case readUint32 r of
        Inl e \<Rightarrow> Inl e
      | Inr (len, r1) \<Rightarrow>
          (let bodyLength = unat (len - 4)
           in case readFull bodyLength r1 of
                Inl e \<Rightarrow> Inl e
              | Inr (body, r2) \<Rightarrow> Inr ((msgType, body), r2)))"

text \<open>\<open>forwardBackendMessage\<close>, the same on the reader of a backend.\<close>

definition forwardBackendMessage :: "byte \<Rightarrow> reader \<Rightarrow> goerr + msg \<times> reader" where
  "forwardBackendMessage msgType r =
     (case readUint32 r of
        Inl e \<Rightarrow> Inl e
      | Inr (len, r1) \<Rightarrow>
          (let bodyLength = unat (len - 4)
           in case readFull bodyLength r1 of
                Inl e \<Rightarrow> Inl e
              | Inr (body, r2) \<Rightarrow> Inr ((msgType, body), r2)))"

section \<open>Streams of messages\<close>

lemma readUint32_length: "readUint32 r = Inr (w, r') \<Longrightarrow> length (rbuf r) = 4 + length (rbuf r')"
  by (auto simp: readUint32_def dest: readFull_length split: sum.splits)

lemma Backend_ReadMessage_length:
  "Backend_ReadMessage mx r = Inr (m, r') \<Longrightarrow>
     length (rbuf r) = 5 + length (snd m) + length (rbuf r')"
  by (auto simp: Backend_ReadMessage_def Let_def split: sum.splits if_splits
      dest!: readByte_length readUint32_length readFull_length)

text \<open>The messages a stream holds, and the error that ends it.\<close>

function decode_stream :: "int \<Rightarrow> reader \<Rightarrow> msg list \<times> goerr" where
  "decode_stream mx r =
     (case Backend_ReadMessage mx r of
        Inl e \<Rightarrow> ([], e)
      | Inr (m, r') \<Rightarrow> (let (ms, e) = decode_stream mx r' in (m # ms, e)))"
  by pat_completeness auto
termination
  by (relation "measure (\<lambda>(mx, r). length (rbuf r))") (auto dest!: Backend_ReadMessage_length)

declare decode_stream.simps [simp del]

section \<open>Framing: lemmas\<close>

lemma readUint32_append [simp, stream_simps]:
  "readUint32 \<lparr>rbuf = PutUint32 w @ bs, rend = e\<rparr> = Inr (w, \<lparr>rbuf = bs, rend = e\<rparr>)"
  by (simp add: readUint32_def)

text \<open>The sizes for which a frame is readable again: the length field neither wraps nor
  exceeds the reader's limit.\<close>

definition fits :: "int \<Rightarrow> msg \<Rightarrow> bool" where
  "fits mx m \<longleftrightarrow> int (length (snd m)) + 4 \<le> mx \<and> mx < 2 ^ 32"

lemma fits_length_word:
  assumes "fits mx m"
  shows "unat (of_nat (length (snd m) + 4) :: 32 word) = length (snd m) + 4"
proof -
  have "length (snd m) + 4 < 2 ^ LENGTH(32)" using assms by (simp add: fits_def)
  then show ?thesis by (simp only: unat_of_nat mod_less)
qed

lemma fits_lengths:
  assumes "fits mx m"
  defines "len \<equiv> (of_nat (length (snd m) + 4) :: 32 word)"
  shows "\<not> len < 4" and "\<not> len > word_of_int mx" and "unat (len - 4) = length (snd m)"
proof -
  have u: "unat len = length (snd m) + 4"
    unfolding len_def by (rule fits_length_word [OF assms(1)])
  show "\<not> len < 4" by (simp add: word_less_nat_alt u)
  have "uint (word_of_int mx :: 32 word) = mx"
    using assms(1) by (simp add: fits_def uint_word_of_int)
  moreover have "uint len = int (length (snd m) + 4)" using u by (simp add: uint_nat)
  ultimately show "\<not> len > word_of_int mx"
    using assms(1) by (simp add: word_less_def fits_def)
  have "4 \<le> len" using u by (simp add: word_le_nat_alt)
  then show "unat (len - 4) = length (snd m)" using u by (simp add: unat_sub)
qed

lemma Backend_ReadMessage_frame:
  assumes "fits mx m"
  shows "Backend_ReadMessage mx \<lparr>rbuf = frame m @ rest, rend = e\<rparr> = Inr (m, \<lparr>rbuf = rest, rend = e\<rparr>)"
  using fits_lengths [OF assms]
  by (cases m) (simp add: Backend_ReadMessage_def frame_def Let_def)

lemma Client_ReadMessage_frame:
  assumes "fits mx m"
  shows "Client_ReadMessage mx \<lparr>rbuf = frame m @ rest, rend = e\<rparr> = Inr (m, \<lparr>rbuf = rest, rend = e\<rparr>)"
  using fits_lengths [OF assms]
  by (cases m) (simp add: Client_ReadMessage_def frame_def Let_def)

text \<open>Once the type of a frame has been read, either forwarder passes on the message and leaves what follows it.\<close>

lemma forward_frame:
  assumes "fits mx m"
  shows "forwardMessage (fst m) \<lparr>rbuf = tl (frame m) @ rest, rend = e\<rparr> = Inr (m, \<lparr>rbuf = rest, rend = e\<rparr>)"
    and "forwardBackendMessage (fst m) \<lparr>rbuf = tl (frame m) @ rest, rend = e\<rparr> = Inr (m, \<lparr>rbuf = rest, rend = e\<rparr>)"
  using fits_lengths [OF assms]
  by (cases m; simp add: forwardMessage_def forwardBackendMessage_def frame_def Let_def)+

lemma decode_stream_frames_append:
  assumes "list_all (fits mx) ms"
  shows "decode_stream mx \<lparr>rbuf = concat (map frame ms) @ rest, rend = e\<rparr> =
    (let (ms', e') = decode_stream mx \<lparr>rbuf = rest, rend = e\<rparr> in (ms @ ms', e'))"
  using assms
proof (induction ms)
  case Nil
  then show ?case by simp
next
  case (Cons m ms)
  then show ?case
    by (subst decode_stream.simps) (simp add: Backend_ReadMessage_frame case_prod_unfold Let_def)
qed

section \<open>Splitting at NUL: lemmas\<close>

lemma str_split_nonempty [simp]: "str_split sep s \<noteq> []"
  by (induction s) (auto split: list.splits)

lemma str_split_no_sep: "sep \<notin> set w \<Longrightarrow> str_split sep w = [w]"
  by (induction w) auto

lemma str_split_append: "sep \<notin> set w \<Longrightarrow> str_split sep (w @ sep # s) = w # str_split sep s"
  by (induction w) auto

lemma splitNul_loop_prepend:
  "splitNul_loop cur bs = filter (\<lambda>p. p \<noteq> []) (case str_split NUL bs of [] \<Rightarrow> [cur] | w # ws \<Rightarrow> (cur @ w) # ws)"
proof (induction bs arbitrary: cur)
  case Nil
  then show ?case by simp
next
  case (Cons c cs)
  show ?case
  proof (cases "c = NUL")
    case True
    with Cons.IH [of "[]"] show ?thesis by (cases "str_split NUL cs") auto
  next
    case False
    with Cons.IH [of "cur @ [c]"] show ?thesis by (cases "str_split NUL cs") auto
  qed
qed

lemma splitNullTerminated_spec:
  "splitNullTerminated bs = filter (\<lambda>p. p \<noteq> []) (str_split NUL bs)"
  unfolding splitNullTerminated_def splitNul_loop_prepend
  by (cases "str_split NUL bs") (auto dest: arg_cong [where f = "\<lambda>x. x = []"])

text \<open>Key/value pairs as the protocol encodes them, and when they survive the parser.\<close>

definition encode_params :: "(string \<times> string) list \<Rightarrow> bytes" where
  "encode_params kvs = concat (map (\<lambda>(k, v). k @ NUL # v @ [NUL]) kvs) @ [NUL]"

definition plain_params :: "(string \<times> string) list \<Rightarrow> bool" where
  "plain_params kvs = list_all (\<lambda>(k, v). k \<noteq> [] \<and> v \<noteq> [] \<and> NUL \<notin> set k \<and> NUL \<notin> set v) kvs"

lemma clean_encode_params:
  "plain_params kvs \<Longrightarrow>
     filter (\<lambda>p. p \<noteq> []) (str_split NUL (encode_params kvs)) = concat (map (\<lambda>(k, v). [k, v]) kvs)"
proof (induction kvs)
  case Nil
  then show ?case by (simp add: encode_params_def)
next
  case (Cons kv kvs)
  obtain k v where kv: "kv = (k, v)" by (cases kv)
  have "encode_params (kv # kvs) = k @ NUL # v @ NUL # encode_params kvs"
    by (simp add: encode_params_def kv)
  with Cons kv show ?case by (simp add: plain_params_def str_split_append)
qed

lemma param_pairs_concat:
  "param_pairs (concat (map (\<lambda>(k, v). [k, v]) kvs)) m = m ++ map_of (rev kvs)"
  by (induction kvs arbitrary: m) (auto simp: fun_eq_iff map_add_def split: option.splits)

lemma trim_suffix_append [simp]: "trim_suffix (s @ suf) suf = s"
  by (simp add: trim_suffix_def)

section \<open>Properties\<close>

text \<open>C29: What either side of the pooler writes, the other reads back: a frame written by
  \<open>WriteMessage\<close> whose length fits the reader's \<open>max_message_size\<close> is read by
  \<open>ReadMessage\<close> as the same message, and exactly its bytes are consumed. Both the
  client-side and the backend-side reader and writer are covered.\<close>

theorem message_roundtrip:
  assumes "fits mx m"
  shows "Client_WriteMessage mx m = Inr (frame m) \<and> Backend_WriteMessage mx m = Inr (frame m) \<and>
    Backend_ReadMessage mx \<lparr>rbuf = frame m @ rest, rend = e\<rparr> = Inr (m, \<lparr>rbuf = rest, rend = e\<rparr>) \<and>
    Client_ReadMessage mx \<lparr>rbuf = frame m @ rest, rend = e\<rparr> = Inr (m, \<lparr>rbuf = rest, rend = e\<rparr>)"
  using assms
  by (auto simp: Backend_ReadMessage_frame Client_ReadMessage_frame Client_WriteMessage_def
      Backend_WriteMessage_def fits_def)

theorem message_roundtrip_witness:
  "fits 1024 (CHR ''Q'', ''SELECT 1'') \<and>
   Client_ReadMessage 1024 \<lparr>rbuf = frame (CHR ''Q'', ''SELECT 1'') @ ''X'', rend = Eof\<rparr> =
     Inr ((CHR ''Q'', ''SELECT 1''), \<lparr>rbuf = ''X'', rend = Eof\<rparr>)"
proof -
  have f: "fits 1024 (CHR ''Q'', ''SELECT 1'')" by (simp add: fits_def)
  with message_roundtrip [OF f, of "''X''" Eof] show ?thesis by blast
qed

text \<open>C30: A stream of well-sized frames decodes to exactly the messages that were framed, in
  order, followed by the error of the closed connection: \<open>Backend.ReadMessage\<close> refines taking
  the head of the abstract message list, so no byte of one message leaks into the next.\<close>

theorem stream_refinement:
  assumes "list_all (fits mx) ms"
  shows "decode_stream mx \<lparr>rbuf = concat (map frame ms), rend = Eof\<rparr> =
           (ms, Errorf ''backend connection closed'') \<and>
         (case decode_stream mx r of
            ([], e) \<Rightarrow> Backend_ReadMessage mx r = Inl e
          | (m # ms', e) \<Rightarrow>
              (\<exists>r'. Backend_ReadMessage mx r = Inr (m, r') \<and> decode_stream mx r' = (ms', e)))"
proof
  have "decode_stream mx \<lparr>rbuf = [], rend = Eof\<rparr> = ([], Errorf ''backend connection closed'')"
    by (subst decode_stream.simps) (simp add: Backend_ReadMessage_def)
  then show "decode_stream mx \<lparr>rbuf = concat (map frame ms), rend = Eof\<rparr> =
      (ms, Errorf ''backend connection closed'')"
    using decode_stream_frames_append [OF assms, of "[]" Eof] by simp
next
  show "case decode_stream mx r of
      ([], e) \<Rightarrow> Backend_ReadMessage mx r = Inl e
    | (m # ms', e) \<Rightarrow> (\<exists>r'. Backend_ReadMessage mx r = Inr (m, r') \<and> decode_stream mx r' = (ms', e))"
    by (subst decode_stream.simps) (auto split: sum.splits prod.splits)
qed

theorem stream_refinement_witness:
  "list_all (fits 64) [(CHR ''1'', []), (CHR ''Z'', ''I'')] \<and>
   decode_stream 64 \<lparr>rbuf = frame (CHR ''1'', []) @ frame (CHR ''Z'', ''I''), rend = Eof\<rparr> =
     ([(CHR ''1'', []), (CHR ''Z'', ''I'')], Errorf ''backend connection closed'')"
proof -
  have f: "list_all (fits 64) [(CHR ''1'', []), (CHR ''Z'', ''I'')]" by (simp add: fits_def)
  with stream_refinement [OF f] show ?thesis by simp
qed

text \<open>Relaying a notification: what \<open>SendNotificationToClient\<close> writes is parsed back by
  \<open>parseNotificationResponse\<close> to the same notification exactly when channel and payload
  together have at least two bytes; a notification on a one-byte channel with an empty payload
  is seven bytes long and is dropped by the length guard.\<close>

theorem notification_roundtrip:
  assumes "NUL \<notin> set (ChannelName n)"
  shows "parseNotificationResponse (notificationBody n) =
    (if 2 \<le> length (ChannelName n) + length (Payload n) then Some n else None)"
  using assms
  by (auto simp: parseNotificationResponse_def notificationBody_def Let_def)

theorem notification_roundtrip_witness:
  "parseNotificationResponse (notificationBody \<lparr>ProcessID = 7, ChannelName = ''orders'', Payload = ''42''\<rparr>) =
     Some \<lparr>ProcessID = 7, ChannelName = ''orders'', Payload = ''42''\<rparr> \<and>
   parseNotificationResponse (notificationBody \<lparr>ProcessID = 7, ChannelName = ''a'', Payload = []\<rparr>) = None"
  using notification_roundtrip [of "\<lparr>ProcessID = 7, ChannelName = ''orders'', Payload = ''42''\<rparr>"]
    notification_roundtrip [of "\<lparr>ProcessID = 7, ChannelName = ''a'', Payload = []\<rparr>"]
  by simp

text \<open>Startup parameters survive the wire: any list of key/value pairs whose keys and
  values are non-empty and free of NUL is parsed by \<open>parseStartupParams\<close> to the map in which
  a later pair overrides an earlier one; in particular the packet \<open>buildStartupMessage\<close> makes
  carries its own length, protocol 3.0, and the user and database it was given.\<close>

theorem startup_params_roundtrip:
  assumes "plain_params kvs" and "plain_params [(''user'', user), (''database'', database)]"
    and "length user + length database < 2 ^ 31"
  shows "parseStartupParams (encode_params kvs) = map_of (rev kvs) \<and>
    unat (Uint32 (buildStartupMessage user database)) = length (buildStartupMessage user database) \<and>
    Uint32 (drop 4 (buildStartupMessage user database)) = ProtocolVersion30 \<and>
    parseStartupParams (drop 8 (buildStartupMessage user database)) =
      [''user'' \<mapsto> user, ''database'' \<mapsto> database]"
proof -
  have gen: "parseStartupParams (encode_params kvs) = map_of (rev kvs)" if "plain_params kvs" for kvs
  proof -
    have "encode_params kvs \<noteq> []" by (simp add: encode_params_def)
    with that show ?thesis
      by (simp add: parseStartupParams_def clean_encode_params param_pairs_concat Let_def)
  qed
  let ?body = "encode_params [(''user'', user), (''database'', database)]"
  have b: "buildStartupMessage user database =
      PutUint32 (of_nat (8 + length ?body)) @ PutUint32 196608 @ ?body"
    by (simp add: buildStartupMessage_def encode_params_def Let_def)
  have "8 + length ?body < 2 ^ LENGTH(32)" using assms(3) by (simp add: encode_params_def)
  then have l: "unat (of_nat (8 + length ?body) :: 32 word) = 8 + length ?body"
    by (simp only: unat_of_nat mod_less)
  show ?thesis
    using gen [OF assms(1)] gen [OF assms(2)] l
    by (simp only: b Uint32_PutUint32 append.assoc) (auto simp: ProtocolVersion30_def)
qed

theorem startup_params_roundtrip_witness:
  "parseStartupParams (encode_params [(''user'', ''bob''), (''database'', ''app'')]) =
     map_of (rev [(''user'', ''bob''), (''database'', ''app'')]) \<and>
   parseStartupParams (drop 8 (buildStartupMessage ''bob'' ''app'')) =
     [''user'' \<mapsto> ''bob'', ''database'' \<mapsto> ''app'']"
proof -
  have p: "plain_params [(''user'', ''bob''), (''database'', ''app'')]"
    by (simp add: plain_params_def)
  have l: "length ''bob'' + length ''app'' < 2 ^ 31" by simp
  show ?thesis using startup_params_roundtrip [OF p p l] by blast
qed

text \<open>A parameter with an empty value is legal in the protocol, but dropping the empty parts
  shifts every later key and value by one: the database of the packet below is lost, and
  \<open>handleStartupMessage\<close> would reject the client.\<close>

theorem empty_parameter_misaligns:
  "parseStartupParams (encode_params [(''user'', ''u''), (''options'', []), (''database'', ''d'')]) =
     [''user'' \<mapsto> ''u'', ''options'' \<mapsto> ''database'']"
  by (simp add: parseStartupParams_def encode_params_def Let_def)

text \<open>The error a client is sent reads back as its three fields: \<open>ParseErrorMessage\<close> on
  the body of \<open>SendErrorResponse\<close> returns severity, code and message, in that order.\<close>

theorem error_response_roundtrip:
  assumes "severity \<noteq> []" "code \<noteq> []" "message \<noteq> []"
    and "NUL \<notin> set severity" "NUL \<notin> set code" "NUL \<notin> set message"
  shows "ParseErrorMessage (snd (SendErrorResponse severity code message)) =
    ''Severity: '' @ severity @ ''; Code: '' @ code @ ''; Message: '' @ message"
proof -
  have tw: "takeWhile (\<lambda>b. b \<noteq> NUL) (xs @ NUL # ys) = xs"
    and dw: "dropWhile (\<lambda>b. b \<noteq> NUL) (xs @ NUL # ys) = NUL # ys" if "NUL \<notin> set xs" for xs ys
    using that by (induction xs) auto
  have "err_fields (snd (SendErrorResponse severity code message)) =
      (''Severity: '' @ severity @ ''; Code: '' @ code @ ''; Message: '' @ message) @ ''; ''"
    using assms by (simp add: SendErrorResponse_def tw dw Let_def err_field_def)
  then show ?thesis
    by (simp only: ParseErrorMessage_def Let_def trim_suffix_append) (simp add: SendErrorResponse_def)
qed

theorem error_response_roundtrip_witness:
  "ParseErrorMessage (snd (SendErrorResponse ''ERROR'' ''08006'' ''connection failure'')) =
    ''Severity: '' @ ''ERROR'' @ ''; Code: '' @ ''08006'' @ ''; Message: '' @ ''connection failure''"
  by (rule error_response_roundtrip) simp_all

end
