(* ===== verification/Pgfox_Extended.thy ===== *)
theory Pgfox_Extended
  imports Pgfox_Protocol
begin

text \<open>
  \<open>src/pkg/pgfox/extended.go\<close>: building, inspecting and renaming the bodies of the
  extended-query messages Parse, Bind, Describe, Close and Execute. Renaming is what lets
  the pooler replace a client's statement name by the shared name \<open>pfx_<hash>\<close>. The
  contract of the three get-a-name/set-a-name pairs is the locale \<open>name_lens\<close>, interpreted
  for Parse, Bind and Describe/Close bodies.
\<close>

section \<open>Parse\<close>

definition BuildParseBody :: "string \<Rightarrow> string \<Rightarrow> 32 word list \<Rightarrow> bytes" where
  "BuildParseBody stmtName query paramOIDs =
     stmtName @ NUL # query @ NUL # PutUint16 (of_nat (length paramOIDs)) @ concat (map PutUint32 paramOIDs)"

definition RewriteParseBodyName :: "bytes \<Rightarrow> string \<Rightarrow> bytes" where
  "RewriteParseBodyName body newName =
     (case find_nul body of
        None \<Rightarrow> body
      | Some nameEnd \<Rightarrow> newName @ NUL # drop (nameEnd + 1) body)"

definition ParseBodyStatementName :: "bytes \<Rightarrow> string" where
  "ParseBodyStatementName body = (case find_nul body of None \<Rightarrow> [] | Some i \<Rightarrow> take i body)"

definition ParseBodyQuery :: "bytes \<Rightarrow> string" where
  "ParseBodyQuery body =
     (case find_nul body of
        None \<Rightarrow> []
      | Some nameEnd \<Rightarrow>
          let rest = drop (nameEnd + 1) body
          in case find_nul rest of None \<Rightarrow> rest | Some i \<Rightarrow> take i rest)"

section \<open>Bind\<close>

definition appendInt16 :: "bytes \<Rightarrow> 16 word \<Rightarrow> bytes" where
  "appendInt16 buf v = buf @ PutUint16 v"

definition appendInt32 :: "bytes \<Rightarrow> 32 word \<Rightarrow> bytes" where
  "appendInt32 buf v = buf @ PutUint32 v"

definition BuildBindBody ::
  "string \<Rightarrow> string \<Rightarrow> 16 word list \<Rightarrow> string list \<Rightarrow> 16 word list \<Rightarrow> bytes" where
  "BuildBindBody portal stmtName paramFmts paramVals resultFmts =
     (let buf = portal @ [NUL];
          buf = buf @ stmtName @ [NUL];
          buf = appendInt16 buf (of_nat (length paramFmts));
          buf = foldl appendInt16 buf paramFmts;
          buf = appendInt16 buf (of_nat (length paramVals));
          buf = foldl (\<lambda>b val. appendInt32 b (of_nat (length val)) @ val) buf paramVals;
          buf = appendInt16 buf (of_nat (length resultFmts))
      in foldl appendInt16 buf resultFmts)"

definition RewriteBindBodyName :: "bytes \<Rightarrow> string \<Rightarrow> bytes" where
  "RewriteBindBodyName body newStmtName =
     (case find_nul body of
        None \<Rightarrow> body
      | Some portalEnd \<Rightarrow>
          let stmtStart = portalEnd + 1
          in case find_nul (drop stmtStart body) of
               None \<Rightarrow> body
             | Some k \<Rightarrow> let stmtEnd = stmtStart + k
                        in take stmtStart body @ newStmtName @ NUL # drop (stmtEnd + 1) body)"

definition BindBodyStatementName :: "bytes \<Rightarrow> string" where
  "BindBodyStatementName body =
     (case find_nul body of
        None \<Rightarrow> []
      | Some portalEnd \<Rightarrow>
          let stmtStart = portalEnd + 1
          in case find_nul (drop stmtStart body) of
               None \<Rightarrow> []
             | Some k \<Rightarrow> take k (drop stmtStart body))"

section \<open>Close, Describe, Execute\<close>

definition CloseBodyTarget :: "bytes \<Rightarrow> byte \<times> string" where
  "CloseBodyTarget body =
     (if length body < 2 then (NUL, [])
      else let closeType = hd body
           in case find_nul (tl body) of
                None \<Rightarrow> (closeType, tl body)
              | Some i \<Rightarrow> (closeType, take i (tl body)))"

definition BuildDescribePortal :: "string \<Rightarrow> bytes" where
  "BuildDescribePortal portal = CHR ''P'' # portal @ [NUL]"

definition DescribeBodyTarget :: "bytes \<Rightarrow> byte \<times> string" where
  "DescribeBodyTarget body = CloseBodyTarget body"

definition RewriteDescribeBodyName :: "bytes \<Rightarrow> string \<Rightarrow> bytes" where
  "RewriteDescribeBodyName body newName =
     (if length body < 1 then body else hd body # newName @ [NUL])"

definition RewriteCloseBodyName :: "bytes \<Rightarrow> string \<Rightarrow> bytes" where
  "RewriteCloseBodyName body newName = RewriteDescribeBodyName body newName"

definition BuildExecuteBody :: "string \<Rightarrow> 32 word \<Rightarrow> bytes" where
  "BuildExecuteBody portal maxRows = appendInt32 (portal @ [NUL]) maxRows"

definition SyncBody :: bytes where "SyncBody = []"
definition FlushBody :: bytes where "FlushBody = []"

section \<open>What a backend reads from a Bind body\<close>

text \<open>A reference decoder for the documented layout of Bind (portal, statement, parameter
  formats, parameter values with \<open>-1\<close> for NULL, result formats), to state what the built
  bodies mean.\<close>

fun Uint16 :: "bytes \<Rightarrow> 16 word" where
  "Uint16 (a # b # _) = (word_of b OR push_bit 8 (word_of a))"
| "Uint16 _ = 0"

definition dec_cstring :: "bytes \<Rightarrow> (string \<times> bytes) option" where
  "dec_cstring bs = (case find_nul bs of None \<Rightarrow> None | Some i \<Rightarrow> Some (take i bs, drop (i + 1) bs))"

definition dec_u16 :: "bytes \<Rightarrow> (16 word \<times> bytes) option" where
  "dec_u16 bs = (if length bs < 2 then None else Some (Uint16 bs, drop 2 bs))"

definition dec_val :: "bytes \<Rightarrow> (string option \<times> bytes) option" where
  "dec_val bs =
     (if length bs < 4 then None
      else let n = Uint32 bs; rest = drop 4 bs
           in if n = -1 then Some (None, rest)
              else if length rest < unat n then None
              else Some (Some (take (unat n) rest), drop (unat n) rest))"

fun dec_many :: "(bytes \<Rightarrow> ('a \<times> bytes) option) \<Rightarrow> nat \<Rightarrow> bytes \<Rightarrow> ('a list \<times> bytes) option" where
  "dec_many d 0 bs = Some ([], bs)"
| "dec_many d (Suc n) bs =
     (case d bs of None \<Rightarrow> None
      | Some (x, bs') \<Rightarrow> (case dec_many d n bs' of None \<Rightarrow> None
                         | Some (xs, bs'') \<Rightarrow> Some (x # xs, bs'')))"

definition dec_counted :: "(bytes \<Rightarrow> ('a \<times> bytes) option) \<Rightarrow> bytes \<Rightarrow> ('a list \<times> bytes) option" where
  "dec_counted d bs = (case dec_u16 bs of None \<Rightarrow> None | Some (n, bs') \<Rightarrow> dec_many d (unat n) bs')"

record bind_msg =
  bm_portal :: string
  bm_stmt :: string
  bm_formats :: "16 word list"
  bm_values :: "string option list"
  bm_results :: "16 word list"

definition decodeBind :: "bytes \<Rightarrow> bind_msg option" where
  "decodeBind bs =
     (case dec_cstring bs of None \<Rightarrow> None | Some (p, b1) \<Rightarrow>
      (case dec_cstring b1 of None \<Rightarrow> None | Some (st, b2) \<Rightarrow>
       (case dec_counted dec_u16 b2 of None \<Rightarrow> None | Some (fs, b3) \<Rightarrow>
        (case dec_counted dec_val b3 of None \<Rightarrow> None | Some (vs, b4) \<Rightarrow>
         (case dec_counted dec_u16 b4 of None \<Rightarrow> None | Some (rs, b5) \<Rightarrow>
            if b5 = [] then Some \<lparr>bm_portal = p, bm_stmt = st, bm_formats = fs, bm_values = vs, bm_results = rs\<rparr>
            else None)))))"

section \<open>The contract of renaming\<close>

text \<open>
  Reading and replacing the statement name of a message body: on well-formed bodies the three
  pairs of functions are a very well-behaved lens. The query layer relies on these laws when
  it substitutes \<open>pfx_<hash>\<close> for the client's name.
\<close>

locale name_lens =
  fixes wf :: "bytes \<Rightarrow> bool"
    and getn :: "bytes \<Rightarrow> string"
    and setn :: "bytes \<Rightarrow> string \<Rightarrow> bytes"
  assumes get_set: "wf b \<Longrightarrow> NUL \<notin> set n \<Longrightarrow> getn (setn b n) = n"
    and set_get: "wf b \<Longrightarrow> setn b (getn b) = b"
    and set_set: "wf b \<Longrightarrow> NUL \<notin> set n \<Longrightarrow> setn (setn b n) m = setn b m"
    and wf_set: "wf b \<Longrightarrow> NUL \<notin> set n \<Longrightarrow> wf (setn b n)"
    and get_nul_free: "wf b \<Longrightarrow> NUL \<notin> set (getn b)"
begin

lemma restore: "wf b \<Longrightarrow> NUL \<notin> set n \<Longrightarrow> setn (setn b n) (getn b) = b"
  by (simp add: set_set set_get)

lemma set_inject:
  "wf b \<Longrightarrow> NUL \<notin> set n \<Longrightarrow> NUL \<notin> set m \<Longrightarrow> setn b n = setn b m \<longleftrightarrow> n = m"
  using get_set by metis

lemma rename_roundtrip:
  assumes "wf b" "NUL \<notin> set n"
  shows "wf (setn b n) \<and> getn (setn b n) = n \<and> setn (setn b n) (getn b) = b"
  using assms by (simp add: wf_set get_set restore)

end

subsection \<open>Lemmas about names\<close>

lemma find_nul_drop: "find_nul bs = Some i \<Longrightarrow> take i bs @ NUL # drop (Suc i) bs = bs"
  by (erule find_nul_SomeE) simp

lemma find_nul_take: "find_nul bs = Some i \<Longrightarrow> NUL \<notin> set (take i bs)"
  by (erule find_nul_SomeE) simp

lemma find_nul_less: "find_nul bs = Some i \<Longrightarrow> i < length bs"
  by (erule find_nul_SomeE) simp

definition wf_parse :: "bytes \<Rightarrow> bool" where
  "wf_parse body = (find_nul body \<noteq> None)"

definition wf_bind :: "bytes \<Rightarrow> bool" where
  "wf_bind body = (case find_nul body of None \<Rightarrow> False | Some i \<Rightarrow> find_nul (drop (i + 1) body) \<noteq> None)"

definition wf_describe :: "bytes \<Rightarrow> bool" where
  "wf_describe body = (2 \<le> length body \<and> find_nul (tl body) = Some (length body - 2))"

lemma wf_parseE:
  assumes "wf_parse b"
  obtains n r where "b = n @ NUL # r" "NUL \<notin> set n"
  using assms by (auto simp: wf_parse_def dest!: split_list_first)

lemma wf_bindE:
  assumes "wf_bind b"
  obtains p n r where "b = p @ NUL # n @ NUL # r" "NUL \<notin> set p" "NUL \<notin> set n"
  using assms
  by (auto simp: wf_bind_def split: option.splits elim!: find_nul_SomeE) (metis split_list_first)

lemma wf_describeE:
  assumes "wf_describe b"
  obtains t n where "b = t # n @ [NUL]" "NUL \<notin> set n"
proof -
  from assms obtain t bs where b: "b = t # bs" and f: "find_nul bs = Some (length bs - 1)"
    by (cases b) (auto simp: wf_describe_def)
  from find_nul_drop [OF f] find_nul_less [OF f] have "bs = take (length bs - 1) bs @ [NUL]"
    by simp
  with b find_nul_take [OF f] show thesis by (metis that)
qed

lemma parse_name_eqs [simp]:
  assumes "NUL \<notin> set n"
  shows "ParseBodyStatementName (n @ NUL # r) = n"
    and "RewriteParseBodyName (n @ NUL # r) m = m @ NUL # r"
    and "wf_parse (n @ NUL # r)"
  using assms by (simp_all add: ParseBodyStatementName_def RewriteParseBodyName_def wf_parse_def)

lemma bind_name_eqs [simp]:
  assumes "NUL \<notin> set p" "NUL \<notin> set n"
  shows "BindBodyStatementName (p @ NUL # n @ NUL # r) = n"
    and "RewriteBindBodyName (p @ NUL # n @ NUL # r) m = p @ NUL # m @ NUL # r"
    and "wf_bind (p @ NUL # n @ NUL # r)"
  using assms by (simp_all add: BindBodyStatementName_def RewriteBindBodyName_def wf_bind_def Let_def)

lemma describe_name_eqs [simp]:
  assumes "NUL \<notin> set n"
  shows "DescribeBodyTarget (t # n @ [NUL]) = (t, n)"
    and "RewriteDescribeBodyName (t # n @ [NUL]) m = t # m @ [NUL]"
    and "wf_describe (t # n @ [NUL])"
  using assms
  by (simp_all add: DescribeBodyTarget_def CloseBodyTarget_def RewriteDescribeBodyName_def wf_describe_def)

interpretation parse_name: name_lens wf_parse ParseBodyStatementName RewriteParseBodyName
  by unfold_locales (auto elim!: wf_parseE)

interpretation bind_name: name_lens wf_bind BindBodyStatementName RewriteBindBodyName
  by unfold_locales (auto elim!: wf_bindE)

interpretation describe_name: name_lens wf_describe "\<lambda>b. snd (DescribeBodyTarget b)" RewriteDescribeBodyName
  by unfold_locales (auto elim!: wf_describeE)

section \<open>Decoding what was built: lemmas\<close>

lemma Uint16_PutUint16 [simp, wire_simps]: "Uint16 (PutUint16 w @ r) = w"
proof -
  have "bit (Uint16 (PutUint16 w @ r)) n \<longleftrightarrow> bit w n" if "n < 16" for n
    using that by (cases "n < 8") (auto simp: PutUint16_def word_of_byte_of bit_simps)
  then show ?thesis by (auto intro: bit_word_eqI)
qed

lemma dec_cstring_append [simp, wire_simps]:
  "NUL \<notin> set s \<Longrightarrow> dec_cstring (s @ NUL # r) = Some (s, r)"
  by (simp add: dec_cstring_def)

lemma dec_u16_append [simp, wire_simps]: "dec_u16 (PutUint16 w @ r) = Some (w, r)"
  by (simp add: dec_u16_def)

lemma dec_val_append [wire_simps]:
  assumes "length v < 2 ^ 31"
  shows "dec_val (PutUint32 (of_nat (length v)) @ v @ r) = Some (Some v, r)"
proof -
  have u: "unat (of_nat (length v) :: 32 word) = length v"
    using assms by (simp add: unat_of_nat)
  have "unat (-1 :: 32 word) = 2 ^ 32 - 1"
    by (simp add: unsigned_minus_1_eq_mask mask_eq_exp_minus_1)
  then have "(of_nat (length v) :: 32 word) \<noteq> -1" using u assms by auto
  then show ?thesis using u by (simp add: dec_val_def Let_def)
qed

lemma dec_many_append:
  assumes "\<And>x r. x \<in> set xs \<Longrightarrow> d (enc x @ r) = Some (f x, r)"
  shows "dec_many d (length xs) (concat (map enc xs) @ r) = Some (map f xs, r)"
  using assms by (induction xs) simp_all

lemma dec_counted_append:
  assumes "length xs < 2 ^ 16" and "\<And>x r. x \<in> set xs \<Longrightarrow> d (enc x @ r) = Some (f x, r)"
  shows "dec_counted d (PutUint16 (of_nat (length xs)) @ concat (map enc xs) @ r) = Some (map f xs, r)"
  using dec_many_append [of xs d enc f, OF assms(2)] assms(1)
  by (simp add: dec_counted_def unat_of_nat)

lemma foldl_append_concat: "foldl (\<lambda>b x. b @ g x) buf xs = buf @ concat (map g xs)"
  by (induction xs arbitrary: buf) auto

lemma BuildBindBody_layout:
  "BuildBindBody portal stmt fmts vals rfmts =
     portal @ NUL # stmt @ NUL # PutUint16 (of_nat (length fmts)) @ concat (map PutUint16 fmts) @
     PutUint16 (of_nat (length vals)) @ concat (map (\<lambda>v. PutUint32 (of_nat (length v)) @ v) vals) @
     PutUint16 (of_nat (length rfmts)) @ concat (map PutUint16 rfmts)"
  by (simp add: BuildBindBody_def Let_def appendInt16_def [abs_def] appendInt32_def [abs_def]
      foldl_append_concat)

section \<open>Properties\<close>

text \<open>C31: Renaming the statement of a Parse, Bind or Describe/Close body is exact: the renamed
  body carries the new name, nothing else of the body changes (renaming back gives the original
  bytes), and a Parse keeps its query text.\<close>

theorem rename_statement:
  assumes "NUL \<notin> set newName"
  shows "(wf_parse b \<longrightarrow>
           ParseBodyStatementName (RewriteParseBodyName b newName) = newName \<and>
           ParseBodyQuery (RewriteParseBodyName b newName) = ParseBodyQuery b \<and>
           RewriteParseBodyName (RewriteParseBodyName b newName) (ParseBodyStatementName b) = b) \<and>
         (wf_bind b \<longrightarrow>
           BindBodyStatementName (RewriteBindBodyName b newName) = newName \<and>
           RewriteBindBodyName (RewriteBindBodyName b newName) (BindBodyStatementName b) = b) \<and>
         (wf_describe b \<longrightarrow>
           DescribeBodyTarget (RewriteDescribeBodyName b newName) = (hd b, newName) \<and>
           RewriteDescribeBodyName (RewriteDescribeBodyName b newName) (snd (DescribeBodyTarget b)) = b)"
proof (intro conjI impI)
  assume w: "wf_parse b"
  show "ParseBodyQuery (RewriteParseBodyName b newName) = ParseBodyQuery b"
    using w assms by (auto elim!: wf_parseE simp: ParseBodyQuery_def)
next
  assume "wf_describe b"
  then show "DescribeBodyTarget (RewriteDescribeBodyName b newName) = (hd b, newName)"
    using assms by (auto elim!: wf_describeE)
qed (use assms in \<open>simp_all add: parse_name.rename_roundtrip bind_name.rename_roundtrip
    describe_name.rename_roundtrip parse_name.get_set bind_name.get_set\<close>)

theorem rename_statement_witness:
  "NUL \<notin> set ''pfx_0a1b'' \<and> wf_parse (''s1'' @ NUL # ''SELECT 1'' @ [NUL, NUL, NUL]) \<and>
   ParseBodyStatementName (RewriteParseBodyName (''s1'' @ NUL # ''SELECT 1'' @ [NUL, NUL, NUL]) ''pfx_0a1b'') =
     ''pfx_0a1b''"
proof -
  have n: "NUL \<notin> set ''pfx_0a1b''" by simp
  have w: "wf_parse (''s1'' @ NUL # ''SELECT 1'' @ [NUL, NUL, NUL])" by (simp add: wf_parse_def)
  show ?thesis
    using n w rename_statement [OF n, of "''s1'' @ NUL # ''SELECT 1'' @ [NUL, NUL, NUL]"] by blast
qed

text \<open>C32: The Bind message pgfox builds for a cached statement means what was asked for: the
  reference decoder reads back the portal, the statement name, every parameter value (none of
  them NULL), and the format codes, up to the protocol's 16-bit counts and 31-bit lengths.\<close>

theorem bind_body_decodes:
  assumes "NUL \<notin> set portal" "NUL \<notin> set stmt"
    and "length fmts < 2 ^ 16" "length vals < 2 ^ 16" "length rfmts < 2 ^ 16"
    and "\<forall>v \<in> set vals. length v < 2 ^ 31"
  shows "decodeBind (BuildBindBody portal stmt fmts vals rfmts) =
    Some \<lparr>bm_portal = portal, bm_stmt = stmt, bm_formats = fmts, bm_values = map Some vals,
          bm_results = rfmts\<rparr>"
proof -
  have f: "dec_counted dec_u16 (PutUint16 (of_nat (length xs)) @ concat (map PutUint16 xs) @ r) = Some (xs, r)"
    if "length xs < 2 ^ 16" for xs r
    using dec_counted_append [of xs dec_u16 PutUint16 "\<lambda>x. x" r] that by simp
  have v: "dec_counted dec_val (PutUint16 (of_nat (length vals)) @
      concat (map (\<lambda>v. PutUint32 (of_nat (length v)) @ v) vals) @ r) = Some (map Some vals, r)" for r
    using dec_counted_append [of vals dec_val "\<lambda>v. PutUint32 (of_nat (length v)) @ v" Some r]
      assms(4,6) by (simp add: dec_val_append)
  show ?thesis
    using assms f [OF assms(3)] v f [OF assms(5), of "[]"]
    by (simp add: BuildBindBody_layout decodeBind_def)
qed

theorem bind_body_decodes_witness:
  "decodeBind (BuildBindBody [] ''pfx_0a1b'' [] [''42'', ''o''] []) =
    Some \<lparr>bm_portal = [], bm_stmt = ''pfx_0a1b'', bm_formats = [], bm_values = map Some [''42'', ''o''],
          bm_results = []\<rparr>"
  by (rule bind_body_decodes) simp_all

end
