(* ===== verification/Pgfox_BufPool.thy ===== *)
theory Pgfox_BufPool
  imports Pgfox_Prelude
begin

text \<open>
  \<open>src/pkg/pgfox/sync.go\<close> and the buffer handling of \<open>Backend.ReadMessage\<close> and
  \<open>PutMsgBody\<close>: pooled byte slices for message bodies and pooled slices for pipelines. Of a
  slice only length and capacity matter here. A \<open>sync.Pool\<close> is the list of the items that
  were put back; \<open>Get\<close> may return any of them or call \<open>New\<close> (the runtime is free to drop
  items), so it takes that choice as an argument. Re-slicing \<open>s[:n]\<close> beyond the capacity
  panics, which is \<open>None\<close>.
\<close>

record slice =
  slen :: nat
  scap :: nat

definition msgBodySmallCap :: nat where "msgBodySmallCap = 4 * 1024"
definition msgBodyLargeCap :: nat where "msgBodyLargeCap = 64 * 1024"
definition msgBodyPoolMax :: nat where "msgBodyPoolMax = msgBodyLargeCap"
definition pipelineInitCap :: nat where "pipelineInitCap = 16"

record bufpools =
  msgBodySmallPool :: "slice list"
  msgBodyLargePool :: "slice list"

text \<open>\<open>sync.Pool.Get\<close>: \<open>Some i\<close> picks the \<open>i\<close>-th pooled item, \<open>None\<close> (or a pick
  that does not exist) calls \<open>New\<close>.\<close>

definition pool_get :: "slice \<Rightarrow> nat option \<Rightarrow> slice list \<Rightarrow> slice \<times> slice list" where
  "pool_get new pick xs =
     (case pick of
        Some i \<Rightarrow> if i < length xs then (xs ! i, take i xs @ drop (Suc i) xs) else (new, xs)
      | None \<Rightarrow> (new, xs))"

definition getMsgBody :: "nat \<Rightarrow> nat option \<Rightarrow> bufpools \<Rightarrow> slice \<times> bufpools" where
  "getMsgBody need pick bp =
     (if need \<le> msgBodySmallCap
      then (let (s, xs) = pool_get \<lparr>slen = 0, scap = msgBodySmallCap\<rparr> pick (msgBodySmallPool bp)
            in (s, bp\<lparr>msgBodySmallPool := xs\<rparr>))
      else (let (s, xs) = pool_get \<lparr>slen = 0, scap = msgBodyLargeCap\<rparr> pick (msgBodyLargePool bp)
            in (s, bp\<lparr>msgBodyLargePool := xs\<rparr>)))"

definition putMsgBody :: "slice \<Rightarrow> bufpools \<Rightarrow> bufpools" where
  "putMsgBody b bp =
     (if scap b > msgBodyPoolMax then bp
      else let p = b\<lparr>slen := 0\<rparr>
           in if scap b \<le> msgBodySmallCap then bp\<lparr>msgBodySmallPool := p # msgBodySmallPool bp\<rparr>
              else bp\<lparr>msgBodyLargePool := p # msgBodyLargePool bp\<rparr>)"

definition PutMsgBody :: "slice \<Rightarrow> bufpools \<Rightarrow> bufpools" where
  "PutMsgBody body bp =
     (if scap body = 0 \<or> scap body > msgBodyPoolMax then bp else putMsgBody body bp)"

definition reslice :: "slice \<Rightarrow> nat \<Rightarrow> slice option" where
  "reslice s n = (if n \<le> scap s then Some (s\<lparr>slen := n\<rparr>) else None)"

text \<open>The body buffer \<open>Backend.ReadMessage\<close> allocates for \<open>bodyLength\<close> bytes.\<close>

definition readBodyBuf :: "nat \<Rightarrow> nat option \<Rightarrow> bufpools \<Rightarrow> (slice \<times> bufpools) option" where
  "readBodyBuf bodyLength pick bp =
     (if bodyLength = 0 then Some (\<lparr>slen = 0, scap = 0\<rparr>, bp)
      else if bodyLength > msgBodyPoolMax then Some (\<lparr>slen = bodyLength, scap = bodyLength\<rparr>, bp)
      else let (s, bp') = getMsgBody bodyLength pick bp
           in case reslice s bodyLength of None \<Rightarrow> None | Some s' \<Rightarrow> Some (s', bp'))"

text \<open>The pipeline pool.\<close>

definition getPipeline :: "nat option \<Rightarrow> slice list \<Rightarrow> slice \<times> slice list" where
  "getPipeline pick pool = pool_get \<lparr>slen = 0, scap = pipelineInitCap\<rparr> pick pool"

definition putPipeline :: "slice \<Rightarrow> slice list \<Rightarrow> slice list" where
  "putPipeline p pool = p\<lparr>slen := 0\<rparr> # pool"

text \<open>\<open>*rp = ( *rp)[:len(pipeline)]\<close> at the start of \<open>executeExtendedPipeline\<close>: the slice
  for the rewritten pipeline comes from the pool as it is.\<close>

definition rewrittenSlice :: "nat \<Rightarrow> nat option \<Rightarrow> slice list \<Rightarrow> (slice \<times> slice list) option" where
  "rewrittenSlice n pick pool =
     (let (rp, pool') = getPipeline pick pool
      in case reslice rp n of None \<Rightarrow> None | Some s \<Rightarrow> Some (s, pool'))"

section \<open>The pools hold only full-size buffers\<close>

definition bufpools_ok :: "bufpools \<Rightarrow> bool" where
  "bufpools_ok bp \<longleftrightarrow>
     list_all (\<lambda>s. scap s = msgBodySmallCap) (msgBodySmallPool bp) \<and>
     list_all (\<lambda>s. scap s = msgBodyLargeCap) (msgBodyLargePool bp)"

text \<open>The buffers \<open>ReadMessage\<close> hands out: nothing, a full-size pooled buffer, or an
  oversized one that will never be pooled.\<close>

definition body_cap_ok :: "slice \<Rightarrow> bool" where
  "body_cap_ok s \<longleftrightarrow> scap s = 0 \<or> scap s = msgBodySmallCap \<or> scap s = msgBodyLargeCap \<or> scap s > msgBodyPoolMax"

lemmas bufpool_caps = msgBodySmallCap_def msgBodyLargeCap_def msgBodyPoolMax_def

lemma pool_get_all:
  assumes "pool_get new pick xs = (s, xs')" and "P new" and "list_all P xs"
  shows "P s \<and> list_all P xs'"
proof (cases "\<exists>i. pick = Some i \<and> i < length xs")
  case True
  with assms(1) obtain i where "i < length xs" "s = xs ! i" "xs' = take i xs @ drop (Suc i) xs"
    by (auto simp: pool_get_def)
  with assms(3) show ?thesis by (simp only: list_all_remove_nth) (simp add: list_all_length)
next
  case False
  with assms show ?thesis by (auto simp: pool_get_def split: option.splits)
qed

lemma getMsgBody_ok:
  assumes "getMsgBody need pick bp = (s, bp')" and "bufpools_ok bp" and "need \<le> msgBodyPoolMax"
  shows "bufpools_ok bp' \<and> need \<le> scap s \<and> body_cap_ok s"
proof (cases "need \<le> msgBodySmallCap")
  case True
  with assms(1) obtain xs where
    g: "pool_get \<lparr>slen = 0, scap = msgBodySmallCap\<rparr> pick (msgBodySmallPool bp) = (s, xs)"
    and bp': "bp' = bp\<lparr>msgBodySmallPool := xs\<rparr>"
    by (auto simp: getMsgBody_def split: prod.splits)
  have "scap s = msgBodySmallCap \<and> list_all (\<lambda>s. scap s = msgBodySmallCap) xs"
    by (rule pool_get_all [OF g]) (use assms(2) in \<open>auto simp: bufpools_ok_def\<close>)
  with True bp' assms(2) show ?thesis by (simp add: bufpools_ok_def body_cap_ok_def)
next
  case False
  with assms(1) obtain xs where
    g: "pool_get \<lparr>slen = 0, scap = msgBodyLargeCap\<rparr> pick (msgBodyLargePool bp) = (s, xs)"
    and bp': "bp' = bp\<lparr>msgBodyLargePool := xs\<rparr>"
    by (auto simp: getMsgBody_def split: prod.splits)
  have "scap s = msgBodyLargeCap \<and> list_all (\<lambda>s. scap s = msgBodyLargeCap) xs"
    by (rule pool_get_all [OF g]) (use assms(2) in \<open>auto simp: bufpools_ok_def\<close>)
  with bp' assms(2,3) show ?thesis by (simp add: bufpools_ok_def body_cap_ok_def msgBodyPoolMax_def)
qed

lemma PutMsgBody_ok: "bufpools_ok bp \<Longrightarrow> body_cap_ok s \<Longrightarrow> bufpools_ok (PutMsgBody s bp)"
  by (auto simp: PutMsgBody_def putMsgBody_def bufpools_ok_def body_cap_ok_def bufpool_caps Let_def)

text \<open>Any interleaving of reads and returns, by any number of goroutines: each step reads a
  body of some length or returns a buffer that is still out.\<close>

record bufsys =
  bs_pools :: bufpools
  bs_out :: "slice list"

datatype bufop = ReadBody nat "nat option" | ReturnBody nat

fun bufstep :: "bufop \<Rightarrow> bufsys \<Rightarrow> bufsys option" where
  "bufstep (ReadBody n pick) s =
     (case readBodyBuf n pick (bs_pools s) of
        None \<Rightarrow> None
      | Some (b, bp) \<Rightarrow> Some (s\<lparr>bs_pools := bp, bs_out := b # bs_out s\<rparr>))"
| "bufstep (ReturnBody i) s =
     (if i < length (bs_out s)
      then Some (s\<lparr>bs_pools := PutMsgBody (bs_out s ! i) (bs_pools s),
                   bs_out := take i (bs_out s) @ drop (Suc i) (bs_out s)\<rparr>)
      else Some s)"

fun bufrun :: "bufop list \<Rightarrow> bufsys \<Rightarrow> bufsys option" where
  "bufrun [] s = Some s"
| "bufrun (op # ops) s = (case bufstep op s of None \<Rightarrow> None | Some s' \<Rightarrow> bufrun ops s')"

definition bufsys_init :: bufsys where
  "bufsys_init = \<lparr>bs_pools = \<lparr>msgBodySmallPool = [], msgBodyLargePool = []\<rparr>, bs_out = []\<rparr>"

definition bufsys_ok :: "bufsys \<Rightarrow> bool" where
  "bufsys_ok s \<longleftrightarrow> bufpools_ok (bs_pools s) \<and> list_all body_cap_ok (bs_out s)"

lemma readBodyBuf_ok:
  assumes "bufpools_ok bp"
  shows "\<exists>b bp'. readBodyBuf n pick bp = Some (b, bp') \<and> bufpools_ok bp' \<and> body_cap_ok b \<and> slen b = n"
proof -
  obtain s bp' where g: "getMsgBody n pick bp = (s, bp')" by fastforce
  have "n \<le> msgBodyPoolMax \<Longrightarrow> bufpools_ok bp' \<and> n \<le> scap s \<and> body_cap_ok s"
    using getMsgBody_ok [OF g assms] .
  with g assms show ?thesis
    by (auto simp: readBodyBuf_def reslice_def body_cap_ok_def Let_def)
qed

lemma bufstep_ok:
  assumes "bufsys_ok s"
  shows "\<exists>s'. bufstep op s = Some s' \<and> bufsys_ok s'"
proof (cases op)
  case (ReadBody n pick)
  with assms readBodyBuf_ok [of "bs_pools s" n pick] show ?thesis
    by (auto simp: bufsys_ok_def)
next
  case (ReturnBody i)
  have "body_cap_ok (bs_out s ! i)" if "i < length (bs_out s)"
    using that assms by (simp add: bufsys_ok_def list_all_length)
  with ReturnBody assms list_all_remove_nth [of body_cap_ok "bs_out s" i "Suc i"] show ?thesis
    by (simp add: bufsys_ok_def PutMsgBody_ok)
qed

section \<open>Properties\<close>

text \<open>Reading message bodies through the buffer pools never panics: whatever the order in
  which bodies are read and returned and whatever items the runtime chooses to hand out, every
  re-slice of a pooled buffer stays within its capacity, and the pools only ever hold buffers of
  exactly their size class.\<close>

theorem bufpool_never_panics:
  "\<exists>s. bufrun ops bufsys_init = Some s \<and> bufpools_ok (bs_pools s)"
proof -
  have "bufsys_ok s \<Longrightarrow> \<exists>s'. bufrun ops s = Some s' \<and> bufsys_ok s'" for s
  proof (induction ops arbitrary: s)
    case (Cons op ops)
    with bufstep_ok [of s op] show ?case by auto
  qed simp
  moreover have "bufsys_ok bufsys_init" by (simp add: bufsys_ok_def bufsys_init_def bufpools_ok_def)
  ultimately show ?thesis by (auto simp: bufsys_ok_def)
qed

text \<open>The pipeline pool has no such guarantee: with a fresh pool, re-slicing the buffer for
  the rewritten pipeline succeeds exactly for pipelines of at most sixteen messages. A client that
  sends seventeen messages before its Sync makes \<open>executeExtendedPipeline\<close> panic.\<close>

theorem fresh_pipeline_slice: "rewrittenSlice n pick [] \<noteq> None \<longleftrightarrow> n \<le> pipelineInitCap"
  by (auto simp: rewrittenSlice_def getPipeline_def pool_get_def reslice_def split: option.splits)

end
