(* ===== verification/Pgfox_Lexer.thy ===== *)
theory Pgfox_Lexer
  imports Pgfox_Prelude
begin

text \<open>
  The SQL text rewriter of \<open>src/pkg/pgfox/parser.go\<close>: the token readers,
  \<open>findNextLiteral\<close> and \<open>rewriteLiteralsWS\<close>. The Go code works on \<open>src []byte\<close> and a
  position; here a reader gets the suffix \<open>src[pos:]\<close> and returns the value it read and the
  number of bytes it used (\<open>end - pos\<close>), so offsets stay those of the source. The one slice
  expression that can panic (in \<open>readBitString\<close>) is an explicit result.
\<close>

section \<open>Literals and character classes\<close>

datatype litKind = litString | litInt | litFloat | litBitStr

record literalValue =
  lkind :: litKind
  lvalue :: string

definition isWS :: "byte \<Rightarrow> bool" where
  "isWS ch = (ch = CHR '' '' \<or> ch = CHR 0x09 \<or> ch = CHR 0x0A \<or> ch = CHR 0x0D)"

definition isDigit :: "byte \<Rightarrow> bool" where
  "isDigit ch = (48 \<le> (of_char ch :: nat) \<and> (of_char ch :: nat) \<le> 57)"

definition isAlpha :: "byte \<Rightarrow> bool" where
  "isAlpha ch = ((97 \<le> (of_char ch :: nat) \<and> (of_char ch :: nat) \<le> 122) \<or>
                 (65 \<le> (of_char ch :: nat) \<and> (of_char ch :: nat) \<le> 90) \<or> ch = CHR ''_'')"

abbreviation QUOTE :: byte where "QUOTE \<equiv> CHR 0x27"
abbreviation DQUOTE :: byte where "DQUOTE \<equiv> CHR 0x22"
abbreviation BACKSLASH :: byte where "BACKSLASH \<equiv> CHR 0x5C"

section \<open>Token readers\<close>

text \<open>The loop of \<open>readSingleQuotedString\<close>, after the opening quote.\<close>

fun sq_loop :: "bytes \<Rightarrow> string \<times> nat" where
  "sq_loop [] = ([], 0)"
| "sq_loop [c] = (if c = QUOTE then ([], 1) else ([c], 1))"
| "sq_loop (c # d # t) =
     (if c = QUOTE then
        (if d = QUOTE then (let (v, n) = sq_loop t in (QUOTE # v, n + 2)) else ([], 1))
      else (let (v, n) = sq_loop (d # t) in (c # v, n + 1)))"

definition readSingleQuotedString :: "bytes \<Rightarrow> string \<times> nat" where
  "readSingleQuotedString s = (let (v, n) = sq_loop (tl s) in (v, n + 1))"

definition e_escape :: "byte \<Rightarrow> byte" where
  "e_escape c = (if c = CHR ''n'' then CHR 0x0A else if c = CHR ''t'' then CHR 0x09
                 else if c = CHR ''r'' then CHR 0x0D else c)"

text \<open>The loop of \<open>readEString\<close>, after \<open>E'\<close>.\<close>

fun es_loop :: "bytes \<Rightarrow> string \<times> nat" where
  "es_loop [] = ([], 0)"
| "es_loop [c] = (if c = QUOTE then ([], 1) else ([c], 1))"
| "es_loop (c # d # t) =
     (if c = BACKSLASH then (let (v, n) = es_loop t in (e_escape d # v, n + 2))
      else if c = QUOTE then
        (if d = QUOTE then (let (v, n) = es_loop t in (QUOTE # v, n + 2)) else ([], 1))
      else (let (v, n) = es_loop (d # t) in (c # v, n + 1)))"

definition readEString :: "bytes \<Rightarrow> string \<times> nat" where
  "readEString s = (let (v, n) = es_loop (drop 2 s) in (v, n + 2))"

definition readDollarQuoted :: "bytes \<Rightarrow> string \<times> nat" where
  "readDollarQuoted s =
     (let name = takeWhile (\<lambda>c. isAlpha c \<or> isDigit c \<or> c = CHR ''_'') (tl s);
          i = 1 + length name
      in if i \<ge> length s \<or> s ! i \<noteq> CHR ''$'' then ([], 1)
         else let tag = take (i + 1) s; body = i + 1
              in case str_index (drop body s) tag of
                   None \<Rightarrow> (drop body s, length s)
                 | Some idx \<Rightarrow> (take idx (drop body s), body + idx + length tag))"

text \<open>\<open>readBitString\<close>: \<open>None\<close> is the panic of \<open>src[start:i-1]\<close> when nothing follows
  the opening quote.\<close>

definition readBitString :: "bytes \<Rightarrow> (string \<times> nat) option" where
  "readBitString s =
     (let run = takeWhile (\<lambda>c. c \<noteq> QUOTE) (drop 2 s); i = 2 + length run
      in if i < length s then Some (take 1 s @ run, i + 1)
         else if run = [] then None
         else Some (take 1 s @ butlast run, i))"

definition digits :: "bytes \<Rightarrow> nat" where
  "digits s = length (takeWhile isDigit s)"

text \<open>The optional fraction and the optional exponent of \<open>readNumber\<close>.\<close>

definition fracEnd :: "bytes \<Rightarrow> nat \<Rightarrow> nat" where
  "fracEnd s i = (if i < length s \<and> s ! i = CHR ''.'' then i + 1 + digits (drop (i + 1) s) else i)"

definition expEnd :: "bytes \<Rightarrow> nat \<Rightarrow> nat" where
  "expEnd s i =
     (if i < length s \<and> (s ! i = CHR ''e'' \<or> s ! i = CHR ''E'')
      then (let j = i + 1;
                j = (if j < length s \<and> (s ! j = CHR ''+'' \<or> s ! j = CHR ''-'') then j + 1 else j)
            in j + digits (drop j s))
      else i)"

definition readNumber :: "bytes \<Rightarrow> string \<times> nat" where
  "readNumber s = (let i = digits s; i = fracEnd s i; i = expEnd s i in (take i s, i))"

section \<open>findNextLiteral\<close>

text \<open>One iteration of the loop on the suffix \<open>src[i:]\<close>: a match of the given token length,
  a number of bytes to skip, or a panic.\<close>

datatype scan = Match nat | Skip nat | SPanic

definition quote_at :: "bytes \<Rightarrow> bool" where
  "quote_at s = (1 < length s \<and> s ! 1 = QUOTE)"

definition lineComment :: "bytes \<Rightarrow> nat" where
  "lineComment s = length (takeWhile (\<lambda>c. c \<noteq> CHR 0x0A) s)"

definition blockComment :: "bytes \<Rightarrow> nat" where
  "blockComment s =
     (case str_index (drop 2 s) [CHR ''*'', CHR ''/''] of None \<Rightarrow> length s | Some k \<Rightarrow> 2 + k + 2)"

definition quotedIdent :: "bytes \<Rightarrow> nat" where
  "quotedIdent s = (let k = 1 + length (takeWhile (\<lambda>c. c \<noteq> DQUOTE) (tl s))
                    in if k < length s then k + 1 else k)"

definition skip_other :: "bytes \<Rightarrow> scan" where
  "skip_other s =
     (let c = hd s
      in if c = QUOTE then Skip (snd (readSingleQuotedString s))
         else if (c = CHR ''E'' \<or> c = CHR ''e'') \<and> quote_at s then Skip (snd (readEString s))
         else if c = CHR ''$'' then Skip (snd (readDollarQuoted s))
         else if (c = CHR ''B'' \<or> c = CHR ''b'' \<or> c = CHR ''X'' \<or> c = CHR ''x'') \<and> quote_at s
           then (case readBitString s of None \<Rightarrow> SPanic | Some (_, n) \<Rightarrow> Skip n)
         else Skip 1)"

definition try_match :: "literalValue \<Rightarrow> bytes \<Rightarrow> scan" where
  "try_match lit s =
     (let c = hd s
      in case lkind lit of
           litString \<Rightarrow>
             if c = QUOTE then
               (let (raw, n) = readSingleQuotedString s in if raw = lvalue lit then Match n else Skip n)
             else if (c = CHR ''E'' \<or> c = CHR ''e'') \<and> quote_at s then
               (let (raw, n) = readEString s in if raw = lvalue lit then Match n else Skip n)
             else if c = CHR ''$'' then Skip (snd (readDollarQuoted s))
             else skip_other s
         | litInt \<Rightarrow>
             if isDigit c then
               (let (num, n) = readNumber s
                in if CHR ''.'' \<notin> set num \<and> CHR ''e'' \<notin> set num \<and> CHR ''E'' \<notin> set num \<and> num = lvalue lit
                   then Match n else Skip n)
             else skip_other s
         | litFloat \<Rightarrow>
             if isDigit c \<or> (c = CHR ''.'' \<and> 1 < length s \<and> isDigit (s ! 1)) then
               (let (num, n) = readNumber s in if num = lvalue lit then Match n else Skip n)
             else skip_other s
         | litBitStr \<Rightarrow>
             if (c = CHR ''B'' \<or> c = CHR ''b'' \<or> c = CHR ''X'' \<or> c = CHR ''x'') \<and> quote_at s then
               (case readBitString s of
                  None \<Rightarrow> SPanic
                | Some (raw, n) \<Rightarrow> if raw = lvalue lit then Match n else Skip n)
             else skip_other s)"

definition scan_at :: "literalValue \<Rightarrow> bytes \<Rightarrow> scan" where
  "scan_at lit s =
     (if isWS (hd s) then Skip 1
      else if hd s = CHR ''-'' \<and> 1 < length s \<and> s ! 1 = CHR ''-'' then Skip (lineComment s)
      else if hd s = CHR ''/'' \<and> 1 < length s \<and> s ! 1 = CHR ''*'' then Skip (blockComment s)
      else if hd s = DQUOTE then Skip (quotedIdent s)
      else try_match lit s)"

section \<open>Every skip makes progress\<close>

lemma readNumber_pos:
  assumes "s \<noteq> []" "isDigit (hd s) \<or> (hd s = CHR ''.'' \<and> 1 < length s \<and> isDigit (s ! 1))"
  shows "0 < snd (readNumber s)"
  using assms
  by (cases s) (auto simp: readNumber_def digits_def fracEnd_def expEnd_def Let_def)

lemma skip_other_pos: "skip_other s = Skip k \<Longrightarrow> 0 < k"
  by (auto simp: skip_other_def Let_def readSingleQuotedString_def readEString_def readDollarQuoted_def
      readBitString_def case_prod_unfold split: if_splits option.splits)

lemma try_match_pos:
  assumes "try_match lit s = Skip k" and "s \<noteq> []"
  shows "0 < k"
  using assms readNumber_pos [OF assms(2)]
  by (auto simp: try_match_def Let_def readSingleQuotedString_def readEString_def readDollarQuoted_def
      readBitString_def case_prod_unfold skip_other_pos
      split: litKind.splits if_splits option.splits dest: skip_other_pos)

lemma scan_at_pos: "scan_at lit s = Skip k \<Longrightarrow> s \<noteq> [] \<Longrightarrow> 0 < k"
  by (cases s)
    (auto simp: scan_at_def lineComment_def blockComment_def quotedIdent_def Let_def
      split: if_splits option.splits dest: try_match_pos)

section \<open>The search loop and the rewriter\<close>

datatype found = FoundAt nat nat | NotFound | FPanic

function find_from :: "literalValue \<Rightarrow> nat \<Rightarrow> bytes \<Rightarrow> found" where
  "find_from lit i s =
     (if s = [] then NotFound
      else case scan_at lit s of
             Match n \<Rightarrow> FoundAt i (i + n)
           | SPanic \<Rightarrow> FPanic
           | Skip k \<Rightarrow> find_from lit (i + k) (drop k s))"
  by pat_completeness auto
termination
  by (relation "measure (\<lambda>(lit, i, s). length s)") (auto dest: scan_at_pos)

declare find_from.simps [simp del]

definition findNextLiteral :: "bytes \<Rightarrow> nat \<Rightarrow> literalValue \<Rightarrow> found" where
  "findNextLiteral src startPos lit = find_from lit startPos (drop startPos src)"

datatype rewrite = Rewritten string "string list" | LiteralNotFound | RPanic

text \<open>The loop of \<open>rewriteLiteralsWS\<close>; \<open>sb\<close> is the builder, \<open>vals\<close> the collected
  values.\<close>

fun rewrite_loop :: "bytes \<Rightarrow> nat \<Rightarrow> nat \<Rightarrow> string \<Rightarrow> string list \<Rightarrow> literalValue list \<Rightarrow> rewrite" where
  "rewrite_loop src pos paramIdx sb vals [] = Rewritten (sb @ drop pos src) vals"
| "rewrite_loop src pos paramIdx sb vals (lit # lits) =
     (case findNextLiteral src pos lit of
        NotFound \<Rightarrow> LiteralNotFound
      | FPanic \<Rightarrow> RPanic
      | FoundAt start end' \<Rightarrow>
          rewrite_loop src end' (paramIdx + 1)
            (sb @ take (start - pos) (drop pos src) @ CHR ''$'' # fmt_nat (paramIdx + 1))
            (vals @ [lvalue lit]) lits)"

definition rewriteLiteralsWS :: "string \<Rightarrow> literalValue list \<Rightarrow> rewrite" where
  "rewriteLiteralsWS sql litValues =
     (if litValues = [] then Rewritten sql [] else rewrite_loop sql 0 0 [] [] litValues)"

definition rewriteLiterals :: "string \<Rightarrow> literalValue list \<Rightarrow> rewrite" where
  "rewriteLiterals sql litValues = rewriteLiteralsWS sql litValues"

section \<open>What a matched token is\<close>

text \<open>\<open>denotes lit tok\<close>: the bytes \<open>tok\<close> are a literal of the kind of \<open>lit\<close> whose value, as
  the token reader of that kind decodes it, is \<open>lvalue lit\<close>.\<close>

definition denotes :: "literalValue \<Rightarrow> bytes \<Rightarrow> bool" where
  "denotes lit tok \<longleftrightarrow>
     (case lkind lit of
        litString \<Rightarrow>
          (\<exists>rest. (hd tok = QUOTE \<and> readSingleQuotedString (tok @ rest) = (lvalue lit, length tok)) \<or>
                  (hd tok \<in> {CHR ''E'', CHR ''e''} \<and> readEString (tok @ rest) = (lvalue lit, length tok)))
      | litInt \<Rightarrow> tok = lvalue lit \<and> tok \<noteq> [] \<and> list_all isDigit tok
      | litFloat \<Rightarrow> tok = lvalue lit \<and> tok \<noteq> []
      | litBitStr \<Rightarrow> (\<exists>rest. readBitString (tok @ rest) = Some (lvalue lit, length tok)))"

lemma sq_loop_le: "snd (sq_loop s) \<le> length s"
  by (induction s rule: sq_loop.induct) (auto simp: case_prod_unfold Let_def)

lemma es_loop_le: "snd (es_loop s) \<le> length s"
  by (induction s rule: es_loop.induct) (auto simp: case_prod_unfold Let_def)

lemma readSingleQuotedString_le: "s \<noteq> [] \<Longrightarrow> snd (readSingleQuotedString s) \<le> length s"
  using sq_loop_le [of "tl s"] by (cases s) (auto simp: readSingleQuotedString_def case_prod_unfold Let_def)

lemma readEString_le: "quote_at s \<Longrightarrow> snd (readEString s) \<le> length s"
  using es_loop_le [of "drop 2 s"] by (auto simp: readEString_def case_prod_unfold Let_def quote_at_def)

lemma readBitString_le: "quote_at s \<Longrightarrow> readBitString s = Some (v, n) \<Longrightarrow> n \<le> length s"
  using length_takeWhile_le [of "\<lambda>c. c \<noteq> QUOTE" "drop 2 s"]
  by (auto simp: readBitString_def Let_def quote_at_def split: if_splits)

lemma digits_le: "digits s \<le> length s"
  by (simp add: digits_def length_takeWhile_le)

lemma readNumber_eq: "readNumber s = (take n s, n)" if "n = snd (readNumber s)"
  using that by (simp add: readNumber_def Let_def)

lemma digits_drop_le: "i \<le> length s \<Longrightarrow> i + digits (drop i s) \<le> length s"
  using digits_le [of "drop i s"] by simp

lemma fracEnd_le: "i \<le> length s \<Longrightarrow> i \<le> fracEnd s i \<and> fracEnd s i \<le> length s"
  using digits_drop_le [of "i + 1" s] by (auto simp: fracEnd_def)

lemma expEnd_le: "i \<le> length s \<Longrightarrow> i \<le> expEnd s i \<and> expEnd s i \<le> length s"
  using digits_drop_le [of "i + 1" s] digits_drop_le [of "i + 2" s] by (auto simp: expEnd_def Let_def)

lemma fracEnd_more: "fracEnd s i \<noteq> i \<Longrightarrow> s ! i = CHR ''.'' \<and> i < fracEnd s i"
  by (auto simp: fracEnd_def split: if_splits)

lemma expEnd_more: "expEnd s i \<noteq> i \<Longrightarrow> (s ! i = CHR ''e'' \<or> s ! i = CHR ''E'') \<and> i < expEnd s i"
  by (auto simp: expEnd_def Let_def split: if_splits)

lemma readNumber_le: "snd (readNumber s) \<le> length s"
  using fracEnd_le [OF digits_le, of s] expEnd_le [of "fracEnd s (digits s)" s]
  by (simp add: readNumber_def Let_def)

lemma readNumber_plain:
  assumes "readNumber s = (v, n)" "CHR ''.'' \<notin> set v" "CHR ''e'' \<notin> set v" "CHR ''E'' \<notin> set v"
  shows "list_all isDigit v"
proof -
  let ?i = "digits s" let ?j = "fracEnd s ?i"
  have v: "v = take n s" and n: "n = expEnd s ?j" using assms(1) by (auto simp: readNumber_def Let_def)
  have le: "?i \<le> ?j" "?j \<le> n" "n \<le> length s"
    using fracEnd_le [OF digits_le, of s] expEnd_le [of ?j s] n by auto
  have no: "s ! k \<notin> {CHR ''.'', CHR ''e'', CHR ''E''}" if "k < n" for k
  proof -
    have "s ! k \<in> set v" using that le(3) by (auto simp: v in_set_conv_nth)
    with assms(2-4) show ?thesis by auto
  qed
  have "n = ?j" using expEnd_more [of s ?j] no [of ?j] n by auto
  moreover have "?j = ?i" using fracEnd_more [of s ?i] no [of ?i] le by auto
  ultimately have "v = takeWhile isDigit s"
    using v by (metis digits_def takeWhile_eq_take)
  then show ?thesis by (auto simp: list_all_iff dest: set_takeWhileD)
qed

lemma try_match_denotes:
  assumes "try_match lit s = Match n" and "s \<noteq> []"
  shows "n \<le> length s \<and> denotes lit (take n s)"
proof -
  have skip: "skip_other s \<noteq> Match n" for n
    by (auto simp: skip_other_def Let_def split: if_splits option.splits)
  show ?thesis
  proof (cases "lkind lit")
    case litString
    with assms skip consider
      "hd s = QUOTE" "readSingleQuotedString s = (lvalue lit, n)"
      | "hd s \<in> {CHR ''E'', CHR ''e''}" "quote_at s" "readEString s = (lvalue lit, n)"
      by (auto simp: try_match_def Let_def split: if_splits prod.splits)
    then show ?thesis
    proof cases
      case 1
      have le: "n \<le> length s" using readSingleQuotedString_le [OF assms(2)] 1 by simp
      have "0 < n" using 1 by (auto simp: readSingleQuotedString_def split: prod.splits)
      then have "hd (take n s) = QUOTE" using 1 by simp
      with 1 le litString show ?thesis
        by (auto simp: denotes_def intro!: exI [where x = "drop n s"])
    next
      case 2
      have le: "n \<le> length s" using readEString_le [OF 2(2)] 2 by simp
      have "0 < n" using 2 by (auto simp: readEString_def split: prod.splits)
      then have "hd (take n s) = hd s" by simp
      with 2 le litString show ?thesis
        by (auto simp: denotes_def intro!: exI [where x = "drop n s"])
    qed
  next
    case litInt
    with assms(1) skip have d: "isDigit (hd s)" and r: "readNumber s = (lvalue lit, n)"
      and no: "CHR ''.'' \<notin> set (lvalue lit)" "CHR ''e'' \<notin> set (lvalue lit)" "CHR ''E'' \<notin> set (lvalue lit)"
      by (auto simp: try_match_def Let_def split: if_splits prod.splits)
    have "take n s = lvalue lit" "0 < n" using r readNumber_eq [of n s] readNumber_pos [OF assms(2)] d by auto
    with litInt assms(2) readNumber_plain [OF r no] readNumber_le [of s] r show ?thesis
      by (auto simp: denotes_def)
  next
    case litFloat
    with assms(1) skip have d: "isDigit (hd s) \<or> (hd s = CHR ''.'' \<and> 1 < length s \<and> isDigit (s ! 1))"
      and r: "readNumber s = (lvalue lit, n)"
      by (auto simp: try_match_def Let_def split: if_splits prod.splits)
    have "take n s = lvalue lit" "0 < n" using r readNumber_eq [of n s] readNumber_pos [OF assms(2) d] by auto
    with litFloat assms(2) readNumber_le [of s] r show ?thesis by (auto simp: denotes_def)
  next
    case litBitStr
    with assms(1) skip have q: "quote_at s" and r: "readBitString s = Some (lvalue lit, n)"
      by (auto simp: try_match_def Let_def split: if_splits option.splits prod.splits)
    have "n \<le> length s" using readBitString_le [OF q r] .
    with litBitStr r show ?thesis by (auto simp: denotes_def intro!: exI [where x = "drop n s"])
  qed
qed

lemma find_from_sound:
  "find_from lit i s = FoundAt st en \<Longrightarrow>
     i \<le> st \<and> st \<le> en \<and> en \<le> i + length s \<and> denotes lit (take (en - st) (drop (st - i) s))"
proof (induction lit i s rule: find_from.induct)
  case (1 lit i s)
  from "1.prems" have ne: "s \<noteq> []" by (auto simp: find_from.simps [of lit i s])
  show ?case
  proof (cases "scan_at lit s")
    case (Match n)
    then have "try_match lit s = Match n" by (auto simp: scan_at_def split: if_splits)
    from try_match_denotes [OF this ne] Match "1.prems" ne show ?thesis
      by (auto simp: find_from.simps [of lit i s])
  next
    case (Skip k)
    with "1.prems" ne have f: "find_from lit (i + k) (drop k s) = FoundAt st en"
      by (simp add: find_from.simps [of lit i s])
    then have "drop k s \<noteq> []" by (auto simp: find_from.simps [of lit "i + k" "[]"])
    with "1.IH" [OF ne Skip f] show ?thesis by (auto simp: add.commute)
  next
    case SPanic
    with "1.prems" ne show ?thesis by (simp add: find_from.simps [of lit i s])
  qed
qed

text \<open>The canonical text of pieces \<open>(pre, tok)\<close>: each token replaced by its placeholder,
  numbered from \<open>k + 1\<close>.\<close>

fun splice :: "nat \<Rightarrow> (bytes \<times> bytes) list \<Rightarrow> bytes \<Rightarrow> string" where
  "splice k [] tail = tail"
| "splice k ((pre, tok) # ps) tail = pre @ CHR ''$'' # fmt_nat (k + 1) @ splice (k + 1) ps tail"

lemma rewrite_loop_sound:
  assumes "rewrite_loop src pos k sb vals lits = Rewritten canon vs" and "pos \<le> length src"
  shows "\<exists>ps tail. drop pos src = concat (map (\<lambda>(pre, tok). pre @ tok) ps) @ tail \<and>
           canon = sb @ splice k ps tail \<and>
           list_all2 (\<lambda>lit (pre, tok). denotes lit tok) lits ps \<and> vs = vals @ map lvalue lits"
  using assms
proof (induction lits arbitrary: pos k sb vals)
  case Nil
  then show ?case by (auto intro!: exI [where x = "[]"])
next
  case (Cons lit lits)
  from Cons.prems(1) obtain st en where f: "find_from lit pos (drop pos src) = FoundAt st en"
    and r: "rewrite_loop src en (k + 1) (sb @ take (st - pos) (drop pos src) @ CHR ''$'' # fmt_nat (k + 1))
      (vals @ [lvalue lit]) lits = Rewritten canon vs"
    by (auto simp: findNextLiteral_def split: found.splits)
  from find_from_sound [OF f] Cons.prems(2)
  have b: "pos \<le> st" "st \<le> en" "en \<le> length src"
    and d: "denotes lit (take (en - st) (drop st src))" by (auto simp: add.commute)
  from Cons.IH [OF r b(3)] obtain ps tail where
    ih: "drop en src = concat (map (\<lambda>(pre, tok). pre @ tok) ps) @ tail"
      "canon = (sb @ take (st - pos) (drop pos src) @ CHR ''$'' # fmt_nat (k + 1)) @ splice (k + 1) ps tail"
      "list_all2 (\<lambda>lit (pre, tok). denotes lit tok) lits ps"
      "vs = (vals @ [lvalue lit]) @ map lvalue lits" by blast
  have "drop pos src = take (st - pos) (drop pos src) @ take (en - st) (drop st src) @ drop en src"
    using b by (metis (no_types, lifting) append_take_drop_id drop_drop le_add_diff_inverse2)
  with ih d show ?case
    by (auto intro!: exI [where x = "(take (st - pos) (drop pos src), take (en - st) (drop st src)) # ps"]
        exI [where x = tail])
qed

section \<open>Properties\<close>

text \<open>C27: The query rewriter only replaces literals. Whenever \<open>rewriteLiterals\<close> succeeds, the
  SQL text splits into pieces and tokens such that the canonical text is the same pieces with
  the \<open>i\<close>-th token replaced by \<open>$i\<close>, nothing else is changed, there is one token per extracted
  literal, each token is the source form of its literal, and the values handed to Bind are those
  of the literals, in order.\<close>

theorem rewrite_replaces_only_literals:
  assumes "rewriteLiterals sql lits = Rewritten canon vals"
  shows "\<exists>ps tail. sql = concat (map (\<lambda>(pre, tok). pre @ tok) ps) @ tail \<and>
           canon = splice 0 ps tail \<and>
           list_all2 (\<lambda>lit (pre, tok). denotes lit tok) lits ps \<and> vals = map lvalue lits"
proof (cases "lits = []")
  case True
  with assms show ?thesis
    by (auto simp: rewriteLiterals_def rewriteLiteralsWS_def intro!: exI [where x = "[]"])
next
  case False
  with assms have "rewrite_loop sql 0 0 [] [] lits = Rewritten canon vals"
    by (simp add: rewriteLiterals_def rewriteLiteralsWS_def)
  from rewrite_loop_sound [OF this] show ?thesis by simp
qed

lemma rewrite_example:
  "rewriteLiterals ''SELECT x FROM t WHERE n = 42'' [\<lparr>lkind = litInt, lvalue = ''42''\<rparr>] =
     Rewritten ''SELECT x FROM t WHERE n = $1'' [''42'']"
  by code_simp

theorem rewrite_replaces_only_literals_witness:
  "\<exists>ps tail. ''SELECT x FROM t WHERE n = 42'' = concat (map (\<lambda>(pre, tok). pre @ tok) ps) @ tail \<and>
     ''SELECT x FROM t WHERE n = $1'' = splice 0 ps tail \<and>
     list_all2 (\<lambda>lit (pre, tok). denotes lit tok) [\<lparr>lkind = litInt, lvalue = ''42''\<rparr>] ps \<and>
     [''42''] = map lvalue [\<lparr>lkind = litInt, lvalue = ''42''\<rparr>]"
  by (rule rewrite_replaces_only_literals [OF rewrite_example])

text \<open>The scanner has no notion of an identifier: the integer literal of the query below is
  found in the column name \<open>a1\<close>, and the canonical text is not the query any more. In the same
  way the string after the type name \<open>DATE\<close> is taken for an escape string, because its last
  letter is \<open>E\<close>.\<close>

theorem rewrite_breaks_identifiers:
  "rewriteLiterals ''SELECT a1 FROM t WHERE b = 1'' [\<lparr>lkind = litInt, lvalue = ''1''\<rparr>] =
     Rewritten ''SELECT a$1 FROM t WHERE b = 1'' [''1''] \<and>
   rewriteLiterals (''SELECT DATE'' @ QUOTE # ''2020-01-01'' @ [QUOTE]) [\<lparr>lkind = litString, lvalue = ''2020-01-01''\<rparr>] =
     Rewritten ''SELECT DAT$1'' [''2020-01-01'']"
proof
  show "rewriteLiterals ''SELECT a1 FROM t WHERE b = 1'' [\<lparr>lkind = litInt, lvalue = ''1''\<rparr>] =
     Rewritten ''SELECT a$1 FROM t WHERE b = 1'' [''1'']"
    by code_simp
  show "rewriteLiterals (''SELECT DATE'' @ QUOTE # ''2020-01-01'' @ [QUOTE]) [\<lparr>lkind = litString, lvalue = ''2020-01-01''\<rparr>] =
     Rewritten ''SELECT DAT$1'' [''2020-01-01'']"
    by code_simp
qed

end
