(* ===== verification/Pgfox_Prog.thy ===== *)
theory Pgfox_Prog
  imports Pgfox_Protocol
begin

text \<open>
  How stateful Go code is written here. A function that reads and changes a state \<open>'s\<close> and
  returns \<open>(value, error)\<close> is a program \<open>'s \<Rightarrow> 'a res \<times> 's\<close>: it returns a value, returns an
  error, panics (an index or slice out of range; nothing in the code recovers from it), or never
  returns because it is blocked. \<open>bindP\<close> is sequencing with the early return
  \<open>if err != nil { return err }\<close>, \<open>tryP\<close> is \<open>if err := m; err != nil { return h(err) }\<close>,
  \<open>loopP\<close> is \<open>for { ... }\<close>. The second half is the program logic the component proofs use.

  A connection is the list of messages its peer has sent or will send (the abstract view of the
  byte stream, see \<open>stream_refinement\<close>), the error \<open>ReadMessage\<close> gives when they are
  used up, and the list of messages written to it.
\<close>

section \<open>Programs\<close>

datatype 'a res = Ok 'a | Err goerr | Panic | Blocked

type_synonym ('s, 'a) prog = "'s \<Rightarrow> 'a res \<times> 's"

definition returnP :: "'a \<Rightarrow> ('s, 'a) prog" where
  "returnP x s = (Ok x, s)"

definition failP :: "goerr \<Rightarrow> ('s, 'a) prog" where
  "failP e s = (Err e, s)"

definition panicP :: "('s, 'a) prog" where
  "panicP s = (Panic, s)"

definition getP :: "('s \<Rightarrow> 'a) \<Rightarrow> ('s, 'a) prog" where
  "getP f s = (Ok (f s), s)"

definition modifyP :: "('s \<Rightarrow> 's) \<Rightarrow> ('s, unit) prog" where
  "modifyP f s = (Ok (), f s)"

definition bindP :: "('s, 'a) prog \<Rightarrow> ('a \<Rightarrow> ('s, 'b) prog) \<Rightarrow> ('s, 'b) prog" where
  "bindP m k s =
     (case m s of
        (Ok x, s') \<Rightarrow> k x s'
      | (Err e, s') \<Rightarrow> (Err e, s')
      | (Panic, s') \<Rightarrow> (Panic, s')
      | (Blocked, s') \<Rightarrow> (Blocked, s'))"

definition thenP :: "('s, 'a) prog \<Rightarrow> ('s, 'b) prog \<Rightarrow> ('s, 'b) prog" where
  "thenP m k = bindP m (\<lambda>_. k)"

definition tryP ::
  "('s, 'a) prog \<Rightarrow> (goerr \<Rightarrow> ('s, 'b) prog) \<Rightarrow> ('a \<Rightarrow> ('s, 'b) prog) \<Rightarrow> ('s, 'b) prog" where
  "tryP m h k s =
     (case m s of
        (Ok x, s') \<Rightarrow> k x s'
      | (Err e, s') \<Rightarrow> h e s'
      | (Panic, s') \<Rightarrow> (Panic, s')
      | (Blocked, s') \<Rightarrow> (Blocked, s'))"

text \<open>\<open>return fmt.Errorf("w: %w", err)\<close> when \<open>m\<close> fails.\<close>

abbreviation wrapP :: "string \<Rightarrow> ('s, 'a) prog \<Rightarrow> ('a \<Rightarrow> ('s, 'b) prog) \<Rightarrow> ('s, 'b) prog" where
  "wrapP w m k \<equiv> tryP m (\<lambda>e. failP (Wrapf w e)) k"

text \<open>\<open>_ = m\<close>: the error is ignored.\<close>

abbreviation ignoreP :: "('s, 'a) prog \<Rightarrow> ('s, 'b) prog \<Rightarrow> ('s, 'b) prog" where
  "ignoreP m k \<equiv> tryP m (\<lambda>_. k) (\<lambda>_. k)"

text \<open>\<open>for { ... }\<close>: the body returns \<open>Some x\<close> to leave the loop with \<open>x\<close>. The number
  bounds the iterations; a run that uses it up is \<open>Blocked\<close>, and each use shows its bound to
  be large enough.\<close>

fun loopP :: "nat \<Rightarrow> ('s, 'a option) prog \<Rightarrow> ('s, 'a) prog" where
  "loopP 0 body s = (Blocked, s)"
| "loopP (Suc n) body s =
     bindP body (\<lambda>r. case r of Some x \<Rightarrow> returnP x | None \<Rightarrow> loopP n body) s"

text \<open>\<open>for _, x := range xs { ... }\<close>.\<close>

fun forP :: "'a list \<Rightarrow> ('a \<Rightarrow> ('s, unit) prog) \<Rightarrow> ('s, unit) prog" where
  "forP [] body = returnP ()"
| "forP (x # xs) body = thenP (body x) (forP xs body)"

text \<open>A pure function that returns \<open>(value, error)\<close>.\<close>

definition liftP :: "goerr + 'a \<Rightarrow> ('s, 'a) prog" where
  "liftP r s = (case r of Inl e \<Rightarrow> (Err e, s) | Inr x \<Rightarrow> (Ok x, s))"

text \<open>\<open>defer f()\<close>: \<open>f\<close> runs when \<open>m\<close> is left, but not while it is blocked.\<close>

definition deferP :: "('s \<Rightarrow> 's) \<Rightarrow> ('s, 'a) prog \<Rightarrow> ('s, 'a) prog" where
  "deferP f m s = (case m s of (Blocked, s') \<Rightarrow> (Blocked, s') | (r, s') \<Rightarrow> (r, f s'))"

text \<open>Waiting for something that never happens.\<close>

definition blockP :: "('s, 'a) prog" where
  "blockP s = (Blocked, s)"

text \<open>Run a program on a part of the state.\<close>

definition zoomP :: "('s \<Rightarrow> 't) \<Rightarrow> ('t \<Rightarrow> 's \<Rightarrow> 's) \<Rightarrow> ('t, 'a) prog \<Rightarrow> ('s, 'a) prog" where
  "zoomP get put m s = (case m (get s) of (r, t) \<Rightarrow> (r, put t s))"

lemmas prog_defs =
  returnP_def failP_def panicP_def getP_def modifyP_def bindP_def thenP_def tryP_def liftP_def zoomP_def

section \<open>Connections\<close>

record conn =
  c_max :: int
  c_in :: "msg list"
  c_end :: goerr
  c_out :: "msg list"
  c_room :: "nat option"
  c_werr :: goerr
  c_closed :: bool

text \<open>\<open>c_max\<close> is \<open>maxMessageSize\<close>; \<open>c_room\<close> is the number of writes the transport still
  accepts (\<open>None\<close>: all), after which writing gives \<open>c_werr\<close>.\<close>

definition closed_error :: goerr where
  "closed_error = Wrapf ''failed to read message type'' (OpError False ''use of closed network connection'')"

definition conn_read :: "(conn, msg) prog" where
  "conn_read c =
     (if c_closed c then (Err closed_error, c)
      else case c_in c of
             [] \<Rightarrow> (Err (c_end c), c)
           | m # ms \<Rightarrow> (Ok m, c\<lparr>c_in := ms\<rparr>))"

definition conn_send :: "msg \<Rightarrow> (conn, unit) prog" where
  "conn_send m c =
     (if c_closed c then (Err closed_error, c)
      else case c_room c of
             None \<Rightarrow> (Ok (), c\<lparr>c_out := c_out c @ [m]\<rparr>)
           | Some 0 \<Rightarrow> (Err (c_werr c), c)
           | Some (Suc n) \<Rightarrow> (Ok (), c\<lparr>c_out := c_out c @ [m], c_room := Some n\<rparr>))"

definition conn_close :: "conn \<Rightarrow> conn" where
  "conn_close c = c\<lparr>c_closed := True\<rparr>"

definition backend_write :: "msg \<Rightarrow> (conn, unit) prog" where
  "backend_write m c =
     (case Backend_WriteMessage (c_max c) m of Inl e \<Rightarrow> (Err e, c) | Inr _ \<Rightarrow> conn_send m c)"

definition client_write :: "msg \<Rightarrow> (conn, unit) prog" where
  "client_write m c =
     (case Client_WriteMessage (c_max c) m of Inl e \<Rightarrow> (Err e, c) | Inr _ \<Rightarrow> conn_send m c)"

text \<open>A connection that accepts every write of a bounded message.\<close>

definition sound_conn :: "conn \<Rightarrow> bool" where
  "sound_conn c \<longleftrightarrow> \<not> c_closed c \<and> c_room c = None"

section \<open>Program logic\<close>

definition keeps :: "('s \<Rightarrow> bool) \<Rightarrow> ('s, 'a) prog \<Rightarrow> bool" where
  "keeps I m \<longleftrightarrow> (\<forall>s. I s \<longrightarrow> I (snd (m s)))"

named_theorems keeps_intros \<open>rules that decompose a program for an invariant\<close>

lemma keepsI: "(\<And>s. I s \<Longrightarrow> I (snd (m s))) \<Longrightarrow> keeps I m"
  by (simp add: keeps_def)

lemma keepsD: "keeps I m \<Longrightarrow> m s = (r, s') \<Longrightarrow> I s \<Longrightarrow> I s'"
  by (metis keeps_def snd_conv)

lemma keeps_return [keeps_intros]: "keeps I (returnP x)"
  by (simp add: keeps_def returnP_def)

lemma keeps_fail [keeps_intros]: "keeps I (failP e)"
  by (simp add: keeps_def failP_def)

lemma keeps_panic [keeps_intros]: "keeps I panicP"
  by (simp add: keeps_def panicP_def)

lemma keeps_get [keeps_intros]: "keeps I (getP f)"
  by (simp add: keeps_def getP_def)

lemma keeps_lift [keeps_intros]: "keeps I (liftP r)"
  by (simp add: keeps_def liftP_def split: sum.split)

lemma keeps_modify: "(\<And>s. I s \<Longrightarrow> I (f s)) \<Longrightarrow> keeps I (modifyP f)"
  by (simp add: keeps_def modifyP_def)

lemma keeps_bind [keeps_intros]: "keeps I m \<Longrightarrow> (\<And>x. keeps I (k x)) \<Longrightarrow> keeps I (bindP m k)"
  by (auto simp: keeps_def bindP_def split: prod.split res.split)

lemma keeps_then [keeps_intros]: "keeps I m \<Longrightarrow> keeps I k \<Longrightarrow> keeps I (thenP m k)"
  unfolding thenP_def by (intro keeps_intros)

lemma keeps_try [keeps_intros]:
  "keeps I m \<Longrightarrow> (\<And>e. keeps I (h e)) \<Longrightarrow> (\<And>x. keeps I (k x)) \<Longrightarrow> keeps I (tryP m h k)"
  by (auto simp: keeps_def tryP_def split: prod.split res.split)

lemma keeps_loop [keeps_intros]:
  assumes "keeps I body"
  shows "keeps I (loopP n body)"
proof (induction n)
  case 0
  then show ?case by (simp add: keeps_def)
next
  case (Suc n)
  then have "keeps I (bindP body (\<lambda>r. case r of Some x \<Rightarrow> returnP x | None \<Rightarrow> loopP n body))"
    using assms by (auto intro!: keeps_intros split: option.split)
  then show ?case by (simp add: keeps_def)
qed

lemma keeps_for [keeps_intros]: "(\<And>x. x \<in> set xs \<Longrightarrow> keeps I (body x)) \<Longrightarrow> keeps I (forP xs body)"
  by (induction xs) (auto intro!: keeps_intros)

lemma keeps_if [keeps_intros]: "(b \<Longrightarrow> keeps I m) \<Longrightarrow> (\<not> b \<Longrightarrow> keeps I k) \<Longrightarrow> keeps I (if b then m else k)"
  by simp

lemma keeps_option [keeps_intros]:
  "(x = None \<Longrightarrow> keeps I m) \<Longrightarrow> (\<And>y. x = Some y \<Longrightarrow> keeps I (k y)) \<Longrightarrow>
     keeps I (case x of None \<Rightarrow> m | Some y \<Rightarrow> k y)"
  by (cases x) auto

lemma keeps_prod [keeps_intros]: "(\<And>a b. x = (a, b) \<Longrightarrow> keeps I (k a b)) \<Longrightarrow> keeps I (case x of (a, b) \<Rightarrow> k a b)"
  by (cases x) auto

lemma keeps_sum [keeps_intros]:
  "(\<And>y. x = Inl y \<Longrightarrow> keeps I (m y)) \<Longrightarrow> (\<And>y. x = Inr y \<Longrightarrow> keeps I (k y)) \<Longrightarrow>
     keeps I (case x of Inl y \<Rightarrow> m y | Inr y \<Rightarrow> k y)"
  by (cases x) auto

lemma keeps_list [keeps_intros]:
  "(x = [] \<Longrightarrow> keeps I m) \<Longrightarrow> (\<And>y ys. x = y # ys \<Longrightarrow> keeps I (k y ys)) \<Longrightarrow>
     keeps I (case x of [] \<Rightarrow> m | y # ys \<Rightarrow> k y ys)"
  by (cases x) auto

lemma keeps_zoom:
  "keeps J m \<Longrightarrow> (\<And>s. I s \<Longrightarrow> J (get s)) \<Longrightarrow> (\<And>s t. I s \<Longrightarrow> J t \<Longrightarrow> I (put t s)) \<Longrightarrow>
     keeps I (zoomP get put m)"
  by (auto simp: keeps_def zoomP_def split: prod.split) (metis snd_conv)

lemma keeps_defer [keeps_intros]: "keeps I m \<Longrightarrow> (\<And>s. I s \<Longrightarrow> I (f s)) \<Longrightarrow> keeps I (deferP f m)"
  by (auto simp: keeps_def deferP_def split: prod.split res.split)

lemma keeps_block [keeps_intros]: "keeps I blockP"
  by (simp add: keeps_def blockP_def)

lemma post_try:
  assumes "keeps J m" "\<And>s. J s \<Longrightarrow> K s" "\<And>e s. J s \<Longrightarrow> K (snd (h e s))" "\<And>x s. J s \<Longrightarrow> K (snd (k x s))" "J s"
  shows "K (snd (tryP m h k s))"
proof -
  obtain r s1 where m: "m s = (r, s1)" by (rule prod.exhaust)
  have "J s1" using assms(1) m assms(5) by (rule keepsD)
  then show ?thesis using m assms(2-4) by (cases r) (simp_all add: tryP_def)
qed

text \<open>\<open>ends m\<close>: \<open>m\<close> never blocks.\<close>

definition ends :: "('s, 'a) prog \<Rightarrow> bool" where
  "ends m \<longleftrightarrow> (\<forall>s. fst (m s) \<noteq> Blocked)"

named_theorems ends_intros \<open>rules that decompose a program that does not block\<close>

lemma ends_leaf [ends_intros]:
  "ends (returnP x)" "ends (failP e)" "ends panicP" "ends (getP f)" "ends (modifyP g)" "ends (liftP r)"
  by (simp_all add: ends_def prog_defs split: sum.split)

lemma ends_bind [ends_intros]: "ends m \<Longrightarrow> (\<And>x. ends (k x)) \<Longrightarrow> ends (bindP m k)"
  by (auto simp: ends_def bindP_def split: prod.split res.split) (metis fst_conv)

lemma ends_then [ends_intros]: "ends m \<Longrightarrow> ends k \<Longrightarrow> ends (thenP m k)"
  unfolding thenP_def by (intro ends_intros)

lemma ends_try [ends_intros]: "ends m \<Longrightarrow> (\<And>e. ends (h e)) \<Longrightarrow> (\<And>x. ends (k x)) \<Longrightarrow> ends (tryP m h k)"
  by (auto simp: ends_def tryP_def split: prod.split res.split) (metis fst_conv)

lemma ends_for [ends_intros]: "(\<And>x. ends (body x)) \<Longrightarrow> ends (forP xs body)"
  by (induction xs) (auto intro!: ends_intros)

lemma ends_if [ends_intros]: "(b \<Longrightarrow> ends m) \<Longrightarrow> (\<not> b \<Longrightarrow> ends k) \<Longrightarrow> ends (if b then m else k)"
  by simp

lemma ends_option [ends_intros]: "ends m \<Longrightarrow> (\<And>y. ends (k y)) \<Longrightarrow> ends (case x of None \<Rightarrow> m | Some y \<Rightarrow> k y)"
  by (cases x) auto

lemma ends_prod [ends_intros]: "(\<And>a b. ends (k a b)) \<Longrightarrow> ends (case x of (a, b) \<Rightarrow> k a b)"
  by (cases x) auto

lemma ends_list [ends_intros]: "ends m \<Longrightarrow> (\<And>y ys. ends (k y ys)) \<Longrightarrow> ends (case x of [] \<Rightarrow> m | y # ys \<Rightarrow> k y ys)"
  by (cases x) auto

lemma ends_defer [ends_intros]: "ends m \<Longrightarrow> ends (deferP f m)"
  by (auto simp: ends_def deferP_def split: prod.split res.split) (metis fst_conv)

lemma ends_zoom [ends_intros]: "ends m \<Longrightarrow> ends (zoomP get put m)"
  by (simp add: ends_def zoomP_def case_prod_beta)

text \<open>A loop whose body uses up a resource on every iteration that does not leave it ends.\<close>

lemma loopP_enough:
  assumes dec: "\<And>s s'. body s = (Ok None, s') \<Longrightarrow> \<mu> s' < (\<mu> s :: nat)"
    and body: "\<And>s. fst (body s) \<noteq> Blocked"
  shows "\<mu> s < n \<Longrightarrow> fst (loopP n body s) \<noteq> Blocked"
proof (induction n arbitrary: s)
  case 0
  then show ?case by simp
next
  case (Suc n)
  obtain r s' where r: "body s = (r, s')" by fastforce
  show ?case
  proof (cases r)
    case (Ok x)
    then show ?thesis
      using Suc r dec [of s s'] by (cases x) (auto simp: bindP_def returnP_def)
  next
    case (Err e)
    then show ?thesis using r by (simp add: bindP_def)
  next
    case Panic
    then show ?thesis using r by (simp add: bindP_def)
  next
    case Blocked
    then show ?thesis using r body [of s] by simp
  qed
qed

text \<open>The number of iterations allowed does not matter once it is enough.\<close>

lemma loopP_mono:
  assumes "fst (loopP n body s) \<noteq> Blocked" and "n \<le> m"
  shows "loopP m body s = loopP n body s"
  using assms
proof (induction n arbitrary: s m)
  case 0
  then show ?case by simp
next
  case (Suc n)
  then obtain m' where m: "m = Suc m'" "n \<le> m'" by (cases m) auto
  show ?case
    using Suc.prems(1) Suc.IH [OF _ m(2)]
    by (auto simp: m(1) bindP_def returnP_def split: prod.splits res.splits option.splits)
qed

section \<open>Connections: lemmas\<close>

lemma conn_read_Cons [simp]:
  "\<not> c_closed c \<Longrightarrow> c_in c = m # ms \<Longrightarrow> conn_read c = (Ok m, c\<lparr>c_in := ms\<rparr>)"
  by (simp add: conn_read_def)

lemma conn_read_cases:
  "conn_read c = (r, c') \<Longrightarrow>
     (\<exists>m. r = Ok m \<and> c_in c = m # c_in c' \<and> c_out c' = c_out c) \<or> (\<exists>e. r = Err e \<and> c' = c)"
  by (auto simp: conn_read_def split: if_splits list.splits)

lemma conn_read_not_Blocked [simp]: "fst (conn_read c) \<noteq> Blocked" "fst (conn_read c) \<noteq> Panic"
  by (simp_all add: conn_read_def split: list.split)

lemma conn_send_sound [simp]:
  "sound_conn c \<Longrightarrow> conn_send m c = (Ok (), c\<lparr>c_out := c_out c @ [m]\<rparr>)"
  by (simp add: conn_send_def sound_conn_def)

lemma backend_write_sound:
  "sound_conn c \<Longrightarrow> int (length (snd m)) \<le> c_max c \<Longrightarrow>
     backend_write m c = (Ok (), c\<lparr>c_out := c_out c @ [m]\<rparr>)"
  by (simp add: backend_write_def Backend_WriteMessage_def)

lemma client_write_sound:
  "sound_conn c \<Longrightarrow> int (length (snd m)) \<le> c_max c \<Longrightarrow>
     client_write m c = (Ok (), c\<lparr>c_out := c_out c @ [m]\<rparr>)"
  by (simp add: client_write_def Client_WriteMessage_def)

lemma write_cases:
  "client_write m c = (r, c') \<Longrightarrow> (r = Ok () \<and> c_out c' = c_out c @ [m] \<and> c_in c' = c_in c) \<or> (\<exists>e. r = Err e \<and> c' = c)"
  "backend_write m c = (r, c') \<Longrightarrow> (r = Ok () \<and> c_out c' = c_out c @ [m] \<and> c_in c' = c_in c) \<or> (\<exists>e. r = Err e \<and> c' = c)"
  by (auto simp: client_write_def backend_write_def conn_send_def
      split: sum.splits if_splits option.splits nat.splits)

section \<open>Results of programs\<close>

lemma wrapP_Ok_iff:
  "wrapP w m k s = (Ok x, s') \<longleftrightarrow> (\<exists>y s1. m s = (Ok y, s1) \<and> k y s1 = (Ok x, s'))"
  by (auto simp: tryP_def failP_def split: prod.splits res.splits)

lemma wrapP_Panic_iff:
  "wrapP w m k s = (Panic, s') \<longleftrightarrow> m s = (Panic, s') \<or> (\<exists>y s1. m s = (Ok y, s1) \<and> k y s1 = (Panic, s'))"
  by (auto simp: tryP_def failP_def split: prod.splits res.splits)

lemma wrapP_Blocked_iff:
  "wrapP w m k s = (Blocked, s') \<longleftrightarrow> m s = (Blocked, s') \<or> (\<exists>y s1. m s = (Ok y, s1) \<and> k y s1 = (Blocked, s'))"
  by (auto simp: tryP_def failP_def split: prod.splits res.splits)

lemmas wrapP_iffs = wrapP_Ok_iff wrapP_Panic_iff wrapP_Blocked_iff

lemma liftP_iffs:
  "liftP r s = (Ok x, s') \<longleftrightarrow> r = Inr x \<and> s' = s"
  "liftP r s \<noteq> (Panic, s')" "liftP r s \<noteq> (Blocked, s')"
  by (auto simp: liftP_def split: sum.splits)

lemma leafP_iffs:
  "failP e s \<noteq> (Ok x, s')" "failP e s \<noteq> (Panic, s')" "failP e s \<noteq> (Blocked, s')"
  "panicP s = (Panic, s') \<longleftrightarrow> s' = s" "panicP s \<noteq> (Ok x, s')" "panicP s \<noteq> (Blocked, s')"
  "returnP x s = (Ok y, s') \<longleftrightarrow> y = x \<and> s' = s" "returnP x s \<noteq> (Panic, s')" "returnP x s \<noteq> (Blocked, s')"
  by (auto simp: prog_defs)

lemma bindP_Ok_iff:
  "bindP m k s = (Ok x, s') \<longleftrightarrow> (\<exists>y s1. m s = (Ok y, s1) \<and> k y s1 = (Ok x, s'))"
  by (auto simp: bindP_def split: prod.splits res.splits)

text \<open>Running a sequence when the result of its first part is known.\<close>

lemma run_bind: "m s = (Ok x, s1) \<Longrightarrow> bindP m k s = k x s1"
  and run_bind_stop: "m s = (r, s1) \<Longrightarrow> (\<And>x. r \<noteq> Ok x) \<Longrightarrow> \<exists>r'. bindP m k s = (r', s1) \<and> (\<forall>x. r' \<noteq> Ok x)"
  by (simp_all add: bindP_def split: res.splits)

lemma run_then: "m s = (Ok x, s1) \<Longrightarrow> thenP m k s = k s1"
  by (simp add: thenP_def bindP_def)

lemma run_try: "m s = (Ok x, s1) \<Longrightarrow> tryP m h k s = k x s1"
  and run_try_Err: "m s = (Err e, s1) \<Longrightarrow> tryP m h k s = h e s1"
  by (simp_all add: tryP_def)

lemma run_leaf: "getP f s = (Ok (f s), s)" "modifyP g s = (Ok (), g s)"
  by (simp_all add: getP_def modifyP_def)

lemma sound_conn_upd [simp]:
  "sound_conn (c\<lparr>c_out := x\<rparr>) = sound_conn c" "sound_conn (c\<lparr>c_in := y\<rparr>) = sound_conn c"
  "sound_conn c \<Longrightarrow> \<not> c_closed c"
  by (simp_all add: sound_conn_def)

end
