(* ===== verification/Pgfox_Endpoints.thy ===== *)
theory Pgfox_Endpoints
  imports Pgfox_Prog "HOL-Library.AList"
begin

text \<open>
  The two ends pgfox talks to: \<open>Client\<close> (\<open>src/pkg/pgfox/client.go\<close>) and \<open>Backend\<close>
  (\<open>src/pkg/pgfox/backend.go\<close>), their fields, accessors and message I/O. Pointers between them
  are identifiers (\<open>clientId\<close>, \<open>backendId\<close>, \<open>poolId\<close>). Loggers, mutexes and the fields
  that only feed the metrics page (\<open>connectedAt\<close>, \<open>lastActivity\<close>, \<open>createdAt\<close>) are left
  out. A Go map that is only used as a set, or that the code iterates over, is a list without
  repetition; Go leaves the iteration order open, the list fixes one.
\<close>

type_synonym clientId = nat
type_synonym backendId = nat
type_synonym poolId = nat
type_synonym targetId = nat

section \<open>Channels and deferred LISTEN actions (listen_notify.go)\<close>

record Channel =
  chDatabase :: string
  chName :: string

datatype listenKind = listenKindListen | listenKindUnlisten | listenKindUnlistenAll

record pendingListen =
  plKind :: listenKind
  plChannel :: Channel

section \<open>Clients (client.go)\<close>

text \<open>The peer address: what \<open>extractIP\<close> makes of it, the bytes of an IP address or nothing.\<close>

datatype netAddr = TCPAddr bytes | OtherAddr "bytes option"

record Client =
  cl_conn :: conn
  cl_addr :: netAddr
  cl_backend :: "backendId option"
  authenticated :: bool
  database :: string
  user :: string
  password :: string
  inTransaction :: bool
  namedStmts :: nat
  isListening :: bool
  listenChannels :: "Channel list"
  stmtNameMap :: "string \<rightharpoonup> string"
  pendingListens :: "pendingListen list"
  lastTxStatus :: byte
  lastCommandTag :: string
  cancelPID :: "32 word"
  cancelSecret :: "32 word"
  activeBackend :: "backendId option"
  msgsSent :: nat

definition NewClient :: "conn \<Rightarrow> netAddr \<Rightarrow> Client" where
  "NewClient c addr =
     \<lparr>cl_conn = c, cl_addr = addr, cl_backend = None, authenticated = False, database = [], user = [], password = [],
      inTransaction = False, namedStmts = 0, isListening = False, listenChannels = [],
      stmtNameMap = Map.empty, pendingListens = [], lastTxStatus = CHR ''I'', lastCommandTag = [],
      cancelPID = 0, cancelSecret = 0, activeBackend = None, msgsSent = 0\<rparr>"

definition SetUser :: "string \<Rightarrow> Client \<Rightarrow> Client" where
  "SetUser v c = c\<lparr>user := v\<rparr>"

definition SetPassword :: "string \<Rightarrow> Client \<Rightarrow> Client" where
  "SetPassword v c = c\<lparr>password := v\<rparr>"

definition SetDatabase :: "string \<Rightarrow> Client \<Rightarrow> Client" where
  "SetDatabase v c = c\<lparr>database := v\<rparr>"

definition SetAuthenticated :: "bool \<Rightarrow> Client \<Rightarrow> Client" where
  "SetAuthenticated v c = c\<lparr>authenticated := v\<rparr>"

definition AddNamedStatement :: "Client \<Rightarrow> Client" where
  "AddNamedStatement c = c\<lparr>namedStmts := namedStmts c + 1\<rparr>"

definition RemoveNamedStatement :: "Client \<Rightarrow> Client" where
  "RemoveNamedStatement c = (if namedStmts c > 0 then c\<lparr>namedStmts := namedStmts c - 1\<rparr> else c)"

definition HasNamedStatements :: "Client \<Rightarrow> bool" where
  "HasNamedStatements c \<longleftrightarrow> namedStmts c > 0"

definition SetCancelKey :: "32 word \<Rightarrow> 32 word \<Rightarrow> Client \<Rightarrow> Client" where
  "SetCancelKey pid secret c = c\<lparr>cancelPID := pid, cancelSecret := secret\<rparr>"

definition SetActiveBackend :: "backendId option \<Rightarrow> Client \<Rightarrow> Client" where
  "SetActiveBackend b c = c\<lparr>activeBackend := b\<rparr>"

definition BufferListen :: "listenKind \<Rightarrow> Channel \<Rightarrow> Client \<Rightarrow> Client" where
  "BufferListen k ch c = c\<lparr>pendingListens := pendingListens c @ [\<lparr>plKind = k, plChannel = ch\<rparr>]\<rparr>"

definition HasPendingListens :: "Client \<Rightarrow> bool" where
  "HasPendingListens c \<longleftrightarrow> length (pendingListens c) > 0"

definition TakePendingListens :: "Client \<Rightarrow> pendingListen list \<times> Client" where
  "TakePendingListens c = (pendingListens c, c\<lparr>pendingListens := []\<rparr>)"

definition SetInTransaction :: "bool \<Rightarrow> Client \<Rightarrow> Client" where
  "SetInTransaction v c = c\<lparr>inTransaction := v\<rparr>"

definition SetBackend :: "backendId option \<Rightarrow> Client \<Rightarrow> Client" where
  "SetBackend b c = c\<lparr>cl_backend := b\<rparr>"

definition ShouldKeepBackend :: "Client \<Rightarrow> bool" where
  "ShouldKeepBackend c \<longleftrightarrow> cl_backend c \<noteq> None"

definition SetListening :: "bool \<Rightarrow> Client \<Rightarrow> Client" where
  "SetListening v c = c\<lparr>isListening := v\<rparr>"

definition AddListenChannel :: "Channel \<Rightarrow> Client \<Rightarrow> Client" where
  "AddListenChannel ch c = c\<lparr>listenChannels := List.insert ch (listenChannels c), isListening := True\<rparr>"

definition RemoveListenChannel :: "Channel \<Rightarrow> Client \<Rightarrow> Client" where
  "RemoveListenChannel ch c =
     (let chs = removeAll ch (listenChannels c)
      in c\<lparr>listenChannels := chs, isListening := (if chs = [] then False else isListening c)\<rparr>)"

definition ClearListenChannels :: "Client \<Rightarrow> Client" where
  "ClearListenChannels c = c\<lparr>listenChannels := [], isListening := False\<rparr>"

definition MapStmtName :: "string \<Rightarrow> string \<Rightarrow> Client \<Rightarrow> Client" where
  "MapStmtName clientName hash c = c\<lparr>stmtNameMap := (stmtNameMap c)(clientName \<mapsto> hash)\<rparr>"

definition LookupInternalName :: "string \<Rightarrow> Client \<Rightarrow> string option" where
  "LookupInternalName clientName c = stmtNameMap c clientName"

definition UnmapStmtName :: "string \<Rightarrow> Client \<Rightarrow> Client" where
  "UnmapStmtName clientName c = c\<lparr>stmtNameMap := (stmtNameMap c)(clientName := None)\<rparr>"

text \<open>\<open>ReadMessage\<close> and \<open>WriteMessage\<close> on the connection; a successful write also mirrors the
  command tag and the transaction status it carried.\<close>

definition mirror :: "msg \<Rightarrow> Client \<Rightarrow> Client" where
  "mirror m c =
     (if fst m = CHR ''C'' then c\<lparr>lastCommandTag := cString (snd m)\<rparr>
      else if fst m = CHR ''Z'' then
        (case snd m of [] \<Rightarrow> c | b # _ \<Rightarrow> c\<lparr>lastTxStatus := b\<rparr>)
      else c)"

definition Client_read :: "(Client, msg) prog" where
  "Client_read = zoomP cl_conn (\<lambda>k c. c\<lparr>cl_conn := k\<rparr>) conn_read"

definition Client_write :: "msg \<Rightarrow> (Client, unit) prog" where
  "Client_write m c =
     (case client_write m (cl_conn c) of
        (Ok u, k) \<Rightarrow> (Ok u, mirror m (c\<lparr>cl_conn := k, msgsSent := msgsSent c + 1\<rparr>))
      | (r, k) \<Rightarrow> (r, c\<lparr>cl_conn := k\<rparr>))"

section \<open>Backends (backend.go)\<close>

record Backend =
  b_conn :: conn
  dbName :: string
  username :: string
  targetName :: string
  b_pool :: "poolId option"
  inUse :: bool
  lastUsedAt :: int
  b_client :: "clientId option"
  processID :: "32 word"
  secretKey :: "32 word"
  parameters :: "(string \<times> string) list"
  deployedStmts :: "string list"

definition NewBackend :: "conn \<Rightarrow> string \<Rightarrow> string \<Rightarrow> string \<Rightarrow> int \<Rightarrow> Backend" where
  "NewBackend c db target usr now =
     \<lparr>b_conn = c, dbName = db, username = usr, targetName = target, b_pool = None, inUse = False,
      lastUsedAt = now, b_client = None, processID = 0, secretKey = 0, parameters = [],
      deployedStmts = []\<rparr>"

definition Backend_Close :: "Backend \<Rightarrow> Backend" where
  "Backend_Close b = b\<lparr>b_conn := conn_close (b_conn b)\<rparr>"

definition SetInUse :: "bool \<Rightarrow> int \<Rightarrow> Backend \<Rightarrow> Backend" where
  "SetInUse v now b = b\<lparr>inUse := v, lastUsedAt := (if v then lastUsedAt b else now)\<rparr>"

definition SetClient :: "clientId option \<Rightarrow> Backend \<Rightarrow> Backend" where
  "SetClient c b = b\<lparr>b_client := c\<rparr>"

definition SetProcessID :: "32 word \<Rightarrow> Backend \<Rightarrow> Backend" where
  "SetProcessID v b = b\<lparr>processID := v\<rparr>"

definition SetSecretKey :: "32 word \<Rightarrow> Backend \<Rightarrow> Backend" where
  "SetSecretKey v b = b\<lparr>secretKey := v\<rparr>"

definition HasStmt :: "string \<Rightarrow> Backend \<Rightarrow> bool" where
  "HasStmt hash b \<longleftrightarrow> hash \<in> set (deployedStmts b)"

definition MarkStmt :: "string \<Rightarrow> Backend \<Rightarrow> Backend" where
  "MarkStmt hash b = b\<lparr>deployedStmts := List.insert hash (deployedStmts b)\<rparr>"

definition Backend_read :: "(Backend, msg) prog" where
  "Backend_read = zoomP b_conn (\<lambda>k b. b\<lparr>b_conn := k\<rparr>) conn_read"

definition Backend_write :: "msg \<Rightarrow> (Backend, unit) prog" where
  "Backend_write m = zoomP b_conn (\<lambda>k b. b\<lparr>b_conn := k\<rparr>) (backend_write m)"

text \<open>The number of messages still to be read bounds every loop that reads until
  \<open>ReadyForQuery\<close>.\<close>

abbreviation backend_fuel :: "Backend \<Rightarrow> nat" where
  "backend_fuel b \<equiv> Suc (length (c_in (b_conn b)))"

definition key_data :: "bytes \<Rightarrow> Backend \<Rightarrow> Backend" where
  "key_data body b =
     (if length body \<ge> 8
      then SetSecretKey (Uint32 (drop 4 body)) (SetProcessID (Uint32 body) b) else b)"

section \<open>Lemmas\<close>

lemma Client_read_Cons [simp]:
  "\<not> c_closed (cl_conn c) \<Longrightarrow> c_in (cl_conn c) = m # ms \<Longrightarrow>
     Client_read c = (Ok m, c\<lparr>cl_conn := cl_conn c\<lparr>c_in := ms\<rparr>\<rparr>)"
  by (simp add: Client_read_def zoomP_def)

lemma Client_read_Nil [simp]:
  "\<not> c_closed (cl_conn c) \<Longrightarrow> c_in (cl_conn c) = [] \<Longrightarrow> Client_read c = (Err (c_end (cl_conn c)), c)"
  by (simp add: Client_read_def zoomP_def conn_read_def)

lemma Client_write_sound [simp]:
  "sound_conn (cl_conn c) \<Longrightarrow> int (length (snd m)) \<le> c_max (cl_conn c) \<Longrightarrow>
     Client_write m c =
       (Ok (), mirror m (c\<lparr>cl_conn := cl_conn c\<lparr>c_out := c_out (cl_conn c) @ [m]\<rparr>, msgsSent := msgsSent c + 1\<rparr>))"
  by (simp add: Client_write_def client_write_sound)

lemma Backend_read_Cons [simp]:
  "\<not> c_closed (b_conn b) \<Longrightarrow> c_in (b_conn b) = m # ms \<Longrightarrow>
     Backend_read b = (Ok m, b\<lparr>b_conn := b_conn b\<lparr>c_in := ms\<rparr>\<rparr>)"
  by (simp add: Backend_read_def zoomP_def)

lemma Backend_write_sound [simp]:
  "sound_conn (b_conn b) \<Longrightarrow> int (length (snd m)) \<le> c_max (b_conn b) \<Longrightarrow>
     Backend_write m b = (Ok (), b\<lparr>b_conn := b_conn b\<lparr>c_out := c_out (b_conn b) @ [m]\<rparr>\<rparr>)"
  by (simp add: Backend_write_def zoomP_def backend_write_sound)

lemma Client_write_cases:
  assumes "Client_write m c = (r, c')"
  obtains (ok) k where "r = Ok ()" "c' = mirror m (c\<lparr>cl_conn := k, msgsSent := msgsSent c + 1\<rparr>)"
      "c_out k = c_out (cl_conn c) @ [m]" "c_in k = c_in (cl_conn c)"
  | (err) e where "r = Err e" "c' = c"
  using assms write_cases(1) [of m "cl_conn c"]
  by (auto simp: Client_write_def split: prod.splits res.splits)

lemma Client_read_cases:
  assumes "Client_read c = (r, c')"
  obtains (ok) m where "r = Ok m" "c_in (cl_conn c) = m # c_in (cl_conn c')" "c_out (cl_conn c') = c_out (cl_conn c)"
  | (err) e where "r = Err e" "c' = c"
  using assms conn_read_cases [of "cl_conn c"]
  by (auto simp: Client_read_def zoomP_def split: prod.splits)

lemma Backend_read_cases:
  assumes "Backend_read b = (r, b')"
  obtains (ok) m k where "r = Ok m" "c_in (b_conn b) = m # c_in k" "c_out k = c_out (b_conn b)" "b' = b\<lparr>b_conn := k\<rparr>"
  | (err) e where "r = Err e" "b' = b"
  using assms conn_read_cases [of "b_conn b"]
  by (auto simp: Backend_read_def zoomP_def split: prod.splits)

lemma Backend_write_cases:
  assumes "Backend_write m b = (r, b')"
  obtains (ok) k where "r = Ok ()" "c_out k = c_out (b_conn b) @ [m]" "c_in k = c_in (b_conn b)" "b' = b\<lparr>b_conn := k\<rparr>"
  | (err) e where "r = Err e" "b' = b"
  using assms write_cases(2) [of m "b_conn b"]
  by (auto simp: Backend_write_def zoomP_def split: prod.splits)

lemma mirror_simps [simp]:
  "cl_conn (mirror m c) = cl_conn c" "cl_addr (mirror m c) = cl_addr c" "cl_backend (mirror m c) = cl_backend c"
  "authenticated (mirror m c) = authenticated c" "database (mirror m c) = database c"
  "user (mirror m c) = user c" "inTransaction (mirror m c) = inTransaction c"
  "namedStmts (mirror m c) = namedStmts c" "listenChannels (mirror m c) = listenChannels c"
  "isListening (mirror m c) = isListening c" "stmtNameMap (mirror m c) = stmtNameMap c"
  "pendingListens (mirror m c) = pendingListens c" "cancelPID (mirror m c) = cancelPID c"
  "cancelSecret (mirror m c) = cancelSecret c" "activeBackend (mirror m c) = activeBackend c"
  "msgsSent (mirror m c) = msgsSent c"
  by (simp_all add: mirror_def split: list.split)

lemma mirror_R [simp]: "mirror (CHR ''R'', b) c = c"
  by (simp add: mirror_def)

lemma Client_write_Ok: "Client_write m c = (Ok x, c') \<Longrightarrow> c_in (cl_conn c') = c_in (cl_conn c) \<and> c_out (cl_conn c') = c_out (cl_conn c) @ [m]"
  by (auto elim: Client_write_cases)

lemma Client_write_not: "Client_write m c \<noteq> (Panic, c')" "Client_write m c \<noteq> (Blocked, c')"
  by (auto elim: Client_write_cases)

lemma Client_read_Ok: "Client_read c = (Ok m, c') \<longleftrightarrow> (\<exists>t b ms. m = (t,b) \<and> c_in (cl_conn c) = (t,b) # ms \<and> \<not> c_closed (cl_conn c) \<and> c' = c\<lparr>cl_conn := (cl_conn c)\<lparr>c_in := ms\<rparr>\<rparr>)"
  by (cases m) (auto simp: Client_read_def zoomP_def conn_read_def split: if_splits list.splits)

lemma Client_read_not: "Client_read c \<noteq> (Panic, c')" "Client_read c \<noteq> (Blocked, c')"
  by (auto elim: Client_read_cases)

lemma Backend_read_Ok:
  "Backend_read b = (Ok m, b') \<longleftrightarrow>
     (\<exists>ms. c_in (b_conn b) = m # ms \<and> \<not> c_closed (b_conn b) \<and> b' = b\<lparr>b_conn := (b_conn b)\<lparr>c_in := ms\<rparr>\<rparr>)"
  by (cases m) (auto simp: Backend_read_def zoomP_def conn_read_def split: if_splits list.splits)

lemma Backend_read_not: "Backend_read b \<noteq> (Panic, b')" "Backend_read b \<noteq> (Blocked, b')"
  by (auto elim: Backend_read_cases)

lemma Backend_write_Ok:
  "Backend_write m b = (Ok x, b') \<Longrightarrow> c_in (b_conn b') = c_in (b_conn b) \<and> c_out (b_conn b') = c_out (b_conn b) @ [m]"
  by (auto elim: Backend_write_cases)

lemma key_data_conn [simp]: "b_conn (key_data body b) = b_conn b"
  by (simp add: key_data_def SetSecretKey_def SetProcessID_def)

end
