(* ===== verification/Pgfox_Crypto.thy ===== *)
theory Pgfox_Crypto
  imports Pgfox_Prelude
begin

text \<open>
  The standard-library functions the authentication and statement-hash code calls:
  \<open>crypto/sha256\<close> (FIPS 180-4), \<open>crypto/hmac\<close> with SHA-256 (RFC 2104),
  \<open>encoding/base64.StdEncoding\<close> and \<open>strconv.Atoi\<close> on the digit strings that occur, all
  executable, with the facts the clients need: digests have 32 bytes, decoding undoes encoding,
  exclusive-or cancels.
\<close>

section \<open>SHA-256\<close>

definition sha_K :: "32 word list" where
  "sha_K =
    [0x428a2f98, 0x71374491, 0xb5c0fbcf, 0xe9b5dba5, 0x3956c25b, 0x59f111f1, 0x923f82a4, 0xab1c5ed5,
     0xd807aa98, 0x12835b01, 0x243185be, 0x550c7dc3, 0x72be5d74, 0x80deb1fe, 0x9bdc06a7, 0xc19bf174,
     0xe49b69c1, 0xefbe4786, 0x0fc19dc6, 0x240ca1cc, 0x2de92c6f, 0x4a7484aa, 0x5cb0a9dc, 0x76f988da,
     0x983e5152, 0xa831c66d, 0xb00327c8, 0xbf597fc7, 0xc6e00bf3, 0xd5a79147, 0x06ca6351, 0x14292967,
     0x27b70a85, 0x2e1b2138, 0x4d2c6dfc, 0x53380d13, 0x650a7354, 0x766a0abb, 0x81c2c92e, 0x92722c85,
     0xa2bfe8a1, 0xa81a664b, 0xc24b8b70, 0xc76c51a3, 0xd192e819, 0xd6990624, 0xf40e3585, 0x106aa070,
     0x19a4c116, 0x1e376c08, 0x2748774c, 0x34b0bcb5, 0x391c0cb3, 0x4ed8aa4a, 0x5b9cca4f, 0x682e6ff3,
     0x748f82ee, 0x78a5636f, 0x84c87814, 0x8cc70208, 0x90befffa, 0xa4506ceb, 0xbef9a3f7, 0xc67178f2]"

record sha_state =
  sA :: "32 word"
  sB :: "32 word"
  sC :: "32 word"
  sD :: "32 word"
  sE :: "32 word"
  sF :: "32 word"
  sG :: "32 word"
  sH :: "32 word"

definition sha_init :: sha_state where
  "sha_init = \<lparr>sA = 0x6a09e667, sB = 0xbb67ae85, sC = 0x3c6ef372, sD = 0xa54ff53a,
               sE = 0x510e527f, sF = 0x9b05688c, sG = 0x1f83d9ab, sH = 0x5be0cd19\<rparr>"

text \<open>Rotation to the right of a 32-bit word.\<close>

definition rotr32 :: "nat \<Rightarrow> 32 word \<Rightarrow> 32 word" where
  "rotr32 n x = drop_bit n x OR push_bit (32 - n) x"

definition big_sigma0 :: "32 word \<Rightarrow> 32 word" where
  "big_sigma0 x = rotr32 2 x XOR rotr32 13 x XOR rotr32 22 x"

definition big_sigma1 :: "32 word \<Rightarrow> 32 word" where
  "big_sigma1 x = rotr32 6 x XOR rotr32 11 x XOR rotr32 25 x"

definition small_sigma0 :: "32 word \<Rightarrow> 32 word" where
  "small_sigma0 x = rotr32 7 x XOR rotr32 18 x XOR drop_bit 3 x"

definition small_sigma1 :: "32 word \<Rightarrow> 32 word" where
  "small_sigma1 x = rotr32 17 x XOR rotr32 19 x XOR drop_bit 10 x"

definition sha_round :: "32 word \<times> 32 word \<Rightarrow> sha_state \<Rightarrow> sha_state" where
  "sha_round kw s =
     (let ch = (sE s AND sF s) XOR (NOT (sE s) AND sG s);
          maj = (sA s AND sB s) XOR (sA s AND sC s) XOR (sB s AND sC s);
          t1 = sH s + big_sigma1 (sE s) + ch + fst kw + snd kw;
          t2 = big_sigma0 (sA s) + maj
      in \<lparr>sA = t1 + t2, sB = sA s, sC = sB s, sD = sC s, sE = sD s + t1, sF = sE s, sG = sF s, sH = sG s\<rparr>)"

text \<open>The message schedule: \<open>n\<close> further words after the given ones (kept in reverse).\<close>

fun sha_extend :: "nat \<Rightarrow> 32 word list \<Rightarrow> 32 word list" where
  "sha_extend 0 ws = ws"
| "sha_extend (Suc n) ws =
     sha_extend n ((small_sigma1 (ws ! 1) + ws ! 6 + small_sigma0 (ws ! 14) + ws ! 15) # ws)"

fun sha_words :: "bytes \<Rightarrow> 32 word list" where
  "sha_words (a # b # c # d # bs) = Uint32 [a, b, c, d] # sha_words bs"
| "sha_words _ = []"

definition sha_block :: "bytes \<Rightarrow> sha_state \<Rightarrow> sha_state" where
  "sha_block blk s =
     (let w = rev (sha_extend 48 (rev (sha_words blk)));
          t = fold sha_round (zip sha_K w) s
      in \<lparr>sA = sA s + sA t, sB = sB s + sB t, sC = sC s + sC t, sD = sD s + sD t,
          sE = sE s + sE t, sF = sF s + sF t, sG = sG s + sG t, sH = sH s + sH t\<rparr>)"

definition sha_pad :: "bytes \<Rightarrow> bytes" where
  "sha_pad m =
     (let n = length m; z = (119 - n mod 64) mod 64
      in m @ CHR 0x80 # replicate z NUL @
         PutUint32 (of_nat (8 * n div 2 ^ 32)) @ PutUint32 (of_nat (8 * n)))"

function sha_blocks :: "bytes \<Rightarrow> sha_state \<Rightarrow> sha_state" where
  "sha_blocks m s = (if m = [] then s else sha_blocks (drop 64 m) (sha_block (take 64 m) s))"
  by pat_completeness auto
termination
  by (relation "measure (\<lambda>(m, s). length m)") auto

declare sha_blocks.simps [simp del]

definition sha256 :: "bytes \<Rightarrow> bytes" where
  "sha256 m =
     (let s = sha_blocks (sha_pad m) sha_init
      in PutUint32 (sA s) @ PutUint32 (sB s) @ PutUint32 (sC s) @ PutUint32 (sD s) @
         PutUint32 (sE s) @ PutUint32 (sF s) @ PutUint32 (sG s) @ PutUint32 (sH s))"

section \<open>Exclusive or and HMAC\<close>

definition byte_xor :: "byte \<Rightarrow> byte \<Rightarrow> byte" where
  "byte_xor a b = byte_of (word_of a XOR word_of b :: 8 word)"

definition hmac_sha256 :: "bytes \<Rightarrow> bytes \<Rightarrow> bytes" where
  "hmac_sha256 key data =
     (let k = (if length key > 64 then sha256 key else key);
          k = k @ replicate (64 - length k) NUL
      in sha256 (map (byte_xor (CHR 0x5C)) k @ sha256 (map (byte_xor (CHR 0x36)) k @ data)))"

section \<open>Base64\<close>

text \<open>The standard alphabet: letters, digits, \<open>+\<close> and \<open>/\<close>.\<close>

definition b64_char :: "nat \<Rightarrow> byte" where
  "b64_char n =
     (if n < 26 then char_of (n + 65) else if n < 52 then char_of (n + 71)
      else if n < 62 then char_of (n - 4) else if n = 62 then CHR ''+'' else CHR ''/'')"

definition b64_val :: "byte \<Rightarrow> nat option" where
  "b64_val c =
     (let n = of_char c :: nat
      in if 65 \<le> n \<and> n \<le> 90 then Some (n - 65)
         else if 97 \<le> n \<and> n \<le> 122 then Some (n - 71)
         else if 48 \<le> n \<and> n \<le> 57 then Some (n + 4)
         else if c = CHR ''+'' then Some 62
         else if c = CHR ''/'' then Some 63
         else None)"

fun b64_encode :: "bytes \<Rightarrow> string" where
  "b64_encode [] = []"
| "b64_encode [a] =
     (let x = of_char a in [b64_char (x div 4), b64_char (x mod 4 * 16), CHR ''='', CHR ''=''])"
| "b64_encode [a, b] =
     (let x = of_char a; y = of_char b
      in [b64_char (x div 4), b64_char (x mod 4 * 16 + y div 16), b64_char (y mod 16 * 4), CHR ''=''])"
| "b64_encode (a # b # c # t) =
     (let x = of_char a; y = of_char b; z = of_char c
      in [b64_char (x div 4), b64_char (x mod 4 * 16 + y div 16),
          b64_char (y mod 16 * 4 + z div 64), b64_char (z mod 64)] @ b64_encode t)"

text \<open>One quantum of four characters; \<open>None\<close> is \<open>CorruptInputError\<close>. Padding may only
  end the input.\<close>

fun b64_quanta :: "string \<Rightarrow> bytes option" where
  "b64_quanta [] = Some []"
| "b64_quanta (p # q # r # s # t) =
     (case (b64_val p, b64_val q) of
        (Some w, Some x) \<Rightarrow>
          if r = CHR ''='' then
            (if s = CHR ''='' \<and> t = [] then Some [char_of (w * 4 + x div 16)] else None)
          else
            (case b64_val r of
               None \<Rightarrow> None
             | Some y \<Rightarrow>
                 if s = CHR ''='' then
                   (if t = [] then Some [char_of (w * 4 + x div 16), char_of (x mod 16 * 16 + y div 4)] else None)
                 else
                   (case (b64_val s, b64_quanta t) of
                      (Some z, Some bs) \<Rightarrow>
                        Some (char_of (w * 4 + x div 16) # char_of (x mod 16 * 16 + y div 4) #
                              char_of (y mod 4 * 64 + z) # bs)
                    | _ \<Rightarrow> None))
      | _ \<Rightarrow> None)"
| "b64_quanta _ = None"

text \<open>\<open>DecodeString\<close> skips carriage returns and newlines anywhere.\<close>

definition b64_decode :: "string \<Rightarrow> bytes option" where
  "b64_decode s = b64_quanta (filter (\<lambda>c. c \<noteq> CHR 0x0D \<and> c \<noteq> CHR 0x0A) s)"

section \<open>Numbers\<close>

text \<open>\<open>strconv.Atoi\<close>: an optional sign and at least one digit, in the range of a 64-bit
  \<open>int\<close>.\<close>

definition digit_val :: "byte \<Rightarrow> nat option" where
  "digit_val c = (let n = of_char c :: nat in if 48 \<le> n \<and> n \<le> 57 then Some (n - 48) else None)"

fun atoi_digits :: "nat \<Rightarrow> string \<Rightarrow> nat option" where
  "atoi_digits acc [] = Some acc"
| "atoi_digits acc (c # cs) =
     (case digit_val c of None \<Rightarrow> None | Some d \<Rightarrow> atoi_digits (10 * acc + d) cs)"

definition Atoi :: "string \<Rightarrow> int option" where
  "Atoi s =
     (let neg = (case s of c # _ \<Rightarrow> c = CHR ''-'' | [] \<Rightarrow> False);
          ds = (case s of c # t \<Rightarrow> if c = CHR ''-'' \<or> c = CHR ''+'' then t else s | [] \<Rightarrow> [])
      in if ds = [] then None
         else case atoi_digits 0 ds of
                None \<Rightarrow> None
              | Some n \<Rightarrow> (let i = (if neg then - int n else int n)
                          in if - (2 ^ 63) \<le> i \<and> i < 2 ^ 63 then Some i else None))"

section \<open>Lemmas\<close>

lemma length_sha256 [simp]: "length (sha256 m) = 32"
  by (simp add: sha256_def Let_def)

lemma length_hmac [simp]: "length (hmac_sha256 k d) = 32"
  by (simp add: hmac_sha256_def Let_def)

lemma byte_xor_cancel [simp]: "byte_xor (byte_xor a b) b = a"
proof -
  have w: "(word_of (byte_of w) :: 8 word) = w" for w :: "8 word"
    using take_bit_length_eq [of w] by (simp add: word_of_byte_of)
  show ?thesis by (simp add: byte_xor_def w xor.assoc)
qed

lemma byte_xor_commute: "byte_xor a b = byte_xor b a"
  by (simp add: byte_xor_def xor.commute)

subsection \<open>Base64\<close>

lemma of_char_lt [simp]: "(of_char c :: nat) < 256"
  by simp

lemma of_b64_char:
  assumes "n < 64"
  shows "(of_char (b64_char n) :: nat) =
    (if n < 26 then n + 65 else if n < 52 then n + 71 else if n < 62 then n - 4 else if n = 62 then 43 else 47)"
  using assms by (simp add: b64_char_def)

lemma b64_val_char [simp]:
  assumes "n < 64"
  shows "b64_val (b64_char n) = Some n"
proof -
  from assms consider "n < 26" | "26 \<le> n" "n < 52" | "52 \<le> n" "n < 62" | "n = 62" | "n = 63"
    by linarith
  then show ?thesis
    by cases (simp_all add: b64_val_def of_b64_char Let_def, auto simp: b64_char_def)
qed

lemma b64_char_range:
  assumes "n < 64"
  shows "(of_char (b64_char n) :: nat) \<in> {43} \<union> {47..57} \<union> {65..90} \<union> {97..122}"
  using assms by (auto simp: of_b64_char)

lemma b64_char_neq [simp]:
  assumes "n < 64"
  shows "b64_char n \<noteq> CHR ''=''" "b64_char n \<noteq> CHR '',''" "b64_char n \<noteq> CHR 0x0D" "b64_char n \<noteq> CHR 0x0A"
  using b64_char_range [OF assms] by auto

lemma b64_bounds [simp]:
  fixes x y z :: nat
  shows "x < 256 \<Longrightarrow> x div 4 < 64" "x mod 4 * 16 < 64" "y < 256 \<Longrightarrow> x mod 4 * 16 + y div 16 < 64"
    "y mod 16 * 4 < 64" "z < 256 \<Longrightarrow> y mod 16 * 4 + z div 64 < 64" "z mod 64 < 64"
proof -
  show "x < 256 \<Longrightarrow> x div 4 < 64" by simp
  have "x mod 4 < 4" "y mod 16 < 16" by simp_all
  then show "x mod 4 * 16 < 64" "y mod 16 * 4 < 64" by linarith+
  show "y < 256 \<Longrightarrow> x mod 4 * 16 + y div 16 < 64"
    using \<open>x mod 4 < 4\<close> by (simp add: less_mult_imp_div_less)
  show "z < 256 \<Longrightarrow> y mod 16 * 4 + z div 64 < 64"
    using \<open>y mod 16 < 16\<close> by (simp add: less_mult_imp_div_less)
qed simp

lemma b64_join [simp]:
  fixes x :: nat
  assumes "x < 256"
  shows "x div 16 div 16 = 0" "x div 16 mod 16 * 16 + x mod 16 = x"
    "x div 64 div 4 = 0" "x div 64 mod 4 * 64 + x mod 64 = x"
proof -
  show "x div 16 div 16 = 0" "x div 64 div 4 = 0" using assms by (simp_all flip: div_mult2_eq)
  have "x div 16 < 16" "x div 64 < 4" using assms by simp_all
  then show "x div 16 mod 16 * 16 + x mod 16 = x" "x div 64 mod 4 * 64 + x mod 64 = x"
    by (simp_all only: mod_less div_mult_mod_eq)
qed

lemma b64_quanta_encode: "b64_quanta (b64_encode bs) = Some bs"
  by (induction bs rule: b64_encode.induct) (simp_all add: Let_def)

lemma b64_encode_chars:
  assumes "c \<in> set (b64_encode bs)"
  shows "c \<noteq> CHR '',''" and "c \<noteq> CHR 0x0D" and "c \<noteq> CHR 0x0A"
proof -
  have "c \<noteq> CHR '','' \<and> c \<noteq> CHR 0x0D \<and> c \<noteq> CHR 0x0A"
    using assms by (induction bs rule: b64_encode.induct) (auto simp: Let_def)
  then show "c \<noteq> CHR '',''" and "c \<noteq> CHR 0x0D" and "c \<noteq> CHR 0x0A" by blast+
qed

lemma b64_roundtrip [simp]: "b64_decode (b64_encode bs) = Some bs"
proof -
  have "filter (\<lambda>c. c \<noteq> CHR 0x0D \<and> c \<noteq> CHR 0x0A) (b64_encode bs) = b64_encode bs"
    using b64_encode_chars by (auto intro: filter_True)
  then show ?thesis by (simp add: b64_decode_def b64_quanta_encode)
qed

subsection \<open>Decimal numbers\<close>

lemma digit_val_char [simp]: "d < 10 \<Longrightarrow> digit_val (digit_char d) = Some d"
  by (simp add: digit_val_def digit_char_def Let_def)

lemma atoi_digits_append:
  "atoi_digits acc (s @ t) = (case atoi_digits acc s of None \<Rightarrow> None | Some n \<Rightarrow> atoi_digits n t)"
  by (induction s arbitrary: acc) (auto split: option.splits)

lemma atoi_fmt_nat: "atoi_digits 0 (fmt_nat n) = Some n"
proof (induction n rule: fmt_nat.induct)
  case (1 n)
  then show ?case
    by (cases "n < 10") (simp_all add: fmt_nat.simps [of n] atoi_digits_append)
qed

lemma fmt_nat_digits: "c \<in> set (fmt_nat n) \<Longrightarrow> 48 \<le> (of_char c :: nat) \<and> (of_char c :: nat) \<le> 57"
proof (induction n rule: fmt_nat.induct)
  case (1 n)
  then show ?case
    by (cases "n < 10") (auto simp: fmt_nat.simps [of n] digit_char_def)
qed

lemma fmt_nat_nonempty [simp]: "fmt_nat n \<noteq> []"
  by (simp add: fmt_nat.simps [of n])

lemma Atoi_fmt_nat: "n < 2 ^ 63 \<Longrightarrow> Atoi (fmt_nat n) = Some (int n)"
proof -
  assume n: "n < 2 ^ 63"
  obtain c t where ct: "fmt_nat n = c # t" by (cases "fmt_nat n") auto
  then have "48 \<le> (of_char c :: nat)" using fmt_nat_digits [of c n] by simp
  then have "c \<noteq> CHR ''-''" "c \<noteq> CHR ''+''" by auto
  with n atoi_fmt_nat [of n] ct show ?thesis
    by (auto simp: Atoi_def Let_def)
qed

end
