(* ===== verification/Pgfox_Auth.thy ===== *)
theory Pgfox_Auth
  imports Pgfox_Endpoints Pgfox_Crypto
begin

text \<open>
  SCRAM-SHA-256: the client side and the verifier format of \<open>src/pkg/auth/auth.go\<close>, the server
  side \<open>handleClientSCRAM\<close> of \<open>startup.go\<close> with its parsing helpers, and
  \<open>Backend.HandleSCRAMAuth\<close>, the client exchange over a backend connection. Hashing, HMAC and
  base64 are those of \<open>Pgfox_Crypto\<close>; \<open>golang.org/x/crypto/pbkdf2\<close> is the parameter \<open>pbkdf2\<close>
  (password, salt, iterations, key length), about which nothing is assumed; the random bytes of
  \<open>crypto/rand\<close> are arguments. The texts of the errors of \<open>base64\<close> and \<open>strconv\<close> are
  abbreviated.
\<close>

type_synonym kdf = "bytes \<Rightarrow> bytes \<Rightarrow> int \<Rightarrow> nat \<Rightarrow> bytes"

section \<open>Strings\<close>

text \<open>\<open>strings.SplitN(s, sep, 2)\<close>, when the separator occurs; \<open>strings.LastIndex\<close>.\<close>

definition str_cut :: "byte \<Rightarrow> string \<Rightarrow> (string \<times> string) option" where
  "str_cut sep s =
     (if sep \<in> set s then Some (takeWhile (\<lambda>c. c \<noteq> sep) s, drop 1 (dropWhile (\<lambda>c. c \<noteq> sep) s)) else None)"

fun str_last_index :: "string \<Rightarrow> string \<Rightarrow> nat option" where
  "str_last_index [] p = (if p = [] then Some 0 else None)"
| "str_last_index (c # s) p =
     (case str_last_index s p of
        Some i \<Rightarrow> Some (Suc i)
      | None \<Rightarrow> if has_prefix (c # s) p then Some 0 else None)"

definition base64_decode :: "string \<Rightarrow> goerr + bytes" where
  "base64_decode s = (case b64_decode s of None \<Rightarrow> Inl (Errorf ''illegal base64 data'') | Some b \<Rightarrow> Inr b)"

definition strconv_Atoi :: "string \<Rightarrow> goerr + int" where
  "strconv_Atoi s = (case Atoi s of None \<Rightarrow> Inl (Errorf ''strconv.Atoi: parsing'') | Some i \<Rightarrow> Inr i)"

section \<open>The client side (auth.go)\<close>

record SCRAMAuth =
  sa_username :: string
  sa_password :: string
  clientNonce :: string
  serverNonce :: string
  salt :: bytes
  iterations :: int
  clientFirstMsg :: string
  serverFirstMsg :: string
  authMessage :: string

text \<open>\<open>rnd\<close>: the 24 bytes of \<open>rand.Read\<close>.\<close>

definition NewSCRAMAuth :: "bytes \<Rightarrow> string \<Rightarrow> string \<Rightarrow> SCRAMAuth" where
  "NewSCRAMAuth rnd usr pw =
     \<lparr>sa_username = usr, sa_password = pw, clientNonce = b64_encode rnd, serverNonce = [], salt = [],
      iterations = 0, clientFirstMsg = [], serverFirstMsg = [], authMessage = []\<rparr>"

definition BuildInitialResponse :: "SCRAMAuth \<Rightarrow> bytes \<times> SCRAMAuth" where
  "BuildInitialResponse s =
     (let cfm = ''n='' @ sa_username s @ '',r='' @ clientNonce s
      in (''n,,'' @ cfm, s\<lparr>clientFirstMsg := cfm\<rparr>))"

text \<open>\<open>xor\<close> and \<open>scramXOR\<close>: indexing the second argument panics when it is the shorter one.\<close>

definition scramXOR :: "bytes \<Rightarrow> bytes \<Rightarrow> bytes option" where
  "scramXOR a b = (if length a \<le> length b then Some (map2 byte_xor a b) else None)"

definition buildClientFinal :: "kdf \<Rightarrow> (SCRAMAuth, bytes) prog" where
  "buildClientFinal pbkdf2 s =
     (let clientFinalWithoutProof = ''c=biws'' @ '',r='' @ serverNonce s;
          am = clientFirstMsg s @ '','' @ serverFirstMsg s @ '','' @ clientFinalWithoutProof;
          saltedPassword = pbkdf2 (sa_password s) (salt s) (iterations s) 32;
          clientKey = hmac_sha256 saltedPassword ''Client Key'';
          storedKey = sha256 clientKey;
          clientSignature = hmac_sha256 storedKey am
      in case scramXOR clientKey clientSignature of
           None \<Rightarrow> (Panic, s\<lparr>authMessage := am\<rparr>)
         | Some clientProof \<Rightarrow>
             (Ok (clientFinalWithoutProof @ '',p='' @ b64_encode clientProof), s\<lparr>authMessage := am\<rparr>))"

definition ProcessServerFirst :: "kdf \<Rightarrow> bytes \<Rightarrow> (SCRAMAuth, bytes) prog" where
  "ProcessServerFirst pbkdf2 serverResponse =
     thenP (modifyP (\<lambda>s. s\<lparr>serverFirstMsg := serverResponse\<rparr>))
       (case str_split (CHR '','') serverResponse of
          [p0, p1, p2] \<Rightarrow>
            if \<not> has_prefix p0 ''r='' then failP (Errorf ''invalid server nonce'')
            else thenP (modifyP (\<lambda>s. s\<lparr>serverNonce := drop 2 p0\<rparr>)) (bindP (getP clientNonce) (\<lambda>cn.
              if \<not> has_prefix (drop 2 p0) cn then failP (Errorf ''server nonce doesn't contain client nonce'')
              else if \<not> has_prefix p1 ''s='' then failP (Errorf ''invalid salt'')
              else wrapP ''failed to decode salt'' (liftP (base64_decode (drop 2 p1))) (\<lambda>sl.
                thenP (modifyP (\<lambda>s. s\<lparr>salt := sl\<rparr>))
                  (if \<not> has_prefix p2 ''i='' then failP (Errorf ''invalid iterations'')
                   else wrapP ''failed to parse iterations'' (liftP (strconv_Atoi (drop 2 p2))) (\<lambda>it.
                     thenP (modifyP (\<lambda>s. s\<lparr>iterations := it\<rparr>)) (buildClientFinal pbkdf2))))))
        | _ \<Rightarrow> failP (Errorf ''invalid server first message''))"

definition VerifyServerFinal :: "kdf \<Rightarrow> SCRAMAuth \<Rightarrow> bytes \<Rightarrow> goerr + unit" where
  "VerifyServerFinal pbkdf2 s serverFinal =
     (if \<not> has_prefix serverFinal ''v='' then Inl (Errorf ''invalid server final message'')
      else case base64_decode (drop 2 serverFinal) of
             Inl e \<Rightarrow> Inl (Wrapf ''failed to decode server signature'' e)
           | Inr serverSignature \<Rightarrow>
               (let saltedPassword = pbkdf2 (sa_password s) (salt s) (iterations s) 32;
                    serverKey = hmac_sha256 saltedPassword ''Server Key'';
                    expected = hmac_sha256 serverKey (authMessage s)
                in if serverSignature \<noteq> expected then Inl (Errorf ''server signature verification failed'')
                   else Inr ()))"

text \<open>\<open>cur\<close> is \<open>data[start:i]\<close>.\<close>

fun mechanisms_loop :: "bytes \<Rightarrow> bytes \<Rightarrow> string list" where
  "mechanisms_loop cur [] = (if cur \<noteq> [] then [cur] else [])"
| "mechanisms_loop cur (c # cs) =
     (if c = NUL then (if cur \<noteq> [] then [cur] else []) @ mechanisms_loop [] cs
      else mechanisms_loop (cur @ [c]) cs)"

definition ParseSASLMechanisms :: "bytes \<Rightarrow> string list" where
  "ParseSASLMechanisms data = mechanisms_loop [] data"

section \<open>Verifiers (auth.go)\<close>

record SCRAMVerifier =
  Iterations :: int
  Salt :: bytes
  StoredKey :: bytes
  ServerKey :: bytes

definition verifier_prefix :: string where
  "verifier_prefix = ''SCRAM-SHA-256$''"

definition wrapS :: "string \<Rightarrow> goerr + 'a \<Rightarrow> ('a \<Rightarrow> goerr + 'b) \<Rightarrow> goerr + 'b" where
  "wrapS w r k = (case r of Inl e \<Rightarrow> Inl (Wrapf w e) | Inr x \<Rightarrow> k x)"

definition ParseSCRAMVerifier :: "string \<Rightarrow> goerr + SCRAMVerifier" where
  "ParseSCRAMVerifier rolpassword =
     (if \<not> has_prefix rolpassword verifier_prefix
      then Inl (Errorf ''not a SCRAM-SHA-256 verifier: unexpected prefix'')
      else case str_cut (CHR ''$'') (drop (length verifier_prefix) rolpassword) of
        None \<Rightarrow> Inl (Errorf ''invalid SCRAM verifier: missing $ separator'')
      | Some (p0, p1) \<Rightarrow>
          (case str_cut (CHR '':'') p0 of
             None \<Rightarrow> Inl (Errorf ''invalid SCRAM verifier: missing iterations:salt separator'')
           | Some (it, sl) \<Rightarrow>
               wrapS (''invalid SCRAM verifier: bad iterations '' @ it) (strconv_Atoi it) (\<lambda>its.
               wrapS ''invalid SCRAM verifier: bad salt base64'' (base64_decode sl) (\<lambda>slt.
               case str_cut (CHR '':'') p1 of
                 None \<Rightarrow> Inl (Errorf ''invalid SCRAM verifier: missing StoredKey:ServerKey separator'')
               | Some (k0, k1) \<Rightarrow>
                   wrapS ''invalid SCRAM verifier: bad StoredKey base64'' (base64_decode k0) (\<lambda>sk.
                   wrapS ''invalid SCRAM verifier: bad ServerKey base64'' (base64_decode k1) (\<lambda>svk.
                   Inr \<lparr>Iterations = its, Salt = slt, StoredKey = sk, ServerKey = svk\<rparr>))))))"

section \<open>The server side (startup.go)\<close>

definition parseSASLInitialResponse :: "bytes \<Rightarrow> goerr + string" where
  "parseSASLInitialResponse body =
     (if length body = 0 then Inl (Errorf ''empty SASLInitialResponse'')
      else case find_nul body of
        None \<Rightarrow> Inr body
      | Some nullIdx \<Rightarrow>
          if int nullIdx < int (length body) - 5 then
            (let pos = nullIdx + 1
             in if pos + 4 > length body then Inl (Errorf ''truncated SASLInitialResponse'')
                else let msgLen = sint (Uint32 (drop pos body)); pos = pos + 4
                     in if msgLen < 0 then Inl (Errorf ''empty client-first-message'')
                        else if int pos + msgLen > int (length body) then Inl (Errorf ''truncated client-first-message'')
                        else Inr (take (nat msgLen) (drop pos body)))
          else Inr body)"

definition extractClientFirstBare :: "string \<Rightarrow> goerr + string" where
  "extractClientFirstBare clientFirst =
     (case str_index clientFirst '',,'' of
        None \<Rightarrow> Inl (Errorf ''no GS2 header in client-first-message'')
      | Some idx \<Rightarrow> Inr (drop (idx + 2) clientFirst))"

fun nonce_part :: "string list \<Rightarrow> string option" where
  "nonce_part [] = None"
| "nonce_part (part # parts) = (if has_prefix part ''r='' then Some (drop 2 part) else nonce_part parts)"

definition extractNonce :: "string \<Rightarrow> goerr + string" where
  "extractNonce m =
     (case nonce_part (str_split (CHR '','') m) of
        None \<Rightarrow> Inl (Errorf (''no nonce (r=) in: '' @ m))
      | Some n \<Rightarrow> Inr n)"

definition splitClientFinal :: "string \<Rightarrow> goerr + string \<times> string" where
  "splitClientFinal clientFinal =
     (case str_last_index clientFinal '',p='' of
        None \<Rightarrow> Inl (Errorf ''no proof (p=) in client-final-message'')
      | Some idx \<Rightarrow> Inr (take idx clientFinal, drop (idx + 3) clientFinal))"

text \<open>The body of an authentication request: its type in the fourth byte, then the data.\<close>

definition sasl_body :: "32 word \<Rightarrow> bytes \<Rightarrow> bytes" where
  "sasl_body t d = [NUL, NUL, NUL, byte_of t] @ d"

definition scram_mechanism :: string where
  "scram_mechanism = ''SCRAM-SHA-256''"

definition server_first :: "string \<Rightarrow> SCRAMVerifier \<Rightarrow> string" where
  "server_first nonce v = ''r='' @ nonce @ '',s='' @ b64_encode (Salt v) @ '',i='' @ fmt_int (Iterations v)"

text \<open>\<open>rnd\<close>: the outcome of \<open>rand.Read\<close> on the 18 bytes of the nonce.\<close>

definition handleClientSCRAM :: "goerr + bytes \<Rightarrow> SCRAMVerifier \<Rightarrow> (Client, unit) prog" where
  "handleClientSCRAM rnd verifier =
     wrapP ''failed to send AuthSASL''
       (Client_write (CHR ''R'', sasl_body AuthenticationSASL (scram_mechanism @ [NUL, NUL]))) (\<lambda>_.
     wrapP ''failed to read SASLInitialResponse'' Client_read (\<lambda>(msgType, body).
     if msgType \<noteq> CHR ''p'' then failP (Errorf (''expected SASLInitialResponse, got '' @ fmt_c msgType)) else
     wrapP ''bad SASLInitialResponse'' (liftP (parseSASLInitialResponse body)) (\<lambda>clientFirst.
     wrapP ''bad client-first-message'' (liftP (extractClientFirstBare clientFirst)) (\<lambda>clientFirstBare.
     wrapP ''failed to extract client nonce'' (liftP (extractNonce clientFirstBare)) (\<lambda>nonce.
     wrapP ''failed to generate server nonce'' (liftP rnd) (\<lambda>suffix.
     let serverFirst = server_first (nonce @ b64_encode suffix) verifier in
     wrapP ''failed to send AuthSASLContinue''
       (Client_write (CHR ''R'', sasl_body AuthenticationSASLContinue serverFirst)) (\<lambda>_.
     wrapP ''failed to read SASLResponse'' Client_read (\<lambda>(msgType, clientFinal).
     if msgType \<noteq> CHR ''p'' then failP (Errorf (''expected SASLResponse, got '' @ fmt_c msgType)) else
     wrapP ''bad client-final-message'' (liftP (splitClientFinal clientFinal)) (\<lambda>(withoutProof, proofB64).
     let am = clientFirstBare @ '','' @ serverFirst @ '','' @ withoutProof in
     wrapP ''bad client proof encoding'' (liftP (base64_decode proofB64)) (\<lambda>clientProof.
     let clientSig = hmac_sha256 (StoredKey verifier) am in
     (case scramXOR clientProof clientSig of
        None \<Rightarrow> panicP
      | Some clientKey \<Rightarrow>
          if sha256 clientKey \<noteq> StoredKey verifier then failP (Errorf ''client proof verification failed'')
          else let serverSig = hmac_sha256 (ServerKey verifier) am in
               wrapP ''failed to send AuthSASLFinal''
                 (Client_write (CHR ''R'', sasl_body AuthenticationSASLFinal (''v='' @ b64_encode serverSig)))
                 (\<lambda>_. returnP ()))))))))))))"

section \<open>The client exchange over a backend (backend.go)\<close>

definition resP :: "'a res \<Rightarrow> ('s, 'a) prog" where
  "resP r s = (r, s)"

definition sasl_initial :: "bytes \<Rightarrow> bytes" where
  "sasl_initial r = scram_mechanism @ NUL # PutUint32 (of_nat (length r)) @ r"

text \<open>One message of an authentication exchange: the data behind a given authentication type.\<close>

definition read_sasl :: "string \<Rightarrow> string \<Rightarrow> string \<Rightarrow> string \<Rightarrow> 32 word \<Rightarrow> (Backend, bytes) prog" where
  "read_sasl e_read e_fail e_short e_type want =
     wrapP e_read Backend_read (\<lambda>(msgType, body).
     if msgType = CHR ''E'' then failP (Errorf (e_fail @ ParseErrorMessage body))
     else if msgType \<noteq> CHR ''R'' then failP (Errorf (''expected authentication response, got '' @ fmt_c msgType))
     else if length body < 4 then failP (Errorf e_short)
     else if Uint32 body \<noteq> want then failP (Errorf (e_type @ fmt_nat (unat (Uint32 body))))
     else returnP (drop 4 body))"

text \<open>The loop after the exchange, up to \<open>ReadyForQuery\<close>; the state is the backend and
  \<open>authComplete\<close>.\<close>

definition post_scram :: "(Backend \<times> bool, unit option) prog" where
  "post_scram =
     wrapP ''failed to read post-SCRAM message'' (zoomP fst (\<lambda>b s. (b, snd s)) Backend_read) (\<lambda>(msgType, body).
     bindP (getP snd) (\<lambda>authComplete.
     if msgType = CHR ''R'' then
       (if length body \<ge> 4 \<and> Uint32 body = AuthenticationOK
        then thenP (modifyP (\<lambda>s. (fst s, True))) (returnP None)
        else failP (Errorf ''unexpected auth message after SCRAM''))
     else if msgType = CHR ''K'' then
       (if \<not> authComplete then failP (Errorf ''received BackendKeyData before AuthenticationOK'')
        else thenP (modifyP (\<lambda>s. (key_data body (fst s), snd s))) (returnP None))
     else if msgType = CHR ''S'' then
       (if \<not> authComplete then failP (Errorf ''received ParameterStatus before AuthenticationOK'')
        else returnP None)
     else if msgType = CHR ''Z'' then
       (if \<not> authComplete then failP (Errorf ''received ReadyForQuery before AuthenticationOK'')
        else returnP (Some ()))
     else if msgType = CHR ''E'' then failP (Errorf (''error after SCRAM: '' @ ParseErrorMessage body))
     else if msgType = CHR ''N'' then returnP None
     else failP (Errorf (''unexpected message type after SCRAM: '' @ fmt_c msgType))))"

definition await_ready :: "(Backend, unit) prog" where
  "await_ready b = (case loopP (backend_fuel b) post_scram (b, False) of (r, (b', _)) \<Rightarrow> (r, b'))"

definition HandleSCRAMAuth :: "kdf \<Rightarrow> bytes \<Rightarrow> string \<Rightarrow> string \<Rightarrow> bytes \<Rightarrow> (Backend, unit) prog" where
  "HandleSCRAMAuth pbkdf2 rnd usr pw saslData =
     (if scram_mechanism \<notin> set (ParseSASLMechanisms saslData)
      then failP (Errorf ''server does not support SCRAM-SHA-256'')
      else let (initialResponse, s1) = BuildInitialResponse (NewSCRAMAuth rnd usr pw) in
        wrapP ''failed to send SASL initial response'' (Backend_write (CHR ''p'', sasl_initial initialResponse)) (\<lambda>_.
        bindP (read_sasl ''failed to read SASL continue'' ''SCRAM authentication failed: ''
                 ''invalid SASL continue response'' ''expected SASL continue, got auth type ''
                 AuthenticationSASLContinue) (\<lambda>serverFirst.
        let (r, s2) = ProcessServerFirst pbkdf2 serverFirst s1 in
        wrapP ''failed to process server first'' (resP r) (\<lambda>clientFinal.
        wrapP ''failed to send client final'' (Backend_write (CHR ''p'', clientFinal)) (\<lambda>_.
        bindP (read_sasl ''failed to read server final'' ''SCRAM final authentication failed: ''
                 ''invalid server final response'' ''expected SASL final, got auth type ''
                 AuthenticationSASLFinal) (\<lambda>serverFinal.
        wrapP ''server verification failed'' (liftP (VerifyServerFinal pbkdf2 s2 serverFinal)) (\<lambda>_.
        await_ready)))))))"

section \<open>Lemmas\<close>

definition client_signature_key :: "kdf \<Rightarrow> string \<Rightarrow> bytes \<Rightarrow> int \<Rightarrow> bytes" where
  "client_signature_key pbkdf2 pw slt it = hmac_sha256 (pbkdf2 pw slt it 32) ''Client Key''"

definition make_verifier :: "kdf \<Rightarrow> string \<Rightarrow> bytes \<Rightarrow> int \<Rightarrow> SCRAMVerifier" where
  "make_verifier pbkdf2 pw slt it =
     \<lparr>Iterations = it, Salt = slt, StoredKey = sha256 (client_signature_key pbkdf2 pw slt it),
      ServerKey = hmac_sha256 (pbkdf2 pw slt it 32) ''Server Key''\<rparr>"

lemma fmt_nat_no_comma: "CHR '','' \<notin> set (fmt_nat n)"
  using fmt_nat_digits [of "CHR '',''" n] by auto

lemma b64_no_comma [simp]: "CHR '','' \<notin> set (b64_encode bs)"
  using b64_encode_chars(1) by blast

lemma base64_roundtrip [simp]: "base64_decode (b64_encode bs) = Inr bs"
  by (simp add: base64_decode_def)

lemma fmt_int_nonneg: "0 \<le> i \<Longrightarrow> fmt_int i = fmt_nat (nat i)"
  by (simp add: fmt_int_def)

lemma Atoi_fmt_int: "0 \<le> i \<Longrightarrow> i < 2 ^ 63 \<Longrightarrow> strconv_Atoi (fmt_int i) = Inr i"
  by (simp add: strconv_Atoi_def fmt_int_nonneg Atoi_fmt_nat)

lemma split_server_first:
  assumes "CHR '','' \<notin> set nonce" "0 \<le> Iterations v"
  shows "str_split (CHR '','') (server_first nonce v) =
    [''r='' @ nonce, ''s='' @ b64_encode (Salt v), ''i='' @ fmt_int (Iterations v)]"
proof -
  have 1: "str_split (CHR '','') (''i='' @ fmt_int (Iterations v)) = [''i='' @ fmt_int (Iterations v)]"
    using fmt_nat_no_comma assms(2) by (intro str_split_no_sep) (simp add: fmt_int_nonneg)
  have 2: "str_split (CHR '','') ((''s='' @ b64_encode (Salt v)) @ CHR '','' # (''i='' @ fmt_int (Iterations v)))
    = (''s='' @ b64_encode (Salt v)) # str_split (CHR '','') (''i='' @ fmt_int (Iterations v))"
    by (intro str_split_append) simp
  have 3: "str_split (CHR '','') ((''r='' @ nonce) @ CHR '','' # ((''s='' @ b64_encode (Salt v)) @ CHR '','' # (''i='' @ fmt_int (Iterations v))))
    = (''r='' @ nonce) # str_split (CHR '','') ((''s='' @ b64_encode (Salt v)) @ CHR '','' # (''i='' @ fmt_int (Iterations v)))"
    using assms(1) by (intro str_split_append) simp
  show ?thesis
    using 1 2 3 by (simp add: server_first_def)
qed

lemma scramXOR_cancel:
  assumes "length a = length b"
  shows "\<exists>p. scramXOR a b = Some p \<and> length p = length a \<and> scramXOR p b = Some a"
proof -
  have "map2 byte_xor (map2 byte_xor a b) b = a"
    using assms by (induction a b rule: list_induct2) auto
  then show ?thesis using assms by (simp add: scramXOR_def)
qed

definition auth_message :: "string \<Rightarrow> string \<Rightarrow> string \<Rightarrow> string" where
  "auth_message bare sf nonce = bare @ '','' @ sf @ '','' @ ''c=biws,r='' @ nonce"

lemma ProcessServerFirst_honest:
  fixes pbkdf2 slt
  assumes "CHR '','' \<notin> set (clientNonce s @ sfx)" "0 \<le> it" "it < 2 ^ 63"
  defines "v \<equiv> make_verifier pbkdf2 (sa_password s) slt it"
  defines "sf \<equiv> server_first (clientNonce s @ sfx) v"
  defines "am \<equiv> auth_message (clientFirstMsg s) sf (clientNonce s @ sfx)"
  obtains cproof s2 where
    "scramXOR cproof (hmac_sha256 (StoredKey v) am) = Some (client_signature_key pbkdf2 (sa_password s) slt it)"
    "ProcessServerFirst pbkdf2 sf s = (Ok (''c=biws,r='' @ (clientNonce s @ sfx) @ '',p='' @ b64_encode cproof), s2)"
    "length cproof = 32"
    "sa_password s2 = sa_password s" "salt s2 = slt" "iterations s2 = it" "authMessage s2 = am"
proof -
  let ?ck = "client_signature_key pbkdf2 (sa_password s) slt it"
  let ?s2 = "s\<lparr>serverFirstMsg := sf, serverNonce := clientNonce s @ sfx, salt := slt, iterations := it, authMessage := am\<rparr>"
  obtain p where p: "scramXOR ?ck (hmac_sha256 (StoredKey v) am) = Some p" "length p = 32"
      "scramXOR p (hmac_sha256 (StoredKey v) am) = Some ?ck"
    using scramXOR_cancel [of ?ck "hmac_sha256 (StoredKey v) am"]
    by (auto simp: client_signature_key_def)
  have sp: "str_split (CHR '','') sf = [''r='' @ (clientNonce s @ sfx), ''s='' @ b64_encode slt, ''i='' @ fmt_int it]"
    using split_server_first [of "clientNonce s @ sfx" v] assms(1,2) by (simp add: sf_def v_def make_verifier_def)
  have "ProcessServerFirst pbkdf2 sf s =
    (Ok (''c=biws,r='' @ (clientNonce s @ sfx) @ '',p='' @ b64_encode p), ?s2)"
    using assms(2,3) p(1)
    by (simp add: ProcessServerFirst_def sp prog_defs Atoi_fmt_int buildClientFinal_def Let_def
        v_def make_verifier_def client_signature_key_def am_def auth_message_def)
  then show thesis by (rule that [OF p(3) _ p(2)]) simp_all
qed

lemma str_index_gs2: "str_index (''n,,'' @ s) '',,'' = Some 1"
  by simp

lemma str_last_index_none: "p0 \<notin> set t \<Longrightarrow> str_last_index t (p0 # p) = None"
  by (induction t) (auto simp: has_prefix_sep)

lemma str_last_index_append:
  "p0 \<notin> set t \<Longrightarrow> p0 \<notin> set p \<Longrightarrow> str_last_index (s @ (p0 # p) @ t) (p0 # p) = Some (length s)"
proof (induction s)
  case Nil
  then show ?case
    using has_prefix_append [of "p0 # p" t] by (simp add: str_last_index_none)
next
  case (Cons a s)
  then show ?case by simp
qed

lemma splitClientFinal_b64 [simp]:
  "splitClientFinal (w @ '',p='' @ b64_encode p) = Inr (w, b64_encode p)"
  using str_last_index_append [of "CHR '',''" "b64_encode p" "''p=''" w]
  by (simp add: splitClientFinal_def)

lemma extractNonce_bare:
  "CHR '','' \<notin> set u \<Longrightarrow> CHR '','' \<notin> set n \<Longrightarrow> extractNonce (''n='' @ u @ '',r='' @ n) = Inr n"
  using str_split_append [of "CHR '',''" "''n='' @ u" "''r='' @ n"] str_split_no_sep [of "CHR '',''" "''r='' @ n"]
  by (simp add: extractNonce_def)

lemma sint_length_word: "n < 2 ^ 31 \<Longrightarrow> sint (word_of_nat n :: 32 word) = int n"
proof -
  assume n: "n < 2 ^ 31"
  have "sint (word_of_nat n :: 32 word) = signed_take_bit 31 (int n)"
    by transfer simp
  also have "\<dots> = int n" using n by (simp add: signed_take_bit_int_eq_self_iff)
  finally show ?thesis .
qed

lemma parse_sasl_initial:
  assumes "r \<noteq> []" "length r < 2 ^ 31"
  shows "parseSASLInitialResponse (sasl_initial r) = Inr r"
proof -
  have 1: "find_nul (sasl_initial r) = Some 13"
    using find_nul_append [of scram_mechanism] by (simp add: sasl_initial_def scram_mechanism_def)
  have 2: "drop 14 (sasl_initial r) = PutUint32 (of_nat (length r)) @ r"
    by (simp add: sasl_initial_def scram_mechanism_def)
  have 3: "drop 18 (sasl_initial r) = r" 
    by (simp add: sasl_initial_def scram_mechanism_def)
  have 4: "length (sasl_initial r) = 18 + length r"
    by (simp add: sasl_initial_def scram_mechanism_def)
  have 5: "0 < length r" using assms(1) by simp
  show ?thesis
    using assms 5 by (simp add: parseSASLInitialResponse_def 1 2 3 4 Let_def sint_length_word)
qed


lemma honest_sizes: "length (sasl_body t d) = 4 + length d" "length scram_mechanism = 13"
  by (simp_all add: sasl_body_def scram_mechanism_def)

lemma length_b64: "length (b64_encode bs) = 4 * ((length bs + 2) div 3)"
  by (induction bs rule: b64_encode.induct) (auto simp: Let_def, presburger)

text \<open>The server's side of an exchange in which the client's two messages parse: what is sent,
  and how the proof decides.\<close>

lemma handleClientSCRAM_run:
  assumes "sound_conn (cl_conn c)" "50 \<le> c_max (cl_conn c)" "int (length sf) + 4 \<le> c_max (cl_conn c)"
    and "c_in (cl_conn c) = (CHR ''p'', b1) # (CHR ''p'', b2) # rest"
    and "parseSASLInitialResponse b1 = Inr cf" "extractClientFirstBare cf = Inr bare" "extractNonce bare = Inr nonce"
    and "sf = server_first (nonce @ b64_encode sfx) v"
    and "splitClientFinal b2 = Inr (w, pb)" "base64_decode pb = Inr p"
    and "am = bare @ '','' @ sf @ '','' @ w"
  shows "\<exists>c'. handleClientSCRAM (Inr sfx) v c =
      ((case scramXOR p (hmac_sha256 (StoredKey v) am) of
          None \<Rightarrow> Panic
        | Some k \<Rightarrow> if sha256 k \<noteq> StoredKey v then Err (Errorf ''client proof verification failed'') else Ok ()), c') \<and>
      c_in (cl_conn c') = rest \<and>
      (\<forall>k. scramXOR p (hmac_sha256 (StoredKey v) am) = Some k \<and> sha256 k = StoredKey v \<longrightarrow>
        c_out (cl_conn c') = c_out (cl_conn c) @
           [(CHR ''R'', sasl_body AuthenticationSASL (scram_mechanism @ [NUL, NUL])),
            (CHR ''R'', sasl_body AuthenticationSASLContinue sf),
            (CHR ''R'', sasl_body AuthenticationSASLFinal (''v='' @ b64_encode (hmac_sha256 (ServerKey v) am)))])"
  using assms
  by (cases "scramXOR p (hmac_sha256 (StoredKey v) am)")
    (simp_all add: handleClientSCRAM_def tryP_def liftP_def returnP_def failP_def panicP_def Let_def honest_sizes length_b64
      del: append.simps append_assoc)

lemma scram_honest_run:
  assumes "CHR '','' \<notin> set usr" and "0 \<le> it" and "it < 2 ^ 63"
    and "BuildInitialResponse (NewSCRAMAuth rndC usr pw) = (initial, s1)"
    and "length initial < 2 ^ 31"
    and "sf = server_first (clientNonce s1 @ b64_encode rndS) (make_verifier pbkdf2 pw slt it)"
    and "sound_conn (cl_conn c)" and "50 \<le> c_max (cl_conn c)" and "int (length sf) + 4 \<le> c_max (cl_conn c)"
  shows "\<exists>final s2. ProcessServerFirst pbkdf2 sf s1 = (Ok final, s2) \<and>
    (\<forall>rest. c_in (cl_conn c) = (CHR ''p'', sasl_initial initial) # (CHR ''p'', final) # rest \<longrightarrow>
      (\<exists>c' serverFinal. handleClientSCRAM (Inr rndS) (make_verifier pbkdf2 pw slt it) c = (Ok (), c') \<and>
         c_in (cl_conn c') = rest \<and>
         c_out (cl_conn c') = c_out (cl_conn c) @
           [(CHR ''R'', sasl_body AuthenticationSASL (scram_mechanism @ [NUL, NUL])),
            (CHR ''R'', sasl_body AuthenticationSASLContinue sf),
            (CHR ''R'', sasl_body AuthenticationSASLFinal serverFinal)] \<and>
         VerifyServerFinal pbkdf2 s2 serverFinal = Inr ()))"
proof -
  let ?v = "make_verifier pbkdf2 pw slt it"
  let ?n = "b64_encode rndC @ b64_encode rndS"
  let ?bare = "''n='' @ usr @ '',r='' @ b64_encode rndC"
  have s1: "clientNonce s1 = b64_encode rndC" "sa_password s1 = pw" "clientFirstMsg s1 = ?bare"
      "initial = ''n,,'' @ ?bare"
    using assms(4) by (auto simp: BuildInitialResponse_def NewSCRAMAuth_def Let_def)
  have v: "make_verifier pbkdf2 (sa_password s1) slt it = ?v" using s1 by simp
  obtain p s2 where P:
    "scramXOR p (hmac_sha256 (StoredKey ?v) (auth_message ?bare sf ?n)) = Some (client_signature_key pbkdf2 pw slt it)"
    "ProcessServerFirst pbkdf2 sf s1 = (Ok (''c=biws,r='' @ ?n @ '',p='' @ b64_encode p), s2)"
    "length p = 32" "sa_password s2 = pw" "salt s2 = slt" "iterations s2 = it"
    "authMessage s2 = auth_message ?bare sf ?n"
    using ProcessServerFirst_honest [of s1 "b64_encode rndS" it pbkdf2 slt] assms(2,3,6) s1
    by (auto simp: v)
  let ?sig = "hmac_sha256 (ServerKey ?v) (auth_message ?bare sf ?n)"
  have ver: "VerifyServerFinal pbkdf2 s2 (''v='' @ b64_encode ?sig) = Inr ()"
    by (simp add: VerifyServerFinal_def P Let_def make_verifier_def)
  have par: "parseSASLInitialResponse (sasl_initial initial) = Inr initial"
    using assms(5) s1(4) by (intro parse_sasl_initial) auto
  have cfb: "extractClientFirstBare initial = Inr ?bare"
    by (simp add: extractClientFirstBare_def s1(4))
  have nn: "extractNonce ?bare = Inr (b64_encode rndC)"
    using extractNonce_bare [of usr "b64_encode rndC"] assms(1) by simp
  have sp: "splitClientFinal (''c=biws,r='' @ ?n @ '',p='' @ b64_encode p) = Inr (''c=biws,r='' @ ?n, b64_encode p)"
    using splitClientFinal_b64 [of "''c=biws,r='' @ ?n" p] by simp
  have sf: "sf = server_first (b64_encode rndC @ b64_encode rndS) ?v" using assms(6) s1(1) by simp
  have am: "?bare @ '','' @ sf @ '','' @ ''c=biws,r='' @ ?n = auth_message ?bare sf ?n"
    by (simp add: auth_message_def)
  have sk: "sha256 (client_signature_key pbkdf2 pw slt it) = StoredKey ?v"
    by (simp add: make_verifier_def)
  have run: "\<exists>c'. handleClientSCRAM (Inr rndS) ?v c = (Ok (), c') \<and> c_in (cl_conn c') = rest \<and>
     c_out (cl_conn c') = c_out (cl_conn c) @
           [(CHR ''R'', sasl_body AuthenticationSASL (scram_mechanism @ [NUL, NUL])),
            (CHR ''R'', sasl_body AuthenticationSASLContinue sf),
            (CHR ''R'', sasl_body AuthenticationSASLFinal (''v='' @ b64_encode ?sig))]"
    if "c_in (cl_conn c) = (CHR ''p'', sasl_initial initial) # (CHR ''p'', ''c=biws,r='' @ ?n @ '',p='' @ b64_encode p) # rest" for rest
    using handleClientSCRAM_run [OF assms(7,8,9) that par cfb nn sf sp base64_roundtrip am [symmetric]] P(1) sk
    by (simp del: append.simps append_assoc)
  show ?thesis using P(2) ver run by blast
qed

text \<open>C26: For the right password the two sides of SCRAM-SHA-256 in this code complete the exchange:
  the client derives its final message from the server's first, the server accepts it after sending
  exactly the three authentication requests, and the client verifies the server's signature.\<close>

theorem scram_honest_exchange:
  assumes "CHR '','' \<notin> set usr" and "0 \<le> it" and "it < 2 ^ 63"
    and "BuildInitialResponse (NewSCRAMAuth rndC usr pw) = (initial, s1)"
    and "length initial < 2 ^ 31"
    and "sf = server_first (clientNonce s1 @ b64_encode rndS) (make_verifier pbkdf2 pw slt it)"
    and "sound_conn (cl_conn c)" and "50 \<le> c_max (cl_conn c)" and "int (length sf) + 4 \<le> c_max (cl_conn c)"
  shows "\<exists>final s2. ProcessServerFirst pbkdf2 sf s1 = (Ok final, s2) \<and>
    (\<forall>rest. c_in (cl_conn c) = (CHR ''p'', sasl_initial initial) # (CHR ''p'', final) # rest \<longrightarrow>
      (\<exists>c' serverFinal. handleClientSCRAM (Inr rndS) (make_verifier pbkdf2 pw slt it) c = (Ok (), c') \<and>
         c_in (cl_conn c') = rest \<and>
         c_out (cl_conn c') = c_out (cl_conn c) @
           [(CHR ''R'', sasl_body AuthenticationSASL (scram_mechanism @ [NUL, NUL])),
            (CHR ''R'', sasl_body AuthenticationSASLContinue sf),
            (CHR ''R'', sasl_body AuthenticationSASLFinal serverFinal)] \<and>
         VerifyServerFinal pbkdf2 s2 serverFinal = Inr ()))"
  using assms by (rule scram_honest_run)

definition demo_client :: "msg list \<Rightarrow> Client" where
  "demo_client ms =
     NewClient \<lparr>c_max = 1000, c_in = ms, c_end = Eof, c_out = [], c_room = None, c_werr = Eof, c_closed = False\<rparr>
       (TCPAddr [CHR 0x7F, NUL, NUL, CHR 0x01])"

definition demo_kdf :: kdf where
  "demo_kdf pw slt it n = take n (pw @ slt)"

lemma demo_client_simps [simp]:
  "sound_conn (cl_conn (demo_client ms))" "c_max (cl_conn (demo_client ms)) = 1000" "c_in (cl_conn (demo_client ms)) = ms"
  by (simp_all add: demo_client_def NewClient_def sound_conn_def)

lemma demo_first_length:
  "length (server_first (b64_encode ''client'' @ b64_encode ''server'') (make_verifier demo_kdf ''pw'' ''salt'' 4096)) = 36"
  by (simp add: server_first_def make_verifier_def length_b64 fmt_int_def fmt_nat.simps)

theorem scram_honest_exchange_witness:
  "\<exists>final s2. ProcessServerFirst demo_kdf
       (server_first (b64_encode ''client'' @ b64_encode ''server'') (make_verifier demo_kdf ''pw'' ''salt'' 4096))
       (snd (BuildInitialResponse (NewSCRAMAuth ''client'' ''bob'' ''pw''))) = (Ok final, s2)"
  using scram_honest_exchange [of "''bob''" 4096 "''client''" "''pw''"
      "fst (BuildInitialResponse (NewSCRAMAuth ''client'' ''bob'' ''pw''))"
      "snd (BuildInitialResponse (NewSCRAMAuth ''client'' ''bob'' ''pw''))" _ "''server''" demo_kdf "''salt''" "demo_client []"]
    demo_first_length
  by (auto simp: BuildInitialResponse_def NewSCRAMAuth_def Let_def length_b64)

text \<open>What a client must have sent to be accepted: the proof it gave and the message it covers.\<close>

definition scram_transcript :: "bytes \<Rightarrow> SCRAMVerifier \<Rightarrow> msg list \<Rightarrow> (bytes \<times> string) option" where
  "scram_transcript sfx v ms =
     (case ms of
        (t1, b1) # (t2, b2) # _ \<Rightarrow>
          if t1 = CHR ''p'' \<and> t2 = CHR ''p'' then
            (case parseSASLInitialResponse b1 of
               Inl _ \<Rightarrow> None
             | Inr cf \<Rightarrow> (case extractClientFirstBare cf of
                 Inl _ \<Rightarrow> None
               | Inr bare \<Rightarrow> (case extractNonce bare of
                   Inl _ \<Rightarrow> None
                 | Inr nonce \<Rightarrow> (case splitClientFinal b2 of
                     Inl _ \<Rightarrow> None
                   | Inr (w, pb) \<Rightarrow> (case base64_decode pb of
                       Inl _ \<Rightarrow> None
                     | Inr p \<Rightarrow> Some (p, bare @ '','' @ server_first (nonce @ b64_encode sfx) v @ '','' @ w))))))
          else None
      | _ \<Rightarrow> None)"

text \<open>C25: The server accepts a client only if the client's second message carries a proof of at most
  32 bytes whose exclusive-or with HMAC(StoredKey, AuthMessage) hashes to the StoredKey of the
  verifier, where AuthMessage covers the server's fresh nonce; it then answers with the server
  signature. It panics only on a proof longer than 32 bytes, and it never blocks without input.\<close>

theorem scram_accepts_only_valid_proof:
  assumes "handleClientSCRAM rnd v c = (r, c')"
  shows "r \<noteq> Blocked \<and>
    (r = Ok () \<longrightarrow> (\<exists>sfx p am. rnd = Inr sfx \<and> scram_transcript sfx v (c_in (cl_conn c)) = Some (p, am) \<and>
        length p \<le> 32 \<and> sha256 (map2 byte_xor p (hmac_sha256 (StoredKey v) am)) = StoredKey v \<and>
        last (c_out (cl_conn c')) =
          (CHR ''R'', sasl_body AuthenticationSASLFinal (''v='' @ b64_encode (hmac_sha256 (ServerKey v) am))))) \<and>
    (r = Panic \<longrightarrow> (\<exists>sfx p am. rnd = Inr sfx \<and> scram_transcript sfx v (c_in (cl_conn c)) = Some (p, am) \<and> 32 < length p))"
proof (intro conjI impI)
  show "r \<noteq> Blocked"
    using assms
    by (auto simp: handleClientSCRAM_def wrapP_iffs liftP_iffs leafP_iffs Client_write_not Client_read_not Let_def
        split: if_splits option.splits)
next
  assume "r = Ok ()"
  then show "\<exists>sfx p am. rnd = Inr sfx \<and> scram_transcript sfx v (c_in (cl_conn c)) = Some (p, am) \<and>
        length p \<le> 32 \<and> sha256 (map2 byte_xor p (hmac_sha256 (StoredKey v) am)) = StoredKey v \<and>
        last (c_out (cl_conn c')) =
          (CHR ''R'', sasl_body AuthenticationSASLFinal (''v='' @ b64_encode (hmac_sha256 (ServerKey v) am)))"
    using assms
    by (auto simp: handleClientSCRAM_def wrapP_iffs liftP_iffs leafP_iffs Client_read_Ok Let_def scramXOR_def scram_transcript_def
        split: if_splits option.splits dest!: Client_write_Ok)
next
  assume "r = Panic"
  then show "\<exists>sfx p am. rnd = Inr sfx \<and> scram_transcript sfx v (c_in (cl_conn c)) = Some (p, am) \<and> 32 < length p"
    using assms
    by (auto simp: handleClientSCRAM_def wrapP_iffs liftP_iffs leafP_iffs Client_write_not Client_read_not Client_read_Ok Let_def scramXOR_def scram_transcript_def
        split: if_splits option.splits dest!: Client_write_Ok)
qed

text \<open>An unauthenticated client that completes a well-formed first message and sends a proof of
  more than 32 bytes makes the server panic, and no shorter proof does.\<close>

theorem overlong_proof_panics:
  assumes "sound_conn (cl_conn c)" and "50 \<le> c_max (cl_conn c)"
    and "CHR '','' \<notin> set usr" and "length usr < 2 ^ 30" and "length rndC \<le> 24"
    and "c_in (cl_conn c) =
       (CHR ''p'', sasl_initial (''n,,n='' @ usr @ '',r='' @ b64_encode rndC)) #
       (CHR ''p'', w @ '',p='' @ b64_encode p) # rest"
    and "int (length (server_first (b64_encode rndC @ b64_encode sfx) v)) + 4 \<le> c_max (cl_conn c)"
  shows "fst (handleClientSCRAM (Inr sfx) v c) = Panic \<longleftrightarrow> 32 < length p"
proof -
  let ?b = "''n='' @ usr @ '',r='' @ b64_encode rndC"
  have i: "''n,,n='' @ usr @ '',r='' @ b64_encode rndC = ''n,,'' @ ?b" by simp
  have "length (b64_encode rndC) \<le> 36" using assms(5) by (simp add: length_b64)
  then have "length (''n,,'' @ ?b) < 2 ^ 31" using assms(4) by simp
  then have par: "parseSASLInitialResponse (sasl_initial (''n,,'' @ ?b)) = Inr (''n,,'' @ ?b)"
    by (intro parse_sasl_initial) simp
  have cfb: "extractClientFirstBare (''n,,'' @ ?b) = Inr ?b"
    by (simp add: extractClientFirstBare_def)
  have nn: "extractNonce ?b = Inr (b64_encode rndC)"
    using extractNonce_bare [of usr "b64_encode rndC"] assms(3) by simp
  show ?thesis
    using handleClientSCRAM_run [OF assms(1,2,7) assms(6) [unfolded i] par cfb nn refl splitClientFinal_b64 base64_roundtrip refl]
    by (auto simp: scramXOR_def split: if_splits)
qed

definition print_verifier :: "SCRAMVerifier \<Rightarrow> string" where
  "print_verifier v =
     ''SCRAM-SHA-256$'' @ fmt_int (Iterations v) @ '':'' @ b64_encode (Salt v) @ ''$'' @
     b64_encode (StoredKey v) @ '':'' @ b64_encode (ServerKey v)"

definition b64_alphabet :: "byte \<Rightarrow> bool" where
  "b64_alphabet c \<longleftrightarrow> (of_char c :: nat) \<in> {43, 61} \<union> {47..57} \<union> {65..90} \<union> {97..122}"

lemma b64_alphabet_char [simp]: "n < 64 \<Longrightarrow> b64_alphabet (b64_char n)" "b64_alphabet (CHR ''='')"
  using b64_char_range [of n] by (auto simp: b64_alphabet_def)

lemma b64_encode_alphabet: "c \<in> set (b64_encode bs) \<Longrightarrow> b64_alphabet c"
  by (induction bs rule: b64_encode.induct) (auto simp: Let_def)

lemma str_cut_append: "sep \<notin> set a \<Longrightarrow> str_cut sep (a @ sep # b) = Some (a, b)"
  by (induction a) (auto simp: str_cut_def)

text \<open>A verifier written in the format of \<open>pg_authid.rolpassword\<close>
  (\<open>SCRAM-SHA-256$iterations:salt$StoredKey:ServerKey\<close>) is parsed back exactly.\<close>

theorem verifier_roundtrip:
  assumes "0 \<le> Iterations v" and "Iterations v < 2 ^ 63"
  shows "ParseSCRAMVerifier (print_verifier v) = Inr v"
proof -
  have no: "CHR ''$'' \<notin> set (b64_encode bs)" "CHR '':'' \<notin> set (b64_encode bs)" for bs
    using b64_encode_alphabet [of "CHR ''$''" bs] b64_encode_alphabet [of "CHR '':''" bs]
    by (auto simp: b64_alphabet_def)
  have nd: "CHR ''$'' \<notin> set (fmt_int (Iterations v))" "CHR '':'' \<notin> set (fmt_int (Iterations v))"
    using fmt_nat_digits [of "CHR ''$''" "nat (Iterations v)"] fmt_nat_digits [of "CHR '':''" "nat (Iterations v)"] assms(1)
    by (auto simp: fmt_int_nonneg)
  have c1: "str_cut (CHR ''$'') ((fmt_int (Iterations v) @ '':'' @ b64_encode (Salt v)) @ CHR ''$'' #
      (b64_encode (StoredKey v) @ '':'' @ b64_encode (ServerKey v))) =
      Some (fmt_int (Iterations v) @ '':'' @ b64_encode (Salt v), b64_encode (StoredKey v) @ '':'' @ b64_encode (ServerKey v))"
    using no nd by (intro str_cut_append) simp
  have c2: "str_cut (CHR '':'') (a @ '':'' @ b) = Some (a, b)" if "CHR '':'' \<notin> set a" for a b
    using str_cut_append [OF that] by simp
  have d: "drop (length verifier_prefix) (print_verifier v) = (fmt_int (Iterations v) @ '':'' @ b64_encode (Salt v)) @ CHR ''$'' #
      (b64_encode (StoredKey v) @ '':'' @ b64_encode (ServerKey v))"
    by (simp add: print_verifier_def verifier_prefix_def)
  have "has_prefix (print_verifier v) verifier_prefix"
    by (simp add: print_verifier_def verifier_prefix_def)
  then show ?thesis
    using assms no nd
    by (simp add: ParseSCRAMVerifier_def d c1 c2 wrapS_def Atoi_fmt_int del: append.simps append_assoc)
qed

lemma mechanisms_eq: "mechanisms_loop cur bs = splitNul_loop cur bs"
  by (induction cur bs rule: mechanisms_loop.induct) auto

text \<open>The loop after the exchange.\<close>

definition auth_ok :: "msg \<Rightarrow> bool" where
  "auth_ok m \<longleftrightarrow> fst m = CHR ''R'' \<and> Uint32 (snd m) = AuthenticationOK"

lemma post_scram_Ok:
  assumes "post_scram (b, ac) = (Ok x, (b', ac'))"
  shows "\<exists>m. c_in (b_conn b) = m # c_in (b_conn b') \<and> fst m \<noteq> CHR ''E'' \<and>
    (x = None \<longrightarrow> ac' = (ac \<or> auth_ok m)) \<and> (x \<noteq> None \<longrightarrow> fst m = CHR ''Z'' \<and> ac)"
proof -
  obtain t body ms where m: "c_in (b_conn b) = (t, body) # ms" "\<not> c_closed (b_conn b)"
    using assms by (auto simp: post_scram_def wrapP_Ok_iff zoomP_def Backend_read_Ok split: prod.splits)
  show ?thesis
    using assms m
    by (simp add: post_scram_def tryP_def zoomP_def getP_def bindP_def thenP_def modifyP_def returnP_def failP_def
        auth_ok_def split: if_splits) auto
qed

lemma post_scram_loop:
  "loopP n post_scram (b, ac) = (Ok (), (b', ac')) \<Longrightarrow>
   \<exists>pre z. c_in (b_conn b) = pre @ z # c_in (b_conn b') \<and> fst z = CHR ''Z'' \<and>
     (ac \<or> (\<exists>m \<in> set pre. auth_ok m)) \<and> (\<forall>m \<in> set pre. fst m \<noteq> CHR ''E'')"
proof (induction n arbitrary: b ac)
  case 0
  then show ?case by simp
next
  case (Suc n)
  then obtain x b1 ac1 where 1: "post_scram (b, ac) = (Ok x, (b1, ac1))"
      and 2: "(case x of Some y \<Rightarrow> returnP y | None \<Rightarrow> loopP n post_scram) (b1, ac1) = (Ok (), (b', ac'))"
    by (auto simp: bindP_Ok_iff)
  obtain m where m: "c_in (b_conn b) = m # c_in (b_conn b1)" "fst m \<noteq> CHR ''E''"
      "x = None \<longrightarrow> ac1 = (ac \<or> auth_ok m)" "x \<noteq> None \<longrightarrow> fst m = CHR ''Z'' \<and> ac"
    using post_scram_Ok [OF 1] by blast
  show ?case
  proof (cases x)
    case None
    then have "loopP n post_scram (b1, ac1) = (Ok (), (b', ac'))" using 2 by simp
    from Suc.IH [OF this] obtain pre z where "c_in (b_conn b1) = pre @ z # c_in (b_conn b')" "fst z = CHR ''Z''"
        "ac1 \<or> (\<exists>m \<in> set pre. auth_ok m)" "\<forall>m \<in> set pre. fst m \<noteq> CHR ''E''"
      by blast
    then show ?thesis
      using m None by (intro exI [of _ "m # pre"] exI [of _ z]) auto
  next
    case (Some y)
    then show ?thesis
      using m 2 by (intro exI [of _ "[]"] exI [of _ m]) (auto simp: returnP_def)
  qed
qed

lemma post_scram_not_Blocked: "fst (post_scram s) \<noteq> Blocked"
proof (cases "Backend_read (fst s)")
  case (Pair r b)
  then show ?thesis
    using Backend_read_not [of "fst s" b]
    by (cases r) (simp_all add: post_scram_def tryP_def failP_def bindP_def getP_def modifyP_def thenP_def returnP_def
        zoomP_def split: prod.split)
qed

lemma await_ready_returns: "fst (await_ready b) \<noteq> Blocked"
proof -
  have "fst (loopP (backend_fuel b) post_scram (b, False)) \<noteq> Blocked"
  proof (rule loopP_enough [where \<mu> = "\<lambda>s. length (c_in (b_conn (fst s)))"])
    show "length (c_in (b_conn (fst s'))) < length (c_in (b_conn (fst s)))"
      if "post_scram s = (Ok None, s')" for s s'
      using that post_scram_Ok [of "fst s" "snd s" None "fst s'" "snd s'"] by auto
  qed (simp_all add: post_scram_not_Blocked)
  then show ?thesis by (simp add: await_ready_def case_prod_unfold del: loopP.simps)
qed

lemma read_sasl_Ok:
  "read_sasl w1 w2 w3 w4 t b = (Ok d, b') \<Longrightarrow>
     \<exists>body. c_in (b_conn b) = (CHR ''R'', body) # c_in (b_conn b') \<and> Uint32 body = t \<and> d = drop 4 body"
  by (auto simp: read_sasl_def wrapP_Ok_iff Backend_read_Ok leafP_iffs split: if_splits)

lemma await_ready_Ok:
  "await_ready b = (Ok (), b') \<Longrightarrow>
   \<exists>pre z. c_in (b_conn b) = pre @ z # c_in (b_conn b') \<and> fst z = CHR ''Z'' \<and>
     (\<exists>m \<in> set pre. auth_ok m) \<and> (\<forall>m \<in> set pre. fst m \<noteq> CHR ''E'')"
  unfolding await_ready_def using post_scram_loop [of _ b False b'] by (simp del: loopP.simps split: prod.splits)

lemma ProcessServerFirst_password:
  "ProcessServerFirst pbkdf2 sf s = (r, s2) \<Longrightarrow> sa_password s2 = sa_password s"
proof -
  have "keeps (\<lambda>x. sa_password x = sa_password s) (ProcessServerFirst pbkdf2 sf)"
    unfolding ProcessServerFirst_def
    by (intro keeps_intros keeps_modify)
      (auto simp: buildClientFinal_def Let_def split: list.split option.split intro!: keeps_intros keeps_modify keepsI)
  then show "ProcessServerFirst pbkdf2 sf s = (r, s2) \<Longrightarrow> sa_password s2 = sa_password s"
    by (auto dest: keepsD)
qed

lemma VerifyServerFinal_Inr:
  "VerifyServerFinal pbkdf2 s fin = Inr x \<Longrightarrow>
     has_prefix fin ''v='' \<and> base64_decode (drop 2 fin) =
       Inr (hmac_sha256 (hmac_sha256 (pbkdf2 (sa_password s) (salt s) (iterations s) 32) ''Server Key'') (authMessage s))"
  by (auto simp: VerifyServerFinal_def Let_def split: if_splits sum.splits)

lemma resP_Ok: "resP r s = (Ok x, s') \<longleftrightarrow> r = Ok x \<and> s' = s"
  by (auto simp: resP_def)

text \<open>HandleSCRAMAuth succeeds only against a server that has proved to know the ServerKey of the
  password (its final message carries the HMAC of this exchange's AuthMessage) and that has then
  sent AuthenticationOK and, with no error before it, ReadyForQuery; no message after ReadyForQuery
  is consumed.\<close>

theorem scram_authenticates_server:
  assumes "HandleSCRAMAuth pbkdf2 rnd usr pw saslData b = (Ok (), b')"
  shows "\<exists>cont fin pre z s2 clientFinal sig.
    c_in (b_conn b) = (CHR ''R'', cont) # (CHR ''R'', fin) # pre @ z # c_in (b_conn b') \<and>
    Uint32 cont = AuthenticationSASLContinue \<and> Uint32 fin = AuthenticationSASLFinal \<and>
    ProcessServerFirst pbkdf2 (drop 4 cont) (snd (BuildInitialResponse (NewSCRAMAuth rnd usr pw))) = (Ok clientFinal, s2) \<and>
    has_prefix (drop 4 fin) ''v='' \<and> base64_decode (drop 6 fin) = Inr sig \<and>
    sig = hmac_sha256 (hmac_sha256 (pbkdf2 pw (salt s2) (iterations s2) 32) ''Server Key'') (authMessage s2) \<and>
    (\<exists>m \<in> set pre. auth_ok m) \<and> (\<forall>m \<in> set pre. fst m \<noteq> CHR ''E'') \<and> fst z = CHR ''Z''"
proof -
  obtain initial s1 where s1: "BuildInitialResponse (NewSCRAMAuth rnd usr pw) = (initial, s1)" by fastforce
  then have pw: "sa_password s1 = pw" by (auto simp: BuildInitialResponse_def NewSCRAMAuth_def Let_def)
  obtain b1 b2 b3 b4 sf fin clientFinal s2 where
    1: "Backend_write (CHR ''p'', sasl_initial initial) b = (Ok (), b1)" and
    2: "read_sasl ''failed to read SASL continue'' ''SCRAM authentication failed: ''
                 ''invalid SASL continue response'' ''expected SASL continue, got auth type ''
                 AuthenticationSASLContinue b1 = (Ok sf, b2)" and
    3: "ProcessServerFirst pbkdf2 sf s1 = (Ok clientFinal, s2)" and
    4: "Backend_write (CHR ''p'', clientFinal) b2 = (Ok (), b3)" and
    5: "read_sasl ''failed to read server final'' ''SCRAM final authentication failed: ''
                 ''invalid server final response'' ''expected SASL final, got auth type ''
                 AuthenticationSASLFinal b3 = (Ok fin, b4)" and
    6: "VerifyServerFinal pbkdf2 s2 fin = Inr ()" and
    7: "await_ready b4 = (Ok (), b')"
    using assms
    by (clarsimp simp: HandleSCRAMAuth_def s1 Let_def wrapP_Ok_iff bindP_Ok_iff resP_Ok liftP_iffs leafP_iffs
        case_prod_unfold split: if_splits) (rule that, assumption, assumption, rule pair_of_fst, assumption+)
  obtain cont where c: "c_in (b_conn b1) = (CHR ''R'', cont) # c_in (b_conn b2)"
      "Uint32 cont = AuthenticationSASLContinue" "sf = drop 4 cont"
    using read_sasl_Ok [OF 2] by blast
  obtain fb where f: "c_in (b_conn b3) = (CHR ''R'', fb) # c_in (b_conn b4)"
      "Uint32 fb = AuthenticationSASLFinal" "fin = drop 4 fb"
    using read_sasl_Ok [OF 5] by blast
  obtain pre z where z: "c_in (b_conn b4) = pre @ z # c_in (b_conn b')" "fst z = CHR ''Z''"
      "\<exists>m \<in> set pre. auth_ok m" "\<forall>m \<in> set pre. fst m \<noteq> CHR ''E''"
    using await_ready_Ok [OF 7] by blast
  have "c_in (b_conn b) = (CHR ''R'', cont) # (CHR ''R'', fb) # pre @ z # c_in (b_conn b')"
    using Backend_write_Ok [OF 1] Backend_write_Ok [OF 4] c(1) f(1) z(1) by simp
  moreover have "base64_decode (drop 6 fb) =
      Inr (hmac_sha256 (hmac_sha256 (pbkdf2 pw (salt s2) (iterations s2) 32) ''Server Key'') (authMessage s2))"
    using VerifyServerFinal_Inr [OF 6] ProcessServerFirst_password [OF 3] pw f(3) by simp
  moreover have "has_prefix (drop 4 fb) ''v=''"
    using VerifyServerFinal_Inr [OF 6] f(3) by simp
  moreover have "ProcessServerFirst pbkdf2 (drop 4 cont) (snd (BuildInitialResponse (NewSCRAMAuth rnd usr pw))) = (Ok clientFinal, s2)"
    using 3 c(3) s1 by simp
  ultimately show ?thesis using c(2) f(2) z(2,3,4) by blast
qed

section \<open>Witnesses\<close>

lemma demo_honest_run:
  "\<exists>final c'. handleClientSCRAM (Inr ''server'') (make_verifier demo_kdf ''pw'' ''salt'' 4096)
     (demo_client [(CHR ''p'', sasl_initial (fst (BuildInitialResponse (NewSCRAMAuth ''client'' ''bob'' ''pw'')))), (CHR ''p'', final)]) = (Ok (), c')"
proof -
  let ?i = "fst (BuildInitialResponse (NewSCRAMAuth ''client'' ''bob'' ''pw''))"
  let ?s = "snd (BuildInitialResponse (NewSCRAMAuth ''client'' ''bob'' ''pw''))"
  let ?sf = "server_first (b64_encode ''client'' @ b64_encode ''server'') (make_verifier demo_kdf ''pw'' ''salt'' 4096)"
  have cn: "clientNonce ?s = b64_encode ''client''" by (simp add: BuildInitialResponse_def NewSCRAMAuth_def Let_def)
  have il: "length ?i < 2 ^ 31" by (simp add: BuildInitialResponse_def NewSCRAMAuth_def Let_def length_b64)
  have run: "\<exists>final s2. ProcessServerFirst demo_kdf ?sf ?s = (Ok final, s2) \<and>
    (\<forall>rest. c_in (cl_conn (demo_client ms)) = (CHR ''p'', sasl_initial ?i) # (CHR ''p'', final) # rest \<longrightarrow>
      (\<exists>c'. handleClientSCRAM (Inr ''server'') (make_verifier demo_kdf ''pw'' ''salt'' 4096) (demo_client ms) = (Ok (), c')))" for ms
    using scram_honest_run [of "''bob''" 4096 "''client''" "''pw''" ?i ?s ?sf "''server''" demo_kdf "''salt''" "demo_client ms"]
      demo_first_length il cn by fastforce
  obtain final s2 where f: "ProcessServerFirst demo_kdf ?sf ?s = (Ok final, s2)" using run [of "[]"] by blast
  then show ?thesis using run [of "[(CHR ''p'', sasl_initial ?i), (CHR ''p'', final)]"] by fastforce
qed

theorem scram_accepts_only_valid_proof_witness:
  "\<exists>final p am.
     scram_transcript ''server'' (make_verifier demo_kdf ''pw'' ''salt'' 4096)
       [(CHR ''p'', sasl_initial (fst (BuildInitialResponse (NewSCRAMAuth ''client'' ''bob'' ''pw'')))),
        (CHR ''p'', final)] = Some (p, am) \<and> length p \<le> 32"
proof -
  obtain final c' where run: "handleClientSCRAM (Inr ''server'') (make_verifier demo_kdf ''pw'' ''salt'' 4096)
     (demo_client [(CHR ''p'', sasl_initial (fst (BuildInitialResponse (NewSCRAMAuth ''client'' ''bob'' ''pw'')))),
        (CHR ''p'', final)]) = (Ok (), c')"
    using demo_honest_run by blast
  have "\<exists>p am. scram_transcript ''server'' (make_verifier demo_kdf ''pw'' ''salt'' 4096)
       [(CHR ''p'', sasl_initial (fst (BuildInitialResponse (NewSCRAMAuth ''client'' ''bob'' ''pw'')))),
        (CHR ''p'', final)] = Some (p, am) \<and> length p \<le> 32"
    using scram_accepts_only_valid_proof [OF run] by auto
  then show ?thesis by blast
qed

theorem overlong_proof_panics_witness:
  "fst (handleClientSCRAM (Inr ''server'') (make_verifier demo_kdf ''pw'' ''salt'' 4096)
     (demo_client [(CHR ''p'', sasl_initial (''n,,n='' @ ''bob'' @ '',r='' @ b64_encode ''client'')),
        (CHR ''p'', ''c=biws'' @ '',p='' @ b64_encode (replicate 33 NUL))])) = Panic"
  using overlong_proof_panics [of "demo_client [(CHR ''p'', sasl_initial (''n,,n='' @ ''bob'' @ '',r='' @ b64_encode ''client'')),
        (CHR ''p'', ''c=biws'' @ '',p='' @ b64_encode (replicate 33 NUL))]" "''bob''" "''client''" "''c=biws''"
      "replicate 33 NUL" "[]" "''server''" "make_verifier demo_kdf ''pw'' ''salt'' 4096"] demo_first_length
  by simp

theorem verifier_roundtrip_witness:
  "ParseSCRAMVerifier (print_verifier (make_verifier demo_kdf ''pw'' ''salt'' 4096)) =
     Inr (make_verifier demo_kdf ''pw'' ''salt'' 4096)"
  by (rule verifier_roundtrip) (simp_all add: make_verifier_def)

text \<open>The exchange seen from the other side: a server that knows the verifier.\<close>

lemma read_sasl_step [simp]:
  "\<not> c_closed (b_conn b) \<Longrightarrow> c_in (b_conn b) = (CHR ''R'', PutUint32 t @ d) # ms \<Longrightarrow>
     read_sasl w1 w2 w3 w4 t b = (Ok d, b\<lparr>b_conn := b_conn b\<lparr>c_in := ms\<rparr>\<rparr>)"
  by (simp add: read_sasl_def tryP_def returnP_def)

lemma await_ready_short:
  "\<not> c_closed (b_conn b) \<Longrightarrow> c_in (b_conn b) = [SendAuthenticationOK, SendReadyForQuery (CHR ''I'')] \<Longrightarrow>
     \<exists>b'. await_ready b = (Ok (), b')"
  by (simp add: await_ready_def SendAuthenticationOK_def SendReadyForQuery_def post_scram_def prog_defs)

lemma HandleSCRAMAuth_honest:
  assumes it: "0 \<le> it" "it < 2 ^ 63" and b: "sound_conn (b_conn b)"
    and inp: "c_in (b_conn b) = [(CHR ''R'', PutUint32 AuthenticationSASLContinue @
              server_first (b64_encode rnd @ b64_encode sfx) (make_verifier pbkdf2 pw slt it)),
           (CHR ''R'', PutUint32 AuthenticationSASLFinal @ ''v='' @
              b64_encode (hmac_sha256 (ServerKey (make_verifier pbkdf2 pw slt it))
                (auth_message (''n='' @ usr @ '',r='' @ b64_encode rnd)
                   (server_first (b64_encode rnd @ b64_encode sfx) (make_verifier pbkdf2 pw slt it))
                   (b64_encode rnd @ b64_encode sfx)))),
           SendAuthenticationOK, SendReadyForQuery (CHR ''I'')]"
    and mx: "100 + int (length usr) + int (length (b64_encode rnd)) + int (length (b64_encode sfx)) \<le> c_max (b_conn b)"
  shows "\<exists>b'. HandleSCRAMAuth pbkdf2 rnd usr pw (scram_mechanism @ [NUL, NUL]) b = (Ok (), b')"
proof -
  let ?v = "make_verifier pbkdf2 pw slt it"
  let ?n = "b64_encode rnd @ b64_encode sfx"
  let ?bare = "''n='' @ usr @ '',r='' @ b64_encode rnd"
  let ?sf = "server_first ?n ?v"
  obtain initial s1 where I: "BuildInitialResponse (NewSCRAMAuth rnd usr pw) = (initial, s1)" by fastforce
  then have s1: "clientNonce s1 = b64_encode rnd" "sa_password s1 = pw" "clientFirstMsg s1 = ?bare" "initial = ''n,,'' @ ?bare"
    by (auto simp: BuildInitialResponse_def NewSCRAMAuth_def Let_def)
  obtain p s2 where P:
    "ProcessServerFirst pbkdf2 ?sf s1 = (Ok (''c=biws,r='' @ ?n @ '',p='' @ b64_encode p), s2)"
    "length p = 32" "sa_password s2 = pw" "salt s2 = slt" "iterations s2 = it"
    "authMessage s2 = auth_message ?bare ?sf ?n"
    by (rule ProcessServerFirst_honest [of s1 "b64_encode sfx" it pbkdf2 slt, unfolded s1(1,2,3)])
      (use it in auto)
  have ver: "VerifyServerFinal pbkdf2 s2 (''v='' @ b64_encode (hmac_sha256 (ServerKey ?v) (auth_message ?bare ?sf ?n))) = Inr ()"
    by (simp add: VerifyServerFinal_def P Let_def make_verifier_def)
  have mech: "scram_mechanism \<in> set (ParseSASLMechanisms (scram_mechanism @ [NUL, NUL]))"
    by (simp add: ParseSASLMechanisms_def scram_mechanism_def)
  have l1: "int (length (sasl_initial initial)) \<le> c_max (b_conn b)"
    using mx by (simp add: s1(4) sasl_initial_def scram_mechanism_def)
  have "length (b64_encode p) = 44" using P(2) by (simp add: length_b64)
  then have l2: "int (length (''c=biws,r='' @ ?n @ '',p='' @ b64_encode p)) \<le> c_max (b_conn b)"
    using mx by simp
  have closed: "\<not> c_closed (b_conn b)" using b by simp
  show ?thesis
    using b closed inp mech I P(1) ver l1 l2 await_ready_short
    by (simp add: HandleSCRAMAuth_def tryP_def bindP_def resP_def liftP_def Let_def del: append.simps append_assoc)
qed

definition demo_backend :: "msg list \<Rightarrow> Backend" where
  "demo_backend ms =
     NewBackend \<lparr>c_max = 1000, c_in = ms, c_end = Eof, c_out = [], c_room = None, c_werr = Eof, c_closed = False\<rparr>
       ''db'' ''primary'' ''bob'' 0"

lemma demo_backend_simps [simp]:
  "sound_conn (b_conn (demo_backend ms))" "c_max (b_conn (demo_backend ms)) = 1000" "c_in (b_conn (demo_backend ms)) = ms"
  by (simp_all add: demo_backend_def NewBackend_def sound_conn_def)

theorem scram_authenticates_server_witness:
  "\<exists>s2 clientFinal fin sig. ProcessServerFirst demo_kdf
       (server_first (b64_encode ''client'' @ b64_encode ''server'') (make_verifier demo_kdf ''pw'' ''salt'' 4096))
       (snd (BuildInitialResponse (NewSCRAMAuth ''client'' ''bob'' ''pw''))) = (Ok clientFinal, s2) \<and>
     base64_decode (drop 6 fin) = Inr sig \<and>
     sig = hmac_sha256 (hmac_sha256 (demo_kdf ''pw'' (salt s2) (iterations s2) 32) ''Server Key'') (authMessage s2)"
proof -
  obtain b b' where run: "HandleSCRAMAuth demo_kdf ''client'' ''bob'' ''pw'' (scram_mechanism @ [NUL, NUL]) b = (Ok (), b')"
    and hd: "fst (c_in (b_conn b) ! 0) = CHR ''R''"
      "drop 4 (snd (c_in (b_conn b) ! 0)) = server_first (b64_encode ''client'' @ b64_encode ''server'') (make_verifier demo_kdf ''pw'' ''salt'' 4096)"
    using HandleSCRAMAuth_honest [of 4096 "demo_backend _" "''client''" "''server''" demo_kdf "''pw''" "''salt''" "''bob''", OF _ _ demo_backend_simps(1,3)]
    by (fastforce simp: length_b64 simp del: append.simps append_assoc)
  show ?thesis using scram_authenticates_server [OF run] hd by fastforce
qed

end
