(* ===== verification/Pgfox_Parser.thy ===== *)
theory Pgfox_Parser
  imports Pgfox_Lexer Pgfox_Crypto Pgfox_Prog
begin

text \<open>
  Query classification and parameterization: the part of \<open>src/pkg/pgfox/parser.go\<close> that works on
  the syntax tree. The parser itself (\<open>github.com/pgplex/pgparser\<close>) is the parameter \<open>parse\<close>:
  it gives the statements of a query, or nothing when the text does not parse. A tree is what the
  type switches of \<open>containsParam\<close> and \<open>collectLiterals\<close> can see of it: one constructor per
  case, \<open>OtherNode\<close> for every other node; an absent field, a nil interface or a typed nil pointer
  is \<open>None\<close>, a nil list is the empty list. Trimming and upper-casing are those of ASCII.
\<close>

section \<open>Syntax trees\<close>

datatype constVal = Integer int | Float string | String string | BitString string | Boolean bool | OtherConst

datatype node =
    ParamRef
  | A_Const bool constVal
  | SelectStmt "node list" "node list" "node option" "node list" "node option" "node list"
      "node option" "node option" "node option" "node option"
  | InsertStmt "node option"
  | UpdateStmt "node list" "node option"
  | DeleteStmt "node option"
  | A_Expr "node option" "node option"
  | FuncCall "node list"
  | ResTarget "node option"
  | ListNode "node list"
  | SubLink "node option"
  | TypeCast "node option"
  | BoolExpr "node list"
  | CaseExpr "node option" "node list" "node option"
  | CaseWhen "node option" "node option"
  | CoalesceExpr "node list"
  | NullTest "node option"
  | RowExpr "node list"
  | ArrayExpr "node list"
  | RangeSubselect "node option"
  | JoinExpr "node option" "node option" "node option"
  | SortBy "node option"
  | WindowDef "node list" "node list"
  | ListenStmt
  | UnlistenStmt
  | NotifyStmt
  | OtherNode

text \<open>The fields of \<open>SelectStmt\<close> are TargetList, FromClause, WhereClause, GroupClause,
  HavingClause, ValuesLists, Larg, Rarg, LimitOffset, LimitCount.\<close>

datatype SimpleQueryCommand = SimpleQueryOther | SimpleQueryListen | SimpleQueryUnlisten | SimpleQueryNotify

record ParameterizeResult =
  CanonicalSQL :: string
  Values :: "string list"
  Hash :: string

section \<open>Walks over the tree\<close>

fun isDMLStatement :: "node \<Rightarrow> bool" where
  "isDMLStatement (SelectStmt _ _ _ _ _ _ _ _ _ _) = True"
| "isDMLStatement (InsertStmt _) = True"
| "isDMLStatement (UpdateStmt _ _) = True"
| "isDMLStatement (DeleteStmt _) = True"
| "isDMLStatement _ = False"

primrec containsParam :: "node \<Rightarrow> bool"
  and optHasParam :: "node option \<Rightarrow> bool"
  and listHasParam :: "node list \<Rightarrow> bool" where
  "containsParam ParamRef = True"
| "containsParam (A_Const n v) = False"
| "containsParam (SelectStmt tgts fc wc gc hc vl la ra lo lc) =
     (listHasParam tgts \<or> optHasParam wc \<or> listHasParam gc \<or> optHasParam hc \<or> listHasParam vl \<or> listHasParam fc)"
| "containsParam (InsertStmt s) = optHasParam s"
| "containsParam (UpdateStmt tgts wc) = (listHasParam tgts \<or> optHasParam wc)"
| "containsParam (DeleteStmt wc) = optHasParam wc"
| "containsParam (A_Expr l r) = (optHasParam l \<or> optHasParam r)"
| "containsParam (FuncCall args) = listHasParam args"
| "containsParam (ResTarget v) = optHasParam v"
| "containsParam (ListNode items) = listHasParam items"
| "containsParam (SubLink s) = optHasParam s"
| "containsParam (TypeCast a) = optHasParam a"
| "containsParam (BoolExpr args) = listHasParam args"
| "containsParam (CaseExpr a args d) = (optHasParam a \<or> listHasParam args \<or> optHasParam d)"
| "containsParam (CaseWhen e r) = (optHasParam e \<or> optHasParam r)"
| "containsParam (CoalesceExpr args) = listHasParam args"
| "containsParam (NullTest a) = optHasParam a"
| "containsParam (RowExpr args) = listHasParam args"
| "containsParam (ArrayExpr es) = listHasParam es"
| "containsParam (RangeSubselect q) = False"
| "containsParam (JoinExpr l r q) = False"
| "containsParam (SortBy n) = False"
| "containsParam (WindowDef ps os) = False"
| "containsParam ListenStmt = False"
| "containsParam UnlistenStmt = False"
| "containsParam NotifyStmt = False"
| "containsParam OtherNode = False"
| "optHasParam None = False"
| "optHasParam (Some n) = containsParam n"
| "listHasParam [] = False"
| "listHasParam (n # ns) = (containsParam n \<or> listHasParam ns)"

text \<open>The literals a walk appends to \<open>*out\<close>, in order.\<close>

definition constLiteral :: "bool \<Rightarrow> constVal \<Rightarrow> bool \<Rightarrow> literalValue list" where
  "constLiteral isnull v inLimit =
     (if isnull then []
      else case v of
        Boolean _ \<Rightarrow> []
      | Integer i \<Rightarrow> if inLimit then [] else [\<lparr>lkind = litInt, lvalue = fmt_int i\<rparr>]
      | Float f \<Rightarrow> if inLimit then [] else [\<lparr>lkind = litFloat, lvalue = f\<rparr>]
      | String s \<Rightarrow> [\<lparr>lkind = litString, lvalue = s\<rparr>]
      | BitString s \<Rightarrow> [\<lparr>lkind = litBitStr, lvalue = s\<rparr>]
      | OtherConst \<Rightarrow> [])"

primrec collectLiterals :: "node \<Rightarrow> bool \<Rightarrow> literalValue list"
  and collectOpt :: "node option \<Rightarrow> bool \<Rightarrow> literalValue list"
  and collectInList :: "node list \<Rightarrow> bool \<Rightarrow> literalValue list" where
  "collectLiterals ParamRef = (\<lambda>inLimit. [])"
| "collectLiterals (A_Const isnull v) = (\<lambda>inLimit. constLiteral isnull v inLimit)"
| "collectLiterals (SelectStmt tgts fc wc gc hc vl la ra lo lc) = (\<lambda>inLimit.
     collectInList tgts False @ collectInList fc False @ collectOpt wc False @ collectInList gc False @
     collectOpt hc False @ collectInList vl False @ collectOpt la False @ collectOpt ra False @
     collectOpt lo True @ collectOpt lc True)"
| "collectLiterals (InsertStmt s) = (\<lambda>inLimit. collectOpt s False)"
| "collectLiterals (UpdateStmt tgts wc) = (\<lambda>inLimit. collectInList tgts False @ collectOpt wc False)"
| "collectLiterals (DeleteStmt wc) = (\<lambda>inLimit. collectOpt wc False)"
| "collectLiterals (A_Expr l r) = (\<lambda>inLimit. collectOpt l inLimit @ collectOpt r inLimit)"
| "collectLiterals (FuncCall args) = (\<lambda>inLimit. collectInList args inLimit)"
| "collectLiterals (ResTarget v) = (\<lambda>inLimit. collectOpt v inLimit)"
| "collectLiterals (ListNode items) = (\<lambda>inLimit. collectInList items inLimit)"
| "collectLiterals (SubLink s) = (\<lambda>inLimit. collectOpt s inLimit)"
| "collectLiterals (TypeCast a) = (\<lambda>inLimit. collectOpt a inLimit)"
| "collectLiterals (BoolExpr args) = (\<lambda>inLimit. collectInList args inLimit)"
| "collectLiterals (CaseExpr a args d) = (\<lambda>inLimit.
     collectOpt a inLimit @ collectInList args inLimit @ collectOpt d inLimit)"
| "collectLiterals (CaseWhen e r) = (\<lambda>inLimit. collectOpt e inLimit @ collectOpt r inLimit)"
| "collectLiterals (CoalesceExpr args) = (\<lambda>inLimit. collectInList args inLimit)"
| "collectLiterals (NullTest a) = (\<lambda>inLimit. collectOpt a inLimit)"
| "collectLiterals (RowExpr args) = (\<lambda>inLimit. collectInList args inLimit)"
| "collectLiterals (ArrayExpr es) = (\<lambda>inLimit. collectInList es inLimit)"
| "collectLiterals (RangeSubselect q) = (\<lambda>inLimit. collectOpt q inLimit)"
| "collectLiterals (JoinExpr l r q) = (\<lambda>inLimit.
     collectOpt l inLimit @ collectOpt r inLimit @ collectOpt q inLimit)"
| "collectLiterals (SortBy n) = (\<lambda>inLimit. collectOpt n inLimit)"
| "collectLiterals (WindowDef ps os) = (\<lambda>inLimit. collectInList ps False @ collectInList os False)"
| "collectLiterals ListenStmt = (\<lambda>inLimit. [])"
| "collectLiterals UnlistenStmt = (\<lambda>inLimit. [])"
| "collectLiterals NotifyStmt = (\<lambda>inLimit. [])"
| "collectLiterals OtherNode = (\<lambda>inLimit. [])"
| "collectOpt None = (\<lambda>inLimit. [])"
| "collectOpt (Some n) = (\<lambda>inLimit. collectLiterals n inLimit)"
| "collectInList [] = (\<lambda>inLimit. [])"
| "collectInList (n # ns) = (\<lambda>inLimit. collectLiterals n inLimit @ collectInList ns inLimit)"

section \<open>Classification\<close>

definition StmtName :: "string \<Rightarrow> string" where
  "StmtName hash = ''pfx_'' @ hash"

definition QueryHash :: "string \<Rightarrow> string" where
  "QueryHash canonicalSQL = fmt_hex (take 8 (sha256 canonicalSQL))"

definition isSpace :: "byte \<Rightarrow> bool" where
  "isSpace c \<longleftrightarrow> c \<in> {CHR '' '', CHR 0x09, CHR 0x0A, CHR 0x0B, CHR 0x0C, CHR 0x0D}"

definition TrimSpace :: "string \<Rightarrow> string" where
  "TrimSpace s = trim_right isSpace (trim_left isSpace s)"

definition trimStmt :: "string \<Rightarrow> string" where
  "trimStmt s = trim_right (\<lambda>c. c \<in> {CHR '' '', CHR 0x09, CHR 0x0A, CHR 0x0D, CHR '';''}) s"

definition to_upper :: "byte \<Rightarrow> byte" where
  "to_upper c = (let n = of_char c :: nat in if 97 \<le> n \<and> n \<le> 122 then char_of (n - 32) else c)"

definition ToUpper :: "string \<Rightarrow> string" where
  "ToUpper s = map to_upper s"

definition special_command :: "string \<Rightarrow> node \<Rightarrow> SimpleQueryCommand" where
  "special_command trimmed stmt =
     (case stmt of
        ListenStmt \<Rightarrow> SimpleQueryListen
      | UnlistenStmt \<Rightarrow> SimpleQueryUnlisten
      | NotifyStmt \<Rightarrow> SimpleQueryNotify
      | SelectStmt _ _ _ _ _ _ _ _ _ _ \<Rightarrow>
          if str_contains (ToUpper (filter (\<lambda>c. c \<noteq> CHR '' '') trimmed)) ''PG_NOTIFY(''
          then SimpleQueryNotify else SimpleQueryOther
      | _ \<Rightarrow> SimpleQueryOther)"

definition parameterize :: "string \<Rightarrow> string list \<Rightarrow> ParameterizeResult" where
  "parameterize canonical vs = \<lparr>CanonicalSQL = canonical, Values = vs, Hash = QueryHash canonical\<rparr>"

definition ClassifyAndParameterize ::
  "(string \<Rightarrow> node list option) \<Rightarrow> string \<Rightarrow> (SimpleQueryCommand \<times> ParameterizeResult option) res" where
  "ClassifyAndParameterize parse sql0 =
     (let sql = TrimSpace sql0 in
      if sql = [] then Ok (SimpleQueryOther, None)
      else let trimmed = trimStmt sql in
        case parse trimmed of
          None \<Rightarrow> Ok (SimpleQueryOther, None)
        | Some [] \<Rightarrow> Ok (SimpleQueryOther, None)
        | Some (_ # _ # _) \<Rightarrow> Ok (SimpleQueryOther, None)
        | Some [stmt] \<Rightarrow>
            if special_command trimmed stmt \<noteq> SimpleQueryOther then Ok (special_command trimmed stmt, None)
            else if \<not> isDMLStatement stmt then Ok (SimpleQueryOther, None)
            else if containsParam stmt then Ok (SimpleQueryOther, Some (parameterize trimmed []))
            else let litValues = collectLiterals stmt False in
              if length litValues = 0 then Ok (SimpleQueryOther, Some (parameterize trimmed []))
              else case rewriteLiteralsWS trimmed litValues of
                     LiteralNotFound \<Rightarrow> Ok (SimpleQueryOther, None)
                   | RPanic \<Rightarrow> Panic
                   | Rewritten canonical vs \<Rightarrow> Ok (SimpleQueryOther, Some (parameterize canonical vs)))"

definition ParameterizeQuery :: "(string \<Rightarrow> node list option) \<Rightarrow> string \<Rightarrow> (ParameterizeResult option) res" where
  "ParameterizeQuery parse sql =
     (case ClassifyAndParameterize parse sql of Ok (_, r) \<Rightarrow> Ok r | Err e \<Rightarrow> Err e | Panic \<Rightarrow> Panic | Blocked \<Rightarrow> Blocked)"

section \<open>Properties\<close>

lemma rewriteLiteralsWS_sound:
  "rewriteLiteralsWS sql lits = Rewritten canon vals \<Longrightarrow>
     \<exists>ps tail. sql = concat (map (\<lambda>(pre, tok). pre @ tok) ps) @ tail \<and> canon = splice 0 ps tail \<and>
       list_all2 (\<lambda>lit (pre, tok). denotes lit tok) lits ps \<and> vals = map lvalue lits"
  using rewrite_loop_sound [of sql 0 0 "[]" "[]" lits canon vals]
  by (cases "lits = []") (auto simp: rewriteLiteralsWS_def intro!: exI [where x = "[]"])

text \<open>C37: A query that is parameterized is exactly one DML statement that is no LISTEN, UNLISTEN,
  NOTIFY or pg_notify call; its canonical text is the trimmed query with some tokens replaced by
  \<open>$1, $2, ...\<close> and nothing else changed, one value per replaced token; when there are values they
  are those of the literals of the syntax tree, in order, and each replaced token is the source form
  of its literal. Its hash is the hash of the canonical text alone.\<close>

theorem parameterize_sound:
  assumes "ClassifyAndParameterize parse sql = Ok (cmd, Some r)"
  shows "cmd = SimpleQueryOther \<and> Hash r = QueryHash (CanonicalSQL r) \<and>
    (\<exists>stmt ps tail. parse (trimStmt (TrimSpace sql)) = Some [stmt] \<and> isDMLStatement stmt \<and>
      special_command (trimStmt (TrimSpace sql)) stmt = SimpleQueryOther \<and>
      trimStmt (TrimSpace sql) = concat (map (\<lambda>(pre, tok). pre @ tok) ps) @ tail \<and>
      CanonicalSQL r = splice 0 ps tail \<and> length ps = length (Values r) \<and>
      (ps \<noteq> [] \<longrightarrow> \<not> containsParam stmt \<and> Values r = map lvalue (collectLiterals stmt False) \<and>
         list_all2 (\<lambda>lit (pre, tok). denotes lit tok) (collectLiterals stmt False) ps))"
proof -
  let ?t = "trimStmt (TrimSpace sql)"
  obtain stmt where stmt: "parse ?t = Some [stmt]" "isDMLStatement stmt" "special_command ?t stmt = SimpleQueryOther"
      "cmd = SimpleQueryOther" and
    r: "r = parameterize ?t [] \<or> (\<exists>canon vs. \<not> containsParam stmt \<and>
       rewriteLiteralsWS ?t (collectLiterals stmt False) = Rewritten canon vs \<and> r = parameterize canon vs)"
    using assms
    by (auto simp: ClassifyAndParameterize_def Let_def split: if_splits option.splits list.splits rewrite.splits)
  from r show ?thesis
  proof
    assume "r = parameterize ?t []"
    then show ?thesis
      using stmt by (auto simp: parameterize_def intro!: exI [of _ "[]"])
  next
    assume "\<exists>canon vs. \<not> containsParam stmt \<and>
       rewriteLiteralsWS ?t (collectLiterals stmt False) = Rewritten canon vs \<and> r = parameterize canon vs"
    then obtain canon vs where c: "\<not> containsParam stmt"
        "rewriteLiteralsWS ?t (collectLiterals stmt False) = Rewritten canon vs" "r = parameterize canon vs"
      by blast
    obtain ps tail where ps: "?t = concat (map (\<lambda>(pre, tok). pre @ tok) ps) @ tail" "canon = splice 0 ps tail"
        "list_all2 (\<lambda>lit (pre, tok). denotes lit tok) (collectLiterals stmt False) ps"
        "vs = map lvalue (collectLiterals stmt False)"
      using rewriteLiteralsWS_sound [OF c(2)] by blast
    have "length ps = length vs" using ps(3,4) by (simp add: list_all2_lengthD)
    then show ?thesis
      using stmt c(1,3) ps
      by (intro conjI exI [of _ stmt] exI [of _ ps] exI [of _ tail]) (simp_all add: parameterize_def)
  qed
qed

definition demo_parse :: "string \<Rightarrow> node list option" where
  "demo_parse s =
     (if s = ''SELECT x FROM t WHERE n = 42''
      then Some [SelectStmt [ResTarget (Some OtherNode)] [OtherNode]
             (Some (A_Expr (Some OtherNode) (Some (A_Const False (Integer 42))))) [] None [] None None None None]
      else if s = ''SELECT 1 FROM a JOIN b ON x = $1''
      then Some [SelectStmt [ResTarget (Some (A_Const False (Integer 1)))]
             [JoinExpr (Some OtherNode) (Some OtherNode) (Some (A_Expr (Some OtherNode) (Some ParamRef)))]
             None [] None [] None None None None]
      else None)"

lemma demo_trims:
  "trimStmt (TrimSpace '' SELECT x FROM t WHERE n = 42; '') = ''SELECT x FROM t WHERE n = 42''"
  "TrimSpace '' SELECT x FROM t WHERE n = 42; '' \<noteq> []"
  "trimStmt (TrimSpace ''SELECT 1 FROM a JOIN b ON x = $1'') = ''SELECT 1 FROM a JOIN b ON x = $1''"
  "TrimSpace ''SELECT 1 FROM a JOIN b ON x = $1'' \<noteq> []"
  by code_simp+

lemma demo_not_notify:
  "\<not> str_contains (ToUpper ''SELECTxFROMtWHEREn=42'') ''PG_NOTIFY(''"
  "\<not> str_contains (ToUpper ''SELECT1FROMaJOINbONx=$1'') ''PG_NOTIFY(''"
  by code_simp+

lemma demo_rewrites:
  "rewriteLiteralsWS ''SELECT x FROM t WHERE n = 42'' [\<lparr>lkind = litInt, lvalue = fmt_int 42\<rparr>] =
     Rewritten ''SELECT x FROM t WHERE n = $1'' [''42'']"
  "rewriteLiteralsWS ''SELECT 1 FROM a JOIN b ON x = $1'' [\<lparr>lkind = litInt, lvalue = fmt_int 1\<rparr>] =
     Rewritten ''SELECT $1 FROM a JOIN b ON x = $1'' [''1'']"
  by code_simp+

lemma demo_classify:
  "ClassifyAndParameterize demo_parse '' SELECT x FROM t WHERE n = 42; '' =
     Ok (SimpleQueryOther, Some (parameterize ''SELECT x FROM t WHERE n = $1'' [''42'']))"
  by (simp add: ClassifyAndParameterize_def Let_def demo_trims demo_parse_def special_command_def demo_not_notify
      constLiteral_def demo_rewrites)

theorem parameterize_sound_witness:
  "Hash (parameterize ''SELECT x FROM t WHERE n = $1'' [''42'']) = QueryHash ''SELECT x FROM t WHERE n = $1'' \<and>
   (\<exists>stmt. demo_parse (trimStmt (TrimSpace '' SELECT x FROM t WHERE n = 42; '')) = Some [stmt] \<and> isDMLStatement stmt)"
  using parameterize_sound [OF demo_classify] by (auto simp: parameterize_def)

text \<open>containsParam does not look into join conditions, so a query whose only parameter stands in
  an ON clause is rewritten as if it had none: the extracted literal becomes a second \<open>$1\<close>.\<close>

theorem join_parameter_collides:
  "ClassifyAndParameterize demo_parse ''SELECT 1 FROM a JOIN b ON x = $1'' =
     Ok (SimpleQueryOther, Some (parameterize ''SELECT $1 FROM a JOIN b ON x = $1'' [''1'']))"
  by (simp add: ClassifyAndParameterize_def Let_def demo_trims demo_parse_def special_command_def demo_not_notify
      constLiteral_def demo_rewrites)

end
