(* ===== verification/Pgfox_Cache.thy ===== *)
theory Pgfox_Cache
  imports Pgfox_Prelude "HOL-Library.AList"
begin

text \<open>
  The target-level registry of prepared statements, \<open>src/pkg/pgfox/cache.go\<close>. A \<open>*CachedStmt\<close>
  is identified by its hash, the key it is registered under (entries are never removed), and the
  operations on an entry update it in place. \<open>GetOrRegister\<close> is the composition of its two
  critical sections, the lookup under the read lock and the double-checked registration under the
  write lock; the last section lets goroutines interleave between the two.

  The contract of the registry is the locale \<open>stmt_registry\<close>; the cache interprets it.
\<close>

section \<open>Entries\<close>

record CachedStmt =
  cs_Hash :: string
  cs_CanonicalSQL :: string
  cs_ParamCount :: nat
  cs_OriginalSQL :: string
  cs_RegisteredAt :: int
  cs_Executions :: int
  cs_LastUsedNano :: int
  cs_DeployCount :: int

definition RecordExecution :: "int \<Rightarrow> CachedStmt \<Rightarrow> CachedStmt" where
  "RecordExecution now s = s\<lparr>cs_Executions := cs_Executions s + 1, cs_LastUsedNano := now\<rparr>"

definition RecordDeploy :: "CachedStmt \<Rightarrow> CachedStmt" where
  "RecordDeploy s = s\<lparr>cs_DeployCount := cs_DeployCount s + 1\<rparr>"

definition RecordUndeploy :: "CachedStmt \<Rightarrow> CachedStmt" where
  "RecordUndeploy s = s\<lparr>cs_DeployCount := cs_DeployCount s - 1\<rparr>"

definition LastUsed :: "CachedStmt \<Rightarrow> int" where
  "LastUsed s = (if cs_LastUsedNano s = 0 then cs_RegisteredAt s else cs_LastUsedNano s)"

section \<open>The registry\<close>

type_synonym StmtCache = "(string \<times> CachedStmt) list"

definition NewStmtCache :: StmtCache where
  "NewStmtCache = []"

definition Get :: "StmtCache \<Rightarrow> string \<Rightarrow> CachedStmt option" where
  "Get c hash = map_of c hash"

definition new_entry :: "string \<Rightarrow> string \<Rightarrow> string \<Rightarrow> nat \<Rightarrow> int \<Rightarrow> CachedStmt" where
  "new_entry hash canonicalSQL originalSQL paramCount now =
     \<lparr>cs_Hash = hash, cs_CanonicalSQL = canonicalSQL, cs_ParamCount = paramCount, cs_OriginalSQL = originalSQL,
      cs_RegisteredAt = now, cs_Executions = 0, cs_LastUsedNano = 0, cs_DeployCount = 0\<rparr>"

text \<open>The section under the write lock.\<close>

definition register_locked ::
  "string \<Rightarrow> string \<Rightarrow> string \<Rightarrow> nat \<Rightarrow> int \<Rightarrow> StmtCache \<Rightarrow> (CachedStmt \<times> bool) \<times> StmtCache" where
  "register_locked hash canonicalSQL originalSQL paramCount now c =
     (case Get c hash of
        Some entry \<Rightarrow> ((entry, False), c)
      | None \<Rightarrow>
          (let entry = new_entry hash canonicalSQL originalSQL paramCount now
           in ((entry, True), AList.update hash entry c)))"

definition GetOrRegister ::
  "string \<Rightarrow> string \<Rightarrow> string \<Rightarrow> nat \<Rightarrow> int \<Rightarrow> StmtCache \<Rightarrow> (CachedStmt \<times> bool) \<times> StmtCache" where
  "GetOrRegister hash canonicalSQL originalSQL paramCount now c =
     (case Get c hash of
        Some entry \<Rightarrow> ((entry, False), c)
      | None \<Rightarrow> register_locked hash canonicalSQL originalSQL paramCount now c)"

definition All_stmts :: "StmtCache \<Rightarrow> CachedStmt list" where
  "All_stmts c = map snd c"

definition Len :: "StmtCache \<Rightarrow> nat" where
  "Len c = length c"

text \<open>An in-place update of the entry under \<open>hash\<close>, if there is one.\<close>

definition on_entry :: "string \<Rightarrow> (CachedStmt \<Rightarrow> CachedStmt) \<Rightarrow> StmtCache \<Rightarrow> StmtCache" where
  "on_entry hash f c = (case Get c hash of None \<Rightarrow> c | Some e \<Rightarrow> AList.update hash (f e) c)"

definition cache_ok :: "StmtCache \<Rightarrow> bool" where
  "cache_ok c \<longleftrightarrow> distinct (map fst c) \<and> (\<forall>(h, e) \<in> set c. cs_Hash e = h)"

section \<open>The contract\<close>

text \<open>What clients of a registry rely on: a registration gives an entry for the hash, keeps every
  entry that is there, and adds none for another hash.\<close>

locale stmt_registry =
  fixes get :: "'c \<Rightarrow> string \<Rightarrow> 'e option"
    and register :: "string \<Rightarrow> string \<Rightarrow> string \<Rightarrow> nat \<Rightarrow> int \<Rightarrow> 'c \<Rightarrow> ('e \<times> bool) \<times> 'c"
    and sql :: "'e \<Rightarrow> string"
  assumes register_hit: "get c h = Some e \<Longrightarrow> register h q r n t c = ((e, False), c)"
    and register_miss: "get c h = None \<Longrightarrow> register h q r n t c = ((e, b), c') \<Longrightarrow>
      b \<and> get c' h = Some e \<and> sql e = q \<and> (\<forall>h'. h' \<noteq> h \<longrightarrow> get c' h' = get c h')"
begin

lemma get_register:
  assumes "register h q r n t c = ((e, b), c')"
  shows "get c' h = Some e"
proof (cases "get c h")
  case None
  then show ?thesis using register_miss [OF None assms] by simp
next
  case (Some x)
  then show ?thesis using register_hit [OF Some, of q r n t] assms by simp
qed

lemma register_mono:
  assumes "register h q r n t c = ((e, b), c')" and "get c h' = Some e'"
  shows "get c' h' = Some e'"
proof (cases "get c h")
  case None
  then have "h' \<noteq> h" using assms(2) by auto
  then show ?thesis using register_miss [OF None assms(1)] assms(2) by simp
next
  case (Some x)
  then show ?thesis using register_hit [OF Some, of q r n t] assms by simp
qed

text \<open>The first registration of a hash decides its statement for ever.\<close>

lemma register_first_wins:
  assumes "register h q r n t c = ((e, b), c')" and "register h q' r' n' t' c' = ((e', b'), c'')"
  shows "e' = e \<and> \<not> b'"
  using register_hit [OF get_register [OF assms(1)]] assms(2) by simp

end

lemma Get_update [simp]: "Get (AList.update h e c) h' = (if h' = h then Some e else Get c h')"
  by (simp add: Get_def update_conv)

interpretation cache: stmt_registry Get GetOrRegister cs_CanonicalSQL
  by unfold_locales
    (auto simp: GetOrRegister_def register_locked_def new_entry_def Let_def)

interpretation locked: stmt_registry Get register_locked cs_CanonicalSQL
  by unfold_locales
    (auto simp: register_locked_def new_entry_def Let_def)

section \<open>The invariant\<close>

lemma cache_ok_Get: "cache_ok c \<Longrightarrow> Get c h = Some e \<Longrightarrow> cs_Hash e = h"
  by (auto simp: cache_ok_def Get_def dest: map_of_SomeD)

lemma set_alist_update: "set (AList.update k v al) \<subseteq> insert (k, v) (set al)"
  by (induction al) auto

lemma cache_ok_update: "cache_ok c \<Longrightarrow> cs_Hash e = h \<Longrightarrow> cache_ok (AList.update h e c)"
  using set_alist_update [of h e c] by (auto simp: cache_ok_def distinct_update)

lemma cache_ok_register: "cache_ok c \<Longrightarrow> cache_ok (snd (GetOrRegister h q r n t c))"
  by (auto simp: GetOrRegister_def register_locked_def new_entry_def Let_def split: option.split intro: cache_ok_update)

lemma cache_ok_on_entry: "cache_ok c \<Longrightarrow> (\<And>e. cs_Hash (f e) = cs_Hash e) \<Longrightarrow> cache_ok (on_entry h f c)"
  by (auto simp: on_entry_def split: option.split intro: cache_ok_update dest: cache_ok_Get)

lemma Get_on_entry: "Get (on_entry h f c) h' = (if h' = h then map_option f (Get c h) else Get c h')"
  by (auto simp: on_entry_def split: option.split)

section \<open>Concurrent registration\<close>

record request =
  rq_hash :: string
  rq_sql :: string
  rq_orig :: string
  rq_params :: nat

text \<open>Where a goroutine is inside \<open>GetOrRegister\<close>.\<close>

datatype regstate = Start | Missed | Done CachedStmt bool

text \<open>One step of one goroutine, or a statistics update of any entry in between.\<close>

inductive reg_step :: "(nat \<Rightarrow> request) \<Rightarrow> StmtCache \<times> (nat \<Rightarrow> regstate) \<Rightarrow> StmtCache \<times> (nat \<Rightarrow> regstate) \<Rightarrow> bool"
  for req where
  fast_hit: "st g = Start \<Longrightarrow> Get c (rq_hash (req g)) = Some e \<Longrightarrow> reg_step req (c, st) (c, st(g := Done e False))"
| fast_miss: "st g = Start \<Longrightarrow> Get c (rq_hash (req g)) = None \<Longrightarrow> reg_step req (c, st) (c, st(g := Missed))"
| slow: "st g = Missed \<Longrightarrow>
    register_locked (rq_hash (req g)) (rq_sql (req g)) (rq_orig (req g)) (rq_params (req g)) now c = ((e, isNew), c') \<Longrightarrow>
    reg_step req (c, st) (c', st(g := Done e isNew))"
| executed: "reg_step req (c, st) (on_entry h (RecordExecution now) c, st)"
| deployed: "reg_step req (c, st) (on_entry h RecordDeploy c, st)"
| undeployed: "reg_step req (c, st) (on_entry h RecordUndeploy c, st)"

inductive_cases reg_stepE: "reg_step req s s'"

text \<open>An entry is there for every finished goroutine, with the statement it was given, and at most
  one goroutine per hash has created it.\<close>

definition reg_inv :: "(nat \<Rightarrow> request) \<Rightarrow> StmtCache \<times> (nat \<Rightarrow> regstate) \<Rightarrow> bool" where
  "reg_inv req s \<longleftrightarrow>
     (\<forall>g e n. snd s g = Done e n \<longrightarrow>
        (\<exists>e'. Get (fst s) (rq_hash (req g)) = Some e' \<and> cs_CanonicalSQL e' = cs_CanonicalSQL e)) \<and>
     (\<forall>g g' e e'. snd s g = Done e True \<longrightarrow> snd s g' = Done e' True \<longrightarrow> rq_hash (req g) = rq_hash (req g') \<longrightarrow> g = g')"

lemma reg_inv_entryD:
  "reg_inv req (c, st) \<Longrightarrow> st g = Done e n \<Longrightarrow>
     \<exists>e'. Get c (rq_hash (req g)) = Some e' \<and> cs_CanonicalSQL e' = cs_CanonicalSQL e"
  unfolding reg_inv_def fst_conv snd_conv by blast

lemma reg_inv_uniqueD:
  "reg_inv req (c, st) \<Longrightarrow> st g = Done e True \<Longrightarrow> st g' = Done e' True \<Longrightarrow> rq_hash (req g) = rq_hash (req g') \<Longrightarrow> g = g'"
  unfolding reg_inv_def fst_conv snd_conv by blast

lemma reg_inv_entry:
  assumes "reg_inv req (c, st)" and "\<And>e. cs_CanonicalSQL (f e) = cs_CanonicalSQL e"
  shows "reg_inv req (on_entry h f c, st)"
proof -
  have "\<exists>e'. Get (on_entry h f c) k = Some e' \<and> cs_CanonicalSQL e' = q"
    if "\<exists>e'. Get c k = Some e' \<and> cs_CanonicalSQL e' = q" for k q
    using that assms(2) by (auto simp: Get_on_entry)
  then show ?thesis using assms(1) unfolding reg_inv_def fst_conv snd_conv by blast
qed

lemma reg_inv_slow:
  assumes inv: "reg_inv req (c, st)" and m: "st g = Missed"
    and r: "register_locked (rq_hash (req g)) q o' n now c = ((e, isNew), c')"
  shows "reg_inv req (c', st(g := Done e isNew))"
proof -
  have get: "Get c' (rq_hash (req g)) = Some e" by (rule locked.get_register [OF r])
  have mono: "Get c' h = Some x" if "Get c h = Some x" for h x by (rule locked.register_mono [OF r that])
  have new: "Get c (rq_hash (req g)) = None" if isNew
  proof (cases "Get c (rq_hash (req g))")
    case (Some x)
    then show ?thesis using locked.register_hit [OF Some, of q o' n now] r that by simp
  qed
  have 1: "\<exists>x. Get c' (rq_hash (req k)) = Some x \<and> cs_CanonicalSQL x = cs_CanonicalSQL d"
    if fin: "(st(g := Done e isNew)) k = Done d b" for k d b
  proof (cases "k = g")
    case True
    then show ?thesis using fin get by simp
  next
    case False
    then obtain x where "Get c (rq_hash (req k)) = Some x" "cs_CanonicalSQL x = cs_CanonicalSQL d"
      using fin reg_inv_entryD [OF inv, of k d b] by auto
    then show ?thesis using mono by blast
  qed
  have 2: "k = k'" if "(st(g := Done e isNew)) k = Done d True" "(st(g := Done e isNew)) k' = Done d' True"
      "rq_hash (req k) = rq_hash (req k')" for k k' d d'
  proof -
    have no: False if isNew "st j = Done d'' True" "rq_hash (req j) = rq_hash (req g)" for j d''
      using new [OF that(1)] reg_inv_entryD [OF inv that(2)] that(3) by simp
    show ?thesis
    proof (cases "k = g"; cases "k' = g")
      assume "k \<noteq> g" "k' \<noteq> g"
      then show ?thesis using that reg_inv_uniqueD [OF inv, of k d k' d'] by simp
    next
      assume "k = g" "k' \<noteq> g"
      then show ?thesis using that no [of k' d'] by simp
    next
      assume "k \<noteq> g" "k' = g"
      then show ?thesis using that no [of k d] by simp
    qed simp
  qed
  show ?thesis unfolding reg_inv_def fst_conv snd_conv using 1 2 by blast
qed

lemma reg_step_inv:
  assumes "reg_step req s s'" and "reg_inv req s"
  shows "reg_inv req s'"
  using assms
proof (induction rule: reg_step.induct)
  case (fast_hit st g c e)
  then show ?case unfolding reg_inv_def by auto
next
  case (fast_miss st g c)
  then show ?case unfolding reg_inv_def by auto
next
  case (slow st g now c e isNew c')
  then show ?case by (blast intro: reg_inv_slow)
qed (auto intro!: reg_inv_entry simp: RecordExecution_def RecordDeploy_def RecordUndeploy_def)

lemma reg_run_inv: "(reg_step req)\<^sup>*\<^sup>* s s' \<Longrightarrow> reg_inv req s \<Longrightarrow> reg_inv req s'"
  by (induction rule: rtranclp_induct) (auto intro: reg_step_inv)

section \<open>Properties\<close>

text \<open>C38: However the goroutines calling GetOrRegister interleave, between themselves and with the
  statistics updates, all that registered the same hash hold the same canonical statement, the one
  the cache keeps, and at most one of them was told that it created the entry.\<close>

theorem concurrent_registration:
  assumes "(reg_step req)\<^sup>*\<^sup>* (NewStmtCache, \<lambda>_. Start) (c, st)"
    and "st g = Done e n" and "st g' = Done e' n'" and "rq_hash (req g) = rq_hash (req g')"
  shows "cs_CanonicalSQL e = cs_CanonicalSQL e' \<and>
    (\<exists>x. Get c (rq_hash (req g)) = Some x \<and> cs_CanonicalSQL x = cs_CanonicalSQL e) \<and> (n \<and> n' \<longrightarrow> g = g')"
proof -
  have "reg_inv req (NewStmtCache, \<lambda>_. Start)" by (simp add: reg_inv_def)
  from reg_run_inv [OF assms(1) this] have "reg_inv req (c, st)" .
  then show ?thesis
    using reg_inv_entryD [of req c st g e n] reg_inv_entryD [of req c st g' e' n']
      reg_inv_uniqueD [of req c st g e g' e'] assms(2-4) by auto
qed

theorem concurrent_registration_witness:
  "let r = \<lambda>g::nat. \<lparr>rq_hash = ''h'', rq_sql = ''SELECT $1'', rq_orig = ''SELECT 1'', rq_params = 1\<rparr>;
       e = new_entry ''h'' ''SELECT $1'' ''SELECT 1'' 1 7
   in (reg_step r)\<^sup>*\<^sup>* (NewStmtCache, \<lambda>_. Start)
        ([(''h'', e)], (((\<lambda>_. Start)(0 := Missed, 1 := Missed))(0 := Done e True))(1 := Done e False)) \<and>
      (\<exists>x. Get [(''h'', e)] ''h'' = Some x \<and> cs_CanonicalSQL x = cs_CanonicalSQL e)"
proof -
  let ?r = "\<lambda>g::nat. \<lparr>rq_hash = ''h'', rq_sql = ''SELECT $1'', rq_orig = ''SELECT 1'', rq_params = 1\<rparr>"
  let ?e = "new_entry ''h'' ''SELECT $1'' ''SELECT 1'' 1 7"
  let ?s2 = "(\<lambda>_. Start)(0 := Missed, 1 := Missed)"
  have 1: "reg_step ?r (NewStmtCache, \<lambda>_. Start) (NewStmtCache, (\<lambda>_. Start)(0 := Missed))"
    by (rule fast_miss) (simp_all add: NewStmtCache_def Get_def)
  have 2: "reg_step ?r (NewStmtCache, (\<lambda>_. Start)(0 := Missed)) (NewStmtCache, ?s2)"
    by (rule fast_miss) (simp_all add: NewStmtCache_def Get_def)
  have 3: "reg_step ?r (NewStmtCache, ?s2) ([(''h'', ?e)], ?s2(0 := Done ?e True))"
    by (rule slow [where now = 7]) (simp_all add: NewStmtCache_def register_locked_def Get_def Let_def)
  have 4: "reg_step ?r ([(''h'', ?e)], ?s2(0 := Done ?e True)) ([(''h'', ?e)], (?s2(0 := Done ?e True))(1 := Done ?e False))"
    by (rule slow [where now = 8]) (simp_all add: register_locked_def Get_def)
  have run: "(reg_step ?r)\<^sup>*\<^sup>* (NewStmtCache, \<lambda>_. Start) ([(''h'', ?e)], (?s2(0 := Done ?e True))(1 := Done ?e False))"
    using 1 2 3 4 by (meson converse_rtranclp_into_rtranclp rtranclp.rtrancl_refl)
  show ?thesis
    unfolding Let_def using run concurrent_registration [OF run, of 0 ?e True 1 ?e False] by simp
qed

end
