(* ===== verification/Pgfox_Config.thy ===== *)
theory Pgfox_Config
  imports Pgfox_Endpoints Pgfox_Cache "HOL-Library.List_Lexorder" "HOL-Library.Char_ord" "HOL-Library.Product_Lexorder"
begin

text \<open>
  Configuration and access rules: \<open>src/pkg/pgfox/config.go\<close>, the \<open>Target\<close> struct and
  \<open>checkAccess\<close> of \<open>target.go\<close>, and \<open>targetServesDatabase\<close> of \<open>server.go\<close>. The YAML library
  is the parameter \<open>unmarshal\<close> (it fills a configuration that already holds the defaults), the
  bytes of the file after \<open>os.ReadFile\<close> and \<open>os.ExpandEnv\<close> are an argument, and so is the text
  parser \<open>net.ParseCIDR\<close>. Durations are nanoseconds. A channel is the list of its elements with
  its capacity; a channel of \<open>struct{}\<close> is a count.
\<close>

section \<open>Networks (package net)\<close>

record IPNet =
  netIP :: bytes
  netMask :: bytes

definition v4InV6Prefix :: bytes where
  "v4InV6Prefix = replicate 10 NUL @ replicate 2 (CHR 0xFF)"

definition To4 :: "bytes \<Rightarrow> bytes option" where
  "To4 ip =
     (if length ip = 4 then Some ip
      else if length ip = 16 \<and> take 12 ip = v4InV6Prefix then Some (drop 12 ip)
      else None)"

definition networkNumberAndMask :: "IPNet \<Rightarrow> bytes \<times> bytes" where
  "networkNumberAndMask n =
     (let ip = (case To4 (netIP n) of Some x \<Rightarrow> x | None \<Rightarrow> netIP n); m = netMask n
      in if To4 (netIP n) = None \<and> length ip \<noteq> 16 then ([], [])
         else if length m = 4 then (if length ip \<noteq> 4 then ([], []) else (ip, m))
         else if length m = 16 then (if length ip = 4 then (ip, drop 12 m) else (ip, m))
         else ([], []))"

definition byte_and :: "byte \<Rightarrow> byte \<Rightarrow> byte" where
  "byte_and a b = byte_of (word_of a AND word_of b :: 8 word)"

definition Contains :: "IPNet \<Rightarrow> bytes \<Rightarrow> bool" where
  "Contains n ip0 =
     (let (nn, m) = networkNumberAndMask n;
          ip = (case To4 ip0 of Some x \<Rightarrow> x | None \<Rightarrow> ip0)
      in length ip = length nn \<and> map2 byte_and nn m = map2 byte_and ip m)"

section \<open>Rules (config.go)\<close>

definition RuleAllow :: string where "RuleAllow = ''allow''"
definition RuleDeny :: string where "RuleDeny = ''deny''"

record Rule =
  Action :: string
  CIDR :: "string list"
  Users :: "string list"
  Databases :: "string list"
  Nets :: "IPNet list"

definition MatchesIP :: "Rule \<Rightarrow> bytes \<Rightarrow> bool" where
  "MatchesIP r ip = (if Nets r = [] then True else list_ex (\<lambda>network. Contains network ip) (Nets r))"

definition MatchesUser :: "Rule \<Rightarrow> string \<Rightarrow> bool" where
  "MatchesUser r usr = (if Users r = [] then True else list_ex (\<lambda>u. u = usr) (Users r))"

definition MatchesDatabase :: "Rule \<Rightarrow> string \<Rightarrow> bool" where
  "MatchesDatabase r db = (if Databases r = [] then True else list_ex (\<lambda>d. d = db) (Databases r))"

section \<open>Targets (target.go)\<close>

record Target =
  Name :: string
  Host :: string
  Port :: int
  MaxConnections :: int
  ConnectTimeout :: int
  Parameters :: "(string \<times> string) list"
  Priority :: int
  Rules :: "Rule list"
  t_backend :: "backendId option"
  Ready :: bool
  Params :: "(string \<times> string) list"
  Pools :: "(string \<times> poolId) list"
  CachedPools :: "poolId list"
  TotalOpen :: int
  AtomicTotalOpen :: int
  ServerMaxConns :: int
  ServerOpenConns :: int
  ListenOpen :: int
  Draining :: bool
  t_stmts :: StmtCache
  CloseCh :: "backendId list"
  CloseChCap :: nat
  Demand :: bool
  PoolRegistered :: "poolId list"
  ConnReady :: nat
  ConnReadyCap :: nat
  Cancelled :: bool

definition extractIP :: "netAddr \<Rightarrow> bytes" where
  "extractIP a = (case a of TCPAddr ip \<Rightarrow> ip | OtherAddr (Some ip) \<Rightarrow> ip | OtherAddr None \<Rightarrow> [])"

fun access_loop :: "bytes \<Rightarrow> string \<Rightarrow> string \<Rightarrow> Rule list \<Rightarrow> bool" where
  "access_loop ip usr db [] = True"
| "access_loop ip usr db (r # rs) =
     (if \<not> MatchesIP r ip then access_loop ip usr db rs
      else if \<not> MatchesUser r usr then access_loop ip usr db rs
      else if \<not> MatchesDatabase r db then access_loop ip usr db rs
      else Action r \<noteq> RuleDeny)"

definition checkAccess :: "Target \<Rightarrow> netAddr \<Rightarrow> string \<Rightarrow> string \<Rightarrow> goerr option" where
  "checkAccess t addr usr db =
     (if access_loop (extractIP addr) usr db (Rules t) then None
      else Some (Errorf (''access denied for user '' @ usr @ '' database '' @ db)))"

fun serves_loop :: "string \<Rightarrow> Rule list \<Rightarrow> bool" where
  "serves_loop db [] = True"
| "serves_loop db (r # rs) = (if \<not> MatchesDatabase r db then serves_loop db rs else Action r = RuleAllow)"

definition targetServesDatabase :: "Target \<Rightarrow> string \<Rightarrow> bool" where
  "targetServesDatabase t db = serves_loop db (Rules t)"

section \<open>Loading (config.go)\<close>

record CertsConfig =
  TTL :: int
  Organization :: string
  OrganizationalUnit :: string
  Country :: string

record ServerConfig =
  ListenAddr :: string
  sc_MaxConnections :: int
  sc_ConnectTimeout :: int
  IdleTimeout :: int
  QueryTimeout :: int
  MaxMessageSize :: int
  PgFoxDir :: string
  Hostname :: string
  PgFoxRole :: string
  StatsInterval :: int
  PeakWindow :: int
  Certs :: CertsConfig

record Config =
  cfgServer :: ServerConfig
  cfgTargets :: "Target list"

definition Second :: int where "Second = 1000000000"
definition Hour :: int where "Hour = 3600 * Second"

text \<open>The defaults; the fields that only concern logging and metrics are left out.\<close>

definition defaultServerConfig :: ServerConfig where
  "defaultServerConfig =
     \<lparr>ListenAddr = '':5432'', sc_MaxConnections = 20, sc_ConnectTimeout = 10 * Second, IdleTimeout = 600 * Second,
      QueryTimeout = 0, MaxMessageSize = 256 * 1024 * 1024, PgFoxDir = ''/etc/pgfox'', Hostname = ''localhost'',
      PgFoxRole = ''postgres'', StatsInterval = 10 * Second, PeakWindow = 300 * Second,
      Certs = \<lparr>TTL = 2160 * Hour, Organization = ''PgFox'', OrganizationalUnit = ''PostgreSQL Users'', Country = ''US''\<rparr>\<rparr>"

fun parse_nets :: "(string \<Rightarrow> IPNet option) \<Rightarrow> string list \<Rightarrow> IPNet list \<Rightarrow> goerr + IPNet list" where
  "parse_nets parseCIDR [] nets = Inr nets"
| "parse_nets parseCIDR (cidr # cidrs) nets =
     (case parseCIDR cidr of
        None \<Rightarrow> Inl (Errorf (''invalid cidr '' @ cidr))
      | Some network \<Rightarrow> parse_nets parseCIDR cidrs (nets @ [network]))"

fun init_rules :: "(string \<Rightarrow> IPNet option) \<Rightarrow> Rule list \<Rightarrow> goerr + Rule list" where
  "init_rules parseCIDR [] = Inr []"
| "init_rules parseCIDR (r # rs) =
     (case parse_nets parseCIDR (CIDR r) (Nets r) of
        Inl e \<Rightarrow> Inl e
      | Inr nets \<Rightarrow>
          (case init_rules parseCIDR rs of Inl e \<Rightarrow> Inl e | Inr rs' \<Rightarrow> Inr (r\<lparr>Nets := nets\<rparr> # rs')))"

definition default_rules :: "Rule list" where
  "default_rules = [\<lparr>Action = RuleDeny, CIDR = [], Users = [], Databases = [''template0'', ''template1''], Nets = []\<rparr>]"

text \<open>\<open>make(chan T, n)\<close> panics for a negative \<open>n\<close>.\<close>

definition initTarget :: "(string \<Rightarrow> IPNet option) \<Rightarrow> ServerConfig \<Rightarrow> Target \<Rightarrow> Target res" where
  "initTarget parseCIDR sc t0 =
     (let t1 = t0\<lparr>Port := (if Port t0 = 0 then 5432 else Port t0),
                  MaxConnections := (if MaxConnections t0 = 0 then 20 else MaxConnections t0),
                  ConnectTimeout := (if ConnectTimeout t0 = 0 then sc_ConnectTimeout sc else ConnectTimeout t0),
                  Rules := (if length (Rules t0) = 0 then default_rules else Rules t0)\<rparr>
      in case init_rules parseCIDR (Rules t1) of
           Inl e \<Rightarrow> Err (Wrapf (''target '' @ Name t1) e)
         | Inr rs \<Rightarrow>
             if MaxConnections t1 < 0 then Panic
             else Ok (t1\<lparr>Rules := rs, Ready := False, Params := [], CloseCh := [], CloseChCap := nat (MaxConnections t1),
                         Demand := False, PoolRegistered := [], ConnReady := 0,
                         ConnReadyCap := nat (MaxConnections t1), t_stmts := NewStmtCache\<rparr>))"

fun initTargets :: "(string \<Rightarrow> IPNet option) \<Rightarrow> ServerConfig \<Rightarrow> Target list \<Rightarrow> Target list res" where
  "initTargets parseCIDR sc [] = Ok []"
| "initTargets parseCIDR sc (t # ts) =
     (case initTarget parseCIDR sc t of
        Ok t' \<Rightarrow> (case initTargets parseCIDR sc ts of Ok ts' \<Rightarrow> Ok (t' # ts') | Err e \<Rightarrow> Err e | Panic \<Rightarrow> Panic | Blocked \<Rightarrow> Blocked)
      | Err e \<Rightarrow> Err e
      | Panic \<Rightarrow> Panic
      | Blocked \<Rightarrow> Blocked)"

text \<open>\<open>sort.Slice\<close> with the order on (Priority, Name).\<close>

definition target_key :: "Target \<Rightarrow> int \<times> string" where
  "target_key t = (Priority t, Name t)"

definition sortTargets :: "Target list \<Rightarrow> Target list" where
  "sortTargets ts = sort_key target_key ts"

definition rule_action_ok :: "Rule \<Rightarrow> bool" where
  "rule_action_ok r \<longleftrightarrow> \<not> (Action r \<noteq> RuleAllow \<and> Action r \<noteq> RuleDeny)"

fun validate_loop :: "nat \<Rightarrow> string set \<Rightarrow> Target list \<Rightarrow> goerr option" where
  "validate_loop i seen [] = None"
| "validate_loop i seen (t # ts) =
     (if Name t = [] then Some (Errorf (''targets['' @ fmt_nat i @ '']: name is required''))
      else if Host t = [] then Some (Errorf (''targets['' @ fmt_nat i @ '']: host is required''))
      else if Name t \<in> seen then Some (Errorf (''targets['' @ fmt_nat i @ '']: duplicate target name: '' @ Name t))
      else if \<not> list_all rule_action_ok (Rules t) then
        Some (Errorf (''targets['' @ fmt_nat i @ ''] rule: action must be allow or deny''))
      else validate_loop (i + 1) (insert (Name t) seen) ts)"

definition validate :: "Config \<Rightarrow> goerr option" where
  "validate c = (if length (cfgTargets c) = 0 then Some (Errorf ''no targets configured'') else validate_loop 0 {} (cfgTargets c))"

definition LoadConfig ::
  "(Config \<Rightarrow> string \<Rightarrow> goerr + Config) \<Rightarrow> (string \<Rightarrow> IPNet option) \<Rightarrow> goerr + string \<Rightarrow> Config res" where
  "LoadConfig unmarshal parseCIDR file =
     (case file of
        Inl e \<Rightarrow> Err (Wrapf ''failed to read config file'' e)
      | Inr d \<Rightarrow>
          (case unmarshal \<lparr>cfgServer = defaultServerConfig, cfgTargets = []\<rparr> d of
             Inl e \<Rightarrow> Err (Wrapf ''failed to parse config'' e)
           | Inr config \<Rightarrow>
               (case initTargets parseCIDR (cfgServer config) (cfgTargets config) of
                  Ok ts \<Rightarrow>
                    (let config' = config\<lparr>cfgTargets := sortTargets ts\<rparr>
                     in case validate config' of None \<Rightarrow> Ok config' | Some e \<Rightarrow> Err e)
                | Err e \<Rightarrow> Err e
                | Panic \<Rightarrow> Panic
                | Blocked \<Rightarrow> Blocked)))"

section \<open>Lemmas\<close>

text \<open>What a rule list means: the first rule that matches.\<close>

definition rule_matches :: "bytes \<Rightarrow> string \<Rightarrow> string \<Rightarrow> Rule \<Rightarrow> bool" where
  "rule_matches ip usr db r \<longleftrightarrow>
     (Nets r = [] \<or> (\<exists>n \<in> set (Nets r). Contains n ip)) \<and> (Users r = [] \<or> usr \<in> set (Users r)) \<and>
     (Databases r = [] \<or> db \<in> set (Databases r))"

lemma Matches_iff:
  "MatchesIP r ip \<longleftrightarrow> Nets r = [] \<or> (\<exists>n \<in> set (Nets r). Contains n ip)"
  "MatchesUser r usr \<longleftrightarrow> Users r = [] \<or> usr \<in> set (Users r)"
  "MatchesDatabase r db \<longleftrightarrow> Databases r = [] \<or> db \<in> set (Databases r)"
  by (auto simp: MatchesIP_def MatchesUser_def MatchesDatabase_def list_ex_iff)

lemma access_loop_find:
  "access_loop ip usr db rs =
     (case find (rule_matches ip usr db) rs of None \<Rightarrow> True | Some r \<Rightarrow> Action r \<noteq> RuleDeny)"
  by (induction rs) (auto simp: rule_matches_def Matches_iff)

lemma serves_loop_find:
  "serves_loop db rs =
     (case find (\<lambda>r. Databases r = [] \<or> db \<in> set (Databases r)) rs of None \<Rightarrow> True | Some r \<Rightarrow> Action r = RuleAllow)"
  by (induction rs) (auto simp: Matches_iff)

lemma validate_loop_None:
  "validate_loop i seen ts = None \<longleftrightarrow>
     (\<forall>t \<in> set ts. Name t \<noteq> [] \<and> Host t \<noteq> [] \<and> Name t \<notin> seen \<and> list_all rule_action_ok (Rules t)) \<and>
     distinct (map Name ts)"
proof (induction i seen ts rule: validate_loop.induct)
  case (1 i seen)
  then show ?case by simp
next
  case (2 i seen t ts)
  show ?case
  proof (cases "Name t \<noteq> [] \<and> Host t \<noteq> [] \<and> Name t \<notin> seen \<and> list_all rule_action_ok (Rules t)")
    case True
    moreover have "Name t \<in> Name ` set ts \<longleftrightarrow> (\<exists>x \<in> set ts. Name x = Name t)"
      unfolding image_iff by (metis (no_types))
    ultimately show ?thesis using 2 by auto
  next
    case False
    then show ?thesis by auto
  qed
qed

lemma parse_nets_Inr:
  "parse_nets parseCIDR cs acc = Inr ns \<Longrightarrow> \<exists>ms. map parseCIDR cs = map Some ms \<and> ns = acc @ ms"
proof (induction cs arbitrary: acc)
  case Nil
  then show ?case by simp
next
  case (Cons c cs)
  then obtain n where "parseCIDR c = Some n" "parse_nets parseCIDR cs (acc @ [n]) = Inr ns"
    by (auto split: option.splits)
  with Cons.IH [of "acc @ [n]"] obtain ms where "map parseCIDR cs = map Some ms" "ns = (acc @ [n]) @ ms" by blast
  then show ?case using \<open>parseCIDR c = Some n\<close> by (intro exI [of _ "n # ms"]) simp
qed

lemma init_rules_Inr:
  "init_rules parseCIDR rs = Inr rs' \<Longrightarrow>
     list_all2 (\<lambda>r r'. Action r' = Action r \<and> Users r' = Users r \<and> Databases r' = Databases r \<and>
        (\<exists>ns. map parseCIDR (CIDR r) = map Some ns \<and> Nets r' = Nets r @ ns)) rs rs'"
proof (induction rs arbitrary: rs')
  case Nil
  then show ?case by simp
next
  case (Cons r rs)
  obtain nets rs1 where n: "parse_nets parseCIDR (CIDR r) (Nets r) = Inr nets" "init_rules parseCIDR rs = Inr rs1"
      "rs' = r\<lparr>Nets := nets\<rparr> # rs1"
    using Cons.prems by (auto split: sum.splits)
  show ?case using n(3) Cons.IH [OF n(2)] parse_nets_Inr [OF n(1)] by simp
qed

text \<open>A target ready to run: positive budget, port set, channels empty with room for every
  connection, nothing open.\<close>

definition target_ready :: "Target \<Rightarrow> bool" where
  "target_ready t \<longleftrightarrow> MaxConnections t > 0 \<and> Port t \<noteq> 0 \<and> Rules t \<noteq> [] \<and>
     CloseCh t = [] \<and> int (CloseChCap t) = MaxConnections t \<and> int (ConnReadyCap t) = MaxConnections t \<and>
     ConnReady t = 0 \<and> \<not> Demand t \<and> PoolRegistered t = [] \<and> t_stmts t = NewStmtCache"

lemma initTarget_ready: "initTarget parseCIDR sc t0 = Ok t \<Longrightarrow> target_ready t"
  by (auto simp: initTarget_def Let_def target_ready_def default_rules_def dest!: init_rules_Inr list_all2_lengthD
      split: sum.splits if_splits)

lemma initTargets_ready: "initTargets parseCIDR sc ts0 = Ok ts \<Longrightarrow> length ts = length ts0 \<and> list_all target_ready ts"
  by (induction ts0 arbitrary: ts) (auto split: res.splits dest: initTarget_ready)

section \<open>Properties\<close>

text \<open>C39: A configuration that LoadConfig accepts has at least one target; the targets are in order of
  (priority, name), their names are distinct and neither names nor hosts are empty, every rule allows
  or denies, and every target is ready to run: positive connection budget, channels with room for
  every connection of the budget, an empty statement cache.\<close>

theorem loaded_config_ok:
  assumes "LoadConfig unmarshal parseCIDR file = Ok cfg"
  shows "cfgTargets cfg \<noteq> [] \<and> sorted (map target_key (cfgTargets cfg)) \<and> distinct (map Name (cfgTargets cfg)) \<and>
    (\<forall>t \<in> set (cfgTargets cfg). Name t \<noteq> [] \<and> Host t \<noteq> [] \<and> target_ready t \<and>
       (\<forall>r \<in> set (Rules t). Action r = RuleAllow \<or> Action r = RuleDeny))"
proof -
  obtain c ts where ts: "initTargets parseCIDR (cfgServer c) (cfgTargets c) = Ok ts"
      and cfg: "cfg = c\<lparr>cfgTargets := sortTargets ts\<rparr>" and v: "validate cfg = None"
    using assms by (auto simp: LoadConfig_def Let_def split: sum.splits res.splits option.splits)
  have "list_all target_ready ts" using initTargets_ready [OF ts] by simp
  moreover have "sort_key target_key ts \<noteq> []" if "ts \<noteq> []"
    using that by (metis length_0_conv length_sort)
  ultimately show ?thesis
    using v by (auto simp: cfg validate_def validate_loop_None sortTargets_def list_all_iff rule_action_ok_def
        split: if_splits)
qed

text \<open>Access is decided by the first rule that matches address, user and database, where an empty
  list matches anything; access is refused exactly when that rule denies, so a client that no rule
  matches is let in.\<close>

theorem access_first_match:
  "checkAccess t addr usr db \<noteq> None \<longleftrightarrow>
     (\<exists>r. find (rule_matches (extractIP addr) usr db) (Rules t) = Some r \<and> Action r = RuleDeny)"
  by (auto simp: checkAccess_def access_loop_find split: option.splits)

text \<open>targetServesDatabase ignores the users and networks of a rule. With a first rule that denies one
  user (and names no database), checkAccess keeps out that user only, but the target serves no
  database to anybody.\<close>

theorem user_rule_blocks_databases:
  assumes "Rules t = \<lparr>Action = RuleDeny, CIDR = [], Users = [u], Databases = [], Nets = []\<rparr> # rs"
  shows "\<not> targetServesDatabase t db \<and> checkAccess t addr u db \<noteq> None \<and>
    (u' \<noteq> u \<longrightarrow> (checkAccess t addr u' db = None \<longleftrightarrow> checkAccess (t\<lparr>Rules := rs\<rparr>) addr u' db = None))"
  using assms
  by (auto simp: targetServesDatabase_def checkAccess_def Matches_iff RuleDeny_def RuleAllow_def)

definition demo_target :: "Rule list \<Rightarrow> Target" where
  "demo_target rs =
     \<lparr>Name = ''primary'', Host = ''localhost'', Port = 0, MaxConnections = 0, ConnectTimeout = 0, Parameters = [],
      Priority = 1, Rules = rs, t_backend = None, Ready = False, Params = [], Pools = [], CachedPools = [],
      TotalOpen = 0, AtomicTotalOpen = 0, ServerMaxConns = 0, ServerOpenConns = 0, ListenOpen = 0, Draining = False,
      t_stmts = [], CloseCh = [], CloseChCap = 0, Demand = False, PoolRegistered = [], ConnReady = 0,
      ConnReadyCap = 0, Cancelled = False\<rparr>"

definition demo_unmarshal :: "Config \<Rightarrow> string \<Rightarrow> goerr + Config" where
  "demo_unmarshal c s = Inr (c\<lparr>cfgTargets := [demo_target []]\<rparr>)"

theorem loaded_config_ok_witness:
  "\<exists>cfg. LoadConfig demo_unmarshal (\<lambda>_. None) (Inr ''targets'') = Ok cfg \<and> (\<forall>t \<in> set (cfgTargets cfg). target_ready t)"
proof -
  obtain cfg where "LoadConfig demo_unmarshal (\<lambda>_. None) (Inr ''targets'') = Ok cfg"
    by (simp add: LoadConfig_def demo_unmarshal_def initTarget_def demo_target_def default_rules_def Let_def
        sortTargets_def validate_def rule_action_ok_def)
  with loaded_config_ok [OF this] show ?thesis by blast
qed

theorem user_rule_blocks_databases_witness:
  "\<not> targetServesDatabase (demo_target [\<lparr>Action = RuleDeny, CIDR = [], Users = [''bob''], Databases = [], Nets = []\<rparr>]) ''app''"
  using user_rule_blocks_databases [of "demo_target [\<lparr>Action = RuleDeny, CIDR = [], Users = [''bob''], Databases = [], Nets = []\<rparr>]"
      "''bob''" "[]"]
  by (simp add: demo_target_def)

end
