(* ===== verification/Pgfox_State.thy ===== *)
theory Pgfox_State
  imports Pgfox_Auth Pgfox_Config Pgfox_Parser Pgfox_Extended
begin

text \<open>
  The state of the running server: \<open>Server\<close> (\<open>server.go\<close>), \<open>Pool\<close> (\<open>pool.go\<close>) and
  \<open>Listen\<close> (\<open>listen_notify.go\<close>), with the objects the code reaches through pointers in heaps
  indexed by identifiers, and the operations that open a backend connection
  (\<open>createCertBackend\<close>, \<open>drainBackendStartup\<close> of \<open>startup.go\<close>, \<open>Pool.newConn\<close>).

  The outside world is part of the state: \<open>now\<close> is the clock, \<open>dials\<close> holds the outcomes of the
  attempts to reach PostgreSQL that are still to come (loading the user certificate, dialling, the
  TLS upgrade: an error, or a connection with everything the server will send on it; the list used
  up means refused).
\<close>

section \<open>Records\<close>

record peakSample =
  ps_active :: int
  ps_at :: int

record Pool =
  p_target :: targetId
  Username :: string
  DbName :: string
  Queue :: "backendId list"
  QueueCap :: nat
  All_conns :: "backendId list"
  peakSamples :: "peakSample list"
  connCount :: int
  QueriesExecuted :: nat
  ErrorCount :: nat

record Listen =
  l_channel :: Channel
  l_backend :: "backendId option"
  l_clients :: "clientId list"

record GlobalStats =
  TotalClients :: nat
  ActiveClients :: int
  TotalPools :: nat
  TotalQueries :: nat
  NotificationsSent :: nat
  IdleConnectionsClosed :: nat

record Server =
  sv_config :: ServerConfig
  Targets :: "targetId list"
  targetOf :: "targetId \<Rightarrow> Target"
  poolOf :: "poolId \<Rightarrow> Pool"
  backendOf :: "backendId \<Rightarrow> Backend"
  clientOf :: "clientId \<Rightarrow> Client"
  nextPool :: poolId
  nextBackend :: backendId
  Clients :: "clientId list"
  Listeners :: "(Channel \<times> Listen) list"
  cancelKeys :: "(32 word \<times> clientId) list"
  nextCancelPID :: "32 word"
  globalStats :: GlobalStats
  shuttingDown :: bool
  now :: int
  dials :: "(goerr + conn) list"

section \<open>Access to the heaps\<close>

definition upd_target :: "targetId \<Rightarrow> (Target \<Rightarrow> Target) \<Rightarrow> Server \<Rightarrow> Server" where
  "upd_target t f s = s\<lparr>targetOf := (targetOf s)(t := f (targetOf s t))\<rparr>"

definition upd_pool :: "poolId \<Rightarrow> (Pool \<Rightarrow> Pool) \<Rightarrow> Server \<Rightarrow> Server" where
  "upd_pool p f s = s\<lparr>poolOf := (poolOf s)(p := f (poolOf s p))\<rparr>"

definition upd_backend :: "backendId \<Rightarrow> (Backend \<Rightarrow> Backend) \<Rightarrow> Server \<Rightarrow> Server" where
  "upd_backend b f s = s\<lparr>backendOf := (backendOf s)(b := f (backendOf s b))\<rparr>"

definition upd_client :: "clientId \<Rightarrow> (Client \<Rightarrow> Client) \<Rightarrow> Server \<Rightarrow> Server" where
  "upd_client c f s = s\<lparr>clientOf := (clientOf s)(c := f (clientOf s c))\<rparr>"

definition on_backend :: "backendId \<Rightarrow> (Backend, 'a) prog \<Rightarrow> (Server, 'a) prog" where
  "on_backend b m = zoomP (\<lambda>s. backendOf s b) (\<lambda>x. upd_backend b (\<lambda>_. x)) m"

definition on_client :: "clientId \<Rightarrow> (Client, 'a) prog \<Rightarrow> (Server, 'a) prog" where
  "on_client c m = zoomP (\<lambda>s. clientOf s c) (\<lambda>x. upd_client c (\<lambda>_. x)) m"

definition upd_stats :: "(GlobalStats \<Rightarrow> GlobalStats) \<Rightarrow> Server \<Rightarrow> Server" where
  "upd_stats f s = s\<lparr>globalStats := f (globalStats s)\<rparr>"

text \<open>\<open>int32(x)\<close>.\<close>

definition int32_of :: "int \<Rightarrow> int" where
  "int32_of i = signed_take_bit 31 i"

section \<open>Starting a backend session (startup.go)\<close>

definition startup_param :: "bytes \<Rightarrow> Backend \<Rightarrow> Backend" where
  "startup_param body b =
     (case splitNullTerminated body of
        [k, v] \<Rightarrow> b\<lparr>parameters := AList.update k v (parameters b)\<rparr>
      | _ \<Rightarrow> b)"

text \<open>The body of the loop; the state is the backend and \<open>authComplete\<close>.\<close>

definition startup_step :: "(Backend \<times> bool, unit option) prog" where
  "startup_step =
     wrapP ''failed to read backend startup'' (zoomP fst (\<lambda>b s. (b, snd s)) Backend_read) (\<lambda>(msgType, body).
     bindP (getP snd) (\<lambda>authComplete.
     if msgType = CHR ''R'' then
       (if length body < 4 then failP (Errorf ''invalid auth response'')
        else if Uint32 body = AuthenticationOK then thenP (modifyP (\<lambda>s. (fst s, True))) (returnP None)
        else failP (Errorf (''unexpected auth type '' @ fmt_nat (unat (Uint32 body)) @ '' on cert connection'')))
     else if msgType = CHR ''S'' then thenP (modifyP (\<lambda>s. (startup_param body (fst s), snd s))) (returnP None)
     else if msgType = CHR ''K'' then thenP (modifyP (\<lambda>s. (key_data body (fst s), snd s))) (returnP None)
     else if msgType = CHR ''Z'' then
       (if \<not> authComplete then failP (Errorf ''received ReadyForQuery before AuthenticationOK'') else returnP (Some ()))
     else if msgType = CHR ''E'' then failP (Errorf (''backend error during startup: '' @ ParseErrorMessage body))
     else returnP None))"

definition drainBackendStartup :: "(Backend, unit) prog" where
  "drainBackendStartup b = (case loopP (backend_fuel b) startup_step (b, False) of (r, (b', _)) \<Rightarrow> (r, b'))"

text \<open>A packet without a type byte, as the startup message is, is recorded with type 0.\<close>

definition raw_write :: "bytes \<Rightarrow> (Backend, unit) prog" where
  "raw_write bs = zoomP b_conn (\<lambda>k b. b\<lparr>b_conn := k\<rparr>) (conn_send (NUL, bs))"

text \<open>\<open>createCertBackend\<close>; the new backend is returned by its identifier.\<close>

definition createCertBackend :: "targetId \<Rightarrow> string \<Rightarrow> string \<Rightarrow> (Server, backendId) prog" where
  "createCertBackend t db usr s =
     (case dials s of
        [] \<Rightarrow> (Err (Errorf (''failed to connect to '' @ Host (targetOf s t))), s)
      | Inl e # ds \<Rightarrow> (Err e, s\<lparr>dials := ds\<rparr>)
      | Inr k # ds \<Rightarrow>
          (let n = nextBackend s;
               b = NewBackend (k\<lparr>c_max := MaxMessageSize (sv_config s)\<rparr>) db (Name (targetOf s t)) usr (now s);
               s1 = upd_backend n (\<lambda>_. b) (s\<lparr>dials := ds, nextBackend := n + 1\<rparr>)
           in tryP (on_backend n (raw_write (buildStartupMessage usr db)))
                (\<lambda>e. thenP (modifyP (upd_backend n Backend_Close)) (failP (Wrapf ''failed to send startup message'' e)))
                (\<lambda>_. tryP (on_backend n drainBackendStartup)
                  (\<lambda>e. thenP (modifyP (upd_backend n Backend_Close)) (failP (Wrapf ''backend startup failed'' e)))
                  (\<lambda>_. returnP n)) s1))"

definition newConn :: "poolId \<Rightarrow> (Server, backendId) prog" where
  "newConn p = bindP (getP (\<lambda>s. poolOf s p)) (\<lambda>pool. createCertBackend (p_target pool) (DbName pool) (Username pool))"

section \<open>Lemmas on the heaps\<close>

named_theorems heap_simps \<open>selectors after an update of one heap\<close>

lemma upd_target_simps [simp, heap_simps]:
  "targetOf (upd_target t f s) = (targetOf s)(t := f (targetOf s t))" "poolOf (upd_target t f s) = poolOf s"
  "backendOf (upd_target t f s) = backendOf s" "clientOf (upd_target t f s) = clientOf s"
  "Targets (upd_target t f s) = Targets s" "nextPool (upd_target t f s) = nextPool s"
  "nextBackend (upd_target t f s) = nextBackend s" "now (upd_target t f s) = now s" "dials (upd_target t f s) = dials s"
  "Listeners (upd_target t f s) = Listeners s" "sv_config (upd_target t f s) = sv_config s"
  "shuttingDown (upd_target t f s) = shuttingDown s" "cancelKeys (upd_target t f s) = cancelKeys s"
  by (simp_all add: upd_target_def)

lemma upd_pool_simps [simp, heap_simps]:
  "poolOf (upd_pool p f s) = (poolOf s)(p := f (poolOf s p))" "targetOf (upd_pool p f s) = targetOf s"
  "backendOf (upd_pool p f s) = backendOf s" "clientOf (upd_pool p f s) = clientOf s"
  "Targets (upd_pool p f s) = Targets s" "nextPool (upd_pool p f s) = nextPool s"
  "nextBackend (upd_pool p f s) = nextBackend s" "now (upd_pool p f s) = now s" "dials (upd_pool p f s) = dials s"
  "Listeners (upd_pool p f s) = Listeners s" "sv_config (upd_pool p f s) = sv_config s"
  "shuttingDown (upd_pool p f s) = shuttingDown s" "cancelKeys (upd_pool p f s) = cancelKeys s"
  by (simp_all add: upd_pool_def)

lemma upd_backend_simps [simp, heap_simps]:
  "backendOf (upd_backend b f s) = (backendOf s)(b := f (backendOf s b))" "targetOf (upd_backend b f s) = targetOf s"
  "poolOf (upd_backend b f s) = poolOf s" "clientOf (upd_backend b f s) = clientOf s"
  "Targets (upd_backend b f s) = Targets s" "nextPool (upd_backend b f s) = nextPool s"
  "nextBackend (upd_backend b f s) = nextBackend s" "now (upd_backend b f s) = now s" "dials (upd_backend b f s) = dials s"
  "Listeners (upd_backend b f s) = Listeners s" "sv_config (upd_backend b f s) = sv_config s"
  "shuttingDown (upd_backend b f s) = shuttingDown s" "cancelKeys (upd_backend b f s) = cancelKeys s"
  by (simp_all add: upd_backend_def)

lemma upd_client_simps [simp, heap_simps]:
  "clientOf (upd_client c f s) = (clientOf s)(c := f (clientOf s c))" "targetOf (upd_client c f s) = targetOf s"
  "poolOf (upd_client c f s) = poolOf s" "backendOf (upd_client c f s) = backendOf s"
  "Targets (upd_client c f s) = Targets s" "nextPool (upd_client c f s) = nextPool s"
  "nextBackend (upd_client c f s) = nextBackend s" "now (upd_client c f s) = now s" "dials (upd_client c f s) = dials s"
  "Listeners (upd_client c f s) = Listeners s" "sv_config (upd_client c f s) = sv_config s"
  "shuttingDown (upd_client c f s) = shuttingDown s" "cancelKeys (upd_client c f s) = cancelKeys s"
  by (simp_all add: upd_client_def)

lemma upd_stats_simps [simp, heap_simps]:
  "targetOf (upd_stats f s) = targetOf s" "poolOf (upd_stats f s) = poolOf s"
  "backendOf (upd_stats f s) = backendOf s" "clientOf (upd_stats f s) = clientOf s"
  "Targets (upd_stats f s) = Targets s" "nextPool (upd_stats f s) = nextPool s"
  "nextBackend (upd_stats f s) = nextBackend s" "now (upd_stats f s) = now s" "dials (upd_stats f s) = dials s"
  "Listeners (upd_stats f s) = Listeners s" "sv_config (upd_stats f s) = sv_config s"
  "shuttingDown (upd_stats f s) = shuttingDown s" "cancelKeys (upd_stats f s) = cancelKeys s"
  by (simp_all add: upd_stats_def)

end
