(* ===== verification/Pgfox_Pool.thy ===== *)
theory Pgfox_Pool
  imports Pgfox_State
begin

text \<open>
  Pools and the movement of connections: \<open>src/pkg/pgfox/pool.go\<close>, \<open>Backend.Release\<close> and
  \<open>Backend.Return\<close> of \<open>backend.go\<close>, \<open>getPool\<close> of \<open>server.go\<close>, and the operations of
  \<open>target.go\<close> that open and close pool connections one at a time. A send on a full channel
  that has no \<open>default\<close> is \<open>Blocked\<close>.

  \<open>borrowConn\<close> waits. What happens while it waits is an argument, its schedule: each element
  first lets the other goroutines run (a transformation of the state) and then names the case of
  the \<open>select\<close> that is chosen, if it is ready; a schedule that is used up leaves the caller waiting.

  The invariant \<open>pools_ok\<close> says where every connection is: each is owned by one pool and is idle in
  its queue, or on its way to be closed, or checked out by exactly one goroutine (the ghost list
  \<open>held\<close>), and the connection budget of the target counts them.
\<close>

section \<open>Pools of a target (target.go, server.go)\<close>

definition PoolKey :: "string \<Rightarrow> string \<Rightarrow> string" where
  "PoolKey db usr = db @ NUL # usr"

definition LookupPool :: "Target \<Rightarrow> string \<Rightarrow> string \<Rightarrow> poolId option" where
  "LookupPool t db usr = map_of (Pools t) (PoolKey db usr)"

definition StorePool :: "poolId \<Rightarrow> Pool \<Rightarrow> Target \<Rightarrow> Target" where
  "StorePool p pool t =
     t\<lparr>Pools := AList.update (PoolKey (DbName pool) (Username pool)) p (Pools t), CachedPools := CachedPools t @ [p]\<rparr>"

fun find_pool :: "Server \<Rightarrow> string \<Rightarrow> string \<Rightarrow> targetId list \<Rightarrow> poolId option" where
  "find_pool s db usr [] = None"
| "find_pool s db usr (t # ts) =
     (let target = targetOf s t
      in if Draining target then find_pool s db usr ts
         else if \<not> targetServesDatabase target db then find_pool s db usr ts
         else case LookupPool target db usr of
                Some pool \<Rightarrow> Some pool
              | None \<Rightarrow> find_pool s db usr ts)"

fun select_target :: "Server \<Rightarrow> string \<Rightarrow> targetId list \<Rightarrow> targetId option" where
  "select_target s db [] = None"
| "select_target s db (t # ts) =
     (if Draining (targetOf s t) then select_target s db ts
      else if targetServesDatabase (targetOf s t) db then Some t
      else select_target s db ts)"

definition new_pool :: "targetId \<Rightarrow> Target \<Rightarrow> string \<Rightarrow> string \<Rightarrow> Pool" where
  "new_pool t target db usr =
     \<lparr>p_target = t, Username = usr, DbName = db, Queue = [], QueueCap = nat (MaxConnections target), All_conns = [],
      peakSamples = [], connCount = 0, QueriesExecuted = 0, ErrorCount = 0\<rparr>"

definition poolRegisteredCap :: nat where
  "poolRegisteredCap = 64"

definition getPool :: "string \<Rightarrow> string \<Rightarrow> (Server, poolId option) prog" where
  "getPool db usr s =
     (case find_pool s db usr (Targets s) of
        Some p \<Rightarrow> (Ok (Some p), s)
      | None \<Rightarrow>
          (case select_target s db (Targets s) of
             None \<Rightarrow> (Ok None, s)
           | Some t \<Rightarrow>
               if MaxConnections (targetOf s t) < 0 then (Panic, s)
               else case LookupPool (targetOf s t) db usr of
                 Some actual \<Rightarrow> (Ok (Some actual), s)
               | None \<Rightarrow>
                   (let p = nextPool s; target = targetOf s t;
                        registered = (if length (PoolRegistered target) < poolRegisteredCap
                                      then PoolRegistered target @ [p] else PoolRegistered target);
                        s1 = s\<lparr>nextPool := p + 1\<rparr>;
                        s2 = upd_pool p (\<lambda>_. new_pool t target db usr) s1;
                        s3 = upd_target t (\<lambda>x. x\<lparr>Pools := AList.update (PoolKey db usr) p (Pools x),
                                                  PoolRegistered := registered\<rparr>) s2
                    in (Ok (Some p), upd_stats (\<lambda>g. g\<lparr>TotalPools := TotalPools g + 1\<rparr>) s3))))"

text \<open>\<open>allPools\<close>: pending registrations are moved to the cached list first.\<close>

definition allPools :: "targetId \<Rightarrow> Server \<Rightarrow> poolId list \<times> Server" where
  "allPools t s =
     (let s' = upd_target t (\<lambda>x. x\<lparr>CachedPools := CachedPools x @ PoolRegistered x, PoolRegistered := []\<rparr>) s
      in (CachedPools (targetOf s' t), s'))"

section \<open>Counting (pool.go, target.go)\<close>

definition IdleConnections :: "Pool \<Rightarrow> int" where
  "IdleConnections p = int (length (Queue p))"

definition ActiveConnections :: "Pool \<Rightarrow> int" where
  "ActiveConnections p =
     (let total = connCount p; idle = IdleConnections p in if idle > total then 0 else total - idle)"

definition TotalConnections :: "Pool \<Rightarrow> int" where
  "TotalConnections p = connCount p"

definition target_ActiveConnections :: "targetId \<Rightarrow> Server \<Rightarrow> int" where
  "target_ActiveConnections t s = sum_list (map (\<lambda>(_, p). ActiveConnections (poolOf s p)) (Pools (targetOf s t)))"

section \<open>Moving connections\<close>

definition signalConnReady :: "targetId \<Rightarrow> Server \<Rightarrow> Server" where
  "signalConnReady t = upd_target t (\<lambda>x. if ConnReady x < ConnReadyCap x then x\<lparr>ConnReady := ConnReady x + 1\<rparr> else x)"

text \<open>\<open>t.CloseCh <- b\<close>.\<close>

definition send_close :: "targetId \<Rightarrow> backendId \<Rightarrow> (Server, unit) prog" where
  "send_close t b s =
     (if length (CloseCh (targetOf s t)) < CloseChCap (targetOf s t)
      then (Ok (), upd_target t (\<lambda>x. x\<lparr>CloseCh := CloseCh x @ [b]\<rparr>) s)
      else (Blocked, s))"

definition Release :: "backendId \<Rightarrow> (Server, unit) prog" where
  "Release b =
     bindP (getP (\<lambda>s. b_client (backendOf s b))) (\<lambda>c.
     thenP (modifyP (upd_backend b (SetClient None)))
     (thenP (case c of
               None \<Rightarrow> returnP ()
             | Some cid \<Rightarrow> modifyP (upd_client cid (\<lambda>x. SetInTransaction False (SetBackend None x))))
     (bindP (getP (\<lambda>s. b_pool (backendOf s b))) (\<lambda>pool.
      case pool of
        Some p \<Rightarrow> bindP (getP (\<lambda>s. p_target (poolOf s p))) (\<lambda>t. send_close t b)
      | None \<Rightarrow> modifyP (upd_backend b Backend_Close)))))"

definition Return :: "backendId \<Rightarrow> (Server, unit) prog" where
  "Return b =
     bindP (getP now) (\<lambda>n.
     thenP (modifyP (upd_backend b (\<lambda>x. SetClient None (SetInUse False n x))))
     (bindP (getP (\<lambda>s. b_pool (backendOf s b))) (\<lambda>pool.
      case pool of
        None \<Rightarrow> panicP
      | Some p \<Rightarrow>
          bindP (getP (\<lambda>s. poolOf s p)) (\<lambda>x.
          if length (Queue x) < QueueCap x
          then thenP (modifyP (upd_pool p (\<lambda>y. y\<lparr>Queue := Queue y @ [b]\<rparr>))) (modifyP (signalConnReady (p_target x)))
          else send_close (p_target x) b))))"

text \<open>\<open>removeFromAll\<close>: the last element takes the place of the removed one.\<close>

fun swap_remove :: "'a \<Rightarrow> 'a list \<Rightarrow> 'a list" where
  "swap_remove x [] = []"
| "swap_remove x (y # ys) = (if y = x then (if ys = [] then [] else last ys # butlast ys) else y # swap_remove x ys)"

definition undeploy_all :: "string list \<Rightarrow> StmtCache \<Rightarrow> StmtCache" where
  "undeploy_all hashes c = fold (\<lambda>h. on_entry h RecordUndeploy) hashes c"

definition removeFromAll :: "poolId \<Rightarrow> backendId \<Rightarrow> Server \<Rightarrow> Server" where
  "removeFromAll p b s =
     (let t = p_target (poolOf s p);
          s1 = upd_target t (\<lambda>x. x\<lparr>t_stmts := undeploy_all (deployedStmts (backendOf s b)) (t_stmts x)\<rparr>) s
      in if b \<in> set (All_conns (poolOf s p))
         then upd_pool p (\<lambda>x. x\<lparr>All_conns := swap_remove b (All_conns x), connCount := int32_of (int (length (swap_remove b (All_conns x))))\<rparr>) s1
         else s1)"

datatype wake = QueueReady | ConnReadySignal | TimerFired | ContextDone

type_synonym sched = "(wake \<times> (Server \<Rightarrow> Server)) list"

definition take_idle :: "poolId \<Rightarrow> backendId \<Rightarrow> Server \<Rightarrow> Server" where
  "take_idle p b s = upd_backend b (SetInUse True (now s)) (upd_pool p (\<lambda>x. x\<lparr>Queue := tl (Queue x)\<rparr>) s)"

fun borrow_wait :: "poolId \<Rightarrow> sched \<Rightarrow> (Server, backendId) prog" where
  "borrow_wait p [] s = (Blocked, s)"
| "borrow_wait p ((w, others) # ws) s0 =
     (let s = others s0; t = p_target (poolOf s p)
      in case w of
           QueueReady \<Rightarrow>
             (case Queue (poolOf s p) of
                b # _ \<Rightarrow> (Ok b, take_idle p b s)
              | [] \<Rightarrow> borrow_wait p ws s)
         | ConnReadySignal \<Rightarrow>
             if ConnReady (targetOf s t) = 0 then borrow_wait p ws s
             else let s1 = upd_target t (\<lambda>x. x\<lparr>ConnReady := ConnReady x - 1\<rparr>) s
                  in (case Queue (poolOf s1 p) of
                        b # _ \<Rightarrow> (Ok b, take_idle p b s1)
                      | [] \<Rightarrow> borrow_wait p ws (upd_target t (\<lambda>x. x\<lparr>Demand := True\<rparr>) s1))
         | TimerFired \<Rightarrow>
             (Err (Errorf (''timed out waiting for connection for '' @ DbName (poolOf s p) @ ''/'' @ Username (poolOf s p))), s)
         | ContextDone \<Rightarrow>
             if shuttingDown s then (Err (Errorf ''server shutting down''), s) else borrow_wait p ws s)"

definition borrowConn :: "sched \<Rightarrow> poolId \<Rightarrow> (Server, backendId) prog" where
  "borrowConn sch p s =
     (let t = p_target (poolOf s p)
      in if Draining (targetOf s t)
         then (Err (Errorf (''target '' @ Name (targetOf s t) @ '' is being removed, try again after reconnect'')), s)
         else case Queue (poolOf s p) of
                b # _ \<Rightarrow> (Ok b, take_idle p b s)
              | [] \<Rightarrow> borrow_wait p sch (upd_target t (\<lambda>x. x\<lparr>Demand := True\<rparr>) s))"

section \<open>The target goroutine: one connection at a time (target.go)\<close>

definition close_counted :: "targetId \<Rightarrow> backendId \<Rightarrow> Server \<Rightarrow> Server" where
  "close_counted t b s =
     upd_target t (\<lambda>x. x\<lparr>TotalOpen := TotalOpen x - 1, AtomicTotalOpen := int32_of (TotalOpen x - 1)\<rparr>)
       (upd_backend b Backend_Close s)"

definition handleClose :: "targetId \<Rightarrow> backendId \<Rightarrow> (Server, unit) prog" where
  "handleClose t b =
     bindP (getP (\<lambda>s. b_pool (backendOf s b))) (\<lambda>pool.
     thenP (modifyP (upd_backend b Backend_Close))
     (thenP (modifyP (upd_target t (\<lambda>x. x\<lparr>TotalOpen := TotalOpen x - 1\<rparr>)))
     (case pool of
        None \<Rightarrow> panicP
      | Some p \<Rightarrow> thenP (modifyP (removeFromAll p b)) (modifyP (signalConnReady t)))))"

definition openOne :: "targetId \<Rightarrow> poolId \<Rightarrow> (Server, unit) prog" where
  "openOne t p =
     tryP (newConn p) (\<lambda>_. returnP ()) (\<lambda>b.
     thenP (modifyP (upd_backend b (\<lambda>x. x\<lparr>b_pool := Some p\<rparr>)))
     (thenP (modifyP (upd_pool p (\<lambda>x. x\<lparr>All_conns := All_conns x @ [b], connCount := int32_of (int (length (All_conns x) + 1))\<rparr>)))
     (thenP (modifyP (upd_target t (\<lambda>x. x\<lparr>TotalOpen := TotalOpen x + 1\<rparr>)))
     (bindP (getP (\<lambda>s. poolOf s p)) (\<lambda>x.
      if length (Queue x) < QueueCap x
      then thenP (modifyP (upd_pool p (\<lambda>y. y\<lparr>Queue := Queue y @ [b]\<rparr>))) (modifyP (signalConnReady t))
      else thenP (modifyP (close_counted t b))
             (modifyP (upd_pool p (\<lambda>y. y\<lparr>All_conns := butlast (All_conns y), connCount := int32_of (int (length (All_conns y)) - 1)\<rparr>))))))))"

definition closeOneIdle :: "targetId \<Rightarrow> poolId \<Rightarrow> (Server, bool) prog" where
  "closeOneIdle t p =
     bindP (getP (\<lambda>s. Queue (poolOf s p))) (\<lambda>q.
     case q of
       [] \<Rightarrow> returnP False
     | b # _ \<Rightarrow>
         thenP (modifyP (upd_pool p (\<lambda>x. x\<lparr>Queue := tl (Queue x)\<rparr>)))
         (thenP (modifyP (close_counted t b))
         (thenP (modifyP (removeFromAll p b))
         (thenP (modifyP (upd_stats (\<lambda>g. g\<lparr>IdleConnectionsClosed := IdleConnectionsClosed g + 1\<rparr>)))
         (returnP True)))))"

section \<open>The accounting invariant\<close>

definition target_pools :: "targetId \<Rightarrow> Server \<Rightarrow> poolId list" where
  "target_pools t s = map snd (Pools (targetOf s t))"

definition owned :: "targetId \<Rightarrow> Server \<Rightarrow> backendId set" where
  "owned t s = (\<Union>p \<in> set (target_pools t s). set (All_conns (poolOf s p)))"

definition open_conns :: "targetId \<Rightarrow> Server \<Rightarrow> nat" where
  "open_conns t s = sum_list (map (\<lambda>p. length (All_conns (poolOf s p))) (target_pools t s))"

definition pool_ok :: "targetId \<Rightarrow> Server \<Rightarrow> poolId \<Rightarrow> bool" where
  "pool_ok t s p \<longleftrightarrow>
     p_target (poolOf s p) = t \<and> p < nextPool s \<and> distinct (All_conns (poolOf s p)) \<and> distinct (Queue (poolOf s p)) \<and>
     set (Queue (poolOf s p)) \<subseteq> set (All_conns (poolOf s p)) \<and> connCount (poolOf s p) = int (length (All_conns (poolOf s p))) \<and>
     QueueCap (poolOf s p) = nat (MaxConnections (targetOf s t)) \<and>
     (\<forall>b \<in> set (All_conns (poolOf s p)). b < nextBackend s \<and> b_pool (backendOf s b) = Some p)"

definition budget_ok :: "targetId \<Rightarrow> Server \<Rightarrow> bool" where
  "budget_ok t s \<longleftrightarrow>
     TotalOpen (targetOf s t) = (if t_backend (targetOf s t) = None then 0 else 1) + int (open_conns t s) \<and>
     TotalOpen (targetOf s t) \<le> MaxConnections (targetOf s t) \<and> MaxConnections (targetOf s t) < 2 ^ 31 \<and>
     CloseChCap (targetOf s t) = nat (MaxConnections (targetOf s t))"

definition places_ok :: "backendId set \<Rightarrow> targetId \<Rightarrow> Server \<Rightarrow> bool" where
  "places_ok held t s \<longleftrightarrow>
     distinct (CloseCh (targetOf s t)) \<and> set (CloseCh (targetOf s t)) \<subseteq> owned t s \<and> held \<subseteq> owned t s \<and>
     set (CloseCh (targetOf s t)) \<inter> held = {} \<and>
     (\<forall>p \<in> set (target_pools t s). set (Queue (poolOf s p)) \<inter> (set (CloseCh (targetOf s t)) \<union> held) = {}) \<and>
     owned t s \<subseteq> (\<Union>p \<in> set (target_pools t s). set (Queue (poolOf s p))) \<union> set (CloseCh (targetOf s t)) \<union> held"

definition keys_ok :: "targetId \<Rightarrow> Server \<Rightarrow> bool" where
  "keys_ok t s \<longleftrightarrow>
     (\<forall>(k, p) \<in> set (Pools (targetOf s t)). k = PoolKey (DbName (poolOf s p)) (Username (poolOf s p)))"

lemma keys_ok_cong:
  assumes "keys_ok t s" "Pools (targetOf s' t) = Pools (targetOf s t)"
    and "\<And>p. p \<in> set (target_pools t s) \<Longrightarrow> DbName (poolOf s' p) = DbName (poolOf s p) \<and> Username (poolOf s' p) = Username (poolOf s p)"
  shows "keys_ok t s'"
proof -
  have "p \<in> set (target_pools t s)" if "(k, p) \<in> set (Pools (targetOf s t))" for k p
    using that by (force simp: target_pools_def)
  then show ?thesis using assms by (auto simp: keys_ok_def)
qed

definition pools_ok :: "backendId set \<Rightarrow> targetId \<Rightarrow> Server \<Rightarrow> bool" where
  "pools_ok held t s \<longleftrightarrow>
     distinct (map fst (Pools (targetOf s t))) \<and> distinct (target_pools t s) \<and>
     keys_ok t s \<and>
     set (CachedPools (targetOf s t)) \<union> set (PoolRegistered (targetOf s t)) \<subseteq> set (target_pools t s) \<and>
     (\<forall>p \<in> set (target_pools t s). pool_ok t s p) \<and>
     (\<forall>b. t_backend (targetOf s t) = Some b \<longrightarrow> b < nextBackend s \<and> b_pool (backendOf s b) = None) \<and>
     places_ok held t s \<and> budget_ok t s"

text \<open>What the invariant of a target depends on.\<close>

definition same_pool :: "Pool \<Rightarrow> Pool \<Rightarrow> bool" where
  "same_pool x y \<longleftrightarrow> p_target y = p_target x \<and> All_conns y = All_conns x \<and> Queue y = Queue x \<and> connCount y = connCount x \<and>
     QueueCap y = QueueCap x \<and> DbName y = DbName x \<and> Username y = Username x"

definition same_target :: "Target \<Rightarrow> Target \<Rightarrow> bool" where
  "same_target x y \<longleftrightarrow> Pools y = Pools x \<and> CloseCh y = CloseCh x \<and> CloseChCap y = CloseChCap x \<and>
     TotalOpen y = TotalOpen x \<and> MaxConnections y = MaxConnections x \<and> t_backend y = t_backend x \<and>
     set (CachedPools y) \<union> set (PoolRegistered y) = set (CachedPools x) \<union> set (PoolRegistered x)"

definition agrees :: "targetId \<Rightarrow> Server \<Rightarrow> Server \<Rightarrow> bool" where
  "agrees t s s' \<longleftrightarrow> same_target (targetOf s t) (targetOf s' t) \<and>
     (\<forall>p \<in> set (target_pools t s). same_pool (poolOf s p) (poolOf s' p)) \<and>
     (\<forall>b < nextBackend s. b_pool (backendOf s' b) = b_pool (backendOf s b)) \<and>
     nextPool s \<le> nextPool s' \<and> nextBackend s \<le> nextBackend s'"

lemma agrees_refl [simp]: "agrees t s s"
  by (simp add: agrees_def same_target_def same_pool_def)

lemma agrees_target_pools: "agrees t s s' \<Longrightarrow> target_pools t s' = target_pools t s"
  by (simp add: agrees_def same_target_def target_pools_def)

lemma agrees_owned: "agrees t s s' \<Longrightarrow> owned t s' = owned t s"
  using agrees_target_pools [of t s s'] by (auto simp: agrees_def same_target_def same_pool_def owned_def)

lemma agrees_open: "agrees t s s' \<Longrightarrow> open_conns t s' = open_conns t s"
  using agrees_target_pools [of t s s'] unfolding agrees_def same_target_def same_pool_def open_conns_def
  by (auto intro!: arg_cong [where f = sum_list])

lemma agrees_pool_ok: "agrees t s s' \<Longrightarrow> p \<in> set (target_pools t s) \<Longrightarrow> pool_ok t s p \<Longrightarrow> pool_ok t s' p"
  unfolding agrees_def same_target_def same_pool_def pool_ok_def by fastforce

lemma agrees_places: "agrees t s s' \<Longrightarrow> places_ok held t s \<Longrightarrow> places_ok held t s'"
  using agrees_owned [of t s s'] agrees_target_pools [of t s s']
  by (simp add: places_ok_def agrees_def same_target_def same_pool_def)

lemma agrees_keys: "agrees t s s' \<Longrightarrow> keys_ok t s \<Longrightarrow> keys_ok t s'"
  by (rule keys_ok_cong [of t s]) (auto simp: agrees_def same_target_def same_pool_def)

lemma agrees_pools_ok:
  assumes "agrees t s s'" and "pools_ok held t s"
  shows "pools_ok held t s'"
  using assms agrees_keys [OF assms(1)] agrees_pool_ok [OF assms(1)] agrees_target_pools [OF assms(1)] agrees_places [OF assms(1), of held] agrees_open [OF assms(1)]
  unfolding pools_ok_def budget_ok_def agrees_def same_target_def by auto


lemma pools_okD:
  assumes "pools_ok held t s"
  shows pools_ok_pool: "p \<in> set (target_pools t s) \<Longrightarrow> pool_ok t s p"
    and pools_ok_distinct: "distinct (target_pools t s)"
    and pools_ok_keys: "distinct (map fst (Pools (targetOf s t)))"
    and pools_ok_cached: "set (CachedPools (targetOf s t)) \<union> set (PoolRegistered (targetOf s t)) \<subseteq> set (target_pools t s)"
    and pools_ok_priv: "t_backend (targetOf s t) = Some b \<Longrightarrow> b < nextBackend s \<and> b_pool (backendOf s b) = None"
    and pools_ok_places: "places_ok held t s"
    and pools_ok_names: "keys_ok t s"
    and pools_ok_budget: "budget_ok t s"
  using assms unfolding pools_ok_def by blast+

lemma owner_unique:
  assumes "pools_ok held t s" "p \<in> set (target_pools t s)" "q \<in> set (target_pools t s)"
    and "b \<in> set (All_conns (poolOf s p))" "b \<in> set (All_conns (poolOf s q))"
  shows "p = q"
  using assms(4,5) pools_ok_pool [OF assms(1,2)] pools_ok_pool [OF assms(1,3)] by (auto simp: pool_ok_def)

lemma owned_pool:
  assumes "pools_ok held t s" "b \<in> owned t s"
  obtains p where "p \<in> set (target_pools t s)" "b \<in> set (All_conns (poolOf s p))" "b_pool (backendOf s b) = Some p"
    "p_target (poolOf s p) = t" "b < nextBackend s"
proof -
  obtain p where p: "p \<in> set (target_pools t s)" "b \<in> set (All_conns (poolOf s p))"
    using assms(2) by (auto simp: owned_def)
  show ?thesis using that [OF p] pools_ok_pool [OF assms(1) p(1)] p(2) by (simp add: pool_ok_def)
qed

lemma held_owned: "pools_ok held t s \<Longrightarrow> b \<in> held \<Longrightarrow> b \<in> owned t s"
  using pools_ok_places [of held t s] by (auto simp: places_ok_def)

lemma sum_list_update_pool:
  fixes f :: "'a \<Rightarrow> nat"
  assumes "distinct xs" "x \<in> set xs" "\<And>y. y \<noteq> x \<Longrightarrow> g y = f y"
  shows "sum_list (map g xs) + f x = sum_list (map f xs) + g x"
proof -
  have "sum_list (map h xs) = h x + sum (\<lambda>y. h y) (set xs - {x})" for h :: "'a \<Rightarrow> nat"
    using assms(1,2) by (simp add: sum_list_distinct_conv_sum_set sum.remove)
  moreover have "sum g (set xs - {x}) = sum f (set xs - {x})"
    using assms(3) by (intro sum.cong) auto
  ultimately show ?thesis by simp
qed

lemma all_le_open:
  "distinct (target_pools t s) \<Longrightarrow> p \<in> set (target_pools t s) \<Longrightarrow> length (All_conns (poolOf s p)) \<le> open_conns t s"
  unfolding open_conns_def by (rule member_le_sum_list) auto

text \<open>The queue of a pool never holds more than the pool owns, and a pool never owns more than the
  budget allows.\<close>

lemma queue_le_all:
  assumes "pool_ok t s p"
  shows "length (Queue (poolOf s p)) \<le> length (All_conns (poolOf s p))"
  using assms by (auto simp: pool_ok_def dest: card_mono [rotated] simp flip: distinct_card)

lemma open_le_max: "budget_ok t s \<Longrightarrow> int (open_conns t s) \<le> MaxConnections (targetOf s t)"
  by (auto simp: budget_ok_def split: if_splits)

lemma owned_card:
  assumes "pools_ok held t s"
  shows "finite (owned t s)" and "card (owned t s) \<le> open_conns t s"
proof -
  show "finite (owned t s)" by (simp add: owned_def)
  have "card (owned t s) \<le> (\<Sum>p \<in> set (target_pools t s). card (set (All_conns (poolOf s p))))"
    unfolding owned_def by (rule card_UN_le) simp
  also have "\<dots> \<le> (\<Sum>p \<in> set (target_pools t s). length (All_conns (poolOf s p)))"
    by (intro sum_mono card_length)
  also have "\<dots> = open_conns t s"
    using pools_ok_distinct [OF assms] by (simp add: open_conns_def sum_list_distinct_conv_sum_set)
  finally show "card (owned t s) \<le> open_conns t s" .
qed

text \<open>A connection that is not in a queue leaves room in the queue of its pool; one that is not on
  the close channel leaves room there.\<close>

lemma queue_room:
  assumes ok: "pools_ok held t s" and p: "p \<in> set (target_pools t s)" and b: "b \<in> set (All_conns (poolOf s p))"
    "b \<notin> set (Queue (poolOf s p))"
  shows "length (Queue (poolOf s p)) < QueueCap (poolOf s p)"
proof -
  have pk: "pool_ok t s p" by (rule pools_ok_pool [OF ok p])
  have "set (Queue (poolOf s p)) \<subset> set (All_conns (poolOf s p))" using pk b by (auto simp: pool_ok_def)
  then have "length (Queue (poolOf s p)) < length (All_conns (poolOf s p))"
    using pk psubset_card_mono [of "set (All_conns (poolOf s p))" "set (Queue (poolOf s p))"]
    by (simp add: pool_ok_def distinct_card)
  also have "int (length (All_conns (poolOf s p))) \<le> MaxConnections (targetOf s t)"
    using all_le_open [OF pools_ok_distinct [OF ok] p] open_le_max [OF pools_ok_budget [OF ok]] by simp
  finally show ?thesis using pk by (simp add: pool_ok_def)
qed

lemma close_room:
  assumes ok: "pools_ok held t s" and b: "b \<in> owned t s" "b \<notin> set (CloseCh (targetOf s t))"
  shows "length (CloseCh (targetOf s t)) < CloseChCap (targetOf s t)"
proof -
  have pl: "distinct (CloseCh (targetOf s t))" "set (CloseCh (targetOf s t)) \<subseteq> owned t s"
    using pools_ok_places [OF ok] by (auto simp: places_ok_def)
  have "set (CloseCh (targetOf s t)) \<subset> owned t s" using pl(2) b by blast
  from psubset_card_mono [OF owned_card(1) [OF ok] this]
  have "length (CloseCh (targetOf s t)) < card (owned t s)" using pl(1) by (simp add: distinct_card)
  also have "\<dots> \<le> open_conns t s" by (rule owned_card(2) [OF ok])
  finally show ?thesis
    using open_le_max [OF pools_ok_budget [OF ok]] pools_ok_budget [OF ok] by (simp add: budget_ok_def)
qed


section \<open>Moves between queue, close channel and holder\<close>

text \<open>Two states in which the target owns the same connections; only their places may differ.\<close>

definition same_owned :: "targetId \<Rightarrow> Server \<Rightarrow> Server \<Rightarrow> bool" where
  "same_owned t s s' \<longleftrightarrow>
     (let x = targetOf s t; y = targetOf s' t in
       Pools y = Pools x \<and> CloseChCap y = CloseChCap x \<and> TotalOpen y = TotalOpen x \<and> MaxConnections y = MaxConnections x \<and>
       t_backend y = t_backend x \<and> CachedPools y = CachedPools x \<and> PoolRegistered y = PoolRegistered x) \<and>
     (\<forall>p \<in> set (target_pools t s). let x = poolOf s p; y = poolOf s' p in
       p_target y = p_target x \<and> All_conns y = All_conns x \<and> connCount y = connCount x \<and> QueueCap y = QueueCap x \<and>
       DbName y = DbName x \<and> Username y = Username x) \<and>
     (\<forall>b < nextBackend s. b_pool (backendOf s' b) = b_pool (backendOf s b)) \<and>
     nextPool s \<le> nextPool s' \<and> nextBackend s \<le> nextBackend s'"

lemma same_owned_simps:
  assumes "same_owned t s s'"
  shows "target_pools t s' = target_pools t s" "owned t s' = owned t s" "open_conns t s' = open_conns t s"
proof -
  show 1: "target_pools t s' = target_pools t s" using assms by (simp add: same_owned_def target_pools_def Let_def)
  show "owned t s' = owned t s" "open_conns t s' = open_conns t s"
    using assms unfolding owned_def open_conns_def 1
    by (auto simp: same_owned_def Let_def intro!: arg_cong [where f = sum_list])
qed

lemma move_ok:
  assumes ok: "pools_ok held t s" and so: "same_owned t s s'"
    and q: "\<And>p. p \<in> set (target_pools t s) \<Longrightarrow>
      distinct (Queue (poolOf s' p)) \<and> set (Queue (poolOf s' p)) \<subseteq> set (All_conns (poolOf s p))"
    and pl: "places_ok held' t s'"
  shows "pools_ok held' t s'"
proof -
  have "pool_ok t s' p" if "p \<in> set (target_pools t s)" for p
    using pools_ok_pool [OF ok that] q [OF that] so that unfolding pool_ok_def same_owned_def Let_def by fastforce
  moreover have "budget_ok t s'"
    using pools_ok_budget [OF ok] so same_owned_simps(3) [OF so]
    unfolding budget_ok_def same_owned_def Let_def by simp
  moreover have "keys_ok t s'"
    using pools_ok_names [OF ok] by (rule keys_ok_cong) (use so in \<open>auto simp: same_owned_def Let_def\<close>)
  ultimately show ?thesis
    using ok so pl same_owned_simps(1) [OF so] unfolding pools_ok_def same_owned_def Let_def by auto
qed

lemma places_okD:
  assumes "places_ok held t s"
  shows "distinct (CloseCh (targetOf s t))" "set (CloseCh (targetOf s t)) \<subseteq> owned t s" "held \<subseteq> owned t s"
    "set (CloseCh (targetOf s t)) \<inter> held = {}"
    "p \<in> set (target_pools t s) \<Longrightarrow> set (Queue (poolOf s p)) \<inter> (set (CloseCh (targetOf s t)) \<union> held) = {}"
    "owned t s \<subseteq> (\<Union>p \<in> set (target_pools t s). set (Queue (poolOf s p))) \<union> set (CloseCh (targetOf s t)) \<union> held"
  using assms unfolding places_ok_def by blast+

lemma dequeue_ok:
  assumes ok: "pools_ok held t s" and p: "p \<in> set (target_pools t s)" and b: "Queue (poolOf s p) = b # q"
  shows "pools_ok (insert b held) t (upd_pool p (\<lambda>x. x\<lparr>Queue := tl (Queue x)\<rparr>) s)" and "b \<notin> held" and "b \<in> owned t s"
proof -
  let ?s = "upd_pool p (\<lambda>x. x\<lparr>Queue := tl (Queue x)\<rparr>) s"
  note pl = places_okD [OF pools_ok_places [OF ok]]
  have pk: "distinct (b # q)" "set (b # q) \<subseteq> set (All_conns (poolOf s p))"
    using pools_ok_pool [OF ok p] b by (simp_all add: pool_ok_def)
  show bh: "b \<notin> held" using pl(5) [OF p] b by auto
  show bo: "b \<in> owned t s" using pk(2) p by (auto simp: owned_def)
  have so: "same_owned t s ?s"
    by (simp add: same_owned_def Let_def)
  have Q: "Queue (poolOf ?s x) = (if x = p then q else Queue (poolOf s x))" for x
    using b by simp
  have C: "CloseCh (targetOf ?s t) = CloseCh (targetOf s t)" by simp
  have other: "b \<notin> set (Queue (poolOf s x))" if "x \<in> set (target_pools t s)" "x \<noteq> p" for x
  proof
    assume "b \<in> set (Queue (poolOf s x))"
    then have "b \<in> set (All_conns (poolOf s x))" using pools_ok_pool [OF ok that(1)] by (auto simp: pool_ok_def)
    then show False using owner_unique [OF ok p that(1), of b] pk(2) that(2) by simp
  qed
  have "places_ok (insert b held) t ?s"
    unfolding places_ok_def same_owned_simps [OF so] C
  proof (intro conjI ballI)
    show "distinct (CloseCh (targetOf s t))" "set (CloseCh (targetOf s t)) \<subseteq> owned t s" by (fact pl)+
    show "insert b held \<subseteq> owned t s" using bo pl(3) by simp
    show "set (CloseCh (targetOf s t)) \<inter> insert b held = {}" using pl(4) pl(5) [OF p] b by auto
    show "set (Queue (poolOf ?s x)) \<inter> (set (CloseCh (targetOf s t)) \<union> insert b held) = {}"
      if "x \<in> set (target_pools t s)" for x
      using pl(5) [OF that] other [OF that] pk(1) b by (auto simp: Q)
    show "owned t s \<subseteq> (\<Union>x \<in> set (target_pools t s). set (Queue (poolOf ?s x))) \<union> set (CloseCh (targetOf s t)) \<union> insert b held"
    proof
      fix y assume "y \<in> owned t s"
      then consider x where "x \<in> set (target_pools t s)" "y \<in> set (Queue (poolOf s x))"
        | "y \<in> set (CloseCh (targetOf s t)) \<union> held" using pl(6) by blast
      then show "y \<in> (\<Union>x \<in> set (target_pools t s). set (Queue (poolOf ?s x))) \<union> set (CloseCh (targetOf s t)) \<union> insert b held"
      proof cases
        case (1 x)
        then have "y \<in> set (Queue (poolOf ?s x)) \<or> y = b" using b by (auto simp: Q)
        then show ?thesis using 1(1) by blast
      qed blast
    qed
  qed
  moreover have "distinct (Queue (poolOf ?s x)) \<and> set (Queue (poolOf ?s x)) \<subseteq> set (All_conns (poolOf s x))"
    if "x \<in> set (target_pools t s)" for x
    using pools_ok_pool [OF ok that] pk by (simp only: Q) (auto simp: pool_ok_def)
  ultimately show "pools_ok (insert b held) t ?s" using move_ok [OF ok so] by blast
qed


lemma agrees_upd_backend:
  "(\<And>x. b_pool (f x) = b_pool x) \<Longrightarrow> agrees t s (upd_backend b f s)"
  by (simp add: agrees_def same_target_def same_pool_def)

lemma agrees_upd_client: "agrees t s (upd_client c f s)"
  by (simp add: agrees_def same_target_def same_pool_def)

lemma agrees_upd_stats: "agrees t s (upd_stats f s)"
  by (simp add: agrees_def same_target_def same_pool_def)

lemma agrees_upd_target: "(\<And>x. same_target x (f x)) \<Longrightarrow> agrees t s (upd_target u f s)"
  by (simp add: agrees_def same_target_def same_pool_def)

lemma agrees_upd_pool: "(\<And>x. same_pool x (f x)) \<Longrightarrow> agrees t s (upd_pool p f s)"
  by (simp add: agrees_def same_target_def same_pool_def)

lemma agrees_signal: "agrees t s (signalConnReady u s)"
  unfolding signalConnReady_def by (rule agrees_upd_target) (simp add: same_target_def)

lemma SetBackend_fields [simp]:
  "b_pool (SetClient c b) = b_pool b" "b_pool (SetInUse v n b) = b_pool b" "b_pool (Backend_Close b) = b_pool b"
  "b_client (SetInUse v n b) = b_client b" "b_client (Backend_Close b) = b_client b"
  "b_client (SetClient c b) = c"
  by (simp_all add: SetClient_def SetInUse_def Backend_Close_def)

lemma take_idle_ok:
  assumes "pools_ok held t s" and "p \<in> set (target_pools t s)" and "Queue (poolOf s p) = b # q"
  shows "pools_ok (insert b held) t (take_idle p b s)"
  unfolding take_idle_def
  by (rule agrees_pools_ok [OF agrees_upd_backend dequeue_ok(1) [OF assms]]) simp

lemma enqueue_ok:
  assumes ok: "pools_ok held t s" and b: "b \<in> held" and p: "b_pool (backendOf s b) = Some p"
  shows "pools_ok (held - {b}) t (upd_pool p (\<lambda>x. x\<lparr>Queue := Queue x @ [b]\<rparr>) s)"
proof -
  let ?s = "upd_pool p (\<lambda>x. x\<lparr>Queue := Queue x @ [b]\<rparr>) s"
  note pl = places_okD [OF pools_ok_places [OF ok]]
  obtain p' where "p' \<in> set (target_pools t s)" "b \<in> set (All_conns (poolOf s p'))" "b_pool (backendOf s b) = Some p'"
    by (rule owned_pool [OF ok held_owned [OF ok b]])
  then have pp: "p \<in> set (target_pools t s)" "b \<in> set (All_conns (poolOf s p))" using p by auto
  have so: "same_owned t s ?s" by (simp add: same_owned_def Let_def)
  have Q: "Queue (poolOf ?s x) = (if x = p then Queue (poolOf s p) @ [b] else Queue (poolOf s x))" for x by simp
  have C: "CloseCh (targetOf ?s t) = CloseCh (targetOf s t)" by simp
  have nq: "b \<notin> set (Queue (poolOf s p))" using pl(5) [OF pp(1)] b by auto
  have "places_ok (held - {b}) t ?s"
    unfolding places_ok_def same_owned_simps [OF so] C
  proof (intro conjI ballI)
    show "distinct (CloseCh (targetOf s t))" "set (CloseCh (targetOf s t)) \<subseteq> owned t s" by (fact pl)+
    show "held - {b} \<subseteq> owned t s" "set (CloseCh (targetOf s t)) \<inter> (held - {b}) = {}" using pl(3,4) by auto
    show "set (Queue (poolOf ?s x)) \<inter> (set (CloseCh (targetOf s t)) \<union> (held - {b})) = {}"
      if "x \<in> set (target_pools t s)" for x
      using pl(5) [OF that] pl(4) b by (auto simp: Q)
    show "owned t s \<subseteq> (\<Union>x \<in> set (target_pools t s). set (Queue (poolOf ?s x))) \<union> set (CloseCh (targetOf s t)) \<union> (held - {b})"
    proof
      fix y assume "y \<in> owned t s"
      then consider x where "x \<in> set (target_pools t s)" "y \<in> set (Queue (poolOf s x))"
        | "y \<in> set (CloseCh (targetOf s t)) \<union> (held - {b})" | "y = b" using pl(6) by blast
      then show "y \<in> (\<Union>x \<in> set (target_pools t s). set (Queue (poolOf ?s x))) \<union> set (CloseCh (targetOf s t)) \<union> (held - {b})"
      proof cases
        case (1 x)
        then have "y \<in> set (Queue (poolOf ?s x))" by (auto simp: Q)
        then show ?thesis using 1(1) by blast
      next
        case 3
        then have "y \<in> set (Queue (poolOf ?s p))" by (simp add: Q)
        then show ?thesis using pp(1) by blast
      qed blast
    qed
  qed
  moreover have "distinct (Queue (poolOf ?s x)) \<and> set (Queue (poolOf ?s x)) \<subseteq> set (All_conns (poolOf s x))"
    if "x \<in> set (target_pools t s)" for x
    using pools_ok_pool [OF ok that] nq pp(2) by (auto simp: Q pool_ok_def)
  ultimately show ?thesis using move_ok [OF ok so] by blast
qed

lemma enclose_ok:
  assumes ok: "pools_ok held t s" and b: "b \<in> held"
  shows "pools_ok (held - {b}) t (upd_target t (\<lambda>x. x\<lparr>CloseCh := CloseCh x @ [b]\<rparr>) s)"
proof -
  let ?s = "upd_target t (\<lambda>x. x\<lparr>CloseCh := CloseCh x @ [b]\<rparr>) s"
  note pl = places_okD [OF pools_ok_places [OF ok]]
  have so: "same_owned t s ?s" by (simp add: same_owned_def Let_def)
  have Q: "poolOf ?s = poolOf s" by simp
  have C: "CloseCh (targetOf ?s t) = CloseCh (targetOf s t) @ [b]" by simp
  have bo: "b \<in> owned t s" by (rule held_owned [OF ok b])
  have "places_ok (held - {b}) t ?s"
    unfolding places_ok_def same_owned_simps [OF so] C Q
  proof (intro conjI ballI)
    show "distinct (CloseCh (targetOf s t) @ [b])" using pl(1,4) b by auto
    show "set (CloseCh (targetOf s t) @ [b]) \<subseteq> owned t s" using pl(2) bo by simp
    show "held - {b} \<subseteq> owned t s" "set (CloseCh (targetOf s t) @ [b]) \<inter> (held - {b}) = {}" using pl(3,4) by auto
    show "set (Queue (poolOf s x)) \<inter> (set (CloseCh (targetOf s t) @ [b]) \<union> (held - {b})) = {}"
      if "x \<in> set (target_pools t s)" for x
      using pl(5) [OF that] b by auto
    show "owned t s \<subseteq> (\<Union>x \<in> set (target_pools t s). set (Queue (poolOf s x))) \<union> set (CloseCh (targetOf s t) @ [b]) \<union> (held - {b})"
      using pl(6) by (simp, blast)
  qed
  moreover have "distinct (Queue (poolOf ?s x)) \<and> set (Queue (poolOf ?s x)) \<subseteq> set (All_conns (poolOf s x))"
    if "x \<in> set (target_pools t s)" for x
    using pools_ok_pool [OF ok that] by (auto simp: pool_ok_def)
  ultimately show ?thesis using move_ok [OF ok so] by blast
qed

lemma send_close_ok:
  assumes ok: "pools_ok held t s" and b: "b \<in> held"
  shows "\<exists>s'. send_close t b s = (Ok (), s') \<and> pools_ok (held - {b}) t s'"
proof -
  have "b \<notin> set (CloseCh (targetOf s t))" using pools_ok_places [OF ok] b by (auto simp: places_ok_def)
  then have "length (CloseCh (targetOf s t)) < CloseChCap (targetOf s t)"
    by (rule close_room [OF ok held_owned [OF ok b]])
  then show ?thesis using enclose_ok [OF ok b] by (simp add: send_close_def)
qed

lemma Return_ok:
  assumes ok: "pools_ok held t s" and b: "b \<in> held"
  shows "\<exists>s' p. Return b s = (Ok (), s') \<and> pools_ok (held - {b}) t s' \<and> b_pool (backendOf s b) = Some p \<and>
    Queue (poolOf s' p) = Queue (poolOf s p) @ [b]"
proof -
  let ?s1 = "upd_backend b (\<lambda>x. SetClient None (SetInUse False (now s) x)) s"
  have ok1: "pools_ok held t ?s1"
    by (rule agrees_pools_ok [OF agrees_upd_backend ok]) simp
  obtain p where p: "p \<in> set (target_pools t ?s1)" "b \<in> set (All_conns (poolOf ?s1 p))" "b_pool (backendOf ?s1 b) = Some p"
    by (rule owned_pool [OF ok1 held_owned [OF ok1 b]])
  have "b \<notin> set (Queue (poolOf ?s1 p))" using places_okD(5) [OF pools_ok_places [OF ok1] p(1)] b by auto
  then have room: "length (Queue (poolOf s p)) < QueueCap (poolOf s p)"
    using queue_room [OF ok1 p(1,2)] by simp
  let ?s2 = "upd_pool p (\<lambda>x. x\<lparr>Queue := Queue x @ [b]\<rparr>) ?s1"
  have "pools_ok (held - {b}) t (signalConnReady (p_target (poolOf s p)) ?s2)"
    by (rule agrees_pools_ok [OF agrees_signal enqueue_ok [OF ok1 b p(3)]])
  moreover have "Return b s = (Ok (), signalConnReady (p_target (poolOf s p)) ?s2)"
    using p(3) room by (simp add: Return_def prog_defs)
  ultimately show ?thesis using p(3) by (simp add: signalConnReady_def)
qed

lemma Release_ok:
  assumes ok: "pools_ok held t s" and b: "b \<in> held"
  shows "\<exists>s'. Release b s = (Ok (), s') \<and> pools_ok (held - {b}) t s' \<and> b_client (backendOf s' b) = None \<and>
    (\<forall>c. b_client (backendOf s b) = Some c \<longrightarrow> cl_backend (clientOf s' c) = None \<and> \<not> inTransaction (clientOf s' c))"
proof -
  let ?s1 = "upd_backend b (SetClient None) s"
  let ?s2 = "case b_client (backendOf s b) of None \<Rightarrow> ?s1
     | Some c \<Rightarrow> upd_client c (\<lambda>x. SetInTransaction False (SetBackend None x)) ?s1"
  have ok1: "pools_ok held t ?s1" by (rule agrees_pools_ok [OF agrees_upd_backend ok]) simp
  have ok2: "pools_ok held t ?s2"
    using ok1 agrees_pools_ok [OF agrees_upd_client ok1] by (simp split: option.split)
  obtain p where p: "b_pool (backendOf ?s2 b) = Some p" "p_target (poolOf ?s2 p) = t"
    by (rule owned_pool [OF ok2 held_owned [OF ok2 b]])
  obtain s3 where s3: "send_close t b ?s2 = (Ok (), s3)" "pools_ok (held - {b}) t s3"
    using send_close_ok [OF ok2 b] by blast
  have run: "Release b s = send_close t b ?s2"
    using p by (cases "b_client (backendOf s b)") (simp_all add: Release_def prog_defs)
  have "s3 = upd_target t (\<lambda>x. x\<lparr>CloseCh := CloseCh x @ [b]\<rparr>) ?s2"
    using s3(1) by (auto simp: send_close_def split: if_splits)
  then show ?thesis
    using s3 run by (auto simp: SetInTransaction_def SetBackend_def split: option.splits)
qed


section \<open>Closing and opening connections\<close>

lemma length_swap_remove: "x \<in> set xs \<Longrightarrow> length (swap_remove x xs) = length xs - 1"
proof (induction xs)
  case (Cons y ys)
  then show ?case by (cases ys) auto
qed simp

lemma set_swap_remove: "distinct xs \<Longrightarrow> set (swap_remove x xs) = set xs - {x} \<and> distinct (swap_remove x xs)"
proof (induction xs)
  case (Cons y ys)
  show ?case
  proof (cases "y = x")
    case True
    then show ?thesis using Cons.prems by (cases ys rule: rev_cases) auto
  next
    case False
    then show ?thesis using Cons by auto
  qed
qed simp

lemma int32_small: "0 \<le> i \<Longrightarrow> i < 2 ^ 31 \<Longrightarrow> int32_of i = i"
  by (simp add: int32_of_def signed_take_bit_int_eq_self_iff)

text \<open>A connection that is closed, uncounted and taken from its pool is gone.\<close>

lemma drop_conn_ok:
  assumes ok: "pools_ok held t s" and b: "b \<in> held" and p: "b_pool (backendOf s b) = Some p"
    and f: "\<And>x. Pools (f x) = Pools x \<and> CloseCh (f x) = CloseCh x \<and> CloseChCap (f x) = CloseChCap x \<and>
       MaxConnections (f x) = MaxConnections x \<and> t_backend (f x) = t_backend x \<and> CachedPools (f x) = CachedPools x \<and>
       PoolRegistered (f x) = PoolRegistered x \<and> TotalOpen (f x) = TotalOpen x - 1"
  shows "pools_ok (held - {b}) t (removeFromAll p b (upd_target t f (upd_backend b Backend_Close s)))"
proof -
  let ?s = "removeFromAll p b (upd_target t f (upd_backend b Backend_Close s))"
  let ?A = "\<lambda>x. All_conns (poolOf s x)"
  note pl = places_okD [OF pools_ok_places [OF ok]]
  have bo: "b \<in> owned t s" by (rule held_owned [OF ok b])
  obtain p' where "p' \<in> set (target_pools t s)" "b \<in> set (?A p')" "b_pool (backendOf s b) = Some p'" "p_target (poolOf s p') = t"
    by (rule owned_pool [OF ok bo])
  then have pp: "p \<in> set (target_pools t s)" "b \<in> set (?A p)" "p_target (poolOf s p) = t" using p by auto
  have pk: "pool_ok t s p" by (rule pools_ok_pool [OF ok pp(1)])
  have bud: "budget_ok t s" by (rule pools_ok_budget [OF ok])
  have tp: "target_pools t ?s = target_pools t s"
    using f by (simp add: target_pools_def removeFromAll_def Let_def)
  have sr: "set (swap_remove b (?A p)) = set (?A p) - {b}" "distinct (swap_remove b (?A p))"
      "length (swap_remove b (?A p)) = length (?A p) - 1"
    using set_swap_remove [of "?A p" b] length_swap_remove [OF pp(2)] pk by (auto simp: pool_ok_def)
  have A: "All_conns (poolOf ?s x) = (if x = p then swap_remove b (?A p) else ?A x)" for x
    using pp(2) by (simp add: removeFromAll_def Let_def)
  have len: "0 < length (?A p)" using pp(2) by (cases "?A p") auto
  have le: "length (?A p) \<le> open_conns t s" by (rule all_le_open [OF pools_ok_distinct [OF ok] pp(1)])
  have small: "int (length (swap_remove b (?A p))) < 2 ^ 31"
  proof -
    have "int (length (swap_remove b (?A p))) \<le> int (open_conns t s)" using sr(3) le by simp
    then show ?thesis using open_le_max [OF bud] bud by (auto simp: budget_ok_def)
  qed
  have Q: "Queue (poolOf ?s x) = Queue (poolOf s x)" "p_target (poolOf ?s x) = p_target (poolOf s x)"
      "QueueCap (poolOf ?s x) = QueueCap (poolOf s x)" for x
    by (simp_all add: removeFromAll_def Let_def)
  have cc: "connCount (poolOf ?s x) = (if x = p then int (length (swap_remove b (?A p))) else connCount (poolOf s x))" for x
    using pp(2) int32_small [OF _ small] by (simp add: removeFromAll_def Let_def)
  have T: "Pools (targetOf ?s t) = Pools (targetOf s t)" "CloseCh (targetOf ?s t) = CloseCh (targetOf s t)"
      "CloseChCap (targetOf ?s t) = CloseChCap (targetOf s t)" "MaxConnections (targetOf ?s t) = MaxConnections (targetOf s t)"
      "t_backend (targetOf ?s t) = t_backend (targetOf s t)" "CachedPools (targetOf ?s t) = CachedPools (targetOf s t)"
      "PoolRegistered (targetOf ?s t) = PoolRegistered (targetOf s t)" "TotalOpen (targetOf ?s t) = TotalOpen (targetOf s t) - 1"
    using f by (simp_all add: removeFromAll_def Let_def)
  have G: "nextBackend ?s = nextBackend s" "nextPool ?s = nextPool s"
      "b_pool (backendOf ?s y) = b_pool (backendOf s y)" for y
    by (simp_all add: removeFromAll_def Let_def)
  have ow: "owned t ?s = owned t s - {b}"
  proof
    show "owned t ?s \<subseteq> owned t s - {b}"
      using owner_unique [OF ok pp(1) _ pp(2)] by (auto simp: owned_def tp A sr split: if_splits)
    show "owned t s - {b} \<subseteq> owned t ?s" by (auto simp: owned_def tp A sr)
  qed
  have oc: "open_conns t ?s = open_conns t s - 1"
    using sum_list_update_pool [OF pools_ok_distinct [OF ok] pp(1),
        of "\<lambda>x. length (All_conns (poolOf ?s x))" "\<lambda>x. length (?A x)"] sr(3) len
    unfolding open_conns_def tp by (simp add: A)
  have pok: "pool_ok t ?s x" if "x \<in> set (target_pools t s)" for x
    using pools_ok_pool [OF ok that] sr places_okD(5) [OF pools_ok_places [OF ok] that] b
    unfolding pool_ok_def A Q cc T G by auto
  have plc: "places_ok (held - {b}) t ?s"
    unfolding places_ok_def ow tp T Q
  proof (intro conjI ballI)
    show "distinct (CloseCh (targetOf s t))" by (fact pl)
    show "set (CloseCh (targetOf s t)) \<subseteq> owned t s - {b}" using pl(2,4) b by auto
    show "held - {b} \<subseteq> owned t s - {b}" "set (CloseCh (targetOf s t)) \<inter> (held - {b}) = {}" using pl(3,4) by auto
    show "set (Queue (poolOf s x)) \<inter> (set (CloseCh (targetOf s t)) \<union> (held - {b})) = {}"
      if "x \<in> set (target_pools t s)" for x
      using pl(5) [OF that] by auto
    show "owned t s - {b} \<subseteq> (\<Union>x \<in> set (target_pools t s). set (Queue (poolOf s x))) \<union> set (CloseCh (targetOf s t)) \<union> (held - {b})"
      using pl(6) by blast
  qed
  have bud': "budget_ok t ?s"
  proof -
    have "int (open_conns t s - 1) = int (open_conns t s) - 1" using le len by (cases "open_conns t s") auto
    then show ?thesis using bud unfolding budget_ok_def T oc by simp
  qed
  have "keys_ok t ?s"
    using pools_ok_names [OF ok] by (rule keys_ok_cong) (use T in \<open>simp_all add: removeFromAll_def Let_def\<close>)
  then show ?thesis
    using ok pok plc bud' unfolding pools_ok_def tp T G by simp
qed


lemma pop_close_ok:
  assumes ok: "pools_ok held t s" and b: "CloseCh (targetOf s t) = b # rest"
  shows "pools_ok (insert b held) t (upd_target t (\<lambda>x. x\<lparr>CloseCh := tl (CloseCh x)\<rparr>) s)" and "b \<notin> held" and "b \<in> owned t s"
proof -
  let ?s = "upd_target t (\<lambda>x. x\<lparr>CloseCh := tl (CloseCh x)\<rparr>) s"
  note pl = places_okD [OF pools_ok_places [OF ok], unfolded b]
  show bh: "b \<notin> held" using pl(4) by auto
  show bo: "b \<in> owned t s" using pl(2) by auto
  have so: "same_owned t s ?s" by (simp add: same_owned_def Let_def)
  have Q: "poolOf ?s = poolOf s" by simp
  have C: "CloseCh (targetOf ?s t) = rest" using b by simp
  have "places_ok (insert b held) t ?s"
    unfolding places_ok_def same_owned_simps [OF so] C Q
  proof (intro conjI ballI)
    show "distinct rest" "set rest \<subseteq> owned t s" "insert b held \<subseteq> owned t s" "set rest \<inter> insert b held = {}"
      using pl(1,2,3,4) by auto
    show "set (Queue (poolOf s x)) \<inter> (set rest \<union> insert b held) = {}" if "x \<in> set (target_pools t s)" for x
      using pl(5) [OF that] by auto
    show "owned t s \<subseteq> (\<Union>x \<in> set (target_pools t s). set (Queue (poolOf s x))) \<union> set rest \<union> insert b held"
      using pl(6) by auto
  qed
  moreover have "distinct (Queue (poolOf ?s x)) \<and> set (Queue (poolOf ?s x)) \<subseteq> set (All_conns (poolOf s x))"
    if "x \<in> set (target_pools t s)" for x
    using pools_ok_pool [OF ok that] by (auto simp: pool_ok_def)
  ultimately show "pools_ok (insert b held) t ?s" using move_ok [OF ok so] by blast
qed

lemma handleClose_ok:
  assumes ok: "pools_ok held t s" and b: "b \<in> held"
  shows "\<exists>s'. handleClose t b s = (Ok (), s') \<and> pools_ok (held - {b}) t s'"
proof -
  obtain p where p: "b_pool (backendOf s b) = Some p" by (rule owned_pool [OF ok held_owned [OF ok b]])
  let ?s1 = "removeFromAll p b (upd_target t (\<lambda>x. x\<lparr>TotalOpen := TotalOpen x - 1\<rparr>) (upd_backend b Backend_Close s))"
  have "pools_ok (held - {b}) t ?s1" by (rule drop_conn_ok [OF ok b p]) simp
  from agrees_pools_ok [OF agrees_signal this] have "pools_ok (held - {b}) t (signalConnReady t ?s1)" .
  moreover have "handleClose t b s = (Ok (), signalConnReady t ?s1)"
    using p by (simp add: handleClose_def prog_defs)
  ultimately show ?thesis by blast
qed

lemma closeOneIdle_ok:
  assumes ok: "pools_ok held t s" and p: "p \<in> set (target_pools t s)"
  shows "\<exists>r s'. closeOneIdle t p s = (Ok r, s') \<and> pools_ok held t s' \<and> (r \<longleftrightarrow> Queue (poolOf s p) \<noteq> []) \<and>
    target_pools t s' = target_pools t s \<and> MaxConnections (targetOf s' t) = MaxConnections (targetOf s t) \<and>
    TotalOpen (targetOf s' t) = TotalOpen (targetOf s t) - (if r then 1 else 0)"
proof (cases "Queue (poolOf s p)")
  case Nil
  then have "closeOneIdle t p s = (Ok False, s)" by (simp add: closeOneIdle_def prog_defs)
  then show ?thesis using ok Nil by (intro exI [of _ False] exI [of _ s]) simp
next
  case (Cons b q)
  let ?s1 = "upd_pool p (\<lambda>x. x\<lparr>Queue := tl (Queue x)\<rparr>) s"
  let ?f = "\<lambda>x. x\<lparr>TotalOpen := TotalOpen x - 1, AtomicTotalOpen := int32_of (TotalOpen x - 1)\<rparr>"
  let ?s2 = "removeFromAll p b (upd_target t ?f (upd_backend b Backend_Close ?s1))"
  let ?s3 = "upd_stats (\<lambda>g. g\<lparr>IdleConnectionsClosed := IdleConnectionsClosed g + 1\<rparr>) ?s2"
  note dq = dequeue_ok [OF ok p Cons]
  have "b \<in> set (All_conns (poolOf s p))" using pools_ok_pool [OF ok p] Cons by (simp add: pool_ok_def)
  then have bp: "b_pool (backendOf ?s1 b) = Some p" using pools_ok_pool [OF ok p] by (simp add: pool_ok_def)
  have "pools_ok (insert b held - {b}) t ?s2"
    by (rule drop_conn_ok [OF dq(1) _ bp]) simp_all
  then have "pools_ok held t ?s2" using dq(2) by simp
  from agrees_pools_ok [OF agrees_upd_stats this] have "pools_ok held t ?s3" .
  moreover have "closeOneIdle t p s = (Ok True, ?s3)"
    using Cons by (simp add: closeOneIdle_def prog_defs close_counted_def)
  moreover have "target_pools t ?s3 = target_pools t s" "MaxConnections (targetOf ?s3 t) = MaxConnections (targetOf s t)"
      "TotalOpen (targetOf ?s3 t) = TotalOpen (targetOf s t) - 1"
    by (simp_all add: target_pools_def removeFromAll_def Let_def)
  ultimately show ?thesis using Cons by (intro exI [of _ True] exI [of _ ?s3]) simp
qed


lemma b_pool_io [simp]:
  "b_pool (snd (Backend_read b)) = b_pool b" "b_pool (snd (Backend_write m b)) = b_pool b"
  "b_pool (snd (raw_write bs b)) = b_pool b"
  by (simp_all add: Backend_read_def Backend_write_def raw_write_def zoomP_def split: prod.split)

lemma keeps_pool_startup: "keeps (\<lambda>s. b_pool (fst s) = x) startup_step"
  unfolding startup_step_def
  by (intro keeps_intros keeps_modify keeps_zoom [where J = "\<lambda>b. b_pool b = x"])
    (auto simp: startup_param_def key_data_def SetSecretKey_def SetProcessID_def keeps_def split: list.split)

lemma drainBackendStartup_pool: "drainBackendStartup b = (r, b') \<Longrightarrow> b_pool b' = b_pool b"
proof -
  have k: "keeps (\<lambda>s. b_pool (fst s) = b_pool b) (loopP (backend_fuel b) startup_step)"
    by (intro keeps_intros keeps_pool_startup)
  assume "drainBackendStartup b = (r, b')"
  then obtain ac where "loopP (backend_fuel b) startup_step (b, False) = (r, (b', ac))"
    by (simp add: drainBackendStartup_def split: prod.splits del: loopP.simps)
  from keepsD [OF k this] show ?thesis by simp
qed


lemma startup_step_not_Blocked: "fst (startup_step s) \<noteq> Blocked \<and> fst (startup_step s) \<noteq> Panic"
proof (cases "Backend_read (fst s)")
  case (Pair r b)
  then show ?thesis
    using Backend_read_not [of "fst s" b]
    by (cases r) (simp_all add: startup_step_def tryP_def failP_def bindP_def getP_def modifyP_def thenP_def returnP_def
        zoomP_def split: prod.split)
qed

lemma startup_step_consumes:
  assumes "startup_step s = (Ok None, s')"
  shows "length (c_in (b_conn (fst s'))) < length (c_in (b_conn (fst s)))"
proof -
  obtain t body ms where m: "c_in (b_conn (fst s)) = (t, body) # ms" "\<not> c_closed (b_conn (fst s))"
    using assms by (auto simp: startup_step_def wrapP_Ok_iff zoomP_def Backend_read_Ok split: prod.splits)
  show ?thesis
    using assms m
    by (auto simp: startup_step_def tryP_def zoomP_def getP_def bindP_def thenP_def modifyP_def returnP_def failP_def
        startup_param_def split: if_splits list.splits)
qed

lemma loopP_no_panic:
  assumes "\<And>s. fst (body s) \<noteq> Panic"
  shows "fst (loopP n body s) \<noteq> Panic"
proof (induction n arbitrary: s)
  case (Suc n)
  then show ?case
    using assms [of s] by (auto simp: bindP_def returnP_def split: prod.splits res.splits option.splits)
qed simp

lemma drainBackendStartup_returns: "fst (drainBackendStartup b) \<noteq> Blocked" "fst (drainBackendStartup b) \<noteq> Panic"
proof -
  have "fst (loopP (backend_fuel b) startup_step (b, False)) \<noteq> Blocked"
    by (rule loopP_enough [where \<mu> = "\<lambda>s. length (c_in (b_conn (fst s)))"])
      (use startup_step_consumes startup_step_not_Blocked in auto)
  moreover have "fst (loopP (backend_fuel b) startup_step (b, False)) \<noteq> Panic"
    by (rule loopP_no_panic) (simp add: startup_step_not_Blocked)
  ultimately show "fst (drainBackendStartup b) \<noteq> Blocked" "fst (drainBackendStartup b) \<noteq> Panic"
    by (simp_all add: drainBackendStartup_def case_prod_unfold del: loopP.simps)
qed

text \<open>A new connection gets a fresh identifier and belongs to no pool yet; everything else stays.\<close>

definition fresh_conn :: "backendId res \<Rightarrow> Server \<Rightarrow> Server \<Rightarrow> bool" where
  "fresh_conn r s s' \<longleftrightarrow>
     targetOf s' = targetOf s \<and> poolOf s' = poolOf s \<and> clientOf s' = clientOf s \<and> nextPool s' = nextPool s \<and>
     Targets s' = Targets s \<and> Listeners s' = Listeners s \<and> cancelKeys s' = cancelKeys s \<and>
     nextBackend s \<le> nextBackend s' \<and> (\<forall>b < nextBackend s. backendOf s' b = backendOf s b) \<and>
     (case r of
        Ok b \<Rightarrow> b = nextBackend s \<and> nextBackend s' = b + 1 \<and> b_pool (backendOf s' b) = None
      | Err _ \<Rightarrow> True | Panic \<Rightarrow> False | Blocked \<Rightarrow> False)"

lemma on_backend_eq: "on_backend b m s = (fst (m (backendOf s b)), upd_backend b (\<lambda>_. snd (m (backendOf s b))) s)"
  by (simp add: on_backend_def zoomP_def split: prod.split)

lemma raw_write_returns: "fst (raw_write bs b) \<noteq> Blocked" "fst (raw_write bs b) \<noteq> Panic"
  by (simp_all add: raw_write_def zoomP_def conn_send_def split: prod.split option.split nat.split)

lemma createCertBackend_fresh:
  assumes "createCertBackend u db usr s = (r, s')"
  shows "fresh_conn r s s'"
proof (cases "dials s")
  case Nil
  then show ?thesis using assms by (auto simp: createCertBackend_def fresh_conn_def)
next
  case (Cons d ds)
  show ?thesis
  proof (cases d)
    case (Inl e)
    then show ?thesis using assms Cons by (auto simp: createCertBackend_def fresh_conn_def)
  next
    case (Inr k)
    let ?b = "NewBackend (k\<lparr>c_max := MaxMessageSize (sv_config s)\<rparr>) db (Name (targetOf s u)) usr (now s)"
    let ?w = "raw_write (buildStartupMessage usr db) ?b"
    let ?d = "drainBackendStartup (snd ?w)"
    have nb: "b_pool ?b = None" by (simp add: NewBackend_def)
    have wp: "b_pool (snd ?w) = None" using nb by simp
    have dp: "b_pool (snd ?d) = None"
      using drainBackendStartup_pool [of "snd ?w" "fst ?d" "snd ?d"] wp by simp
    show ?thesis
      using assms Cons Inr wp dp raw_write_returns [of "buildStartupMessage usr db" ?b] drainBackendStartup_returns [of "snd ?w"]
      by (cases "fst ?w"; cases "fst ?d")
        (auto simp: createCertBackend_def Let_def tryP_def thenP_def bindP_def modifyP_def failP_def returnP_def on_backend_eq
          fresh_conn_def)
  qed
qed

lemma newConn_fresh: "newConn p s = (r, s') \<Longrightarrow> fresh_conn r s s'"
  by (rule createCertBackend_fresh [of "p_target (poolOf s p)" "DbName (poolOf s p)" "Username (poolOf s p)"])
    (simp add: newConn_def bindP_def getP_def)

lemma fresh_conn_agrees: "fresh_conn r s s' \<Longrightarrow> agrees t s s'"
  by (simp add: fresh_conn_def agrees_def same_target_def same_pool_def)


lemma add_conn_ok:
  assumes ok: "pools_ok held t s" and p: "p \<in> set (target_pools t s)"
    and b: "b < nextBackend s" "b \<notin> owned t s" "t_backend (targetOf s t) \<noteq> Some b"
    and room: "TotalOpen (targetOf s t) < MaxConnections (targetOf s t)"
    and s': "s' = upd_target t (\<lambda>x. x\<lparr>TotalOpen := TotalOpen x + 1\<rparr>)
       (upd_pool p (\<lambda>x. x\<lparr>All_conns := All_conns x @ [b], connCount := int32_of (int (length (All_conns x) + 1))\<rparr>)
       (upd_backend b (\<lambda>x. x\<lparr>b_pool := Some p\<rparr>) s))"
  shows "pools_ok (insert b held) t s'"
proof -
  let ?A = "\<lambda>x. All_conns (poolOf s x)"
  note pl = places_okD [OF pools_ok_places [OF ok]]
  have bud: "budget_ok t s" by (rule pools_ok_budget [OF ok])
  have bo: "b \<notin> set (?A x)" if "x \<in> set (target_pools t s)" for x using b(2) that by (auto simp: owned_def)
  have tp: "target_pools t s' = target_pools t s" by (simp add: s' target_pools_def)
  have A: "All_conns (poolOf s' x) = (if x = p then ?A p @ [b] else ?A x)" for x by (simp add: s')
  have le: "length (?A p) \<le> open_conns t s" by (rule all_le_open [OF pools_ok_distinct [OF ok] p])
  have small: "int (length (?A p) + 1) < 2 ^ 31" using le bud room by (auto simp: budget_ok_def split: if_splits)
  have cc: "connCount (poolOf s' x) = (if x = p then int (length (?A p) + 1) else connCount (poolOf s x))" for x
    using int32_small [OF _ small] by (simp add: s')
  have Q: "Queue (poolOf s' x) = Queue (poolOf s x)" "p_target (poolOf s' x) = p_target (poolOf s x)"
      "QueueCap (poolOf s' x) = QueueCap (poolOf s x)" for x
    by (simp_all add: s')
  have T: "Pools (targetOf s' t) = Pools (targetOf s t)" "CloseCh (targetOf s' t) = CloseCh (targetOf s t)"
      "CloseChCap (targetOf s' t) = CloseChCap (targetOf s t)" "MaxConnections (targetOf s' t) = MaxConnections (targetOf s t)"
      "t_backend (targetOf s' t) = t_backend (targetOf s t)" "CachedPools (targetOf s' t) = CachedPools (targetOf s t)"
      "PoolRegistered (targetOf s' t) = PoolRegistered (targetOf s t)" "TotalOpen (targetOf s' t) = TotalOpen (targetOf s t) + 1"
    by (simp_all add: s')
  have G: "nextBackend s' = nextBackend s" "nextPool s' = nextPool s"
      "b_pool (backendOf s' y) = (if y = b then Some p else b_pool (backendOf s y))" for y
    by (simp_all add: s')
  have ow: "owned t s' = insert b (owned t s)" using p by (auto simp: owned_def tp A split: if_splits)
  have oc: "open_conns t s' = open_conns t s + 1"
    using sum_list_update_pool [OF pools_ok_distinct [OF ok] p,
        of "\<lambda>x. length (All_conns (poolOf s' x))" "\<lambda>x. length (?A x)"]
    unfolding open_conns_def tp by (simp add: A)
  have pok: "pool_ok t s' x" if x: "x \<in> set (target_pools t s)" for x
    using pools_ok_pool [OF ok x] bo [OF x] b(1)
    unfolding pool_ok_def A Q cc T G by auto
  have plc: "places_ok (insert b held) t s'"
    unfolding places_ok_def ow tp T Q
  proof (intro conjI ballI)
    show "distinct (CloseCh (targetOf s t))" by (fact pl)
    show "set (CloseCh (targetOf s t)) \<subseteq> insert b (owned t s)" "insert b held \<subseteq> insert b (owned t s)"
      "set (CloseCh (targetOf s t)) \<inter> insert b held = {}" using pl(2,3,4) b(2) by auto
    show "set (Queue (poolOf s x)) \<inter> (set (CloseCh (targetOf s t)) \<union> insert b held) = {}"
      if "x \<in> set (target_pools t s)" for x
      using pl(5) [OF that] bo [OF that] pools_ok_pool [OF ok that] by (auto simp: pool_ok_def)
    show "insert b (owned t s) \<subseteq> (\<Union>x \<in> set (target_pools t s). set (Queue (poolOf s x))) \<union> set (CloseCh (targetOf s t)) \<union> insert b held"
      using pl(6) by blast
  qed
  have bud': "budget_ok t s'" using bud room unfolding budget_ok_def T oc by simp
  have "keys_ok t s'"
    using pools_ok_names [OF ok] by (rule keys_ok_cong) (use T in \<open>simp_all add: s'\<close>)
  then show ?thesis
    using ok pok plc bud' b(3) unfolding pools_ok_def tp T G by simp
qed

lemma openOne_ok:
  assumes ok: "pools_ok held t s" and p: "p \<in> set (target_pools t s)"
    and room: "TotalOpen (targetOf s t) < MaxConnections (targetOf s t)"
  shows "\<exists>s'. openOne t p s = (Ok (), s') \<and> pools_ok held t s' \<and> target_pools t s' = target_pools t s \<and>
    MaxConnections (targetOf s' t) = MaxConnections (targetOf s t) \<and> TotalOpen (targetOf s' t) \<le> TotalOpen (targetOf s t) + 1"
proof -
  obtain r s1 where nc: "newConn p s = (r, s1)" by fastforce
  have fr: "fresh_conn r s s1" by (rule newConn_fresh [OF nc])
  have ok1: "pools_ok held t s1" by (rule agrees_pools_ok [OF fresh_conn_agrees [OF fr] ok])
  have eq: "targetOf s1 = targetOf s" "poolOf s1 = poolOf s" using fr by (simp_all add: fresh_conn_def)
  then have tp: "target_pools t s1 = target_pools t s" "owned t s1 = owned t s"
    by (simp_all add: target_pools_def owned_def)
  show ?thesis
  proof (cases r)
    case (Ok b)
    have b: "b = nextBackend s" "nextBackend s1 = b + 1" using fr Ok by (simp_all add: fresh_conn_def)
    have no: "b \<notin> owned t s1"
      unfolding tp using owned_pool [OF ok, of b] b(1) by (metis less_irrefl)
    have np: "t_backend (targetOf s1 t) \<noteq> Some b"
      using pools_ok_priv [OF ok, of b] b(1) eq by auto
    let ?s2 = "upd_target t (\<lambda>x. x\<lparr>TotalOpen := TotalOpen x + 1\<rparr>)
       (upd_pool p (\<lambda>x. x\<lparr>All_conns := All_conns x @ [b], connCount := int32_of (int (length (All_conns x) + 1))\<rparr>)
       (upd_backend b (\<lambda>x. x\<lparr>b_pool := Some p\<rparr>) s1))"
    have ok2: "pools_ok (insert b held) t ?s2"
      by (rule add_conn_ok [OF ok1 _ _ no np _ refl]) (use p tp b room eq in auto)
    have bp: "b_pool (backendOf ?s2 b) = Some p" by simp
    have nh: "b \<notin> held" using held_owned [OF ok1] no by blast
    have "p \<in> set (target_pools t ?s2)" using p tp by (simp add: target_pools_def)
    moreover have "b \<notin> set (Queue (poolOf s p))"
      using pools_ok_pool [OF ok p] no p by (auto simp: pool_ok_def owned_def tp eq)
    ultimately have qr: "length (Queue (poolOf s p)) < QueueCap (poolOf s p)"
      using queue_room [OF ok2, of p b] by (simp add: eq)
    let ?s3 = "upd_pool p (\<lambda>x. x\<lparr>Queue := Queue x @ [b]\<rparr>) ?s2"
    have "pools_ok (insert b held - {b}) t ?s3" by (rule enqueue_ok [OF ok2 _ bp]) simp
    then have "pools_ok held t (signalConnReady t ?s3)" using nh agrees_pools_ok [OF agrees_signal] by simp
    moreover have "openOne t p s = (Ok (), signalConnReady t ?s3)"
      using nc Ok qr by (simp add: openOne_def prog_defs eq)
    ultimately show ?thesis
      using tp by (simp add: target_pools_def signalConnReady_def eq)
  next
    case (Err e)
    then have "openOne t p s = (Ok (), s1)" using nc by (simp add: openOne_def prog_defs)
    then show ?thesis using ok1 eq tp by simp
  qed (use fr in \<open>simp_all add: fresh_conn_def\<close>)
qed


section \<open>Pools are created and found\<close>

lemma find_pool_Some:
  "find_pool s db usr ts = Some p \<Longrightarrow>
     \<exists>t \<in> set ts. LookupPool (targetOf s t) db usr = Some p \<and> \<not> Draining (targetOf s t) \<and> targetServesDatabase (targetOf s t) db"
  by (induction ts) (auto simp: Let_def split: if_splits option.splits)

lemma find_pool_None:
  "find_pool s db usr ts = None \<Longrightarrow> t \<in> set ts \<Longrightarrow> \<not> Draining (targetOf s t) \<Longrightarrow> targetServesDatabase (targetOf s t) db \<Longrightarrow>
     LookupPool (targetOf s t) db usr = None"
  by (induction ts) (auto simp: Let_def split: if_splits option.splits)

lemma select_target_Some:
  "select_target s db ts = Some t \<Longrightarrow> t \<in> set ts \<and> \<not> Draining (targetOf s t) \<and> targetServesDatabase (targetOf s t) db"
  by (induction ts) (auto split: if_splits)

lemma LookupPool_key:
  "LookupPool (targetOf s t) db usr = Some p \<Longrightarrow> (PoolKey db usr, p) \<in> set (Pools (targetOf s t)) \<and> p \<in> set (target_pools t s)"
  unfolding LookupPool_def target_pools_def using map_of_SomeD by force

lemma alist_update_fresh: "k \<notin> fst ` set al \<Longrightarrow> AList.update k v al = al @ [(k, v)]"
  by (induction al) auto

lemma PoolKey_inject:
  "NUL \<notin> set db \<Longrightarrow> NUL \<notin> set db' \<Longrightarrow> PoolKey db usr = PoolKey db' usr' \<longleftrightarrow> db = db' \<and> usr = usr'"
proof (induction db arbitrary: db')
  case Nil
  then show ?case by (cases db') (auto simp: PoolKey_def)
next
  case (Cons c db)
  then show ?case by (cases db') (auto simp: PoolKey_def)
qed

lemma getPool_cases:
  assumes "getPool db usr s = (r, s')"
  obtains (found) t p where "t \<in> set (Targets s)" "LookupPool (targetOf s t) db usr = Some p" "r = Ok (Some p)" "s' = s"
  | (none) "r = Ok None" "s' = s"
  | (panic) t where "t \<in> set (Targets s)" "MaxConnections (targetOf s t) < 0" "r = Panic" "s' = s"
  | (new) t where "t \<in> set (Targets s)" "LookupPool (targetOf s t) db usr = None" "0 \<le> MaxConnections (targetOf s t)"
      "r = Ok (Some (nextPool s))"
      "s' = upd_stats (\<lambda>g. g\<lparr>TotalPools := TotalPools g + 1\<rparr>)
        (upd_target t (\<lambda>x. x\<lparr>Pools := AList.update (PoolKey db usr) (nextPool s) (Pools x),
           PoolRegistered := (if length (PoolRegistered (targetOf s t)) < poolRegisteredCap
              then PoolRegistered (targetOf s t) @ [nextPool s] else PoolRegistered (targetOf s t))\<rparr>)
        (upd_pool (nextPool s) (\<lambda>_. new_pool t (targetOf s t) db usr) (s\<lparr>nextPool := nextPool s + 1\<rparr>)))"
proof (cases "find_pool s db usr (Targets s)")
  case (Some p)
  obtain t where "t \<in> set (Targets s)" "LookupPool (targetOf s t) db usr = Some p" using find_pool_Some [OF Some] by blast
  then show ?thesis by (rule found) (use assms Some in \<open>simp_all add: getPool_def\<close>)
next
  case None
  show ?thesis
  proof (cases "select_target s db (Targets s)")
    case None
    show ?thesis
      by (rule none) (use assms None \<open>find_pool s db usr (Targets s) = None\<close> in \<open>simp_all add: getPool_def\<close>)
  next
    case (Some t)
    have t: "t \<in> set (Targets s)" "LookupPool (targetOf s t) db usr = None"
      using select_target_Some [OF Some] find_pool_None [OF None] by auto
    show ?thesis
    proof (cases "MaxConnections (targetOf s t) < 0")
      case True
      then show ?thesis
        by (rule panic [OF t(1)]) (use assms None Some True in \<open>simp_all add: getPool_def\<close>)
    next
      case False
      show ?thesis
        by (rule new [OF t]) (use assms None Some False t in \<open>simp_all add: getPool_def Let_def\<close>)
    qed
  qed
qed

lemma new_pool_ok:
  assumes ok: "pools_ok held t s" and l: "LookupPool (targetOf s u) db usr = None" and m: "0 \<le> MaxConnections (targetOf s u)"
    and fresh: "\<forall>p \<in> set (target_pools t s). p < nextPool s"
    and s': "s' = upd_stats (\<lambda>g. g\<lparr>TotalPools := TotalPools g + 1\<rparr>)
        (upd_target u (\<lambda>x. x\<lparr>Pools := AList.update (PoolKey db usr) (nextPool s) (Pools x),
           PoolRegistered := (if length (PoolRegistered (targetOf s u)) < poolRegisteredCap
              then PoolRegistered (targetOf s u) @ [nextPool s] else PoolRegistered (targetOf s u))\<rparr>)
        (upd_pool (nextPool s) (\<lambda>_. new_pool u (targetOf s u) db usr) (s\<lparr>nextPool := nextPool s + 1\<rparr>)))"
  shows "pools_ok held t s'"
proof (cases "u = t")
  case False
  have "agrees t s s'"
    using False fresh by (auto simp: agrees_def s' same_target_def same_pool_def)
  then show ?thesis by (rule agrees_pools_ok [OF _ ok])
next
  case True
  let ?n = "nextPool s"
  have key: "PoolKey db usr \<notin> fst ` set (Pools (targetOf s t))"
    using l True by (simp add: LookupPool_def map_of_eq_None_iff)
  have P: "Pools (targetOf s' t) = Pools (targetOf s t) @ [(PoolKey db usr, ?n)]"
    using True alist_update_fresh [OF key] by (simp add: s')
  have tp: "target_pools t s' = target_pools t s @ [?n]" by (simp add: target_pools_def P)
  have nn: "?n \<notin> set (target_pools t s)" using fresh by auto
  have po: "poolOf s' x = (if x = ?n then new_pool t (targetOf s t) db usr else poolOf s x)" for x
    using True by (simp add: s')
  have T: "CloseCh (targetOf s' t) = CloseCh (targetOf s t)"
      "CloseChCap (targetOf s' t) = CloseChCap (targetOf s t)" "MaxConnections (targetOf s' t) = MaxConnections (targetOf s t)"
      "t_backend (targetOf s' t) = t_backend (targetOf s t)" "CachedPools (targetOf s' t) = CachedPools (targetOf s t)"
      "TotalOpen (targetOf s' t) = TotalOpen (targetOf s t)"
      "set (PoolRegistered (targetOf s' t)) \<subseteq> insert ?n (set (PoolRegistered (targetOf s t)))"
    using True by (auto simp: s')
  have G: "backendOf s' = backendOf s" "nextBackend s' = nextBackend s" "nextPool s' = ?n + 1" by (simp_all add: s')
  have ow: "owned t s' = owned t s" using nn by (auto simp: owned_def tp po new_pool_def split: if_splits)
  have oc: "open_conns t s' = open_conns t s"
    using nn unfolding open_conns_def tp by (auto simp: po new_pool_def intro!: arg_cong [where f = sum_list])
  have pok: "pool_ok t s' x" if "x \<in> set (target_pools t s')" for x
    using that pools_ok_pool [OF ok, of x] fresh unfolding pool_ok_def po T G tp by (auto simp: new_pool_def)
  have pl: "places_ok held t s'"
  proof -
    have UQ: "(\<Union>p \<in> set (target_pools t s'). set (Queue (poolOf s' p))) = (\<Union>p \<in> set (target_pools t s). set (Queue (poolOf s p)))"
      using nn by (auto simp: tp po new_pool_def split: if_splits)
    have "set (Queue (poolOf s' p)) \<inter> (set (CloseCh (targetOf s t)) \<union> held) = {}" if "p \<in> set (target_pools t s')" for p
      using that places_okD(5) [OF pools_ok_places [OF ok], of p] by (auto simp: tp po new_pool_def split: if_splits)
    then show ?thesis
      using places_okD(1,2,3,4,6) [OF pools_ok_places [OF ok]] unfolding places_ok_def ow T UQ by blast
  qed
  have bud: "budget_ok t s'" using pools_ok_budget [OF ok] unfolding budget_ok_def T oc .
  have keys: "keys_ok t s'"
  proof -
    have "p \<noteq> ?n" if "(k, p) \<in> set (Pools (targetOf s t))" for k p
      using nn that by (force simp: target_pools_def)
    then show ?thesis using pools_ok_names [OF ok] by (auto simp: keys_ok_def P po new_pool_def)
  qed
  have "set (CachedPools (targetOf s' t)) \<union> set (PoolRegistered (targetOf s' t)) \<subseteq> set (target_pools t s')"
    using pools_ok_cached [OF ok] T(5,7) by (auto simp: tp)
  moreover have "distinct (map fst (Pools (targetOf s' t)))" using pools_ok_keys [OF ok] key by (simp add: P)
  moreover have "distinct (target_pools t s')" using pools_ok_distinct [OF ok] nn by (simp add: tp)
  moreover have "\<forall>b. t_backend (targetOf s' t) = Some b \<longrightarrow> b < nextBackend s' \<and> b_pool (backendOf s' b) = None"
    using pools_ok_priv [OF ok] by (simp add: T G)
  ultimately show ?thesis using keys pok pl bud unfolding pools_ok_def by blast
qed

lemma pools_ok_fresh: "pools_ok held t s \<Longrightarrow> \<forall>p \<in> set (target_pools t s). p < nextPool s"
  using pools_ok_pool by (auto simp: pool_ok_def)

lemma getPool_ok:
  assumes "getPool db usr s = (r, s')" and "pools_ok held t s"
  shows "pools_ok held t s'"
  using assms(1)
proof (cases rule: getPool_cases)
  case (new u)
  then show ?thesis using new_pool_ok [OF assms(2) new(2,3) pools_ok_fresh [OF assms(2)] new(5)] by simp
qed (use assms(2) in simp_all)

lemma allPools_ok:
  assumes "pools_ok held t s"
  shows "pools_ok held t (snd (allPools t s))" and "set (fst (allPools t s)) \<subseteq> set (target_pools t s)"
    and "target_pools t (snd (allPools t s)) = target_pools t s"
proof -
  have "agrees t s (snd (allPools t s))"
    by (auto simp: allPools_def Let_def agrees_def same_target_def same_pool_def)
  then show "pools_ok held t (snd (allPools t s))" by (rule agrees_pools_ok [OF _ assms])
  show "set (fst (allPools t s)) \<subseteq> set (target_pools t s)"
    using pools_ok_cached [OF assms] by (simp add: allPools_def Let_def)
  show "target_pools t (snd (allPools t s)) = target_pools t s" by (simp add: allPools_def Let_def target_pools_def)
qed

end
