(* ===== verification/Pgfox_Target.thy ===== *)
theory Pgfox_Target
  imports Pgfox_Pool
begin

text \<open>
  The target goroutine, \<open>src/pkg/pgfox/target.go\<close>: the privileged connection and its two
  prepared statements, growth and shrinking of the pools, health checks, server statistics and the
  final drain, with \<open>drainUntilReady\<close> of \<open>listen_notify.go\<close>; and that each of them keeps the
  accounts of the target. Read deadlines are part of the connection's script.
\<close>

section \<open>The privileged connection\<close>

definition scramStmtSQL :: string where
  "scramStmtSQL = ''SELECT rolpassword FROM pg_authid WHERE rolname = $1 AND rolcanlogin = true''"
definition scramStmtHash :: string where "scramStmtHash = ''pgfox_scram''"
definition statsStmtSQL :: string where
  "statsStmtSQL =
     ''SELECT current_setting('' @ QUOTE # ''max_connections'' @ QUOTE # '')::int, count(*)::int FROM pg_stat_activity''"
definition statsStmtHash :: string where "statsStmtHash = ''pgfox_stats''"

definition privileged_stmts :: "(string \<times> string) list" where
  "privileged_stmts = [(scramStmtHash, scramStmtSQL), (statsStmtHash, statsStmtSQL)]"

text \<open>The loop of \<open>deployPrivilegedStmts\<close>; the state is the backend and \<open>deployed\<close>. A third
  \<open>ParseComplete\<close> would index beyond \<open>stmts\<close>.\<close>

definition deploy_step :: "(Backend \<times> nat, unit option) prog" where
  "deploy_step =
     wrapP ''failed to read Parse response'' (zoomP fst (\<lambda>b s. (b, snd s)) Backend_read) (\<lambda>(msgType, body).
     bindP (getP snd) (\<lambda>deployed.
     if msgType = CHR ''1'' then
       (if deployed < length privileged_stmts
        then thenP (modifyP (\<lambda>s. (MarkStmt (fst (privileged_stmts ! deployed)) (fst s), deployed + 1))) (returnP None)
        else panicP)
     else if msgType = CHR ''Z'' then
       (if deployed \<noteq> length privileged_stmts
        then failP (Errorf (''expected '' @ fmt_nat (length privileged_stmts) @ '' ParseComplete, got '' @ fmt_nat deployed))
        else returnP (Some ()))
     else if msgType = CHR ''E'' then failP (Errorf (''Parse error for privileged stmt: '' @ ParseErrorMessage body))
     else returnP None))"

definition deployPrivilegedStmts :: "(Backend, unit) prog" where
  "deployPrivilegedStmts =
     bindP (forP privileged_stmts (\<lambda>(hash, sql).
              wrapP (''failed to send Parse for '' @ hash) (Backend_write (CHR ''P'', BuildParseBody hash sql [])) returnP)) (\<lambda>_.
     wrapP ''failed to send Sync'' (Backend_write (CHR ''S'', SyncBody)) (\<lambda>_ b.
       (case loopP (backend_fuel b) deploy_step (b, 0) of (r, (b', _)) \<Rightarrow> (r, b'))))"

text \<open>\<open>int(int16(...))\<close>, \<open>int(int32(...))\<close> and \<open>int(int64(...))\<close> of big-endian bytes.\<close>

definition be_int16 :: "bytes \<Rightarrow> int" where
  "be_int16 bs = signed_take_bit 15 (256 * int (of_char (bs ! 0)) + int (of_char (bs ! 1)))"

definition be_int32 :: "bytes \<Rightarrow> int" where
  "be_int32 bs = sint (Uint32 bs)"

definition be_int64 :: "bytes \<Rightarrow> int" where
  "be_int64 bs = signed_take_bit 63 (2 ^ 32 * uint (Uint32 bs) + uint (Uint32 (drop 4 bs)))"

text \<open>The first column of a DataRow: \<open>None\<close> for NULL, otherwise what \<open>rolpassword\<close> becomes.\<close>

definition scram_row :: "bytes \<Rightarrow> string \<Rightarrow> string option" where
  "scram_row body rolpassword =
     (if length body < 2 then Some rolpassword
      else if be_int16 body < 1 then Some rolpassword
      else if 6 > length body then Some rolpassword
      else let colLen = be_int32 (drop 2 body)
           in if colLen < 0 then None
              else if 6 + colLen \<le> int (length body) then Some (take (nat colLen) (drop 6 body))
              else Some rolpassword)"

definition scram_step :: "string \<Rightarrow> (Backend \<times> string, SCRAMVerifier option) prog" where
  "scram_step usr =
     wrapP ''failed to read pg_authid response'' (zoomP fst (\<lambda>b s. (b, snd s)) Backend_read) (\<lambda>(msgType, body).
     bindP (getP snd) (\<lambda>rolpassword.
     if msgType = CHR ''1'' then thenP (modifyP (\<lambda>s. (MarkStmt scramStmtHash (fst s), snd s))) (returnP None)
     else if msgType = CHR ''D'' then
       (case scram_row body rolpassword of
          None \<Rightarrow> failP (Errorf (''user '' @ usr @ '' has no password set in pg_authid''))
        | Some pw \<Rightarrow> thenP (modifyP (\<lambda>s. (fst s, pw))) (returnP None))
     else if msgType = CHR ''Z'' then
       (if rolpassword = [] then failP (Errorf (''user '' @ usr @ '' not found in pg_authid''))
        else bindP (liftP (ParseSCRAMVerifier rolpassword)) (\<lambda>v. returnP (Some v)))
     else if msgType = CHR ''E'' then failP (Errorf (''pg_authid query error: '' @ ParseErrorMessage body))
     else returnP None))"

definition fetch_on :: "string \<Rightarrow> (Backend, SCRAMVerifier) prog" where
  "fetch_on usr =
     bindP (getP (HasStmt scramStmtHash)) (\<lambda>has.
     bindP (if has then returnP ()
            else wrapP ''failed to send Parse for scram stmt''
                   (Backend_write (CHR ''P'', BuildParseBody scramStmtHash scramStmtSQL [])) returnP) (\<lambda>_.
     wrapP ''failed to send Bind for scram stmt''
       (Backend_write (CHR ''B'', BuildBindBody [] scramStmtHash [] [usr] [1])) (\<lambda>_.
     wrapP ''failed to send Execute for scram stmt'' (Backend_write (CHR ''E'', BuildExecuteBody [] 0)) (\<lambda>_.
     wrapP ''failed to send Sync'' (Backend_write (CHR ''S'', SyncBody)) (\<lambda>_ b.
       (case loopP (backend_fuel b) (scram_step usr) (b, []) of (r, (b', _)) \<Rightarrow> (r, b')))))))"

definition fetchSCRAMVerifier :: "targetId \<Rightarrow> string \<Rightarrow> (Server, SCRAMVerifier) prog" where
  "fetchSCRAMVerifier t usr =
     bindP (getP (\<lambda>s. targetOf s t)) (\<lambda>x.
     case t_backend x of
       None \<Rightarrow> failP (Errorf (''privileged connection not ready for target '' @ Name x))
     | Some b \<Rightarrow> on_backend b (fetch_on usr))"

text \<open>\<open>openPrivilegedConn\<close>; \<open>cert\<close> is the error of loading the certificate of the role, if any. Every
  failed attempt uses up one of the outcomes to come.\<close>

definition privileged_opened :: "targetId \<Rightarrow> backendId \<Rightarrow> Server \<Rightarrow> Server" where
  "privileged_opened t b s =
     upd_target t (\<lambda>x. x\<lparr>t_backend := Some b, TotalOpen := TotalOpen x + 1, AtomicTotalOpen := int32_of (TotalOpen x + 1)\<rparr>) s"

definition open_priv_step :: "targetId \<Rightarrow> (Server, unit option) prog" where
  "open_priv_step t =
     bindP (getP (\<lambda>s. Cancelled (targetOf s t))) (\<lambda>c.
     if c then failP (Errorf ''context cancelled'')
     else bindP (getP (\<lambda>s. PgFoxRole (sv_config s))) (\<lambda>role.
       tryP (createCertBackend t ''postgres'' role) (\<lambda>_. returnP None) (\<lambda>b.
         thenP (modifyP (privileged_opened t b))
         (thenP (modifyP (\<lambda>s. upd_target t (\<lambda>x. x\<lparr>Params := fold (\<lambda>(k, v). AList.update k v)
                    (parameters (backendOf s b)) (Params x)\<rparr>) s))
         (ignoreP (on_backend b deployPrivilegedStmts)
         (thenP (modifyP (upd_target t (\<lambda>x. x\<lparr>Ready := True\<rparr>))) (returnP (Some ()))))))))"

definition openPrivilegedConn :: "goerr option \<Rightarrow> targetId \<Rightarrow> (Server, unit) prog" where
  "openPrivilegedConn cert t s =
     (case cert of
        Some e \<Rightarrow> (Err (Wrapf ''failed to load pgfox cert'' e), s)
      | None \<Rightarrow> loopP (Suc (length (dials s))) (open_priv_step t) s)"

section \<open>Health\<close>

definition ready_step :: "(Backend, unit option) prog" where
  "ready_step =
     wrapP ''read error while waiting for ready'' Backend_read (\<lambda>(msgType, body).
     if msgType = CHR ''Z'' then returnP (Some ())
     else if msgType = CHR ''E'' then failP (Errorf (''backend error: '' @ ParseErrorMessage body))
     else returnP None)"

definition drainUntilReady :: "(Backend, unit) prog" where
  "drainUntilReady b = loopP (backend_fuel b) ready_step b"

definition privilegedResponsive :: "targetId \<Rightarrow> (Server, bool) prog" where
  "privilegedResponsive t =
     bindP (getP (\<lambda>s. t_backend (targetOf s t))) (\<lambda>x.
     case x of
       None \<Rightarrow> returnP False
     | Some b \<Rightarrow>
         tryP (on_backend b (Backend_write (CHR ''Q'', ''SELECT 1'' @ [NUL]))) (\<lambda>_. returnP False) (\<lambda>_.
         tryP (on_backend b drainUntilReady) (\<lambda>_. returnP False) (\<lambda>_. returnP True)))"

definition replace_privileged :: "targetId \<Rightarrow> (Server, unit) prog" where
  "replace_privileged t =
     bindP (getP (\<lambda>s. PgFoxRole (sv_config s))) (\<lambda>role.
     tryP (createCertBackend t ''postgres'' role) (\<lambda>_. returnP ()) (\<lambda>b.
       thenP (modifyP (privileged_opened t b))
       (tryP (on_backend b deployPrivilegedStmts) (\<lambda>_. returnP ()) (\<lambda>_. returnP ()))))"

definition check_privileged :: "targetId \<Rightarrow> (Server, unit) prog" where
  "check_privileged t =
     bindP (getP (\<lambda>s. t_backend (targetOf s t))) (\<lambda>x.
     case x of
       None \<Rightarrow> returnP ()
     | Some b \<Rightarrow>
         bindP (privilegedResponsive t) (\<lambda>alive.
         if alive then returnP ()
         else thenP (modifyP (close_counted t b))
              (thenP (modifyP (upd_target t (\<lambda>x. x\<lparr>t_backend := None\<rparr>))) (replace_privileged t))))"

text \<open>One connection of the health check: it is taken from the queue, and closed if it has been idle
  for too long or there is no room to put it back.\<close>

definition evict_conn :: "targetId \<Rightarrow> poolId \<Rightarrow> backendId \<Rightarrow> Server \<Rightarrow> Server" where
  "evict_conn t p b s = removeFromAll p b (close_counted t b s)"

definition check_idle :: "targetId \<Rightarrow> poolId \<Rightarrow> int \<Rightarrow> (Server, unit) prog" where
  "check_idle t p cutoff =
     bindP (getP (\<lambda>s. Queue (poolOf s p))) (\<lambda>q.
     case q of
       [] \<Rightarrow> returnP ()
     | b # _ \<Rightarrow>
         thenP (modifyP (upd_pool p (\<lambda>x. x\<lparr>Queue := tl (Queue x)\<rparr>)))
         (bindP (getP (\<lambda>s. IdleTimeout (sv_config s) > 0 \<and> lastUsedAt (backendOf s b) < cutoff)) (\<lambda>tooOld.
          if tooOld then
            thenP (modifyP (evict_conn t p b))
              (modifyP (upd_stats (\<lambda>g. g\<lparr>IdleConnectionsClosed := IdleConnectionsClosed g + 1\<rparr>)))
          else bindP (getP (\<lambda>s. poolOf s p)) (\<lambda>x.
            if length (Queue x) < QueueCap x then modifyP (upd_pool p (\<lambda>y. y\<lparr>Queue := Queue y @ [b]\<rparr>))
            else modifyP (evict_conn t p b)))))"

definition check_pool :: "targetId \<Rightarrow> int \<Rightarrow> poolId \<Rightarrow> (Server, unit) prog" where
  "check_pool t cutoff p =
     bindP (getP (\<lambda>s. length (Queue (poolOf s p)))) (\<lambda>poolLen.
     forP (replicate poolLen p) (\<lambda>_. check_idle t p cutoff))"

definition healthCheck :: "targetId \<Rightarrow> (Server, unit) prog" where
  "healthCheck t =
     thenP (check_privileged t)
     (bindP (getP (\<lambda>s. now s - IdleTimeout (sv_config s))) (\<lambda>cutoff s.
       (case allPools t s of (pools, s1) \<Rightarrow> forP pools (check_pool t cutoff) s1)))"

section \<open>Growth\<close>

record poolState =
  st_pool :: poolId
  st_contended :: bool
  st_excess :: int

definition pool_state :: "int \<Rightarrow> int \<Rightarrow> poolId \<Rightarrow> (Server, poolState) prog" where
  "pool_state t0 peakWindow p =
     bindP (getP (\<lambda>s. ActiveConnections (poolOf s p))) (\<lambda>active.
     thenP (modifyP (upd_pool p (\<lambda>x. x\<lparr>peakSamples :=
              dropWhile (\<lambda>q. ps_at q < t0 - peakWindow) (peakSamples x @ [\<lparr>ps_active = active, ps_at = t0\<rparr>])\<rparr>)))
     (bindP (getP (\<lambda>s. poolOf s p)) (\<lambda>x.
      let hwm = fold (\<lambda>q h. if ps_active q > h then ps_active q else h) (peakSamples x) 1;
          idle = IdleConnections x;
          total = int (length (All_conns x));
          excess = idle - (hwm + 1)
      in returnP \<lparr>st_pool = p, st_contended = (total = 0 \<or> active = total), st_excess = (if excess < 0 then 0 else excess)\<rparr>)))"

fun pool_states :: "int \<Rightarrow> int \<Rightarrow> poolId list \<Rightarrow> (Server, poolState list) prog" where
  "pool_states t0 w [] = returnP []"
| "pool_states t0 w (p # ps) =
     bindP (pool_state t0 w p) (\<lambda>x. bindP (pool_states t0 w ps) (\<lambda>xs. returnP (x # xs)))"

text \<open>Freeing a slot of another pool; the list is \<open>idlePools[idleIdx:]\<close>.\<close>

fun recycle :: "targetId \<Rightarrow> poolId \<Rightarrow> poolState list \<Rightarrow> (Server, bool \<times> poolState list) prog" where
  "recycle t cp [] = returnP (False, [])"
| "recycle t cp (is # iss) =
     (if st_pool is = cp then recycle t cp iss
      else bindP (closeOneIdle t (st_pool is)) (\<lambda>closed.
        if closed then returnP (True, if st_excess is - 1 = 0 then iss else is\<lparr>st_excess := st_excess is - 1\<rparr> # iss)
        else returnP (False, is # iss)))"

fun grow_loop :: "targetId \<Rightarrow> int \<Rightarrow> poolState list \<Rightarrow> poolState list \<Rightarrow> (Server, unit) prog" where
  "grow_loop t serverAvailable [] idles = returnP ()"
| "grow_loop t serverAvailable (cs # css) idles =
     bindP (getP (\<lambda>s. TotalOpen (targetOf s t) \<ge> MaxConnections (targetOf s t))) (\<lambda>full.
     if full \<or> serverAvailable \<le> 1 then returnP ()
     else bindP (recycle t (st_pool cs) idles) (\<lambda>(recycled, idles').
       bindP (getP (\<lambda>s. TotalOpen (targetOf s t) < MaxConnections (targetOf s t))) (\<lambda>room.
       thenP (if recycled \<or> (room \<and> serverAvailable > 1) then openOne t (st_pool cs) else returnP ())
         (grow_loop t serverAvailable css idles'))))"

definition serverAvailable :: "Target \<Rightarrow> int" where
  "serverAvailable x =
     (if ServerMaxConns x > 0 then ServerMaxConns x - ServerOpenConns x else MaxConnections x - TotalOpen x)"

definition growthCycle :: "targetId \<Rightarrow> (Server, unit) prog" where
  "growthCycle t s0 =
     (case allPools t s0 of
        (pools, s1) \<Rightarrow>
          bindP (getP (\<lambda>s. serverAvailable (targetOf s t))) (\<lambda>avail.
          bindP (pool_states (now s0) (PeakWindow (sv_config s0)) pools) (\<lambda>states.
          let contended = filter st_contended states; idles = filter (\<lambda>x. st_excess x > 0) states
          in if contended = []
             then forP idles (\<lambda>is. bindP (closeOneIdle t (st_pool is)) (\<lambda>_. returnP ()))
             else grow_loop t avail contended idles)) s1)"

section \<open>Statistics\<close>

text \<open>The two integer columns; a negative length of the first can put the second before the body,
  where indexing panics (\<open>None\<close>).\<close>

definition stats_row :: "bytes \<Rightarrow> int \<times> int \<Rightarrow> (int \<times> int) option" where
  "stats_row body m =
     (if length body < 2 then Some m
      else if be_int16 body < 2 then Some m
      else if 6 > length body then Some m
      else let col0Len = be_int32 (drop 2 body);
               fits = col0Len = 4 \<and> 10 \<le> length body;
               maxConns = (if fits then be_int32 (drop 6 body) else fst m);
               pos = (if fits then 10 else 6 + col0Len)
           in if pos + 4 > int (length body) then Some (maxConns, snd m)
              else if pos < 0 then None
              else let q = nat pos; col1Len = be_int32 (drop q body)
                   in Some (maxConns,
                        if col1Len = 4 \<and> q + 8 \<le> length body then be_int32 (drop (q + 4) body)
                        else if col1Len = 8 \<and> q + 12 \<le> length body then be_int64 (drop (q + 4) body)
                        else snd m))"

definition stats_step :: "(Backend \<times> (int \<times> int), (int \<times> int) option) prog" where
  "stats_step =
     bindP (zoomP fst (\<lambda>b s. (b, snd s)) Backend_read) (\<lambda>(msgType, body).
     bindP (getP snd) (\<lambda>m.
     if msgType = CHR ''1'' then thenP (modifyP (\<lambda>s. (MarkStmt statsStmtHash (fst s), snd s))) (returnP None)
     else if msgType = CHR ''D'' then
       (case stats_row body m of
          None \<Rightarrow> panicP
        | Some m' \<Rightarrow> thenP (modifyP (\<lambda>s. (fst s, m'))) (returnP None))
     else if msgType = CHR ''Z'' then returnP (Some m)
     else if msgType = CHR ''E'' then failP (Errorf (ParseErrorMessage body))
     else returnP None))"

definition stats_on :: "(Backend, int \<times> int) prog" where
  "stats_on =
     bindP (getP (HasStmt statsStmtHash)) (\<lambda>has.
     thenP (if has then returnP () else Backend_write (CHR ''P'', BuildParseBody statsStmtHash statsStmtSQL []))
     (thenP (Backend_write (CHR ''B'', BuildBindBody [] statsStmtHash [] [] [1]))
     (thenP (Backend_write (CHR ''E'', BuildExecuteBody [] 0))
     (thenP (Backend_write (CHR ''S'', SyncBody)) (\<lambda>b.
       (case loopP (backend_fuel b) stats_step (b, (0, 0)) of (r, (b', _)) \<Rightarrow> (r, b')))))))"

definition updateServerStats :: "targetId \<Rightarrow> (Server, unit) prog" where
  "updateServerStats t =
     bindP (getP (\<lambda>s. t_backend (targetOf s t))) (\<lambda>x.
     case x of
       None \<Rightarrow> returnP ()
     | Some b \<Rightarrow>
         tryP (on_backend b stats_on) (\<lambda>_. returnP ()) (\<lambda>(maxConns, openConns).
           if maxConns > 0
           then modifyP (upd_target t (\<lambda>y. y\<lparr>ServerMaxConns := int32_of maxConns, ServerOpenConns := int32_of openConns\<rparr>))
           else returnP ()))"

section \<open>Draining\<close>

definition drain_close :: "targetId \<Rightarrow> Server \<Rightarrow> Server" where
  "drain_close t s =
     upd_target t (\<lambda>x. x\<lparr>CloseCh := []\<rparr>) (fold (close_counted t) (CloseCh (targetOf s t)) s)"

definition drain_pool :: "targetId \<Rightarrow> poolId \<Rightarrow> Server \<Rightarrow> Server" where
  "drain_pool t p s = upd_pool p (\<lambda>x. x\<lparr>Queue := []\<rparr>) (fold (close_counted t) (Queue (poolOf s p)) s)"

definition drain_privileged :: "targetId \<Rightarrow> Server \<Rightarrow> Server" where
  "drain_privileged t s =
     (case t_backend (targetOf s t) of
        None \<Rightarrow> s
      | Some b \<Rightarrow> upd_target t (\<lambda>x. x\<lparr>t_backend := None\<rparr>) (close_counted t b s))"

definition drain :: "targetId \<Rightarrow> Server \<Rightarrow> Server" where
  "drain t s =
     (case allPools t (drain_close t s) of
        (pools, s1) \<Rightarrow> drain_privileged t (fold (drain_pool t) pools s1))"

section \<open>Input and output do not move connections\<close>

text \<open>The invariant of a target together with its pools.\<close>

definition ok_with :: "backendId set \<Rightarrow> targetId \<Rightarrow> poolId list \<Rightarrow> Server \<Rightarrow> bool" where
  "ok_with held t ps s \<longleftrightarrow> pools_ok held t s \<and> target_pools t s = ps"

lemma ok_with_agrees: "agrees t s s' \<Longrightarrow> ok_with held t ps s \<Longrightarrow> ok_with held t ps s'"
  using agrees_pools_ok [of t s s' held] agrees_target_pools [of t s s'] by (simp add: ok_with_def)

lemma keeps_pool_io [keeps_intros]:
  "keeps (\<lambda>b. b_pool b = x) Backend_read" "keeps (\<lambda>b. b_pool b = x) (Backend_write m)"
  by (simp_all add: keeps_def)

lemma keeps_pool_zoom [keeps_intros]:
  "keeps (\<lambda>s. b_pool (fst s) = x) (zoomP fst (\<lambda>b s. (b, snd s)) Backend_read)"
  by (rule keeps_zoom [OF keeps_pool_io(1)]) auto

lemma MarkStmt_pool [simp]: "b_pool (MarkStmt h b) = b_pool b"
  by (simp add: MarkStmt_def)

lemma keeps_run:
  assumes "keeps (\<lambda>s. b_pool (fst s) = x) body"
  shows "keeps (\<lambda>b. b_pool b = x) (\<lambda>b. case loopP (f b) body (b, z) of (r, (b', _)) \<Rightarrow> (r, b' :: Backend))"
proof (rule keepsI)
  fix b :: Backend assume "b_pool b = x"
  then have "b_pool (fst (snd (loopP (f b) body (b, z)))) = x"
    using keeps_loop [OF assms, of "f b"] by (simp add: keeps_def)
  then show "b_pool (snd (case loopP (f b) body (b, z) of (r, (b', _)) \<Rightarrow> (r, b'))) = x"
    by (simp add: case_prod_beta)
qed

lemma keeps_pool_deploy: "keeps (\<lambda>b. b_pool b = x) deployPrivilegedStmts"
  unfolding deployPrivilegedStmts_def deploy_step_def
  by (intro keeps_intros keeps_run keeps_modify) simp_all

lemma keeps_pool_fetch: "keeps (\<lambda>b. b_pool b = x) (fetch_on usr)"
  unfolding fetch_on_def scram_step_def
  by (intro keeps_intros keeps_run keeps_modify) simp_all

lemma keeps_pool_stats: "keeps (\<lambda>b. b_pool b = x) stats_on"
  unfolding stats_on_def stats_step_def
  by (intro keeps_intros keeps_run keeps_modify) simp_all

lemma keeps_pool_ready: "keeps (\<lambda>b. b_pool b = x) drainUntilReady"
proof -
  have "keeps (\<lambda>b. b_pool b = x) ready_step" unfolding ready_step_def by (intro keeps_intros)
  from keeps_loop [OF this] show ?thesis unfolding keeps_def drainUntilReady_def by blast
qed

lemma agrees_on_backend:
  assumes "\<And>x. keeps (\<lambda>b. b_pool b = x) m"
  shows "agrees t s (snd (on_backend b m s))"
proof -
  have "b_pool (snd (m (backendOf s b))) = b_pool (backendOf s b)"
    using assms by (simp add: keeps_def)
  then show ?thesis
    by (cases "m (backendOf s b)") (simp add: on_backend_def zoomP_def agrees_def same_target_def same_pool_def)
qed

lemma keeps_ok_backend:
  "(\<And>x. keeps (\<lambda>b. b_pool b = x) m) \<Longrightarrow> keeps (ok_with held t ps) (on_backend b m)"
  by (rule keepsI) (rule ok_with_agrees [OF agrees_on_backend])

lemma keeps_ok_target:
  "(\<And>x. same_target x (f x)) \<Longrightarrow> keeps (ok_with held t ps) (modifyP (upd_target u f))"
  by (rule keeps_modify, rule ok_with_agrees [OF agrees_upd_target])

lemma fetchSCRAMVerifier_ok: "keeps (ok_with held t ps) (fetchSCRAMVerifier u usr)"
  unfolding fetchSCRAMVerifier_def by (intro keeps_intros keeps_ok_backend keeps_pool_fetch)

lemma updateServerStats_ok: "keeps (ok_with held t ps) (updateServerStats u)"
  unfolding updateServerStats_def
  by (intro keeps_intros keeps_ok_backend keeps_pool_stats keeps_ok_target) (simp add: same_target_def)

section \<open>The privileged connection and the budget\<close>

lemma drop_privileged_ok:
  assumes "pools_ok held t s" and "t_backend (targetOf s t) = Some b"
  shows "ok_with held t (target_pools t s) (upd_target t (\<lambda>x. x\<lparr>t_backend := None\<rparr>) (close_counted t b s)) \<and>
    TotalOpen (targetOf (upd_target t (\<lambda>x. x\<lparr>t_backend := None\<rparr>) (close_counted t b s)) t) < MaxConnections (targetOf s t)"
    (is "ok_with _ _ _ ?s \<and> _")
proof -

  have tp: "target_pools t ?s = target_pools t s" "owned t ?s = owned t s" "open_conns t ?s = open_conns t s"
    by (simp_all add: close_counted_def target_pools_def owned_def open_conns_def)

  have "budget_ok t ?s"
    using pools_ok_budget [OF assms(1)] assms(2) unfolding budget_ok_def tp by (auto simp: close_counted_def)
  moreover have "places_ok held t ?s"
    using pools_ok_places [OF assms(1)] unfolding places_ok_def tp by (simp add: close_counted_def)
  moreover have "keys_ok t ?s" using pools_ok_names [OF assms(1)] by (simp add: keys_ok_def close_counted_def)
  moreover have "pool_ok t ?s p" if "p \<in> set (target_pools t s)" for p
    using pools_ok_pool [OF assms(1) that] by (auto simp: pool_ok_def close_counted_def)
  ultimately have "pools_ok held t ?s"
    using assms(1) unfolding pools_ok_def tp(1) by (simp add: close_counted_def)
  moreover have "TotalOpen (targetOf ?s t) < MaxConnections (targetOf s t)"
    using pools_ok_budget [OF assms(1)] by (simp add: close_counted_def budget_ok_def)
  ultimately show ?thesis by (simp add: ok_with_def tp)
qed

lemma privileged_opened_ok:
  assumes "pools_ok held t s" and "t_backend (targetOf s t) = None" and "TotalOpen (targetOf s t) < MaxConnections (targetOf s t)"
    and "b < nextBackend s" and "b_pool (backendOf s b) = None"
  shows "ok_with held t (target_pools t s) (privileged_opened t b s)"
proof -
  let ?s = "privileged_opened t b s"
  have tp: "target_pools t ?s = target_pools t s" "owned t ?s = owned t s" "open_conns t ?s = open_conns t s"
    by (simp_all add: privileged_opened_def target_pools_def owned_def open_conns_def)
  have "budget_ok t ?s"
    using pools_ok_budget [OF assms(1)] assms(2,3) by (simp add: budget_ok_def tp) (simp add: privileged_opened_def)
  moreover have "places_ok held t ?s"
    using pools_ok_places [OF assms(1)] by (simp add: places_ok_def tp) (simp add: privileged_opened_def)
  moreover have "keys_ok t ?s" using pools_ok_names [OF assms(1)] by (simp add: keys_ok_def privileged_opened_def)
  moreover have "pool_ok t ?s p" if "p \<in> set (target_pools t s)" for p
    using pools_ok_pool [OF assms(1) that] by (simp add: pool_ok_def privileged_opened_def)
  ultimately have "pools_ok held t ?s"
    using assms(1,4,5) unfolding pools_ok_def tp(1) by (simp add: privileged_opened_def)
  then show ?thesis by (simp add: ok_with_def tp)
qed

section \<open>Health checks and growth keep the accounts\<close>

lemma replace_privileged_ok:
  assumes ok: "pools_ok held t s" and none: "t_backend (targetOf s t) = None"
    and room: "TotalOpen (targetOf s t) < MaxConnections (targetOf s t)"
  shows "ok_with held t (target_pools t s) (snd (replace_privileged t s))"
proof -
  obtain r s1 where c: "createCertBackend t ''postgres'' (PgFoxRole (sv_config s)) s = (r, s1)" by fastforce
  note fr = createCertBackend_fresh [OF c]
  have ag: "agrees t s s1" by (rule fresh_conn_agrees [OF fr])
  have ok1: "pools_ok held t s1" by (rule agrees_pools_ok [OF ag ok])
  have eq: "targetOf s1 = targetOf s" "target_pools t s1 = target_pools t s"
    using fr agrees_target_pools [OF ag] by (simp_all add: fresh_conn_def)
  show ?thesis
  proof (cases r)
    case (Ok b)
    then have "ok_with held t (target_pools t s1) (privileged_opened t b s1)"
      using fr none room by (intro privileged_opened_ok [OF ok1]) (auto simp: fresh_conn_def)
    then have "ok_with held t (target_pools t s) (snd (on_backend b deployPrivilegedStmts (privileged_opened t b s1)))"
      using keeps_ok_backend [OF keeps_pool_deploy, of held t "target_pools t s" b] eq by (simp add: keeps_def)
    then show ?thesis
      using c Ok by (cases "on_backend b deployPrivilegedStmts (privileged_opened t b s1)")
        (auto simp: replace_privileged_def prog_defs split: res.split)
  qed (use c ok1 eq fr in \<open>simp_all add: replace_privileged_def prog_defs ok_with_def fresh_conn_def\<close>)
qed

lemma privilegedResponsive_ok: "keeps (ok_with held t ps) (privilegedResponsive u)"
  unfolding privilegedResponsive_def
  by (intro keeps_intros keeps_ok_backend keeps_pool_io keeps_pool_ready)

lemma on_backend_target [simp]: "targetOf (snd (on_backend b m s)) = targetOf s"
  by (simp add: on_backend_def zoomP_def split: prod.split)

lemma tryP_keeps_target:
  assumes "\<And>x. targetOf (snd (m x)) = targetOf x" "\<And>e x. targetOf (snd (h e x)) = targetOf x"
    and "\<And>y x. targetOf (snd (k y x)) = targetOf x"
  shows "targetOf (snd (tryP m h k s)) = targetOf s"
  using assms(1) [of s] assms(2,3) by (auto simp: tryP_def split: prod.split res.split)

lemma privilegedResponsive_target: "targetOf (snd (privilegedResponsive t s)) = targetOf s"
  unfolding privilegedResponsive_def bindP_def getP_def
  by (simp split: option.split) (auto intro!: tryP_keeps_target simp: returnP_def)

lemma check_privileged_ok: "keeps (ok_with held t ps) (check_privileged t)"
proof (rule keepsI)
  fix s assume ok: "ok_with held t ps s"
  show "ok_with held t ps (snd (check_privileged t s))"
  proof (cases "t_backend (targetOf s t)")
    case None
    then show ?thesis using ok by (simp add: check_privileged_def prog_defs)
  next
    case (Some b)
    obtain r s1 where p: "privilegedResponsive t s = (r, s1)" by fastforce
    have ok1: "ok_with held t ps s1" using keepsD [OF privilegedResponsive_ok p ok] .
    have eq: "targetOf s1 = targetOf s" using privilegedResponsive_target [of t s] p by simp
    let ?s2 = "upd_target t (\<lambda>x. x\<lparr>t_backend := None\<rparr>) (close_counted t b s1)"
    have d: "ok_with held t ps ?s2" "TotalOpen (targetOf ?s2 t) < MaxConnections (targetOf ?s2 t)"
      using drop_privileged_ok [of held t s1 b] ok1 Some eq by (simp_all add: ok_with_def close_counted_def)
    then have "ok_with held t ps (snd (replace_privileged t ?s2))"
      using replace_privileged_ok [of held t ?s2] by (simp add: ok_with_def)
    then show ?thesis using p ok1 Some by (auto simp: check_privileged_def prog_defs split: res.split)
  qed
qed

lemma evict_conn_ok:
  assumes ok: "ok_with held t ps s" and p: "p \<in> set ps" and q: "Queue (poolOf s p) = b # q"
  shows "ok_with held t ps (evict_conn t p b (upd_pool p (\<lambda>x. x\<lparr>Queue := tl (Queue x)\<rparr>) s))"
proof -
  let ?s1 = "upd_pool p (\<lambda>x. x\<lparr>Queue := tl (Queue x)\<rparr>) s"
  have ok': "pools_ok held t s" "p \<in> set (target_pools t s)" using ok p by (simp_all add: ok_with_def)
  note dq = dequeue_ok [OF ok' q]
  have "b_pool (backendOf s b) = Some p" using pools_ok_pool [OF ok'] q by (simp add: pool_ok_def)
  then have "pools_ok (insert b held - {b}) t (evict_conn t p b ?s1)"
    unfolding evict_conn_def close_counted_def by (intro drop_conn_ok [OF dq(1)]) simp_all
  moreover have "target_pools t (evict_conn t p b ?s1) = target_pools t s"
    by (simp add: target_pools_def evict_conn_def close_counted_def removeFromAll_def Let_def)
  ultimately show ?thesis using dq(2) ok by (simp add: ok_with_def)
qed

lemma requeue_ok:
  assumes ok: "ok_with held t ps s" and p: "p \<in> set ps" and q: "Queue (poolOf s p) = b # q"
  shows "ok_with held t ps
    (upd_pool p (\<lambda>x. x\<lparr>Queue := Queue x @ [b]\<rparr>) (upd_pool p (\<lambda>x. x\<lparr>Queue := tl (Queue x)\<rparr>) s))"
proof -
  let ?s1 = "upd_pool p (\<lambda>x. x\<lparr>Queue := tl (Queue x)\<rparr>) s"
  have ok': "pools_ok held t s" "p \<in> set (target_pools t s)" using ok p by (simp_all add: ok_with_def)
  note dq = dequeue_ok [OF ok' q]
  have "b_pool (backendOf ?s1 b) = Some p" using pools_ok_pool [OF ok'] q by (simp add: pool_ok_def)
  from enqueue_ok [OF dq(1) _ this] show ?thesis using dq(2) ok by (simp add: ok_with_def target_pools_def)
qed

lemma check_idle_ok: "p \<in> set ps \<Longrightarrow> keeps (ok_with held t ps) (check_idle t p cutoff)"
proof (rule keepsI)
  fix s assume p: "p \<in> set ps" and ok: "ok_with held t ps s"
  show "ok_with held t ps (snd (check_idle t p cutoff s))"
  proof (cases "Queue (poolOf s p)")
    case Nil
    then show ?thesis using ok by (simp add: check_idle_def prog_defs)
  next
    case (Cons b q)
    show ?thesis
      using evict_conn_ok [OF ok p Cons] requeue_ok [OF ok p Cons] ok_with_agrees [OF agrees_upd_stats] Cons
      by (simp add: check_idle_def prog_defs)
  qed
qed

lemma healthCheck_ok: "keeps (ok_with held t ps) (healthCheck t)"
proof -
  have "keeps (ok_with held t ps) (\<lambda>s. case allPools t s of (pools, s1) \<Rightarrow> forP pools (check_pool t cutoff) s1)" for cutoff
  proof (rule keepsI)
    fix s assume ok: "ok_with held t ps s"
    obtain pools s1 where a: "allPools t s = (pools, s1)" by fastforce
    have ok1: "ok_with held t ps s1" "set pools \<subseteq> set ps"
      using allPools_ok [of held t s] ok a by (simp_all add: ok_with_def)
    have "keeps (ok_with held t ps) (check_pool t cutoff p)" if "p \<in> set ps" for p
      unfolding check_pool_def by (intro keeps_intros check_idle_ok that)
    then have "keeps (ok_with held t ps) (forP pools (check_pool t cutoff))"
      using ok1(2) by (intro keeps_for) blast
    then show "ok_with held t ps (snd (case allPools t s of (pools, s1) \<Rightarrow> forP pools (check_pool t cutoff) s1))"
      using ok1(1) a by (simp add: keeps_def)
  qed
  then show ?thesis unfolding healthCheck_def by (intro keeps_intros check_privileged_ok)
qed

lemma pool_state_ok:
  "\<exists>s' c e. pool_state t0 w p s = (Ok \<lparr>st_pool = p, st_contended = c, st_excess = e\<rparr>, s') \<and> agrees t s s' \<and>
     targetOf s' = targetOf s \<and> 0 \<le> e"
  by (auto simp: pool_state_def prog_defs Let_def agrees_def same_target_def same_pool_def)

lemma agrees_trans: "agrees t s s' \<Longrightarrow> agrees t s' s'' \<Longrightarrow> agrees t s s''"
  using agrees_target_pools [of t s s'] by (auto simp: agrees_def same_target_def same_pool_def)

lemma pool_states_ok:
  "\<exists>s' sts. pool_states t0 w ps s = (Ok sts, s') \<and> map st_pool sts = ps \<and> agrees t s s' \<and> targetOf s' = targetOf s"
proof (induction ps arbitrary: s)
  case Nil
  then show ?case by (simp add: returnP_def)
next
  case (Cons p ps)
  obtain s1 c e where 1: "pool_state t0 w p s = (Ok \<lparr>st_pool = p, st_contended = c, st_excess = e\<rparr>, s1)" "agrees t s s1"
      "targetOf s1 = targetOf s"
    using pool_state_ok by blast
  obtain s2 sts where 2: "pool_states t0 w ps s1 = (Ok sts, s2)" "map st_pool sts = ps" "agrees t s1 s2" "targetOf s2 = targetOf s1"
    using Cons.IH by blast
  show ?case
    using 1 2 agrees_trans [OF 1(2) 2(3)] by (auto simp: bindP_def returnP_def)
qed

lemma recycle_ok:
  assumes "ok_with held t ps s" and "set (map st_pool idles) \<subseteq> set ps"
  shows "\<exists>r rest s'. recycle t cp idles s = (Ok (r, rest), s') \<and> ok_with held t ps s' \<and> set (map st_pool rest) \<subseteq> set ps \<and>
    MaxConnections (targetOf s' t) = MaxConnections (targetOf s t) \<and>
    TotalOpen (targetOf s' t) = TotalOpen (targetOf s t) - (if r then 1 else 0)"
  using assms(2)
proof (induction idles)
  case Nil
  then show ?case using assms(1) by (auto simp: returnP_def)
next
  case (Cons i idles)
  show ?case
  proof (cases "st_pool i = cp")
    case True
    then show ?thesis using Cons by auto
  next
    case False
    have p: "pools_ok held t s" "st_pool i \<in> set (target_pools t s)" using Cons.prems assms(1) by (auto simp: ok_with_def)
    obtain r s' where c: "closeOneIdle t (st_pool i) s = (Ok r, s')" "ok_with held t ps s'"
      "MaxConnections (targetOf s' t) = MaxConnections (targetOf s t)"
      "TotalOpen (targetOf s' t) = TotalOpen (targetOf s t) - (if r then 1 else 0)"
      using closeOneIdle_ok [OF p] assms(1) by (auto simp: ok_with_def)
    show ?thesis
      using c False Cons.prems by (cases r) (auto simp: bindP_def returnP_def)
  qed
qed

lemma grow_loop_ok:
  assumes "ok_with held t ps s" and "set (map st_pool css) \<subseteq> set ps" and "set (map st_pool idles) \<subseteq> set ps"
  shows "\<exists>s'. grow_loop t avail css idles s = (Ok (), s') \<and> ok_with held t ps s'"
  using assms
proof (induction css arbitrary: s idles)
  case Nil
  then show ?case by (simp add: returnP_def)
next
  case (Cons cs css)
  show ?case
  proof (cases "TotalOpen (targetOf s t) \<ge> MaxConnections (targetOf s t) \<or> avail \<le> 1")
    case True
    then show ?thesis using Cons.prems(1) by (auto simp: prog_defs)
  next
    case False
    obtain r rest s1 where r: "recycle t (st_pool cs) idles s = (Ok (r, rest), s1)" "ok_with held t ps s1"
        "set (map st_pool rest) \<subseteq> set ps" "MaxConnections (targetOf s1 t) = MaxConnections (targetOf s t)"
        "TotalOpen (targetOf s1 t) = TotalOpen (targetOf s t) - (if r then 1 else 0)"
      using recycle_ok [OF Cons.prems(1,3), of "st_pool cs"] by blast
    have room: "TotalOpen (targetOf s1 t) < MaxConnections (targetOf s1 t)" using False r(4,5) by auto
    have p: "pools_ok held t s1" "st_pool cs \<in> set (target_pools t s1)" using r(2) Cons.prems(2) by (auto simp: ok_with_def)
    obtain s2 where o: "openOne t (st_pool cs) s1 = (Ok (), s2)" "ok_with held t ps s2"
      using openOne_ok [OF p room] r(2) by (auto simp: ok_with_def)
    obtain s3 where g: "grow_loop t avail css rest s2 = (Ok (), s3)" "ok_with held t ps s3"
      using Cons.IH [OF o(2) _ r(3)] Cons.prems(2) by auto
    have "grow_loop t avail (cs # css) idles s = (Ok (), s3)"
      using False r(1) o(1) g(1) room by (simp add: prog_defs)
    then show ?thesis using g(2) by blast
  qed
qed

lemma shrink_ok:
  assumes "ok_with held t ps s" and "set (map st_pool idles) \<subseteq> set ps"
  shows "\<exists>s'. forP idles (\<lambda>i. bindP (closeOneIdle t (st_pool i)) (\<lambda>_. returnP ())) s = (Ok (), s') \<and> ok_with held t ps s'"
  using assms
proof (induction idles arbitrary: s)
  case Nil
  then show ?case by (simp add: returnP_def)
next
  case (Cons i idles)
  have p: "pools_ok held t s" "st_pool i \<in> set (target_pools t s)" using Cons.prems by (auto simp: ok_with_def)
  obtain r s' where c: "closeOneIdle t (st_pool i) s = (Ok r, s')" "ok_with held t ps s'"
    using closeOneIdle_ok [OF p] Cons.prems(1) by (auto simp: ok_with_def)
  then show ?case using Cons.IH [OF c(2)] Cons.prems(2) by (auto simp: prog_defs)
qed

lemma growthCycle_ok:
  assumes ok: "ok_with held t ps s"
  shows "\<exists>s'. growthCycle t s = (Ok (), s') \<and> ok_with held t ps s'"
proof -
  obtain pools s1 where a: "allPools t s = (pools, s1)" by fastforce
  have ok1: "ok_with held t ps s1" "set pools \<subseteq> set ps"
    using allPools_ok [of held t s] ok a by (simp_all add: ok_with_def)
  obtain s2 sts where st: "pool_states (now s) (PeakWindow (sv_config s)) pools s1 = (Ok sts, s2)" "map st_pool sts = pools"
      "agrees t s1 s2"
    using pool_states_ok by blast
  have ok2: "ok_with held t ps s2" by (rule ok_with_agrees [OF st(3) ok1(1)])
  have sub: "set (map st_pool (filter P sts)) \<subseteq> set ps" for P using ok1(2) st(2) by auto
  obtain s3 where g: "grow_loop t (serverAvailable (targetOf s1 t)) (filter st_contended sts) (filter (\<lambda>x. st_excess x > 0) sts) s2
      = (Ok (), s3)" "ok_with held t ps s3"
    using grow_loop_ok [OF ok2 sub sub] by blast
  obtain s4 where f: "forP (filter (\<lambda>x. st_excess x > 0) sts) (\<lambda>i. bindP (closeOneIdle t (st_pool i)) (\<lambda>_. returnP ())) s2
      = (Ok (), s4)" "ok_with held t ps s4"
    using shrink_ok [OF ok2 sub] by blast
  show ?thesis
    using a st(1) g f by (simp add: growthCycle_def bindP_def getP_def Let_def)
qed

end
