(* ===== verification/Pgfox_Run.thy ===== *)
theory Pgfox_Run
  imports Pgfox_Target
begin

text \<open>
  The life of a target. The select loop of \<open>Target.run\<close> (\<open>target.go\<close>) is the relation
  \<open>target_step\<close>, in which the operations of the clients (borrow, return, release, pool creation) and of
  other targets interleave with the events of the goroutine; \<open>target_run\<close> are the states
  reachable after the privileged connection has been opened. The locale \<open>conn_owner\<close> is what a
  borrower relies on; the properties at the end are those of the pooler's core: exact accounting, one
  place for every connection, no blocking on the way back, progress and the final drain.
\<close>

section \<open>The select loop\<close>

text \<open>A target as \<open>initTarget\<close> leaves it.\<close>

definition initial_target :: "targetId \<Rightarrow> Server \<Rightarrow> bool" where
  "initial_target t s \<longleftrightarrow>
     (let x = targetOf s t in
       Pools x = [] \<and> CachedPools x = [] \<and> PoolRegistered x = [] \<and> CloseCh x = [] \<and> TotalOpen x = 0 \<and>
       t_backend x = None \<and> CloseChCap x = nat (MaxConnections x) \<and> 1 \<le> MaxConnections x \<and> MaxConnections x < 2 ^ 31)"

text \<open>Before the privileged connection is open pools may be created; the other goroutines do anything
  that leaves this target's connections alone.\<close>

inductive booting :: "targetId \<Rightarrow> Server \<Rightarrow> bool" for t where
  created: "initial_target t s \<Longrightarrow> booting t s"
| pool: "booting t s \<Longrightarrow> getPool db usr s = (r, s') \<Longrightarrow> booting t s'"
| elsewhere: "booting t s \<Longrightarrow> agrees t s s' \<Longrightarrow> booting t s'"

text \<open>One event: a client borrows, returns or releases a connection or asks for a pool, the target
  goroutine takes one case of its \<open>select\<close>, or something happens elsewhere. The set is the
  connections that are checked out.\<close>

inductive target_step :: "targetId \<Rightarrow> Server \<times> backendId set \<Rightarrow> Server \<times> backendId set \<Rightarrow> bool" for t where
  borrow: "p \<in> set (target_pools t s) \<Longrightarrow> Queue (poolOf s p) = b # q \<Longrightarrow> target_step t (s, held) (take_idle p b s, insert b held)"
| return: "b \<in> held \<Longrightarrow> Return b s = (r, s') \<Longrightarrow> target_step t (s, held) (s', held - {b})"
| release: "b \<in> held \<Longrightarrow> Release b s = (r, s') \<Longrightarrow> target_step t (s, held) (s', held - {b})"
| close: "CloseCh (targetOf s t) = b # rest \<Longrightarrow>
    handleClose t b (upd_target t (\<lambda>x. x\<lparr>CloseCh := tl (CloseCh x)\<rparr>) s) = (r, s') \<Longrightarrow> target_step t (s, held) (s', held)"
| grow: "growthCycle t s = (r, s') \<Longrightarrow> target_step t (s, held) (s', held)"
| health: "healthCheck t s = (r, s') \<Longrightarrow> target_step t (s, held) (s', held)"
| stats: "updateServerStats t s = (r, s') \<Longrightarrow> target_step t (s, held) (s', held)"
| scram: "fetchSCRAMVerifier t usr s = (v, s') \<Longrightarrow> target_step t (s, held) (s', held)"
| pool: "getPool db usr s = (p', s') \<Longrightarrow> target_step t (s, held) (s', held)"
| elsewhere: "agrees t s s' \<Longrightarrow> target_step t (s, held) (s', held)"

inductive target_run :: "targetId \<Rightarrow> Server \<times> backendId set \<Rightarrow> bool" for t where
  opened: "booting t s \<Longrightarrow> openPrivilegedConn cert t s = (Ok (), s') \<Longrightarrow> target_run t (s', {})"
| step: "target_run t x \<Longrightarrow> target_step t x y \<Longrightarrow> target_run t y"

inductive_cases target_stepE: "target_step t (s, held) (s', held')"

lemma initial_ok: "initial_target t s \<Longrightarrow> pools_ok {} t s"
  by (auto simp: initial_target_def Let_def pools_ok_def target_pools_def keys_ok_def places_ok_def owned_def budget_ok_def
      open_conns_def)

lemma getPool_accounts:
  assumes "getPool db usr s = (r, s')"
  shows "TotalOpen (targetOf s' t) = TotalOpen (targetOf s t) \<and> t_backend (targetOf s' t) = t_backend (targetOf s t) \<and>
    MaxConnections (targetOf s' t) = MaxConnections (targetOf s t)"
  using assms by (cases rule: getPool_cases) auto

lemma booting_ok:
  assumes "booting t s"
  shows "pools_ok {} t s \<and> TotalOpen (targetOf s t) = 0 \<and> t_backend (targetOf s t) = None \<and> 1 \<le> MaxConnections (targetOf s t)"
  using assms
proof induction
  case (created s)
  then show ?case using initial_ok [OF created] by (simp add: initial_target_def Let_def)
next
  case (pool s db usr r s')
  then show ?case using getPool_ok [OF pool.hyps(2), of "{}" t] getPool_accounts [OF pool.hyps(2), of t] by simp
next
  case (elsewhere s s')
  then show ?case using agrees_pools_ok [OF elsewhere.hyps(2), of "{}"] by (simp add: agrees_def same_target_def)
qed

text \<open>Attempts that fail leave the accounts alone; the one that succeeds counts the connection.\<close>

lemma open_priv_step_ok:
  assumes ok: "pools_ok held t s" and none: "t_backend (targetOf s t) = None"
    and room: "TotalOpen (targetOf s t) < MaxConnections (targetOf s t)"
    and st: "open_priv_step t s = (r, s')"
  shows "(r = Ok None \<longrightarrow> agrees t s s') \<and> (\<forall>u. r = Ok (Some u) \<longrightarrow> pools_ok held t s' \<and> t_backend (targetOf s' t) \<noteq> None)"
proof -
  obtain r1 s1 where c: "createCertBackend t ''postgres'' (PgFoxRole (sv_config s)) s = (r1, s1)" by fastforce
  note fr = createCertBackend_fresh [OF c]
  have ag: "agrees t s s1" by (rule fresh_conn_agrees [OF fr])
  have ok1: "pools_ok held t s1" by (rule agrees_pools_ok [OF ag ok])
  show ?thesis
  proof (cases "Cancelled (targetOf s t)")
    case True
    then show ?thesis using st by (auto simp: open_priv_step_def prog_defs)
  next
    case False
    show ?thesis
    proof (cases r1)
      case (Ok b)
      let ?s2 = "privileged_opened t b s1"
      let ?s3 = "upd_target t (\<lambda>x. x\<lparr>Params := fold (\<lambda>(k, v). AList.update k v) (parameters (backendOf ?s2 b)) (Params x)\<rparr>) ?s2"
      obtain r4 s4 where d: "on_backend b deployPrivilegedStmts ?s3 = (r4, s4)" by fastforce
      have "ok_with held t (target_pools t s1) ?s2"
        using fr none room Ok by (intro privileged_opened_ok [OF ok1]) (auto simp: fresh_conn_def)
      moreover have "agrees t ?s2 ?s3" by (rule agrees_upd_target) (simp add: same_target_def)
      ultimately have "ok_with held t (target_pools t s1) s4"
        using agrees_on_backend [OF keeps_pool_deploy, of t ?s3 b] d ok_with_agrees by simp
      moreover have "t_backend (targetOf s4 t) = Some b"
        using on_backend_target [of b deployPrivilegedStmts ?s3, unfolded d snd_conv] by (simp add: privileged_opened_def)
      moreover have "ok_with held t (target_pools t s1) (upd_target t (\<lambda>x. x\<lparr>Ready := True\<rparr>) s4)"
        if "ok_with held t (target_pools t s1) s4"
        by (rule ok_with_agrees [OF agrees_upd_target that]) (simp add: same_target_def)
      ultimately show ?thesis
        using st c d Ok False by (cases r4) (auto simp: open_priv_step_def prog_defs ok_with_def)
    next
      case (Err e)
      then show ?thesis using st c False ag by (auto simp: open_priv_step_def prog_defs)
    qed (use fr in \<open>simp_all add: fresh_conn_def\<close>)
  qed
qed

lemma open_loop_ok:
  assumes "pools_ok held t s" and "t_backend (targetOf s t) = None" and "TotalOpen (targetOf s t) < MaxConnections (targetOf s t)"
    and "loopP n (open_priv_step t) s = (Ok u, s')"
  shows "pools_ok held t s' \<and> t_backend (targetOf s' t) \<noteq> None"
  using assms
proof (induction n arbitrary: s)
  case 0
  then show ?case by simp
next
  case (Suc n)
  obtain r s1 where st: "open_priv_step t s = (r, s1)" by fastforce
  note sk = open_priv_step_ok [OF Suc.prems(1,2,3) st]
  show ?case
  proof (cases r)
    case (Ok x)
    show ?thesis
    proof (cases x)
      case None
      then have ag: "agrees t s s1" using sk Ok by simp
      then have "loopP n (open_priv_step t) s1 = (Ok u, s')" "t_backend (targetOf s1 t) = None"
          "TotalOpen (targetOf s1 t) < MaxConnections (targetOf s1 t)"
        using Suc.prems st Ok None by (simp_all add: bindP_def agrees_def same_target_def)
      then show ?thesis using Suc.IH [OF agrees_pools_ok [OF ag Suc.prems(1)]] by blast
    next
      case (Some y)
      then show ?thesis using sk Ok Suc.prems(4) st by (simp add: bindP_def returnP_def)
    qed
  qed (use Suc.prems(4) st in \<open>simp_all add: bindP_def\<close>)
qed

lemma target_step_ok: "pools_ok held t s \<Longrightarrow> target_step t (s, held) (s', held') \<Longrightarrow> pools_ok held' t s'"
proof (erule target_stepE, goal_cases)
  case (1 p b q)
  then show ?case using take_idle_ok by blast
next
  case (2 b r)
  then show ?case using Return_ok [of held t s b] by auto
next
  case (3 b r)
  then show ?case using Release_ok [of held t s b] by auto
next
  case (4 b rest r)
  then show ?case using pop_close_ok [of held t s b rest] handleClose_ok [of "insert b held" t _ b] by fastforce
next
  case (5 r)
  then show ?case using growthCycle_ok [of held t "target_pools t s" s] by (auto simp: ok_with_def)
next
  case (6 r)
  then show ?case using keepsD [OF healthCheck_ok 6(3), of held "target_pools t s"] by (auto simp: ok_with_def)
next
  case (7 r)
  then show ?case using keepsD [OF updateServerStats_ok 7(3), of held t "target_pools t s"] by (auto simp: ok_with_def)
next
  case (8 usr v)
  then show ?case using keepsD [OF fetchSCRAMVerifier_ok 8(3), of held t "target_pools t s"] by (auto simp: ok_with_def)
next
  case (9 db usr p')
  then show ?case using getPool_ok by blast
next
  case 10
  then show ?case using agrees_pools_ok by blast
qed

lemma target_run_ok: "target_run t x \<Longrightarrow> pools_ok (snd x) t (fst x)"
proof (induction rule: target_run.induct)
  case (opened s cert s')
  have b: "pools_ok {} t s" "t_backend (targetOf s t) = None" "TotalOpen (targetOf s t) < MaxConnections (targetOf s t)"
    using booting_ok [OF opened(1)] by simp_all
  have "loopP (Suc (length (dials s))) (open_priv_step t) s = (Ok (), s')"
    using opened(2) unfolding openPrivilegedConn_def by (cases cert) (simp_all del: loopP.simps)
  from open_loop_ok [OF b this] show ?case by simp
next
  case (step x y)
  then show ?case using target_step_ok [of "snd x" t "fst x" "fst y" "snd y"] by simp
qed

section \<open>Who may use a connection\<close>

text \<open>What a borrower relies on: taking the head of a queue hands over a connection nobody holds, and
  the contract survives whatever leaves the connections of the target alone.\<close>

locale conn_owner =
  fixes t :: targetId and run :: "Server \<Rightarrow> backendId set \<Rightarrow> bool"
  assumes take: "run s held \<Longrightarrow> p \<in> set (target_pools t s) \<Longrightarrow> Queue (poolOf s p) = b # q \<Longrightarrow>
      run (take_idle p b s) (insert b held) \<and> b \<notin> held \<and> b_pool (backendOf s b) = Some p"
    and frame: "run s held \<Longrightarrow> agrees t s s' \<Longrightarrow> run s' held"
    and ownT: "run s held \<Longrightarrow> p \<in> set (target_pools t s) \<Longrightarrow> p_target (poolOf s p) = t"

text \<open>A schedule whose other goroutines keep the contract and never remove a pool.\<close>

definition others_ok :: "targetId \<Rightarrow> (Server \<Rightarrow> backendId set \<Rightarrow> bool) \<Rightarrow> poolId \<Rightarrow> sched \<Rightarrow> bool" where
  "others_ok t run p sch \<longleftrightarrow>
     (\<forall>(w, f) \<in> set sch. \<forall>s held. run s held \<and> p \<in> set (target_pools t s) \<longrightarrow>
        (\<exists>held'. run (f s) held') \<and> p \<in> set (target_pools t (f s)))"

definition borrow_post :: "(Server \<Rightarrow> backendId set \<Rightarrow> bool) \<Rightarrow> poolId \<Rightarrow> sched \<Rightarrow> backendId res \<Rightarrow> Server \<Rightarrow> bool" where
  "borrow_post run p sch r s \<longleftrightarrow>
     (case r of
        Ok b \<Rightarrow> (\<exists>held. b \<notin> held \<and> run s (insert b held)) \<and> b_pool (backendOf s b) = Some p \<and> inUse (backendOf s b)
      | Err e \<Rightarrow> (\<exists>held. run s held) \<and> (TimerFired \<in> fst ` set sch \<or> shuttingDown s)
      | Panic \<Rightarrow> False
      | Blocked \<Rightarrow> (\<exists>held. run s held) \<and> TimerFired \<notin> fst ` set sch)"

context conn_owner
begin

lemma take_post:
  assumes "run s held" "p \<in> set (target_pools t s)" "Queue (poolOf s p) = b # q"
  shows "borrow_post run p sch (Ok b) (take_idle p b s)"
  using take [OF assms] by (auto simp: borrow_post_def take_idle_def SetInUse_def)

lemma frame_target: "run s held \<Longrightarrow> (\<And>x. same_target x (f x)) \<Longrightarrow> run (upd_target u f s) held"
  by (rule frame [OF _ agrees_upd_target])

lemma borrow_post_tail: "borrow_post run p ws r s \<Longrightarrow> w \<noteq> TimerFired \<Longrightarrow> borrow_post run p ((w, f) # ws) r s"
  by (auto simp: borrow_post_def split: res.splits)

lemma borrow_wait_post:
  assumes "run s held" "p \<in> set (target_pools t s)" "others_ok t run p sch"
  shows "borrow_post run p sch (fst (borrow_wait p sch s)) (snd (borrow_wait p sch s))"
  using assms
proof (induction sch arbitrary: s held)
  case Nil
  then show ?case by (auto simp: borrow_post_def)
next
  case (Cons x ws)
  obtain w f where x: "x = (w, f)" by (cases x)
  have ws: "others_ok t run p ws" using Cons.prems(3) by (simp add: others_ok_def)
  obtain h where h: "run (f s) h" "p \<in> set (target_pools t (f s))"
    using Cons.prems by (auto simp: others_ok_def x)
  note IH = Cons.IH [OF _ _ ws]
  show ?case
  proof (cases w)
    case QueueReady
    then show ?thesis
      using IH [OF h] take_post [OF h] borrow_post_tail by (cases "Queue (poolOf (f s) p)") (auto simp: x)
  next
    case ConnReadySignal
    let ?u = "p_target (poolOf (f s) p)"
    let ?s1 = "upd_target ?u (\<lambda>x. x\<lparr>ConnReady := ConnReady x - 1\<rparr>) (f s)"
    let ?s2 = "upd_target ?u (\<lambda>x. x\<lparr>Demand := True\<rparr>) ?s1"
    have r1: "run ?s1 h" by (rule frame_target [OF h(1)]) (simp add: same_target_def)
    have r2: "run ?s2 h" by (rule frame_target [OF r1]) (simp add: same_target_def)
    have p1: "p \<in> set (target_pools t ?s1)" "p \<in> set (target_pools t ?s2)" using h(2) by (auto simp: target_pools_def)
    show ?thesis
    proof (cases "ConnReady (targetOf (f s) ?u) = 0")
      case True
      then show ?thesis using IH [OF h] borrow_post_tail ConnReadySignal by (simp add: x)
    next
      case False
      show ?thesis
      proof (cases "Queue (poolOf ?s1 p)")
        case Nil
        then show ?thesis using IH [OF r2 p1(2)] borrow_post_tail ConnReadySignal False by (simp add: x Let_def)
      next
        case (Cons b q)
        then show ?thesis using take_post [OF r1 p1(1) Cons] ConnReadySignal False by (simp add: x Let_def)
      qed
    qed
  next
    case TimerFired
    then show ?thesis using h by (auto simp: x borrow_post_def Let_def)
  next
    case ContextDone
    then show ?thesis using h IH [OF h] borrow_post_tail by (auto simp: x borrow_post_def Let_def)
  qed
qed

lemma borrowConn_post:
  assumes "run s held" "p \<in> set (target_pools t s)" "others_ok t run p sch" "\<not> Draining (targetOf s t)"
  shows "borrow_post run p sch (fst (borrowConn sch p s)) (snd (borrowConn sch p s))"
proof (cases "Queue (poolOf s p)")
  case Nil
  let ?s1 = "upd_target t (\<lambda>x. x\<lparr>Demand := True\<rparr>) s"
  have "run ?s1 held" by (rule frame_target [OF assms(1)]) (simp add: same_target_def)
  moreover have "p \<in> set (target_pools t ?s1)" using assms(2) by (simp add: target_pools_def)
  ultimately show ?thesis
    using borrow_wait_post [OF _ _ assms(3)] Nil ownT [OF assms(1,2)] assms(4) by (simp add: borrowConn_def)
next
  case (Cons b q)
  then show ?thesis
    using take_post [OF assms(1,2) Cons] ownT [OF assms(1,2)] assms(4) by (simp add: borrowConn_def)
qed

end

lemma queue_head_owner:
  assumes "pools_ok held t s" "p \<in> set (target_pools t s)" "Queue (poolOf s p) = b # q"
  shows "b \<notin> held" "b_pool (backendOf s b) = Some p"
  using dequeue_ok(2) [OF assms] pools_ok_pool [OF assms(1,2)] assms(3) by (simp_all add: pool_ok_def)

interpretation accounts: conn_owner t "\<lambda>s held. pools_ok held t s" for t
  by unfold_locales
    (use take_idle_ok queue_head_owner agrees_pools_ok pools_ok_pool in \<open>auto simp: pool_ok_def\<close>)

interpretation live: conn_owner t "\<lambda>s held. target_run t (s, held)" for t
proof
  fix s held p b q assume r: "target_run t (s, held)" "p \<in> set (target_pools t s)" "Queue (poolOf s p) = b # q"
  then show "target_run t (take_idle p b s, insert b held) \<and> b \<notin> held \<and> b_pool (backendOf s b) = Some p"
    using queue_head_owner [of held t s p b q] target_run_ok [OF r(1)] target_run.step [OF r(1) target_step.borrow] by auto
next
  fix s held s' assume "target_run t (s, held)" "agrees t s s'"
  then show "target_run t (s', held)" using target_run.step target_step.elsewhere by blast
next
  fix s held p assume "target_run t (s, held)" "p \<in> set (target_pools t s)"
  then show "p_target (poolOf s p) = t" using target_run_ok pools_ok_pool by (fastforce simp: pool_ok_def)
qed

section \<open>Where the connections are\<close>

definition places :: "targetId \<Rightarrow> Server \<Rightarrow> backendId list" where
  "places t s = concat (map (\<lambda>p. Queue (poolOf s p)) (target_pools t s)) @ CloseCh (targetOf s t)"

lemma card_owned:
  assumes "pools_ok held t s"
  shows "card (owned t s) = open_conns t s"
proof -
  have "card (owned t s) = (\<Sum>p \<in> set (target_pools t s). card (set (All_conns (poolOf s p))))"
    unfolding owned_def using owner_unique [OF assms] by (intro card_UN_disjoint) (simp, simp, fast)
  also have "\<dots> = (\<Sum>p \<in> set (target_pools t s). length (All_conns (poolOf s p)))"
    using pools_ok_pool [OF assms] by (intro sum.cong) (simp_all add: pool_ok_def distinct_card)
  finally show ?thesis
    using pools_ok_distinct [OF assms] by (simp add: open_conns_def sum_list_distinct_conv_sum_set)
qed

lemma queue_sub_all: "pools_ok held t s \<Longrightarrow> p \<in> set (target_pools t s) \<Longrightarrow> b \<in> set (Queue (poolOf s p)) \<Longrightarrow> b \<in> set (All_conns (poolOf s p))"
  using pools_ok_pool by (fastforce simp: pool_ok_def)

lemma places_partition:
  assumes ok: "pools_ok held t s"
  shows "distinct (places t s)" and "set (places t s) \<inter> held = {}" and "set (places t s) \<union> held = owned t s"
proof -
  note pl = places_okD [OF pools_ok_places [OF ok]]
  let ?Q = "\<lambda>p. Queue (poolOf s p)"
  have "distinct (concat (map ?Q ps))" if "distinct ps" "set ps \<subseteq> set (target_pools t s)" for ps
    using that
  proof (induction ps)
    case (Cons p ps)
    have "set (?Q p) \<inter> set (?Q q) = {}" if "q \<in> set ps" for q
      using owner_unique [OF ok, of p q] queue_sub_all [OF ok, of p] queue_sub_all [OF ok, of q] that Cons.prems by fastforce
    then show ?case
      using Cons pools_ok_pool [OF ok, of p] by (auto simp: pool_ok_def)
  qed simp
  from this [OF pools_ok_distinct [OF ok] subset_refl]
  show "distinct (places t s)" using pl(1,5) by (fastforce simp: places_def)
  show "set (places t s) \<inter> held = {}" using pl(4,5) by (fastforce simp: places_def)
  have "b \<in> owned t s" if "p \<in> set (target_pools t s)" "b \<in> set (?Q p)" for p b
    using queue_sub_all [OF ok that] that(1) by (auto simp: owned_def)
  then show "set (places t s) \<union> held = owned t s" using pl(2,3,6) by (auto simp: places_def)
qed

lemma open_conns_places:
  assumes ok: "pools_ok held t s"
  shows "open_conns t s = length (places t s) + card held"
proof -
  have fin: "finite held" using pools_ok_places [OF ok] by (meson finite_subset owned_card(1) [OF ok] places_okD(3))
  have "open_conns t s = card (set (places t s) \<union> held)" using card_owned [OF ok] places_partition(3) [OF ok] by simp
  also have "\<dots> = card (set (places t s)) + card held"
    by (rule card_Un_disjoint) (use fin places_partition(2) [OF ok] in auto)
  also have "card (set (places t s)) = length (places t s)" by (rule distinct_card [OF places_partition(1) [OF ok]])
  finally show ?thesis .
qed

section \<open>Draining\<close>

lemma close_counted_fields [simp]:
  "poolOf (close_counted t b s) = poolOf s" "Pools (targetOf (close_counted t b s) u) = Pools (targetOf s u)"
  "CloseCh (targetOf (close_counted t b s) u) = CloseCh (targetOf s u)"
  "CachedPools (targetOf (close_counted t b s) u) = CachedPools (targetOf s u)"
  "PoolRegistered (targetOf (close_counted t b s) u) = PoolRegistered (targetOf s u)"
  "t_backend (targetOf (close_counted t b s) u) = t_backend (targetOf s u)"
  "TotalOpen (targetOf (close_counted t b s) t) = TotalOpen (targetOf s t) - 1"
  by (simp_all add: close_counted_def)

definition closed :: "backendId \<Rightarrow> Server \<Rightarrow> bool" where
  "closed b s \<longleftrightarrow> c_closed (b_conn (backendOf s b))"

lemma closed_close_counted [simp]: "closed b (close_counted t b' s) \<longleftrightarrow> b = b' \<or> closed b s"
  by (simp add: closed_def close_counted_def Backend_Close_def conn_close_def)

lemma closed_upd [simp]: "closed b (upd_target t f s) = closed b s" "closed b (upd_pool p g s) = closed b s"
  by (simp_all add: closed_def)

lemma fold_close_counted [simp]:
  "poolOf (fold (close_counted t) bs s) = poolOf s"
  "Pools (targetOf (fold (close_counted t) bs s) u) = Pools (targetOf s u)"
  "CloseCh (targetOf (fold (close_counted t) bs s) u) = CloseCh (targetOf s u)"
  "CachedPools (targetOf (fold (close_counted t) bs s) u) = CachedPools (targetOf s u)"
  "PoolRegistered (targetOf (fold (close_counted t) bs s) u) = PoolRegistered (targetOf s u)"
  "t_backend (targetOf (fold (close_counted t) bs s) u) = t_backend (targetOf s u)"
  "TotalOpen (targetOf (fold (close_counted t) bs s) t) = TotalOpen (targetOf s t) - int (length bs)"
  "closed b (fold (close_counted t) bs s) \<longleftrightarrow> b \<in> set bs \<or> closed b s"
  by (induction bs arbitrary: s) auto

lemma drain_pool_fields [simp]:
  "poolOf (drain_pool t p s) q = (if q = p then (poolOf s p)\<lparr>Queue := []\<rparr> else poolOf s q)"
  "Pools (targetOf (drain_pool t p s) u) = Pools (targetOf s u)"
  "CloseCh (targetOf (drain_pool t p s) u) = CloseCh (targetOf s u)"
  "t_backend (targetOf (drain_pool t p s) u) = t_backend (targetOf s u)"
  "TotalOpen (targetOf (drain_pool t p s) t) = TotalOpen (targetOf s t) - int (length (Queue (poolOf s p)))"
  "closed b (drain_pool t p s) \<longleftrightarrow> b \<in> set (Queue (poolOf s p)) \<or> closed b s"
  by (simp_all add: drain_pool_def)

lemma fold_drain_pool:
  "Pools (targetOf (fold (drain_pool t) ps s) u) = Pools (targetOf s u)"
  "CloseCh (targetOf (fold (drain_pool t) ps s) u) = CloseCh (targetOf s u)"
  "t_backend (targetOf (fold (drain_pool t) ps s) u) = t_backend (targetOf s u)"
  "Queue (poolOf (fold (drain_pool t) ps s) q) = (if q \<in> set ps then [] else Queue (poolOf s q))"
  "closed b (fold (drain_pool t) ps s) \<longleftrightarrow> (\<exists>p \<in> set ps. b \<in> set (Queue (poolOf s p))) \<or> closed b s"
  by (induction ps arbitrary: s) auto

lemma fold_drain_pool_total:
  "TotalOpen (targetOf (fold (drain_pool t) ps s) t) =
     TotalOpen (targetOf s t) - int (\<Sum>p \<in> set ps. length (Queue (poolOf s p)))"
proof (induction ps arbitrary: s)
  case (Cons p ps)
  have "(\<Sum>q \<in> set ps. length (Queue (poolOf (drain_pool t p s) q))) = (\<Sum>q \<in> set ps - {p}. length (Queue (poolOf s q)))"
    by (rule sum.mono_neutral_cong_right) auto
  moreover have "(\<Sum>q \<in> set (p # ps). length (Queue (poolOf s q))) =
      length (Queue (poolOf s p)) + (\<Sum>q \<in> set ps - {p}. length (Queue (poolOf s q)))"
    by (simp add: sum.insert_remove)
  ultimately show ?case using Cons.IH [of "drain_pool t p s"] by simp
qed simp

lemma drain_privileged_fields [simp]:
  "TotalOpen (targetOf (drain_privileged t s) t) = TotalOpen (targetOf s t) - (if t_backend (targetOf s t) = None then 0 else 1)"
  "t_backend (targetOf (drain_privileged t s) t) = None" "poolOf (drain_privileged t s) = poolOf s"
  "CloseCh (targetOf (drain_privileged t s) t) = CloseCh (targetOf s t)"
  "closed b s \<Longrightarrow> closed b (drain_privileged t s)"
  by (simp_all add: drain_privileged_def split: option.split)

lemma drain_total:
  assumes ok: "pools_ok held t s"
    and reg: "set (CachedPools (targetOf s t)) \<union> set (PoolRegistered (targetOf s t)) = set (target_pools t s)"
  shows "TotalOpen (targetOf (drain t s) t) = int (card held) \<and> t_backend (targetOf (drain t s) t) = None \<and>
    CloseCh (targetOf (drain t s) t) = [] \<and> (\<forall>p \<in> set (target_pools t s). Queue (poolOf (drain t s) p) = []) \<and>
    (\<forall>b \<in> owned t s - held. closed b (drain t s))"
proof -
  let ?s1 = "drain_close t s"
  obtain pools s2 where a: "allPools t ?s1 = (pools, s2)" by fastforce
  let ?s3 = "fold (drain_pool t) pools s2"
  have d: "drain t s = drain_privileged t ?s3" by (simp add: drain_def a)
  have s1: "TotalOpen (targetOf ?s1 t) = TotalOpen (targetOf s t) - int (length (CloseCh (targetOf s t)))"
      "poolOf ?s1 = poolOf s" "CloseCh (targetOf ?s1 t) = []" "t_backend (targetOf ?s1 t) = t_backend (targetOf s t)"
      "closed b ?s1 \<longleftrightarrow> b \<in> set (CloseCh (targetOf s t)) \<or> closed b s" for b
    by (simp_all add: drain_close_def)
  have s2: "set pools = set (target_pools t s)" "TotalOpen (targetOf s2 t) = TotalOpen (targetOf ?s1 t)"
      "poolOf s2 = poolOf ?s1" "CloseCh (targetOf s2 t) = []" "t_backend (targetOf s2 t) = t_backend (targetOf s t)"
      "closed b s2 = closed b ?s1" for b
    using a reg s1(3,4) by (force simp: allPools_def Let_def drain_close_def, auto simp: allPools_def Let_def)
  have "(\<Sum>p \<in> set pools. length (Queue (poolOf s p))) = length (concat (map (\<lambda>p. Queue (poolOf s p)) (target_pools t s)))"
    using pools_ok_distinct [OF ok] s2(1) by (simp add: length_concat sum_list_distinct_conv_sum_set comp_def)
  then have "TotalOpen (targetOf ?s3 t) = TotalOpen (targetOf s t) - int (length (places t s))"
    using s1 s2 by (simp add: fold_drain_pool_total places_def)
  then have "TotalOpen (targetOf (drain t s) t) = int (card held)"
    using pools_ok_budget [OF ok] open_conns_places [OF ok] s2(5)
    unfolding d budget_ok_def by (simp add: fold_drain_pool)
  moreover have "closed b (drain t s)" if "b \<in> owned t s - held" for b
  proof -
    have "b \<in> set (places t s)" using that places_partition(3) [OF ok] by blast
    then have "closed b ?s3" using s1 s2 by (auto simp: places_def fold_drain_pool)
    then show ?thesis unfolding d by simp
  qed
  moreover have "CloseCh (targetOf (drain t s) t) = []" "t_backend (targetOf (drain t s) t) = None"
    using s2(4) unfolding d by (simp_all add: fold_drain_pool)
  moreover have "Queue (poolOf (drain t s) p) = []" if "p \<in> set (target_pools t s)" for p
    using that s2(1) unfolding d by (simp add: fold_drain_pool)
  ultimately show ?thesis by blast
qed

section \<open>Progress\<close>

text \<open>A server that accepts the startup message and gets ready.\<close>

definition accepting :: "conn \<Rightarrow> bool" where
  "accepting k \<longleftrightarrow> \<not> c_closed k \<and> c_room k \<noteq> Some 0 \<and>
     (\<exists>m rest. c_in k = (CHR ''R'', PutUint32 AuthenticationOK) # (CHR ''Z'', m) # rest)"

lemma drainBackendStartup_accepting:
  assumes "\<not> c_closed (b_conn b)" "c_in (b_conn b) = (CHR ''R'', PutUint32 AuthenticationOK) # (CHR ''Z'', m) # rest"
  shows "drainBackendStartup b = (Ok (), b\<lparr>b_conn := (b_conn b)\<lparr>c_in := rest\<rparr>\<rparr>)"
proof -
  have [simp]: "length (PutUint32 w) = 4" "Uint32 (PutUint32 w) = w" for w
    using Uint32_PutUint32 [of w "[]"] by simp_all
  show ?thesis
    using assms by (simp add: drainBackendStartup_def startup_step_def prog_defs)
qed

lemma createCertBackend_accepting:
  assumes "dials s = Inr k # ds" "accepting k"
  shows "fst (createCertBackend t db usr s) = Ok (nextBackend s) \<and> dials (snd (createCertBackend t db usr s)) = ds \<and>
    now (snd (createCertBackend t db usr s)) = now s \<and> sv_config (snd (createCertBackend t db usr s)) = sv_config s"
proof -
  obtain m rest where k: "\<not> c_closed k" "c_room k \<noteq> Some 0" "c_in k = (CHR ''R'', PutUint32 AuthenticationOK) # (CHR ''Z'', m) # rest"
    using assms(2) by (auto simp: accepting_def)
  have "\<exists>n. c_room k = None \<or> c_room k = Some (Suc n)" using k(2) by (metis not0_implies_Suc option.exhaust)
  then show ?thesis
    using assms(1) k
    by (auto simp: createCertBackend_def Let_def prog_defs on_backend_def raw_write_def conn_send_def NewBackend_def
        drainBackendStartup_accepting)
qed

lemma openOne_accepting:
  assumes "dials s = Inr k # ds" "accepting k" "length (Queue (poolOf s p)) < QueueCap (poolOf s p)"
  shows "Queue (poolOf (snd (openOne t p s)) p) = Queue (poolOf s p) @ [nextBackend s]"
proof -
  obtain r s1 where n: "newConn p s = (r, s1)" by fastforce
  then have c: "createCertBackend (p_target (poolOf s p)) (DbName (poolOf s p)) (Username (poolOf s p)) s = (r, s1)"
    by (simp add: newConn_def bindP_def getP_def)
  have r: "r = Ok (nextBackend s)" using createCertBackend_accepting [OF assms(1,2)] c by (metis fst_conv)
  have "poolOf s1 = poolOf s" using createCertBackend_fresh [OF c] by (simp add: fresh_conn_def)
  then show ?thesis using n r assms(3) by (simp add: openOne_def prog_defs signalConnReady_def)
qed

lemma empty_pool_state:
  assumes "All_conns (poolOf s p) = []" "Queue (poolOf s p) = []"
  shows "\<exists>s'. pool_state t0 w p s = (Ok \<lparr>st_pool = p, st_contended = True, st_excess = 0\<rparr>, s') \<and>
    dials s' = dials s \<and> nextBackend s' = nextBackend s \<and> targetOf s' = targetOf s \<and>
    Queue (poolOf s' p) = [] \<and> QueueCap (poolOf s' p) = QueueCap (poolOf s p)"
proof -
  have "0 \<le> fold (\<lambda>q h. if ps_active q > h then ps_active q else h) qs h" if "0 \<le> h" for qs and h :: int
    using that by (induction qs arbitrary: h) auto
  from this [of 1] show ?thesis
    using assms by (auto simp: pool_state_def prog_defs Let_def IdleConnections_def)
qed

lemma growthCycle_empty_pool:
  assumes pools: "fst (allPools t s) = [p]" and empty: "All_conns (poolOf s p) = []" "Queue (poolOf s p) = []"
    and room: "TotalOpen (targetOf s t) < MaxConnections (targetOf s t)" "1 < serverAvailable (targetOf s t)"
      "0 < QueueCap (poolOf s p)"
    and dial: "dials s = Inr k # ds" "accepting k"
  shows "Queue (poolOf (snd (growthCycle t s)) p) = [nextBackend s]"
proof -
  obtain s1 where a: "allPools t s = ([p], s1)" using pools by (cases "allPools t s") simp
  have s1: "poolOf s1 = poolOf s" "dials s1 = dials s" "nextBackend s1 = nextBackend s"
      "TotalOpen (targetOf s1 t) = TotalOpen (targetOf s t)" "MaxConnections (targetOf s1 t) = MaxConnections (targetOf s t)"
      "serverAvailable (targetOf s1 t) = serverAvailable (targetOf s t)"
    using a by (auto simp: allPools_def Let_def serverAvailable_def)
  obtain s2 where st: "pool_state (now s) (PeakWindow (sv_config s)) p s1 = (Ok \<lparr>st_pool = p, st_contended = True, st_excess = 0\<rparr>, s2)"
      "dials s2 = dials s" "nextBackend s2 = nextBackend s" "targetOf s2 = targetOf s1"
      "Queue (poolOf s2 p) = []" "QueueCap (poolOf s2 p) = QueueCap (poolOf s p)"
    using empty_pool_state [of s1 p "now s" "PeakWindow (sv_config s)"] empty s1 by auto
  have "Queue (poolOf (snd (openOne t p s2)) p) = [nextBackend s]"
    using openOne_accepting [of s2 k ds p t] dial st room by simp
  then show ?thesis
    using a st(1,4) s1 room by (cases "openOne t p s2") (auto simp: growthCycle_def prog_defs split: res.split)
qed

section \<open>A run\<close>

text \<open>One target with room for four connections, a PostgreSQL that answers the startup message of
  two connections: the privileged one and one of the pool of \<open>bob\<close> on \<open>app\<close>.\<close>

definition demo_conn :: conn where
  "demo_conn = \<lparr>c_max = 1000, c_in = [(CHR ''R'', PutUint32 AuthenticationOK), (CHR ''Z'', ''I'')],
     c_end = Errorf ''EOF'', c_out = [], c_room = Some 1, c_werr = Errorf ''closed'', c_closed = False\<rparr>"

definition demo_server :: Server where
  "demo_server =
     \<lparr>sv_config = defaultServerConfig, Targets = [0],
      targetOf = (\<lambda>_. (demo_target [])\<lparr>MaxConnections := 4, CloseChCap := 4, ConnReadyCap := 4\<rparr>),
      poolOf = (\<lambda>_. new_pool 0 (demo_target []) [] []), backendOf = (\<lambda>_. NewBackend demo_conn [] [] [] 0),
      clientOf = (\<lambda>_. NewClient demo_conn (TCPAddr [])), nextPool = 0, nextBackend = 0, Clients = [],
      Listeners = [], cancelKeys = [], nextCancelPID = 0,
      globalStats = \<lparr>TotalClients = 0, ActiveClients = 0, TotalPools = 0, TotalQueries = 0, NotificationsSent = 0, IdleConnectionsClosed = 0\<rparr>,
      shuttingDown = False, now = 0, dials = [Inr demo_conn, Inr demo_conn]\<rparr>"

definition demo_opened :: Server where "demo_opened = snd (openPrivilegedConn None 0 demo_server)"
definition demo_pool :: Server where "demo_pool = snd (getPool ''app'' ''bob'' demo_opened)"
definition demo_grown :: Server where "demo_grown = snd (growthCycle 0 demo_pool)"

lemma demo_booting: "booting 0 demo_server"
  by (rule booting.created) (simp add: initial_target_def demo_server_def demo_target_def)

lemma demo_accepting: "accepting demo_conn"
  by (simp add: accepting_def demo_conn_def)

lemmas demo_eval = openPrivilegedConn_def open_priv_step_def createCertBackend_def Let_def prog_defs on_backend_def raw_write_def
  conn_send_def NewBackend_def drainBackendStartup_accepting demo_conn_def demo_server_def deployPrivilegedStmts_def
  privileged_stmts_def Backend_write_def backend_write_def Backend_WriteMessage_def demo_target_def privileged_opened_def

lemma demo_opened:
  "openPrivilegedConn None 0 demo_server = (Ok (), demo_opened)"
  "TotalOpen (targetOf demo_opened 0) = 1" "MaxConnections (targetOf demo_opened 0) = 4" "ServerMaxConns (targetOf demo_opened 0) = 0"
  "Pools (targetOf demo_opened 0) = []" "CachedPools (targetOf demo_opened 0) = []" "PoolRegistered (targetOf demo_opened 0) = []"
  "Draining (targetOf demo_opened 0) = False" "Rules (targetOf demo_opened 0) = []" "Targets demo_opened = [0]" "nextPool demo_opened = 0"
  "nextBackend demo_opened = 1" "dials demo_opened = [Inr demo_conn]"
  unfolding demo_opened_def by (simp_all add: demo_eval split: sum.split)

lemma demo_pool:
  "getPool ''app'' ''bob'' demo_opened = (Ok (Some 0), demo_pool)"
  "fst (allPools 0 demo_pool) = [0]" "All_conns (poolOf demo_pool 0) = []" "Queue (poolOf demo_pool 0) = []"
  "TotalOpen (targetOf demo_pool 0) = 1" "MaxConnections (targetOf demo_pool 0) = 4" "1 < serverAvailable (targetOf demo_pool 0)"
  "QueueCap (poolOf demo_pool 0) = 4" "dials demo_pool = [Inr demo_conn]" "nextBackend demo_pool = 1" "target_pools 0 demo_pool = [0]"
  unfolding demo_pool_def
  by (simp_all add: getPool_def demo_opened LookupPool_def targetServesDatabase_def new_pool_def poolRegisteredCap_def Let_def
      allPools_def serverAvailable_def target_pools_def)

lemma demo_runs: "target_run 0 (demo_opened, {})" "target_run 0 (demo_pool, {})" "target_run 0 (demo_grown, {})"
proof -
  show 1: "target_run 0 (demo_opened, {})" by (rule target_run.opened [OF demo_booting demo_opened(1)])
  show 2: "target_run 0 (demo_pool, {})" by (rule target_run.step [OF 1 target_step.pool [OF demo_pool(1)]])
  have "growthCycle 0 demo_pool = (fst (growthCycle 0 demo_pool), demo_grown)" by (simp add: demo_grown_def)
  from target_run.step [OF 2 target_step.grow [OF this]] show "target_run 0 (demo_grown, {})" .
qed

lemma demo_grown: "Queue (poolOf demo_grown 0) = [1]" "0 \<in> set (target_pools 0 demo_grown)"
proof -
  show "Queue (poolOf demo_grown 0) = [1]"
    unfolding demo_grown_def
    using growthCycle_empty_pool [OF demo_pool(2,3,4) _ demo_pool(7) _ demo_pool(9) demo_accepting] demo_pool by simp
  have "ok_with {} 0 [0] demo_pool" using target_run_ok [OF demo_runs(2)] demo_pool(11) by (simp add: ok_with_def)
  from growthCycle_ok [OF this] show "0 \<in> set (target_pools 0 demo_grown)"
    by (auto simp: demo_grown_def ok_with_def)
qed

lemma demo_borrowed: "target_run 0 (take_idle 0 1 demo_grown, {1})"
  using target_run.step [OF demo_runs(3) target_step.borrow [OF demo_grown(2,1)]] by simp

section \<open>Properties\<close>





text \<open>C36: When every pool is registered, drain closes every connection that is not checked out, the privileged
  one included; queues and close channel are empty afterwards and TotalOpen is the number of
  connections still checked out.\<close>

theorem drain_closes:
  assumes "target_run t (s, held)"
    and "set (CachedPools (targetOf s t)) \<union> set (PoolRegistered (targetOf s t)) = set (target_pools t s)"
  shows "TotalOpen (targetOf (drain t s) t) = int (card held) \<and> t_backend (targetOf (drain t s) t) = None \<and>
    CloseCh (targetOf (drain t s) t) = [] \<and> (\<forall>p \<in> set (target_pools t s). Queue (poolOf (drain t s) p) = []) \<and>
    (\<forall>b \<in> owned t s - held. closed b (drain t s))"
  using drain_total [OF target_run_ok [OF assms(1), simplified] assms(2)] .

text \<open>C35: A pool without connections is served: if it is the target's only pool, the budget and the server
  have room and PostgreSQL accepts the next connection, one growth cycle puts a new connection into
  its queue, and a borrower that looks there next gets it.\<close>

theorem empty_pool_grows:
  assumes "target_run t (s, held)" and "fst (allPools t s) = [p]" and "All_conns (poolOf s p) = []"
    and "TotalOpen (targetOf s t) < MaxConnections (targetOf s t)" and "1 < serverAvailable (targetOf s t)"
    and "dials s = Inr k # ds" and "accepting k"
  shows "\<exists>s'. growthCycle t s = (Ok (), s') \<and> target_run t (s', held) \<and> Queue (poolOf s' p) = [nextBackend s] \<and>
    fst (borrow_wait p [(QueueReady, id)] s') = Ok (nextBackend s)"
proof -
  have ok: "pools_ok held t s" using target_run_ok [OF assms(1)] by simp
  have p: "p \<in> set (target_pools t s)" using allPools_ok(2) [OF ok] assms(2) by simp
  have q: "Queue (poolOf s p) = []" using queue_le_all [OF pools_ok_pool [OF ok p]] assms(3) by simp
  have cap: "0 < QueueCap (poolOf s p)"
    using pools_ok_pool [OF ok p] pools_ok_budget [OF ok] assms(4) by (auto simp: pool_ok_def budget_ok_def split: if_splits)
  obtain s' where g: "growthCycle t s = (Ok (), s')"
    using growthCycle_ok [of held t "target_pools t s" s] ok by (auto simp: ok_with_def)
  have "Queue (poolOf s' p) = [nextBackend s]"
    using growthCycle_empty_pool [OF assms(2,3) q assms(4,5) cap assms(6,7)] g by simp
  then show ?thesis
    using g target_run.step [OF assms(1) target_step.grow [OF g]] by simp
qed





theorem drain_closes_witness: "TotalOpen (targetOf (drain 0 demo_pool) 0) = 0"
proof -
  have "set (CachedPools (targetOf demo_pool 0)) \<union> set (PoolRegistered (targetOf demo_pool 0)) = set (target_pools 0 demo_pool)"
    using demo_pool(2,11) by (simp add: allPools_def Let_def flip: set_append)
  from drain_closes [OF demo_runs(2) this] show ?thesis by simp
qed

theorem empty_pool_grows_witness: "\<exists>s'. growthCycle 0 demo_pool = (Ok (), s') \<and> Queue (poolOf s' 0) = [1]"
  using empty_pool_grows [OF demo_runs(2) demo_pool(2,3) _ demo_pool(7,9) demo_accepting] demo_pool(5,6,10) by auto

section \<open>Pools, the privileged connection, limits\<close>

lemma find_pool_new:
  assumes "select_target s db ts = Some t" "find_pool s db usr ts = None"
    and same: "\<And>u. Draining (targetOf s' u) = Draining (targetOf s u)" "\<And>u. Rules (targetOf s' u) = Rules (targetOf s u)"
    and new: "LookupPool (targetOf s' t) db usr = Some p"
  shows "find_pool s' db usr ts = Some p"
  using assms(1,2)
  by (induction ts) (auto simp: same new targetServesDatabase_def Let_def split: if_splits option.splits)

lemma map_of_update [simp]: "map_of (AList.update k v al) k = Some v"
  by (simp add: update_conv')

lemma getPool_again:
  assumes g: "getPool db usr s = (Ok (Some p), s')"
  shows "getPool db usr s' = (Ok (Some p), s')"
proof (cases "find_pool s db usr (Targets s)")
  case (Some q)
  then show ?thesis using g by (simp add: getPool_def)
next
  case None
  obtain t where t: "select_target s db (Targets s) = Some t" using g None by (auto simp: getPool_def split: option.splits)
  have l: "LookupPool (targetOf s t) db usr = None"
    using select_target_Some [OF t] find_pool_None [OF None] by auto
  have m: "\<not> MaxConnections (targetOf s t) < 0" using g None t by (auto simp: getPool_def)
  have s': "Targets s' = Targets s" "\<And>u. Draining (targetOf s' u) = Draining (targetOf s u)"
      "\<And>u. Rules (targetOf s' u) = Rules (targetOf s u)" "LookupPool (targetOf s' t) db usr = Some p"
    using g None t l m by (auto simp: getPool_def Let_def LookupPool_def split: if_splits)
  have "find_pool s' db usr (Targets s') = Some p"
    unfolding s'(1) by (rule find_pool_new [where s = s and t = t]) (use s' t None in auto)
  then show ?thesis by (simp add: getPool_def)
qed

text \<open>The pool of a database and user: getPool returns a pool made for exactly this database and this user
  (so a session never runs on another user's connection), and asking again returns the same pool.
  Names without NUL bytes, as the startup message delivers them, give different keys.\<close>

theorem getPool_identity:
  assumes "getPool db usr s = (Ok (Some p), s')" and "NUL \<notin> set db"
    and "\<forall>t \<in> set (Targets s). pools_ok (held t) t s \<and> (\<forall>q \<in> set (target_pools t s). NUL \<notin> set (DbName (poolOf s q)))"
  shows "DbName (poolOf s' p) = db \<and> Username (poolOf s' p) = usr \<and> getPool db usr s' = (Ok (Some p), s')"
proof -
  have "DbName (poolOf s' p) = db \<and> Username (poolOf s' p) = usr"
    using assms(1)
  proof (cases rule: getPool_cases)
    case (found t q)
    then have q: "(PoolKey db usr, p) \<in> set (Pools (targetOf s t))" "p \<in> set (target_pools t s)"
      using LookupPool_key by auto
    have "keys_ok t s" using assms(3) found(1) by (auto intro: pools_ok_names)
    then have "PoolKey db usr = PoolKey (DbName (poolOf s p)) (Username (poolOf s p))" using q(1) by (auto simp: keys_ok_def)
    then show ?thesis using PoolKey_inject assms(2,3) found(1,4) q(2) by metis
  next
    case (new t)
    then show ?thesis by (simp add: new_pool_def)
  qed simp_all
  then show ?thesis using getPool_again [OF assms(1)] by blast
qed

lemma grow_loop_full:
  "MaxConnections (targetOf s t) \<le> TotalOpen (targetOf s t) \<Longrightarrow> grow_loop t avail css idles s = (Ok (), s)"
  by (cases css) (simp_all add: prog_defs)

lemma pool_states_contended:
  assumes "pool_states t0 w ps s = (Ok sts, s')" "p \<in> set ps" "All_conns (poolOf s p) = []"
  shows "filter st_contended sts \<noteq> []"
  using assms
proof (induction ps arbitrary: s sts s')
  case (Cons q ps)
  obtain x s1 where 1: "pool_state t0 w q s = (Ok x, s1)" and x: "x = \<lparr>st_pool = q, st_contended = st_contended x, st_excess = st_excess x\<rparr>"
      "All_conns (poolOf s q) = [] \<Longrightarrow> st_contended x" and s1: "\<And>p. All_conns (poolOf s1 p) = All_conns (poolOf s p)"
    by (auto simp: pool_state_def prog_defs Let_def)
  obtain xs s2 where 2: "pool_states t0 w ps s1 = (Ok xs, s2)" "sts = x # xs"
    using Cons.prems(1) 1 by (auto simp: bindP_def returnP_def split: prod.splits res.splits)
  show ?case
  proof (cases "p = q")
    case True
    then show ?thesis using x(2) Cons.prems(3) 2(2) by simp
  next
    case False
    then show ?thesis using Cons.IH [OF 2(1)] Cons.prems s1 2(2) by auto
  qed
qed simp

text \<open>At the limit nothing moves: with TotalOpen at the maximum and some pool contended, a growth cycle
  opens and closes nothing, although another pool may have idle connections to spare. The slots of
  idle pools are recycled only while there is room anyway.\<close>

theorem limit_never_recycles:
  assumes "TotalOpen (targetOf s t) = MaxConnections (targetOf s t)" and "p \<in> set (fst (allPools t s))"
    and "All_conns (poolOf s p) = []"
  shows "\<exists>s'. growthCycle t s = (Ok (), s') \<and> agrees t s s'"
proof -
  obtain pools s1 where a: "allPools t s = (pools, s1)" by fastforce
  have ag1: "agrees t s s1" using a by (auto simp: allPools_def Let_def agrees_def same_target_def same_pool_def)
  have s1: "poolOf s1 = poolOf s" using a by (auto simp: allPools_def Let_def)
  obtain s2 sts where st: "pool_states (now s) (PeakWindow (sv_config s)) pools s1 = (Ok sts, s2)" "agrees t s1 s2" "targetOf s2 = targetOf s1"
      "map st_pool sts = pools"
    using pool_states_ok by blast
  have "filter st_contended sts \<noteq> []"
    by (rule pool_states_contended [OF st(1)]) (use assms(2,3) a s1 in simp_all)
  moreover have "MaxConnections (targetOf s2 t) \<le> TotalOpen (targetOf s2 t)"
    using agrees_trans [OF ag1 st(2)] assms(1) by (simp add: agrees_def same_target_def)
  ultimately show ?thesis
    using a st(1) grow_loop_full agrees_trans [OF ag1 st(2)] by (auto simp: growthCycle_def bindP_def getP_def)
qed

section \<open>The privileged loops\<close>

text \<open>A loop on a backend and a local variable whose body reads one message whenever it goes round.\<close>

definition reads_on :: "(Backend \<times> 'x, 'a option) prog \<Rightarrow> bool" where
  "reads_on body \<longleftrightarrow> (\<forall>s. fst (body s) \<noteq> Blocked) \<and>
     (\<forall>s s'. body s = (Ok None, s') \<longrightarrow> length (c_in (b_conn (fst s'))) < length (c_in (b_conn (fst s))))"

lemma loop_reads_on:
  assumes "reads_on body"
  shows "fst (case loopP (backend_fuel b) body (b, z) of (r, (b', _)) \<Rightarrow> (r, b')) \<noteq> Blocked"
proof -
  have "\<And>s s'. body s = (Ok None, s') \<Longrightarrow> length (c_in (b_conn (fst s'))) < length (c_in (b_conn (fst s)))"
    and "\<And>s. fst (body s) \<noteq> Blocked"
    using assms unfolding reads_on_def by blast+
  then have "fst (loopP (backend_fuel b) body (b, z)) \<noteq> Blocked"
    by (rule loopP_enough [where \<mu> = "\<lambda>s. length (c_in (b_conn (fst s)))"]) simp_all
  then show ?thesis by (simp add: case_prod_beta)
qed

lemma zoom_read_cases:
  assumes "zoomP fst (\<lambda>b s. (b, snd s)) Backend_read s = (r, s')"
  obtains (ok) m k where "r = Ok m" "c_in (b_conn (fst s)) = m # c_in k" "s' = ((fst s)\<lparr>b_conn := k\<rparr>, snd s)"
  | (err) e where "r = Err e" "s' = s"
proof -
  obtain b' where b: "Backend_read (fst s) = (r, b')" "s' = (b', snd s)"
    using assms by (auto simp: zoomP_def split: prod.splits)
  from b(1) show ?thesis by (cases rule: Backend_read_cases) (use that b(2) in auto)
qed

lemma read_loop_body:
  fixes body :: "(Backend \<times> 'x, 'a option) prog"
  assumes body: "body = tryP (zoomP fst (\<lambda>b s. (b, snd s)) Backend_read) h k \<or>
      body = bindP (zoomP fst (\<lambda>b s. (b, snd s)) Backend_read) k"
    and h: "\<And>e s. \<exists>e' s'. h e s = (Err e', s')"
    and k: "\<And>m s r s'. k m s = (r, s') \<Longrightarrow> r \<noteq> Blocked \<and> c_in (b_conn (fst s')) = c_in (b_conn (fst s))"
  shows "reads_on body"
  unfolding reads_on_def
proof (intro conjI allI impI)
  fix s :: "Backend \<times> 'x"
  obtain r s1 where z: "zoomP fst (\<lambda>b s. (b, snd s)) Backend_read s = (r, s1)" by (rule prod.exhaust)
  then show "fst (body s) \<noteq> Blocked"
  proof (cases rule: zoom_read_cases)
    case (ok m c)
    then show ?thesis using body z k [of m s1] by (cases "k m s1") (auto simp: tryP_def bindP_def)
  next
    case (err e)
    then show ?thesis using body z h [of e s1] by (auto simp: tryP_def bindP_def)
  qed
  fix s' assume st: "body s = (Ok None, s')"
  from z show "length (c_in (b_conn (fst s'))) < length (c_in (b_conn (fst s)))"
  proof (cases rule: zoom_read_cases)
    case (ok m c)
    then have "k m s1 = (Ok None, s')" using st body z by (auto simp: tryP_def bindP_def)
    from k [OF this] ok show ?thesis by simp
  next
    case (err e)
    then show ?thesis using st body z h [of e s1] by (auto simp: tryP_def bindP_def)
  qed
qed

lemma MarkStmt_conn [simp]: "b_conn (MarkStmt h b) = b_conn b"
  by (simp add: MarkStmt_def)

lemma deploy_reads_on: "reads_on deploy_step"
  unfolding deploy_step_def
  by (rule read_loop_body [OF disjI1 [OF refl]]) (auto simp: prog_defs split: if_splits)

lemma scram_reads_on: "reads_on (scram_step usr)"
  unfolding scram_step_def
  by (rule read_loop_body [OF disjI1 [OF refl]]) (auto simp: prog_defs split: if_splits option.splits sum.splits)

lemma stats_reads_on: "reads_on stats_step"
proof -
  have "reads_on (bindP (zoomP fst (\<lambda>b s. (b, snd s)) Backend_read) (\<lambda>(msgType, body).
     bindP (getP snd) (\<lambda>m.
     if msgType = CHR ''1'' then thenP (modifyP (\<lambda>s. (MarkStmt statsStmtHash (fst s), snd s))) (returnP None)
     else if msgType = CHR ''D'' then
       (case stats_row body m of
          None \<Rightarrow> panicP
        | Some m' \<Rightarrow> thenP (modifyP (\<lambda>s. (fst s, m'))) (returnP None))
     else if msgType = CHR ''Z'' then returnP (Some m)
     else if msgType = CHR ''E'' then failP (Errorf (ParseErrorMessage body))
     else returnP None)))"
    by (rule read_loop_body [OF disjI2 [OF refl], where h = "\<lambda>e. failP e"]) (auto simp: prog_defs split: if_splits option.splits)
  then show ?thesis by (simp add: stats_step_def)
qed

lemma ends_io [ends_intros]: "ends Backend_read" "ends (Backend_write m)"
  unfolding ends_def using Backend_read_not(2) Backend_write_cases by (metis prod.collapse res.distinct(5) res.distinct(9))+

lemma ends_reads_on: "reads_on body \<Longrightarrow> ends (\<lambda>b. case loopP (backend_fuel b) body (b, z) of (r, (b', _)) \<Rightarrow> (r, b'))"
  unfolding ends_def by (intro allI loop_reads_on)

lemma ends_ready: "ends drainUntilReady"
proof -
  have "fst (loopP (backend_fuel b) ready_step b) \<noteq> Blocked" for b
  proof (rule loopP_enough [where \<mu> = "\<lambda>b. length (c_in (b_conn b))"])
    fix s s' assume "ready_step s = (Ok None, s')"
    then show "length (c_in (b_conn s')) < length (c_in (b_conn s))"
      by (auto simp: ready_step_def wrapP_iffs Backend_read_Ok leafP_iffs split: if_splits)
  next
    have "ends ready_step" unfolding ready_step_def by (intro ends_intros)
    then show "fst (ready_step s) \<noteq> Blocked" for s by (simp add: ends_def)
  qed simp
  then show ?thesis by (simp add: ends_def drainUntilReady_def del: loopP.simps)
qed

lemma ends_on_backend [ends_intros]: "ends m \<Longrightarrow> ends (on_backend b m)"
  unfolding on_backend_def by (intro ends_intros)

lemma ends_deploy: "ends deployPrivilegedStmts"
  unfolding deployPrivilegedStmts_def by (intro ends_intros ends_reads_on deploy_reads_on)

lemma ends_fetch: "ends (fetchSCRAMVerifier t usr)"
  unfolding fetchSCRAMVerifier_def fetch_on_def by (intro ends_intros ends_reads_on scram_reads_on)

lemma ends_stats: "ends (updateServerStats t)"
  unfolding updateServerStats_def stats_on_def by (intro ends_intros ends_reads_on stats_reads_on)

lemma ends_create [ends_intros]: "ends (createCertBackend t db usr)"
  unfolding ends_def
proof
  fix s show "fst (createCertBackend t db usr s) \<noteq> Blocked"
    using createCertBackend_fresh [of t db usr s] by (cases "createCertBackend t db usr s") (auto simp: fresh_conn_def)
qed

lemma ends_check_privileged: "ends (check_privileged t)"
  unfolding check_privileged_def replace_privileged_def privilegedResponsive_def
  by (intro ends_intros ends_deploy ends_ready)

lemma ends_healthCheck: "ends (healthCheck t)"
proof -
  have "ends (check_pool t cutoff p)" for cutoff p
    unfolding check_pool_def check_idle_def by (intro ends_intros)
  then have "ends (\<lambda>s. case allPools t s of (pools, s1) \<Rightarrow> forP pools (check_pool t cutoff) s1)" for cutoff
    using ends_for [of "check_pool t cutoff"] by (simp add: ends_def case_prod_beta)
  then show ?thesis unfolding healthCheck_def by (intro ends_intros ends_check_privileged)
qed

text \<open>The conversations of the target goroutine on its privileged connection end: authentication lookups,
  statistics and health checks come back after at most as many reads as there are messages to read,
  whatever these messages are, so none of them can stop the goroutine's loop while PostgreSQL keeps
  sending.\<close>

theorem privileged_loops_end:
  "fst (fetchSCRAMVerifier t usr s) \<noteq> Blocked \<and> fst (updateServerStats t s) \<noteq> Blocked \<and> fst (healthCheck t s) \<noteq> Blocked"
  using ends_fetch ends_stats ends_healthCheck unfolding ends_def by blast

lemma fetch_on_deployed:
  assumes "HasStmt scramStmtHash b" "sound_conn (b_conn b)" "\<forall>m \<in> {BuildBindBody [] scramStmtHash [] [usr] [1], BuildExecuteBody [] 0, SyncBody}. int (length m) \<le> c_max (b_conn b)"
  shows "fetch_on usr b =
    (let b' = b\<lparr>b_conn := (b_conn b)\<lparr>c_out := c_out (b_conn b) @ [(CHR ''B'', BuildBindBody [] scramStmtHash [] [usr] [1]),
         (CHR ''E'', BuildExecuteBody [] 0), (CHR ''S'', SyncBody)]\<rparr>\<rparr>
     in case loopP (backend_fuel b') (scram_step usr) (b', []) of (r, (b'', _)) \<Rightarrow> (r, b''))"
  using assms by (simp add: fetch_on_def bindP_def getP_def returnP_def tryP_def sound_conn_def Let_def del: loopP.simps)

lemma loopP_step: "body s = (Ok None, s') \<Longrightarrow> loopP (Suc n) body s = loopP n body s'"
  by (simp add: bindP_def)

lemma loopP_stop: "body s = (Err e, s') \<Longrightarrow> loopP (Suc n) body s = (Err e, s')"
  by (simp add: bindP_def)

lemma scram_step_read:
  assumes "\<not> c_closed (b_conn b)" "c_in (b_conn b) = (ty, body) # ms"
  shows "ty \<in> {CHR ''2'', CHR ''C''} \<Longrightarrow> scram_step usr (b, pw) = (Ok None, (b\<lparr>b_conn := (b_conn b)\<lparr>c_in := ms\<rparr>\<rparr>, pw))"
    and "ty = CHR ''D'' \<Longrightarrow> scram_row body pw = None \<Longrightarrow>
      scram_step usr (b, pw) = (Err (Errorf (''user '' @ usr @ '' has no password set in pg_authid'')), (b\<lparr>b_conn := (b_conn b)\<lparr>c_in := ms\<rparr>\<rparr>, pw))"
    and "ty = CHR ''Z'' \<Longrightarrow> pw = [] \<Longrightarrow>
      scram_step usr (b, pw) = (Err (Errorf (''user '' @ usr @ '' not found in pg_authid'')), (b\<lparr>b_conn := (b_conn b)\<lparr>c_in := ms\<rparr>\<rparr>, pw))"
  using assms by (auto simp: scram_step_def prog_defs)

lemma scram_loop:
  assumes "\<not> c_closed (b_conn b)" "c_in (b_conn b) = (ty, body) # ms"
  shows "ty \<in> {CHR ''2'', CHR ''C''} \<Longrightarrow>
      loopP (Suc n) (scram_step usr) (b, pw) = loopP n (scram_step usr) (b\<lparr>b_conn := (b_conn b)\<lparr>c_in := ms\<rparr>\<rparr>, pw)"
    and "ty = CHR ''D'' \<Longrightarrow> scram_row body pw = None \<Longrightarrow> loopP (Suc n) (scram_step usr) (b, pw) =
      (Err (Errorf (''user '' @ usr @ '' has no password set in pg_authid'')), (b\<lparr>b_conn := (b_conn b)\<lparr>c_in := ms\<rparr>\<rparr>, pw))"
    and "ty = CHR ''Z'' \<Longrightarrow> pw = [] \<Longrightarrow> loopP (Suc n) (scram_step usr) (b, pw) =
      (Err (Errorf (''user '' @ usr @ '' not found in pg_authid'')), (b\<lparr>b_conn := (b_conn b)\<lparr>c_in := ms\<rparr>\<rparr>, pw))"
  by (rule loopP_step, rule scram_step_read(1) [OF assms], assumption)
    (rule loopP_stop, rule scram_step_read(2) [OF assms], assumption+, rule loopP_stop, rule scram_step_read(3) [OF assms], assumption+)

text \<open>A lookup that finds a user without password leaves the rest of the answer on the privileged
  connection. The next lookup, for another user, reads that rest and answers that the user does not
  exist, whatever PostgreSQL sends for it.\<close>

theorem scram_lookup_desync:
  fixes b :: Backend
  assumes "HasStmt scramStmtHash b" and "sound_conn (b_conn b)"
    and "\<forall>usr \<in> {u1, u2}. \<forall>m \<in> {BuildBindBody [] scramStmtHash [] [usr] [1], BuildExecuteBody [] 0, SyncBody}. int (length m) \<le> c_max (b_conn b)"
    and "c_in (b_conn b) = (CHR ''2'', x) # (CHR ''D'', row) # (CHR ''C'', y) # (CHR ''Z'', z) # answer"
    and "scram_row row [] = None"
  shows "\<exists>b1 b2. fetch_on u1 b = (Err (Errorf (''user '' @ u1 @ '' has no password set in pg_authid'')), b1) \<and>
    fetch_on u2 b1 = (Err (Errorf (''user '' @ u2 @ '' not found in pg_authid'')), b2) \<and> c_in (b_conn b2) = answer"
proof -
  have nc: "\<not> c_closed (b_conn b)" "c_room (b_conn b) = None" using assms(2) by (simp_all add: sound_conn_def)
  define b1 where "b1 = snd (fetch_on u1 b)"
  have 1: "fetch_on u1 b = (Err (Errorf (''user '' @ u1 @ '' has no password set in pg_authid'')), b1)"
    and b1: "c_in (b_conn b1) = (CHR ''C'', y) # (CHR ''Z'', z) # answer" "sound_conn (b_conn b1)" "c_max (b_conn b1) = c_max (b_conn b)"
      "HasStmt scramStmtHash b1"
    using assms nc unfolding b1_def
    by (simp_all add: fetch_on_deployed Let_def scram_loop sound_conn_def
        HasStmt_def del: loopP.simps)
  have nc1: "\<not> c_closed (b_conn b1)" "c_room (b_conn b1) = None" using b1(2) by (simp_all add: sound_conn_def)
  define b2 where "b2 = snd (fetch_on u2 b1)"
  have "fetch_on u2 b1 = (Err (Errorf (''user '' @ u2 @ '' not found in pg_authid'')), b2)" "c_in (b_conn b2) = answer"
    using b1 nc1 assms(3) unfolding b2_def
    by (simp_all add: fetch_on_deployed Let_def scram_loop del: loopP.simps)
  then show ?thesis using 1 by blast
qed

definition desync_backend :: Backend where
  "desync_backend = MarkStmt scramStmtHash (NewBackend
     (demo_conn\<lparr>c_room := None, c_in := [(CHR ''2'', []), (CHR ''D'', CHR 0x00 # CHR 0x01 # replicate 4 (CHR 0xFF)),
       (CHR ''C'', []), (CHR ''Z'', ''I'')]\<rparr>) [] [] [] 0)"

theorem scram_lookup_desync_witness: "\<exists>b1. fst (fetch_on ''carol'' b1) = Err (Errorf ''user carol not found in pg_authid'')"
proof -
  have row: "scram_row (CHR 0x00 # CHR 0x01 # replicate 4 (CHR 0xFF)) [] = None"
    by code_simp
  have len: "\<forall>usr \<in> {''bob'', ''carol''}. \<forall>m \<in> {BuildBindBody [] scramStmtHash [] [usr] [1], BuildExecuteBody [] 0, SyncBody}. int (length m) \<le> 1000"
    by code_simp
  have "\<exists>b1 b2. fetch_on ''bob'' desync_backend = (Err (Errorf (''user '' @ ''bob'' @ '' has no password set in pg_authid'')), b1) \<and>
    fetch_on ''carol'' b1 = (Err (Errorf (''user '' @ ''carol'' @ '' not found in pg_authid'')), b2) \<and> c_in (b_conn b2) = []"
  proof (rule scram_lookup_desync [OF _ _ _ _ row])
    show "HasStmt scramStmtHash desync_backend" by (simp add: desync_backend_def HasStmt_def MarkStmt_def NewBackend_def)
    show "sound_conn (b_conn desync_backend)" by (simp add: desync_backend_def NewBackend_def sound_conn_def demo_conn_def)
    show "\<forall>usr \<in> {''bob'', ''carol''}. \<forall>m \<in> {BuildBindBody [] scramStmtHash [] [usr] [1], BuildExecuteBody [] 0, SyncBody}.
        int (length m) \<le> c_max (b_conn desync_backend)"
      using len by (simp add: desync_backend_def NewBackend_def demo_conn_def)
  qed (simp add: desync_backend_def NewBackend_def)
  then show ?thesis by (metis append_Cons append_Nil fst_conv)
qed

theorem getPool_identity_witness:
  "getPool ''app'' ''bob'' demo_pool = (Ok (Some 0), demo_pool) \<and> Username (poolOf demo_pool 0) = ''bob''"
proof -
  have "\<forall>t \<in> set (Targets demo_opened). pools_ok {} t demo_opened \<and>
      (\<forall>q \<in> set (target_pools t demo_opened). NUL \<notin> set (DbName (poolOf demo_opened q)))"
    using target_run_ok [OF demo_runs(1)] demo_opened by (simp add: target_pools_def)
  from getPool_identity [OF demo_pool(1) _ this] show ?thesis by simp
qed

theorem limit_never_recycles_witness:
  "\<exists>s'. growthCycle 0 (upd_target 0 (\<lambda>x. x\<lparr>MaxConnections := 1\<rparr>) demo_pool) = (Ok (), s')"
  using limit_never_recycles [of "upd_target 0 (\<lambda>x. x\<lparr>MaxConnections := 1\<rparr>) demo_pool" 0 0] demo_pool(2,3,5)
  by (auto simp: allPools_def Let_def simp flip: set_append Un_iff)

end
