(* ===== verification/Pgfox_Forward.thy ===== *)
theory Pgfox_Forward
  imports Pgfox_Run
begin

text \<open>
  Relaying answers: the loops of \<open>src/pkg/pgfox/query.go\<close> that read from a backend until
  \<open>ReadyForQuery\<close> (or the end of a flushed \<open>Describe\<close>) and write to the client. A client and a
  backend are named by their identifiers; the loops keep the hashes of the forwarded Parse messages
  that are still to be confirmed as local state. A Go status byte 0 returned with a nil error is the
  result \<open>NUL\<close>.
\<close>

section \<open>Sending\<close>

definition client_send :: "clientId \<Rightarrow> msg \<Rightarrow> (Server, unit) prog" where
  "client_send c m = on_client c (Client_write m)"

definition send_error :: "clientId \<Rightarrow> string \<Rightarrow> string \<Rightarrow> string \<Rightarrow> (Server, unit) prog" where
  "send_error c severity code message = client_send c (SendErrorResponse severity code message)"

definition backend_send :: "backendId \<Rightarrow> msg \<Rightarrow> (Server, unit) prog" where
  "backend_send b m = on_backend b (Backend_write m)"

definition forwardQueryToBackend :: "backendId \<Rightarrow> string \<Rightarrow> (Server, unit) prog" where
  "forwardQueryToBackend b query = backend_send b (CHR ''Q'', query @ [NUL])"

text \<open>\<open>client.SetActiveBackend(backend); defer client.SetActiveBackend(nil)\<close>.\<close>

definition with_active :: "clientId \<Rightarrow> backendId \<Rightarrow> (Server, 'a) prog \<Rightarrow> (Server, 'a) prog" where
  "with_active c b m =
     thenP (modifyP (upd_client c (SetActiveBackend (Some b)))) (deferP (upd_client c (SetActiveBackend None)) m)"

definition ready_status :: "bytes \<Rightarrow> byte" where
  "ready_status body = (case body of [] \<Rightarrow> CHR ''I'' | st # _ \<Rightarrow> if st \<noteq> NUL then st else CHR ''I'')"

section \<open>The loops\<close>

text \<open>\<open>forwardCompleteBackendResponse\<close>.\<close>

definition complete_step :: "clientId \<Rightarrow> backendId \<Rightarrow> (Server, byte option) prog" where
  "complete_step c b =
     tryP (on_backend b Backend_read)
       (\<lambda>e. failP (if is_op_timeout e then Errorf ''query timeout'' else e))
       (\<lambda>(msgType, body).
         thenP (client_send c (msgType, body))
           (returnP (if msgType = CHR ''Z'' then Some (ready_status body) else None)))"

definition forwardCompleteBackendResponse :: "clientId \<Rightarrow> backendId \<Rightarrow> (Server, byte) prog" where
  "forwardCompleteBackendResponse c b =
     with_active c b (\<lambda>s. loopP (backend_fuel (backendOf s b)) (complete_step c b) s)"

text \<open>\<open>forwardExtendedResponse\<close>; the local state is \<open>sentParseHashes[parseIdx:]\<close>.\<close>

definition serverP :: "(Server, 'a) prog \<Rightarrow> (Server \<times> 'x, 'a) prog" where
  "serverP m = zoomP fst (\<lambda>s x. (s, snd x)) m"

definition confirm_parse :: "backendId \<Rightarrow> byte \<Rightarrow> Server \<times> string list \<Rightarrow> Server \<times> string list" where
  "confirm_parse b msgType x =
     (if msgType = CHR ''1''
      then (case snd x of [] \<Rightarrow> x | h # hs \<Rightarrow> (upd_backend b (MarkStmt h) (fst x), hs))
      else x)"

definition read_failed :: "clientId \<Rightarrow> goerr \<Rightarrow> (Server, unit) prog" where
  "read_failed c e =
     (if is_op_timeout e then send_error c ''ERROR'' ''57014'' ''query timeout''
      else send_error c ''ERROR'' ''08006'' ''connection failure'')"

definition extended_step :: "clientId \<Rightarrow> backendId \<Rightarrow> (Server \<times> string list, byte option) prog" where
  "extended_step c b =
     tryP (serverP (on_backend b Backend_read))
       (\<lambda>e. thenP (serverP (read_failed c e)) (returnP (Some NUL)))
       (\<lambda>(msgType, body).
         thenP (modifyP (confirm_parse b msgType))
         (thenP (serverP (client_send c (msgType, body)))
           (returnP (if msgType = CHR ''Z'' then Some (ready_status body) else None))))"

definition run_local :: "(Server \<Rightarrow> nat) \<Rightarrow> (Server \<times> 'x, 'a option) prog \<Rightarrow> 'x \<Rightarrow> (Server, 'a) prog" where
  "run_local fuel body x s = (case loopP (fuel s) body (s, x) of (r, (s', _)) \<Rightarrow> (r, s'))"

definition forwardExtendedResponse :: "clientId \<Rightarrow> backendId \<Rightarrow> string list \<Rightarrow> (Server, byte) prog" where
  "forwardExtendedResponse c b sentParseHashes =
     with_active c b (run_local (\<lambda>s. backend_fuel (backendOf s b)) (extended_step c b) sentParseHashes)"

definition forwardUntilReady :: "clientId \<Rightarrow> backendId \<Rightarrow> (Server, byte) prog" where
  "forwardUntilReady c b = forwardExtendedResponse c b []"

text \<open>\<open>drainFlushResponse\<close>.\<close>

definition flush_step :: "clientId \<Rightarrow> backendId \<Rightarrow> (Server \<times> string list, unit option) prog" where
  "flush_step c b =
     tryP (serverP (on_backend b Backend_read))
       (\<lambda>_. thenP (serverP (send_error c ''ERROR'' ''08006'' ''connection failure'')) (returnP (Some ())))
       (\<lambda>(msgType, body).
         thenP (modifyP (confirm_parse b msgType))
         (thenP (serverP (client_send c (msgType, body)))
           (returnP (if msgType \<in> {CHR ''T'', CHR ''n'', CHR ''E''} then Some () else None))))"

definition drainFlushResponse :: "clientId \<Rightarrow> backendId \<Rightarrow> string list \<Rightarrow> (Server, unit) prog" where
  "drainFlushResponse c b sentParseHashes =
     with_active c b (run_local (\<lambda>s. backend_fuel (backendOf s b)) (flush_step c b) sentParseHashes)"

text \<open>\<open>forwardPreparedResponse\<close>; \<open>t\<close> is the target whose cache holds the entry of \<open>hash\<close>.\<close>

definition deploy_confirmed :: "targetId \<Rightarrow> backendId \<Rightarrow> string \<Rightarrow> Server \<Rightarrow> Server" where
  "deploy_confirmed t b hash s =
     (if HasStmt hash (backendOf s b) then s
      else upd_target t (\<lambda>x. x\<lparr>t_stmts := on_entry hash RecordDeploy (t_stmts x)\<rparr>) (upd_backend b (MarkStmt hash) s))"

definition prepared_step :: "targetId \<Rightarrow> clientId \<Rightarrow> backendId \<Rightarrow> string \<Rightarrow> (Server, byte option) prog" where
  "prepared_step t c b hash =
     tryP (on_backend b Backend_read)
       (\<lambda>e. thenP (read_failed c e) (returnP (Some NUL)))
       (\<lambda>(msgType, body).
         if msgType = CHR ''1'' then thenP (modifyP (deploy_confirmed t b hash)) (returnP None)
         else if msgType = CHR ''2'' \<or> msgType = CHR ''n'' then returnP None
         else thenP (client_send c (msgType, body))
           (returnP (if msgType = CHR ''Z'' then Some (ready_status body) else None)))"

definition forwardPreparedResponse :: "targetId \<Rightarrow> clientId \<Rightarrow> backendId \<Rightarrow> string \<Rightarrow> (Server, byte) prog" where
  "forwardPreparedResponse t c b hash =
     with_active c b (\<lambda>s. loopP (backend_fuel (backendOf s b)) (prepared_step t c b hash) s)"

section \<open>What a relay does\<close>

text \<open>A loop that handles one message of its source at a time: messages that are kept go to the sink
  unchanged, the others disappear, and \<open>ReadyForQuery\<close> ends it.\<close>

locale relay =
  fixes body :: "('s, byte option) prog" and inp outp :: "'s \<Rightarrow> msg list"
    and good :: "'s \<Rightarrow> bool" and fits :: "msg \<Rightarrow> bool" and keep :: "msg \<Rightarrow> bool"
  assumes goes_on: "good s \<Longrightarrow> inp s = m # ms \<Longrightarrow> fits m \<Longrightarrow> fst m \<noteq> CHR ''Z'' \<Longrightarrow>
      \<exists>s'. body s = (Ok None, s') \<and> good s' \<and> inp s' = ms \<and> outp s' = outp s @ filter keep [m]"
    and stops: "good s \<Longrightarrow> inp s = (CHR ''Z'', z) # ms \<Longrightarrow> fits (CHR ''Z'', z) \<Longrightarrow>
      \<exists>s'. body s = (Ok (Some (ready_status z)), s') \<and> good s' \<and> inp s' = ms \<and> outp s' = outp s @ [(CHR ''Z'', z)]"
begin

lemma relayed:
  assumes "good s" "inp s = ms @ (CHR ''Z'', z) # rest" "\<forall>m \<in> set ms. fst m \<noteq> CHR ''Z'' \<and> fits m" "fits (CHR ''Z'', z)"
    and "length ms < n"
  shows "\<exists>s'. loopP n body s = (Ok (ready_status z), s') \<and> good s' \<and> inp s' = rest \<and>
    outp s' = outp s @ filter keep ms @ [(CHR ''Z'', z)]"
  using assms
proof (induction ms arbitrary: s n)
  case Nil
  obtain n' where n: "n = Suc n'" using Nil by (cases n) auto
  then show ?case using stops [of s z rest] Nil by (auto simp: bindP_def returnP_def)
next
  case (Cons m ms)
  obtain n' where n: "n = Suc n'" using Cons.prems by (cases n) auto
  obtain s1 where s1: "body s = (Ok None, s1)" "good s1" "inp s1 = ms @ (CHR ''Z'', z) # rest" "outp s1 = outp s @ filter keep [m]"
    using goes_on [of s m] Cons.prems by auto
  have "length ms < n'" using Cons.prems(5) n by simp
  then obtain s2 where "loopP n' body s1 = (Ok (ready_status z), s2)" "good s2" "inp s2 = rest"
      "outp s2 = outp s1 @ filter keep ms @ [(CHR ''Z'', z)]"
    using Cons.IH [OF s1(2,3)] Cons.prems by auto
  then show ?case using s1 n by (simp add: bindP_def)
qed

end

definition links_ok :: "int \<Rightarrow> clientId \<Rightarrow> backendId \<Rightarrow> Server \<Rightarrow> bool" where
  "links_ok mx c b s \<longleftrightarrow> sound_conn (cl_conn (clientOf s c)) \<and> c_max (cl_conn (clientOf s c)) = mx \<and> \<not> c_closed (b_conn (backendOf s b))"

definition from_backend :: "backendId \<Rightarrow> Server \<Rightarrow> msg list" where
  "from_backend b s = c_in (b_conn (backendOf s b))"

definition to_client :: "clientId \<Rightarrow> Server \<Rightarrow> msg list" where
  "to_client c s = c_out (cl_conn (clientOf s c))"

lemma backend_read_head:
  assumes "links_ok mx c b s" "from_backend b s = m # ms"
  shows "\<exists>s'. on_backend b Backend_read s = (Ok m, s') \<and> links_ok mx c b s' \<and> from_backend b s' = ms \<and> to_client c s' = to_client c s"
  using assms by (simp add: on_backend_def zoomP_def links_ok_def from_backend_def to_client_def)

lemma client_send_ok:
  assumes "links_ok mx c b s" "int (length (snd m)) \<le> mx"
  shows "\<exists>s'. client_send c m s = (Ok (), s') \<and> links_ok mx c b s' \<and> from_backend b s' = from_backend b s \<and>
    to_client c s' = to_client c s @ [m]"
  using assms by (simp add: client_send_def on_client_def zoomP_def links_ok_def from_backend_def to_client_def)

lemma links_upd [simp]:
  "links_ok mx c b (upd_backend b' (MarkStmt h) s) = links_ok mx c b s" "links_ok mx c b (upd_target t f s) = links_ok mx c b s"
  "from_backend b (upd_backend b' (MarkStmt h) s) = from_backend b s" "from_backend b (upd_target t f s) = from_backend b s"
  "to_client c (upd_backend b' g s) = to_client c s" "to_client c (upd_target t f s) = to_client c s"
  "links_ok mx c b (upd_client c (SetActiveBackend a) s) = links_ok mx c b s"
  "from_backend b (upd_client c' g' s) = from_backend b s" "to_client c (upd_client c (SetActiveBackend a) s) = to_client c s"
  by (simp_all add: links_ok_def from_backend_def to_client_def MarkStmt_def SetActiveBackend_def)

interpretation complete: relay "complete_step c b" "from_backend b" "to_client c" "links_ok mx c b"
  "\<lambda>m. int (length (snd m)) \<le> mx" "\<lambda>_. True" for c b mx
proof
  fix s m ms assume a: "links_ok mx c b s" "from_backend b s = m # ms" "int (length (snd m)) \<le> mx" "fst m \<noteq> CHR ''Z''"
  obtain s1 where 1: "on_backend b Backend_read s = (Ok m, s1)" "links_ok mx c b s1" "from_backend b s1 = ms" "to_client c s1 = to_client c s"
    using backend_read_head [OF a(1,2)] by blast
  with client_send_ok [OF 1(2) a(3)] a(4) show "\<exists>s'. complete_step c b s = (Ok None, s') \<and> links_ok mx c b s' \<and>
      from_backend b s' = ms \<and> to_client c s' = to_client c s @ filter (\<lambda>_. True) [m]"
    by (cases m) (auto simp: complete_step_def tryP_def thenP_def bindP_def returnP_def)
next
  fix s z ms assume a: "links_ok mx c b s" "from_backend b s = (CHR ''Z'', z) # ms" "int (length (snd (CHR ''Z'', z))) \<le> mx"
  obtain s1 where 1: "on_backend b Backend_read s = (Ok (CHR ''Z'', z), s1)" "links_ok mx c b s1" "from_backend b s1 = ms"
      "to_client c s1 = to_client c s"
    using backend_read_head [OF a(1,2)] by blast
  with client_send_ok [OF 1(2) a(3)] show "\<exists>s'. complete_step c b s = (Ok (Some (ready_status z)), s') \<and> links_ok mx c b s' \<and>
      from_backend b s' = ms \<and> to_client c s' = to_client c s @ [(CHR ''Z'', z)]"
    by (auto simp: complete_step_def tryP_def thenP_def bindP_def returnP_def)
qed

lemma serverP_run: "serverP m (s, x) = (fst (m s), (snd (m s), x))"
  by (simp add: serverP_def zoomP_def case_prod_beta)

lemma confirm_parse_links [simp]:
  "links_ok mx c b (fst (confirm_parse b' ty x)) = links_ok mx c b (fst x)"
  "from_backend b (fst (confirm_parse b' ty x)) = from_backend b (fst x)"
  "to_client c (fst (confirm_parse b' ty x)) = to_client c (fst x)"
  by (auto simp: confirm_parse_def split: list.split)

text \<open>One message read, accounted for and passed on, by the two loops that have local state.\<close>

lemma pass_on:
  fixes x :: "Server \<times> string list"
  assumes "links_ok mx c b (fst x)" "from_backend b (fst x) = m # ms" "int (length (snd m)) \<le> mx"
  shows "\<exists>x'. tryP (serverP (on_backend b Backend_read)) h (\<lambda>(ty, bd). thenP (modifyP (confirm_parse b ty))
      (thenP (serverP (client_send c (ty, bd))) (k ty bd))) x = k (fst m) (snd m) x' \<and>
    links_ok mx c b (fst x') \<and> from_backend b (fst x') = ms \<and> to_client c (fst x') = to_client c (fst x) @ [m]"
proof -
  obtain s hs where x: "x = (s, hs)" by (cases x)
  obtain s1 where 1: "on_backend b Backend_read s = (Ok m, s1)" "links_ok mx c b s1" "from_backend b s1 = ms" "to_client c s1 = to_client c s"
    using backend_read_head [of mx c b s m ms] assms x by auto
  let ?y = "confirm_parse b (fst m) (s1, hs)"
  obtain s2 where 2: "client_send c m (fst ?y) = (Ok (), s2)" "links_ok mx c b s2" "from_backend b s2 = from_backend b (fst ?y)"
      "to_client c s2 = to_client c (fst ?y) @ [m]"
    using client_send_ok [of mx c b "fst ?y" m] 1 assms(3) by auto
  have "tryP (serverP (on_backend b Backend_read)) h (\<lambda>(ty, bd). thenP (modifyP (confirm_parse b ty))
      (thenP (serverP (client_send c (ty, bd))) (k ty bd))) x = k (fst m) (snd m) (s2, snd ?y)"
    using 1 2 by (cases m, cases ?y) (simp add: x tryP_def thenP_def bindP_def modifyP_def serverP_run)
  then show ?thesis using 1 2 x by (intro exI [of _ "(s2, snd ?y)"]) simp
qed

interpretation extended: relay "extended_step c b" "\<lambda>x. from_backend b (fst x)" "\<lambda>x. to_client c (fst x)"
  "\<lambda>x. links_ok mx c b (fst x)" "\<lambda>m. int (length (snd m)) \<le> mx" "\<lambda>_. True" for c b mx
proof
  fix x :: "Server \<times> string list" and m ms assume a: "links_ok mx c b (fst x)" "from_backend b (fst x) = m # ms" "int (length (snd m)) \<le> mx" "fst m \<noteq> CHR ''Z''"
  show "\<exists>x'. extended_step c b x = (Ok None, x') \<and> links_ok mx c b (fst x') \<and>
      from_backend b (fst x') = ms \<and> to_client c (fst x') = to_client c (fst x) @ filter (\<lambda>_. True) [m]"
    using pass_on [OF a(1,2,3), of "\<lambda>e. thenP (serverP (read_failed c e)) (returnP (Some NUL))"
        "\<lambda>ty bd. returnP (if ty = CHR ''Z'' then Some (ready_status bd) else None)"] a(4)
    by (auto simp: extended_step_def returnP_def)
next
  fix x :: "Server \<times> string list" and z ms assume a: "links_ok mx c b (fst x)" "from_backend b (fst x) = (CHR ''Z'', z) # ms" "int (length (snd (CHR ''Z'', z))) \<le> mx"
  show "\<exists>x'. extended_step c b x = (Ok (Some (ready_status z)), x') \<and> links_ok mx c b (fst x') \<and>
      from_backend b (fst x') = ms \<and> to_client c (fst x') = to_client c (fst x) @ [(CHR ''Z'', z)]"
    using pass_on [OF a, of "\<lambda>e. thenP (serverP (read_failed c e)) (returnP (Some NUL))"
        "\<lambda>ty bd. returnP (if ty = CHR ''Z'' then Some (ready_status bd) else None)"]
    by (auto simp: extended_step_def returnP_def)
qed

definition simple_visible :: "msg \<Rightarrow> bool" where
  "simple_visible m \<longleftrightarrow> fst m \<notin> {CHR ''1'', CHR ''2'', CHR ''n''}"

lemma deploy_confirmed_links [simp]:
  "links_ok mx c b (deploy_confirmed t b' h s) = links_ok mx c b s" "from_backend b (deploy_confirmed t b' h s) = from_backend b s"
  "to_client c (deploy_confirmed t b' h s) = to_client c s"
  by (simp_all add: deploy_confirmed_def)

interpretation prepared: relay "prepared_step t c b h" "from_backend b" "to_client c" "links_ok mx c b"
  "\<lambda>m. int (length (snd m)) \<le> mx" simple_visible for t c b h mx
proof
  fix s m ms assume a: "links_ok mx c b s" "from_backend b s = m # ms" "int (length (snd m)) \<le> mx" "fst m \<noteq> CHR ''Z''"
  obtain s1 where 1: "on_backend b Backend_read s = (Ok m, s1)" "links_ok mx c b s1" "from_backend b s1 = ms" "to_client c s1 = to_client c s"
    using backend_read_head [OF a(1,2)] by blast
  with client_send_ok [OF 1(2) a(3)] a(4) show "\<exists>s'. prepared_step t c b h s = (Ok None, s') \<and> links_ok mx c b s' \<and>
      from_backend b s' = ms \<and> to_client c s' = to_client c s @ filter simple_visible [m]"
    by (cases m) (auto simp: prepared_step_def simple_visible_def tryP_def thenP_def bindP_def returnP_def modifyP_def)
next
  fix s z ms assume a: "links_ok mx c b s" "from_backend b s = (CHR ''Z'', z) # ms" "int (length (snd (CHR ''Z'', z))) \<le> mx"
  obtain s1 where 1: "on_backend b Backend_read s = (Ok (CHR ''Z'', z), s1)" "links_ok mx c b s1" "from_backend b s1 = ms"
      "to_client c s1 = to_client c s"
    using backend_read_head [OF a(1,2)] by blast
  with client_send_ok [OF 1(2) a(3)] show "\<exists>s'. prepared_step t c b h s = (Ok (Some (ready_status z)), s') \<and> links_ok mx c b s' \<and>
      from_backend b s' = ms \<and> to_client c s' = to_client c s @ [(CHR ''Z'', z)]"
    by (auto simp: prepared_step_def tryP_def thenP_def bindP_def returnP_def)
qed

lemma with_active_relayed:
  assumes "\<exists>s'. m (upd_client c (SetActiveBackend (Some b)) s) = (Ok r, s') \<and> links_ok mx c b s' \<and> from_backend b s' = rest \<and>
      to_client c s' = out"
  shows "\<exists>s'. with_active c b m s = (Ok r, s') \<and> links_ok mx c b s' \<and> from_backend b s' = rest \<and> to_client c s' = out \<and>
    activeBackend (clientOf s' c) = None"
  using assms by (auto simp: with_active_def thenP_def bindP_def modifyP_def deferP_def SetActiveBackend_def [of None])

text \<open>C12: A complete answer of a backend, up to ReadyForQuery, reaches the client unchanged and in order: every
  message of it after a simple query and in the extended protocol; all but ParseComplete,
  BindComplete and NoData when pgfox itself turned the query into a prepared statement. The result is
  the transaction status, and the next read on the backend starts after the answer.\<close>

theorem response_relayed:
  assumes "sound_conn (cl_conn (clientOf s c))" and "\<not> c_closed (b_conn (backendOf s b))"
    and "from_backend b s = ms @ (CHR ''Z'', z) # rest" and "\<forall>m \<in> set ms. fst m \<noteq> CHR ''Z''"
    and "\<forall>m \<in> set ms \<union> {(CHR ''Z'', z)}. int (length (snd m)) \<le> c_max (cl_conn (clientOf s c))"
  shows "(\<exists>s'. forwardCompleteBackendResponse c b s = (Ok (ready_status z), s') \<and> from_backend b s' = rest \<and>
       to_client c s' = to_client c s @ ms @ [(CHR ''Z'', z)]) \<and>
    (\<exists>s'. forwardExtendedResponse c b hashes s = (Ok (ready_status z), s') \<and> from_backend b s' = rest \<and>
       to_client c s' = to_client c s @ ms @ [(CHR ''Z'', z)]) \<and>
    (\<exists>s'. forwardPreparedResponse t c b h s = (Ok (ready_status z), s') \<and> from_backend b s' = rest \<and>
       to_client c s' = to_client c s @ filter simple_visible ms @ [(CHR ''Z'', z)])"
proof -
  let ?mx = "c_max (cl_conn (clientOf s c))"
  let ?s = "upd_client c (SetActiveBackend (Some b)) s"
  have l: "links_ok ?mx c b ?s" "from_backend b ?s = ms @ (CHR ''Z'', z) # rest" "to_client c ?s = to_client c s"
    using assms by (simp_all, simp add: links_ok_def)
  have ms: "\<forall>m \<in> set ms. fst m \<noteq> CHR ''Z'' \<and> int (length (snd m)) \<le> ?mx" "int (length (snd (CHR ''Z'', z))) \<le> ?mx"
    using assms(4,5) by auto
  have n: "length ms < backend_fuel (backendOf ?s b)" using l(2) by (simp add: from_backend_def)
  have 1: "\<exists>s'. with_active c b (\<lambda>s. loopP (backend_fuel (backendOf s b)) (complete_step c b) s) s = (Ok (ready_status z), s') \<and>
      links_ok ?mx c b s' \<and> from_backend b s' = rest \<and> to_client c s' = to_client c s @ ms @ [(CHR ''Z'', z)] \<and>
      activeBackend (clientOf s' c) = None"
    by (rule with_active_relayed) (use complete.relayed [OF l(1,2) ms n] l(3) in \<open>simp del: loopP.simps\<close>)
  have 2: "\<exists>s'. with_active c b (run_local (\<lambda>s. backend_fuel (backendOf s b)) (extended_step c b) hashes) s = (Ok (ready_status z), s') \<and>
      links_ok ?mx c b s' \<and> from_backend b s' = rest \<and> to_client c s' = to_client c s @ ms @ [(CHR ''Z'', z)] \<and>
      activeBackend (clientOf s' c) = None"
    by (rule with_active_relayed)
      (use extended.relayed [of ?mx c b "(?s, hashes)" ms z rest] l ms n in \<open>force simp: run_local_def simp del: loopP.simps\<close>)
  have 3: "\<exists>s'. with_active c b (\<lambda>s. loopP (backend_fuel (backendOf s b)) (prepared_step t c b h) s) s = (Ok (ready_status z), s') \<and>
      links_ok ?mx c b s' \<and> from_backend b s' = rest \<and> to_client c s' = to_client c s @ filter simple_visible ms @ [(CHR ''Z'', z)] \<and>
      activeBackend (clientOf s' c) = None"
    by (rule with_active_relayed) (use prepared.relayed [OF l(1,2) ms n] l(3) in \<open>simp del: loopP.simps\<close>)
  show ?thesis
    unfolding forwardCompleteBackendResponse_def forwardExtendedResponse_def forwardPreparedResponse_def using 1 2 3 by blast
qed

section \<open>Relaying ends and moves no connection\<close>

lemma ends_on_client [ends_intros]: "ends (on_client c (Client_write m))" "ends (on_client c Client_read)"
  unfolding on_client_def by (intro ends_intros, metis Client_write_not(2) ends_def prod.collapse)
    (intro ends_intros, metis Client_read_not(2) ends_def prod.collapse)

lemma ends_send [ends_intros]: "ends (client_send c m)" "ends (backend_send b m)" "ends (send_error c x y z)"
  unfolding client_send_def backend_send_def send_error_def by (intro ends_intros)+

lemma ends_read_failed [ends_intros]: "ends (read_failed c e)"
  unfolding read_failed_def by (intro ends_intros)

lemma ends_serverP [ends_intros]: "ends m \<Longrightarrow> ends (serverP m)"
  unfolding serverP_def by (intro ends_intros)

lemma ends_with_active: "ends m \<Longrightarrow> ends (with_active c b m)"
  unfolding with_active_def by (intro ends_intros)

text \<open>A loop that reads a message from \<open>b\<close> whenever it goes round.\<close>

lemma relay_ends:
  fixes body :: "('s, 'a option) prog"
  assumes "ends body" and "\<And>s s'. body s = (Ok None, s') \<Longrightarrow> length (inp s') < (length (inp s) :: nat)"
  shows "fst (loopP (Suc (length (inp s))) body s) \<noteq> Blocked"
  by (rule loopP_enough [where \<mu> = "\<lambda>s. length (inp s)"]) (use assms in \<open>auto simp: ends_def\<close>)

lemma on_backend_read_cases:
  assumes "on_backend b Backend_read s = (r, s')"
  obtains (ok) m where "r = Ok m" "from_backend b s = m # from_backend b s'"
  | (err) e where "r = Err e"
proof -
  obtain b' where b: "Backend_read (backendOf s b) = (r, b')" "s' = upd_backend b (\<lambda>_. b') s"
    using assms by (auto simp: on_backend_def zoomP_def split: prod.splits)
  from b(1) show ?thesis
    by (cases rule: Backend_read_cases) (use that b(2) in \<open>auto simp: from_backend_def\<close>)
qed

lemma client_send_from: "client_send c m s = (r, s') \<Longrightarrow> from_backend b s' = from_backend b s"
  by (auto simp: client_send_def on_client_def zoomP_def from_backend_def split: prod.splits)

lemma complete_step_reads: "complete_step c b s = (Ok None, s') \<Longrightarrow> length (from_backend b s') < length (from_backend b s)"
  by (auto simp: complete_step_def tryP_def thenP_def bindP_def returnP_def failP_def split: prod.splits res.splits
      elim!: on_backend_read_cases dest!: client_send_from [where b = b])

lemma prepared_step_reads: "prepared_step t c b h s = (Ok None, s') \<Longrightarrow> length (from_backend b s') < length (from_backend b s)"
  by (auto simp: prepared_step_def tryP_def thenP_def bindP_def returnP_def modifyP_def read_failed_def split: prod.splits res.splits if_splits
      elim!: on_backend_read_cases dest!: client_send_from [where b = b])

lemma serverP_iff: "serverP m x = (r, x') \<longleftrightarrow> m (fst x) = (r, fst x') \<and> snd x' = snd x"
  by (cases x, cases x', cases "m (fst x)") (auto simp: serverP_run)

lemma serverP_read: "serverP (on_backend b Backend_read) x = (Ok m, x') \<Longrightarrow> from_backend b (fst x) = m # from_backend b (fst x')"
  by (auto simp: serverP_iff elim: on_backend_read_cases)

lemma serverP_send: "serverP (client_send c m) x = (r, x') \<Longrightarrow> from_backend b (fst x') = from_backend b (fst x)"
  by (auto simp: serverP_iff dest: client_send_from)

lemma extended_step_reads:
  "extended_step c b x = (Ok None, x') \<Longrightarrow> length (from_backend b (fst x')) < length (from_backend b (fst x))"
  by (auto simp: extended_step_def tryP_def thenP_def bindP_def returnP_def modifyP_def split: prod.splits res.splits if_splits
      dest!: serverP_read serverP_send [where b = b])

lemma flush_step_reads:
  "flush_step c b x = (Ok None, x') \<Longrightarrow> length (from_backend b (fst x')) < length (from_backend b (fst x))"
  by (auto simp: flush_step_def tryP_def thenP_def bindP_def returnP_def modifyP_def split: prod.splits res.splits if_splits
      dest!: serverP_read serverP_send [where b = b])

lemma ends_steps [ends_intros]:
  "ends (complete_step c b)" "ends (prepared_step t c b h)" "ends (extended_step c b)" "ends (flush_step c b)"
  unfolding complete_step_def prepared_step_def extended_step_def flush_step_def by (intro ends_intros)+

lemma ends_forward [ends_intros]:
  "ends (forwardCompleteBackendResponse c b)" "ends (forwardPreparedResponse t c b h)"
  "ends (forwardExtendedResponse c b hs)" "ends (drainFlushResponse c b hs)"
proof -
  have n: "backend_fuel (backendOf s b) = Suc (length (from_backend b s))" for s by (simp add: from_backend_def)
  have "ends (\<lambda>s. loopP (Suc (length (from_backend b s))) (complete_step c b) s)"
    and "ends (\<lambda>s. loopP (Suc (length (from_backend b s))) (prepared_step t c b h) s)"
    unfolding ends_def
    by (intro allI relay_ends ends_steps complete_step_reads; assumption) (intro allI relay_ends ends_steps prepared_step_reads; assumption)
  then show "ends (forwardCompleteBackendResponse c b)" "ends (forwardPreparedResponse t c b h)"
    unfolding forwardCompleteBackendResponse_def forwardPreparedResponse_def n by (simp_all add: ends_with_active del: loopP.simps)
  have x: "fst (loopP (Suc (length (from_backend b (fst x)))) (extended_step c b) x) \<noteq> Blocked" for x
    by (rule relay_ends [where inp = "\<lambda>x. from_backend b (fst x)", OF ends_steps(3)]) (rule extended_step_reads)
  have f: "fst (loopP (Suc (length (from_backend b (fst x)))) (flush_step c b) x) \<noteq> Blocked" for x
    by (rule relay_ends [where inp = "\<lambda>x. from_backend b (fst x)", OF ends_steps(4)]) (rule flush_step_reads)
  have "ends (run_local (\<lambda>s. Suc (length (from_backend b s))) (extended_step c b) hs)"
    using x [of "(s, hs)" for s] by (simp add: ends_def run_local_def case_prod_beta del: loopP.simps)
  moreover have "ends (run_local (\<lambda>s. Suc (length (from_backend b s))) (flush_step c b) hs)"
    using f [of "(s, hs)" for s] by (simp add: ends_def run_local_def case_prod_beta del: loopP.simps)
  ultimately show "ends (forwardExtendedResponse c b hs)" "ends (drainFlushResponse c b hs)"
    unfolding forwardExtendedResponse_def drainFlushResponse_def n by (simp_all add: ends_with_active del: loopP.simps)
qed

section \<open>Programs that leave connections and pins alone\<close>

text \<open>What input, output and the bookkeeping of statements never change: the accounts of every target
  and which client is tied to which backend.\<close>

definition same_client :: "Client \<Rightarrow> Client \<Rightarrow> bool" where
  "same_client x y \<longleftrightarrow> cl_backend y = cl_backend x \<and> namedStmts y = namedStmts x \<and> user y = user x \<and> database y = database x"

definition framed :: "Server \<Rightarrow> Server \<Rightarrow> bool" where
  "framed s s' \<longleftrightarrow> (\<forall>t. agrees t s s') \<and> Targets s' = Targets s \<and> (\<forall>c. same_client (clientOf s c) (clientOf s' c)) \<and>
     (\<forall>b < nextBackend s. b_client (backendOf s' b) = b_client (backendOf s b))"

abbreviation frames :: "(Server, 'a) prog \<Rightarrow> bool" where
  "frames m \<equiv> \<forall>s0. keeps (framed s0) m"

lemma framed_refl [simp]: "framed s s"
  by (simp add: framed_def same_client_def)

lemma framed_trans: "framed s s' \<Longrightarrow> framed s' s'' \<Longrightarrow> framed s s''"
  unfolding framed_def same_client_def
  by (intro conjI allI impI, blast intro: agrees_trans) (auto simp: agrees_def)

lemma framesI: "(\<And>s. framed s (snd (m s))) \<Longrightarrow> frames m"
  by (auto simp: keeps_def intro: framed_trans)

lemma framesD: "frames m \<Longrightarrow> m s = (r, s') \<Longrightarrow> framed s s'"
  by (metis framed_refl keepsD)

lemma frames_keeps: "frames m \<Longrightarrow> keeps (framed s0) m"
  by blast

lemma framed_upd_backend: "(\<And>x. b_pool (f x) = b_pool x \<and> b_client (f x) = b_client x) \<Longrightarrow> framed s (upd_backend b f s)"
  using agrees_upd_backend [of f] by (simp add: framed_def same_client_def)

lemma framed_upd_client: "(\<And>x. same_client x (f x)) \<Longrightarrow> framed s (upd_client c f s)"
  using agrees_upd_client by (auto simp: framed_def same_client_def)

lemma framed_upd_target: "(\<And>x. same_target x (f x)) \<Longrightarrow> framed s (upd_target t f s)"
  using agrees_upd_target [of f] by (simp add: framed_def same_client_def)

lemma framed_upd_stats: "framed s (upd_stats f s)"
  using agrees_upd_stats by (simp add: framed_def same_client_def)

lemma keeps_framed_modify:
  "(\<And>s. framed s (f s)) \<Longrightarrow> keeps (framed s0) (modifyP f)"
  by (rule keeps_modify) (blast intro: framed_trans)

lemma Client_io_same: "same_client x (snd (Client_write m x))" "same_client x (snd (Client_read x))"
proof -
  obtain r y where w: "Client_write m x = (r, y)" by fastforce
  then show "same_client x (snd (Client_write m x))" by (cases rule: Client_write_cases) (auto simp: same_client_def w)
  show "same_client x (snd (Client_read x))"
    by (simp add: same_client_def Client_read_def zoomP_def split: prod.split)
qed

lemma Backend_io_same:
  "b_pool (snd (Backend_read x)) = b_pool x" "b_client (snd (Backend_read x)) = b_client x"
  "b_pool (snd (Backend_write m x)) = b_pool x" "b_client (snd (Backend_write m x)) = b_client x"
  by (simp_all add: Backend_read_def Backend_write_def zoomP_def split: prod.split)

lemma frames_on_backend:
  assumes "\<And>x. b_pool (snd (m x)) = b_pool x \<and> b_client (snd (m x)) = b_client x"
  shows "keeps (framed s0) (on_backend b m)"
proof (rule frames_keeps, rule framesI)
  fix s
  have "framed s (upd_backend b (\<lambda>x. snd (m x)) s)" by (rule framed_upd_backend) (simp add: assms)
  moreover have "snd (on_backend b m s) = upd_backend b (\<lambda>x. snd (m x)) s"
    by (simp add: on_backend_def zoomP_def upd_backend_def split: prod.split)
  ultimately show "framed s (snd (on_backend b m s))" by simp
qed

lemma frames_on_client:
  assumes "\<And>x. same_client x (snd (m x))"
  shows "keeps (framed s0) (on_client c m)"
proof (rule frames_keeps, rule framesI)
  fix s
  have "framed s (upd_client c (\<lambda>x. snd (m x)) s)" by (rule framed_upd_client) (rule assms)
  moreover have "snd (on_client c m s) = upd_client c (\<lambda>x. snd (m x)) s"
    by (simp add: on_client_def zoomP_def upd_client_def split: prod.split)
  ultimately show "framed s (snd (on_client c m s))" by simp
qed

lemma frames_io [keeps_intros]:
  "keeps (framed s0) (on_backend b Backend_read)" "keeps (framed s0) (backend_send b m)" "keeps (framed s0) (client_send c m)"
  "keeps (framed s0) (send_error c x y z)" "keeps (framed s0) (read_failed c e)" "keeps (framed s0) (on_client c Client_read)"
  unfolding backend_send_def client_send_def send_error_def read_failed_def
  by (auto intro!: frames_on_backend frames_on_client simp: Client_io_same Backend_io_same)

lemma keeps_serverP [keeps_intros]: "keeps (framed s0) m \<Longrightarrow> keeps (\<lambda>x. framed s0 (fst x)) (serverP m)"
  unfolding serverP_def by (rule keeps_zoom) auto

lemma framed_active: "framed s (upd_client c (SetActiveBackend a) s)"
  by (rule framed_upd_client) (simp add: same_client_def SetActiveBackend_def)

lemma frames_with_active: "keeps (framed s0) m \<Longrightarrow> keeps (framed s0) (with_active c b m)"
  unfolding with_active_def
  by (intro keeps_intros keeps_framed_modify framed_active, assumption) (erule framed_trans [OF _ framed_active])

lemma frames_confirm: "keeps (\<lambda>x. framed s0 (fst x)) (modifyP (confirm_parse b ty))"
proof (rule keeps_modify)
  fix x :: "Server \<times> string list" assume "framed s0 (fst x)"
  moreover have "framed (fst x) (fst (confirm_parse b ty x))"
    by (auto simp: confirm_parse_def MarkStmt_def intro!: framed_upd_backend split: list.split)
  ultimately show "framed s0 (fst (confirm_parse b ty x))" by (rule framed_trans)
qed

lemma frames_deploy_confirmed: "framed s (deploy_confirmed t b h s)"
proof -
  have "framed s (upd_backend b (MarkStmt h) s)" by (rule framed_upd_backend) (simp add: MarkStmt_def)
  moreover have "framed x (upd_target t (\<lambda>x. x\<lparr>t_stmts := on_entry h RecordDeploy (t_stmts x)\<rparr>) x)" for x
    by (rule framed_upd_target) (simp add: same_target_def)
  ultimately show ?thesis unfolding deploy_confirmed_def using framed_trans by auto
qed

lemma frames_run_local: "keeps (\<lambda>x. framed s0 (fst x)) body \<Longrightarrow> keeps (framed s0) (run_local fuel body y)"
proof (rule keepsI)
  fix s assume k: "keeps (\<lambda>x. framed s0 (fst x)) body" and f: "framed s0 s"
  have "framed s0 (fst (snd (loopP (fuel s) body (s, y))))"
    using keeps_loop [OF k, of "fuel s"] f by (simp add: keeps_def)
  then show "framed s0 (snd (run_local fuel body y s))" by (simp add: run_local_def case_prod_beta)
qed

lemma keeps_state: "(\<And>n. keeps I (m n)) \<Longrightarrow> keeps I (\<lambda>s. m (f s) s)"
  by (simp add: keeps_def)

lemma frames_forward [keeps_intros]:
  "keeps (framed s0) (forwardCompleteBackendResponse c b)" "keeps (framed s0) (forwardPreparedResponse t c b h)"
  "keeps (framed s0) (forwardExtendedResponse c b hs)" "keeps (framed s0) (drainFlushResponse c b hs)"
proof -
  have 1: "keeps (framed s0) (complete_step c b)" "keeps (framed s0) (prepared_step t c b h)"
    unfolding complete_step_def prepared_step_def by (intro keeps_intros keeps_framed_modify frames_deploy_confirmed)+
  have 2: "keeps (\<lambda>x. framed s0 (fst x)) (extended_step c b)" "keeps (\<lambda>x. framed s0 (fst x)) (flush_step c b)"
    unfolding extended_step_def flush_step_def by (intro keeps_intros frames_confirm)+
  show "keeps (framed s0) (forwardCompleteBackendResponse c b)" "keeps (framed s0) (forwardPreparedResponse t c b h)"
    unfolding forwardCompleteBackendResponse_def forwardPreparedResponse_def
    by (intro frames_with_active keeps_state [where m = "\<lambda>n. loopP n (complete_step c b)" and f = "\<lambda>s. backend_fuel (backendOf s b)"]
        keeps_loop 1)
      (intro frames_with_active keeps_state [where m = "\<lambda>n. loopP n (prepared_step t c b h)" and f = "\<lambda>s. backend_fuel (backendOf s b)"]
        keeps_loop 1)
  show "keeps (framed s0) (forwardExtendedResponse c b hs)" "keeps (framed s0) (drainFlushResponse c b hs)"
    unfolding forwardExtendedResponse_def drainFlushResponse_def by (intro frames_with_active frames_run_local 2)+
qed

definition demo_link :: "msg list \<Rightarrow> conn" where
  "demo_link ms = demo_conn\<lparr>c_room := None, c_in := ms\<rparr>"

definition demo_relay :: Server where
  "demo_relay = demo_server\<lparr>backendOf := (\<lambda>_. NewBackend (demo_link [(CHR ''1'', []), (CHR ''C'', ''SELECT 1''), (CHR ''Z'', ''T'')]) [] [] [] 0),
     clientOf := (\<lambda>_. NewClient (demo_link []) (TCPAddr []))\<rparr>"

theorem response_relayed_witness:
  "\<exists>s'. forwardPreparedResponse 0 0 0 ''h'' demo_relay = (Ok (CHR ''T''), s') \<and>
     to_client 0 s' = [(CHR ''C'', ''SELECT 1''), (CHR ''Z'', ''T'')]"
proof -
  have "\<exists>s'. forwardPreparedResponse 0 0 0 ''h'' demo_relay = (Ok (ready_status ''T''), s') \<and> from_backend 0 s' = [] \<and>
     to_client 0 s' = to_client 0 demo_relay @ filter simple_visible [(CHR ''1'', []), (CHR ''C'', ''SELECT 1'')] @ [(CHR ''Z'', ''T'')]"
    by (rule response_relayed [THEN conjunct2, THEN conjunct2])
      (simp_all add: demo_relay_def demo_link_def demo_conn_def NewBackend_def NewClient_def from_backend_def sound_conn_def)
  moreover have "to_client 0 demo_relay = []"
    by (simp add: demo_relay_def demo_link_def demo_conn_def NewClient_def to_client_def)
  ultimately show ?thesis by (auto simp: ready_status_def simple_visible_def)
qed

end
