(* ===== verification/Pgfox_Listen.thy ===== *)
theory Pgfox_Listen
  imports Pgfox_Forward
begin

text \<open>
  LISTEN/NOTIFY, \<open>src/pkg/pgfox/listen_notify.go\<close>: one monitor per channel with its own backend
  connection, shared by all clients that listen on it. A monitor lives in \<open>Listeners\<close> under its
  channel; one iteration of its goroutine \<open>Listen.run\<close> is \<open>monitor_step\<close>.

  Several goroutines meet here, and the model keeps track of which one runs: \<open>self\<close> is the channel
  whose monitor goroutine executes the code, \<open>None\<close> a client's goroutine. It matters for
  the receive from \<open>l.Done\<close> in \<open>tearDownListen\<close>, which waits for the monitor goroutine to end. \<open>race\<close> is what other
  goroutines do while \<open>getOrCreateListen\<close> opens its connection without holding the lock. Text handling
  (\<open>strings.Fields\<close>, \<open>%q\<close>) is that of ASCII; bytes above 127 are taken as they are.
\<close>

section \<open>Text\<close>

fun fields_acc :: "string \<Rightarrow> string \<Rightarrow> string list" where
  "fields_acc cur [] = (if cur = [] then [] else [cur])"
| "fields_acc cur (c # cs) =
     (if isSpace c then (if cur = [] then fields_acc [] cs else cur # fields_acc [] cs)
      else fields_acc (cur @ [c]) cs)"

definition strings_Fields :: "string \<Rightarrow> string list" where
  "strings_Fields s = fields_acc [] s"

text \<open>\<open>strings.TrimRight(strings.Trim(s, `"`), ";")\<close>.\<close>

definition channel_of :: "string \<Rightarrow> string" where
  "channel_of s = trim_right (\<lambda>c. c = CHR '';'') (trim_right (\<lambda>c. c = CHR 0x22) (trim_left (\<lambda>c. c = CHR 0x22) s))"

text \<open>\<open>strings.EqualFold\<close>.\<close>

definition EqualFold :: "string \<Rightarrow> string \<Rightarrow> bool" where
  "EqualFold a b \<longleftrightarrow> ToUpper a = ToUpper b"

definition hex_digit :: "nat \<Rightarrow> byte" where
  "hex_digit n = (''0123456789abcdef'') ! (n mod 16)"

definition quote_byte :: "byte \<Rightarrow> string" where
  "quote_byte c =
     (if c = CHR 0x22 then [CHR 0x5C, CHR 0x22] else if c = CHR 0x5C then [CHR 0x5C, CHR 0x5C]
      else if c = CHR 0x07 then CHR 0x5C # ''a'' else if c = CHR 0x08 then CHR 0x5C # ''b''
      else if c = CHR 0x0C then CHR 0x5C # ''f'' else if c = CHR 0x0A then CHR 0x5C # ''n''
      else if c = CHR 0x0D then CHR 0x5C # ''r'' else if c = CHR 0x09 then CHR 0x5C # ''t''
      else if c = CHR 0x0B then CHR 0x5C # ''v''
      else let n = of_char c :: nat in
        if n < 32 \<or> n = 127 then CHR 0x5C # CHR ''x'' # [hex_digit (n div 16), hex_digit n] else [c])"

definition fmt_q :: "string \<Rightarrow> string" where
  "fmt_q s = CHR 0x22 # concat (map quote_byte s) @ [CHR 0x22]"

section \<open>Monitors\<close>

definition addClient :: "clientId \<Rightarrow> Listen \<Rightarrow> Listen" where
  "addClient c l = l\<lparr>l_clients := List.insert c (l_clients l)\<rparr>"

definition removeClient :: "clientId \<Rightarrow> Listen \<Rightarrow> bool \<times> Listen" where
  "removeClient c l = (let cs = removeAll c (l_clients l) in (cs = [], l\<lparr>l_clients := cs\<rparr>))"

definition clientCount :: "Listen \<Rightarrow> nat" where
  "clientCount l = length (l_clients l)"

definition copyClients :: "Listen \<Rightarrow> clientId list" where
  "copyClients l = l_clients l"

definition upd_listeners :: "((Channel \<times> Listen) list \<Rightarrow> (Channel \<times> Listen) list) \<Rightarrow> Server \<Rightarrow> Server" where
  "upd_listeners f s = s\<lparr>Listeners := f (Listeners s)\<rparr>"

definition set_listen :: "Channel \<Rightarrow> Listen \<Rightarrow> Server \<Rightarrow> Server" where
  "set_listen ch l = upd_listeners (AList.update ch l)"

definition add_listen_open :: "targetId \<Rightarrow> int \<Rightarrow> Server \<Rightarrow> Server" where
  "add_listen_open t d = upd_target t (\<lambda>x. x\<lparr>ListenOpen := int32_of (ListenOpen x + d)\<rparr>)"

definition listenQuery :: "string \<Rightarrow> msg" where
  "listenQuery name = (CHR ''Q'', ''LISTEN '' @ fmt_q name @ [NUL])"

definition unlistenQuery :: "string \<Rightarrow> msg" where
  "unlistenQuery name = (CHR ''Q'', ''UNLISTEN '' @ fmt_q name @ [NUL])"

text \<open>\<open>getOrCreateListen\<close>; the result says whether the monitor is new.\<close>

definition register_listen :: "targetId \<Rightarrow> Channel \<Rightarrow> clientId \<Rightarrow> backendId \<Rightarrow> (Server, bool) prog" where
  "register_listen t ch c b =
     bindP (getP (\<lambda>s. map_of (Listeners s) ch)) (\<lambda>existing.
     case existing of
       Some l \<Rightarrow>
         thenP (modifyP (upd_backend b Backend_Close))
         (thenP (modifyP (add_listen_open t (- 1)))
         (thenP (modifyP (set_listen ch (addClient c l))) (returnP False)))
     | None \<Rightarrow>
         thenP (modifyP (set_listen ch \<lparr>l_channel = ch, l_backend = Some b, l_clients = [c]\<rparr>)) (returnP True))"

definition open_listen :: "(Server \<Rightarrow> Server) \<Rightarrow> poolId \<Rightarrow> Channel \<Rightarrow> clientId \<Rightarrow> (Server, bool) prog" where
  "open_listen race p ch c =
     bindP (getP (\<lambda>s. p_target (poolOf s p))) (\<lambda>t.
     wrapP ''failed to open listen connection'' (newConn p) (\<lambda>b.
     thenP (modifyP (add_listen_open t 1))
     (tryP (backend_send b (listenQuery (chName ch)))
       (\<lambda>e. thenP (modifyP (upd_backend b Backend_Close)) (thenP (modifyP (add_listen_open t (- 1)))
              (failP (Wrapf ''failed to send LISTEN to backend'' e))))
       (\<lambda>_. tryP (on_backend b drainUntilReady)
         (\<lambda>e. thenP (modifyP (upd_backend b Backend_Close)) (thenP (modifyP (add_listen_open t (- 1)))
                (failP (Wrapf ''backend rejected LISTEN'' e))))
         (\<lambda>_. thenP (modifyP race) (register_listen t ch c b))))))"

definition getOrCreateListen :: "(Server \<Rightarrow> Server) \<Rightarrow> Channel \<Rightarrow> clientId \<Rightarrow> (Server, bool) prog" where
  "getOrCreateListen race ch c =
     bindP (getP (\<lambda>s. map_of (Listeners s) ch)) (\<lambda>existing.
     case existing of
       Some l \<Rightarrow> thenP (modifyP (set_listen ch (addClient c l))) (returnP False)
     | None \<Rightarrow>
         bindP (getP (\<lambda>s. user (clientOf s c))) (\<lambda>usr.
         bindP (getPool (chDatabase ch) usr) (\<lambda>pool.
         case pool of
           None \<Rightarrow> failP (Errorf (''no Pool for database '' @ chDatabase ch))
         | Some p \<Rightarrow>
             bindP (getP (\<lambda>s. targetOf s (p_target (poolOf s p)))) (\<lambda>x.
             if AtomicTotalOpen x + ListenOpen x \<ge> MaxConnections x
             then failP (Errorf (''target '' @ Name x @ '' at connection limit''))
             else open_listen race p ch c))))"

definition tearDownListen :: "Channel option \<Rightarrow> Channel \<Rightarrow> Listen \<Rightarrow> (Server, unit) prog" where
  "tearDownListen self ch l =
     thenP (case l_backend l of
              None \<Rightarrow> returnP ()
            | Some b \<Rightarrow>
                ignoreP (backend_send b (unlistenQuery (chName ch)))
                (thenP (modifyP (upd_backend b Backend_Close))
                (bindP (getP (\<lambda>s. b_pool (backendOf s b))) (\<lambda>pool.
                 case pool of
                   None \<Rightarrow> returnP ()
                 | Some p \<Rightarrow> modifyP (\<lambda>s. add_listen_open (p_target (poolOf s p)) (- 1) s)))))
     (if self = Some ch then blockP else returnP ())"

definition RemoveClientFromListen :: "Channel option \<Rightarrow> Channel \<Rightarrow> clientId \<Rightarrow> (Server, unit) prog" where
  "RemoveClientFromListen self ch c =
     bindP (getP (\<lambda>s. map_of (Listeners s) ch)) (\<lambda>existing.
     case existing of
       None \<Rightarrow> returnP ()
     | Some l \<Rightarrow>
         (case removeClient c l of
            (gone, l') \<Rightarrow>
              if gone then thenP (modifyP (upd_listeners (AList.delete ch))) (tearDownListen self ch l)
              else modifyP (set_listen ch l')))"

section \<open>The monitor goroutine\<close>

text \<open>\<open>fanOut\<close>: the clients of a snapshot one after the other; the result is \<open>sent\<close>.\<close>

fun fan_loop :: "Channel option \<Rightarrow> Channel \<Rightarrow> NotificationMessage \<Rightarrow> clientId list \<Rightarrow> nat \<Rightarrow> (Server, nat) prog" where
  "fan_loop self ch n [] sent = returnP sent"
| "fan_loop self ch n (c # cs) sent =
     tryP (client_send c (SendNotificationToClient n))
       (\<lambda>_. thenP (RemoveClientFromListen self ch c) (fan_loop self ch n cs sent))
       (\<lambda>_. fan_loop self ch n cs (sent + 1))"

definition fanOut :: "Channel option \<Rightarrow> Channel \<Rightarrow> NotificationMessage \<Rightarrow> (Server, unit) prog" where
  "fanOut self ch n =
     bindP (getP (\<lambda>s. case map_of (Listeners s) ch of None \<Rightarrow> [] | Some l \<Rightarrow> copyClients l)) (\<lambda>cs.
     bindP (fan_loop self ch n cs 0) (\<lambda>sent.
     modifyP (upd_stats (\<lambda>g. g\<lparr>NotificationsSent := NotificationsSent g + sent\<rparr>))))"

definition reconnectListen :: "Channel \<Rightarrow> Listen \<Rightarrow> (Server, backendId) prog" where
  "reconnectListen ch l =
     (case l_clients l of
        [] \<Rightarrow> failP (Errorf ''no clients to reconnect for'')
      | c # _ \<Rightarrow>
          bindP (getP (\<lambda>s. user (clientOf s c))) (\<lambda>usr.
          bindP (getPool (chDatabase ch) usr) (\<lambda>pool.
          case pool of
            None \<Rightarrow> failP (Errorf (''no Pool for database '' @ chDatabase ch))
          | Some p \<Rightarrow>
              wrapP ''failed to open reconnect connection'' (newConn p) (\<lambda>b.
              tryP (backend_send b (listenQuery (chName ch)))
                (\<lambda>e. thenP (modifyP (upd_backend b Backend_Close)) (failP (Wrapf ''failed to send LISTEN on reconnect'' e)))
                (\<lambda>_. tryP (on_backend b drainUntilReady)
                  (\<lambda>e. thenP (modifyP (upd_backend b Backend_Close)) (failP (Wrapf ''backend rejected LISTEN on reconnect'' e)))
                  (\<lambda>_. returnP b))))))"

definition Client_Close :: "clientId \<Rightarrow> Server \<Rightarrow> Server" where
  "Client_Close c s =
     (let s1 = (case cl_backend (clientOf s c) of None \<Rightarrow> s | Some b \<Rightarrow> upd_backend b Backend_Close s)
      in upd_client c (\<lambda>x. x\<lparr>cl_backend := None, cl_conn := conn_close (cl_conn x)\<rparr>) s1)"

definition failListen :: "Channel \<Rightarrow> goerr \<Rightarrow> (Server, unit) prog" where
  "failListen ch e =
     bindP (getP (\<lambda>s. case map_of (Listeners s) ch of None \<Rightarrow> [] | Some l \<Rightarrow> copyClients l)) (\<lambda>cs.
     thenP (modifyP (upd_listeners (AList.delete ch)))
     (forP cs (\<lambda>c.
        thenP (modifyP (upd_client c (RemoveListenChannel ch)))
        (ignoreP (send_error c ''FATAL'' ''57P01''
            (''lost connection to PostgreSQL on channel '' @ fmt_q (chName ch) @ '': '' @ err_text e))
          (modifyP (Client_Close c))))))"

text \<open>\<open>Listen.run\<close>: what it does when the read fails, with a message, and one iteration;
  \<open>Some ()\<close> is \<open>return\<close>.\<close>

definition monitor_lost :: "Channel \<Rightarrow> Listen \<Rightarrow> (Server, unit option) prog" where
  "monitor_lost ch l =
     bindP (getP shuttingDown) (\<lambda>down.
     if down \<or> clientCount l = 0 then returnP (Some ())
     else tryP (reconnectListen ch l)
       (\<lambda>e. thenP (failListen ch (Wrapf (''lost connection to database '' @ fmt_q (chDatabase ch)) e))
              (returnP (Some ())))
       (\<lambda>b. thenP (modifyP (set_listen ch (l\<lparr>l_backend := Some b\<rparr>))) (returnP None)))"

definition monitor_message :: "Channel \<Rightarrow> msg \<Rightarrow> (Server, unit option) prog" where
  "monitor_message ch m =
     (if fst m = CHR ''A'' then
        (case parseNotificationResponse (snd m) of
           None \<Rightarrow> returnP None
         | Some n \<Rightarrow> thenP (fanOut (Some ch) ch n) (returnP None))
      else returnP None)"

definition monitor_step :: "Channel \<Rightarrow> (Server, unit option) prog" where
  "monitor_step ch =
     bindP (getP (\<lambda>s. map_of (Listeners s) ch)) (\<lambda>monitor.
     case monitor of
       None \<Rightarrow> returnP (Some ())
     | Some l \<Rightarrow>
         (case l_backend l of
            None \<Rightarrow> returnP (Some ())
          | Some b \<Rightarrow> tryP (on_backend b Backend_read) (\<lambda>_. monitor_lost ch l) (monitor_message ch)))"

section \<open>Cleanup\<close>

definition cleanupClientListeners :: "clientId \<Rightarrow> (Server, unit) prog" where
  "cleanupClientListeners c =
     bindP (getP (\<lambda>s. listenChannels (clientOf s c))) (\<lambda>chs. forP chs (\<lambda>ch. RemoveClientFromListen None ch c))"

definition shutdownListeners :: "(Server, unit) prog" where
  "shutdownListeners =
     bindP (getP (\<lambda>s. map snd (Listeners s))) (\<lambda>ls.
     thenP (modifyP (upd_listeners (\<lambda>_. [])))
     (forP ls (\<lambda>l. case l_backend l of
        None \<Rightarrow> returnP ()
      | Some b \<Rightarrow>
          thenP (modifyP (upd_backend b Backend_Close))
          (bindP (getP (\<lambda>s. b_pool (backendOf s b))) (\<lambda>pool.
           case pool of
             None \<Rightarrow> returnP ()
           | Some p \<Rightarrow> modifyP (\<lambda>s. add_listen_open (p_target (poolOf s p)) (- 1) s))))))"

definition handleNotificationResponse :: "bytes \<Rightarrow> (Server, unit) prog" where
  "handleNotificationResponse body =
     (case parseNotificationResponse body of
        None \<Rightarrow> returnP ()
      | Some n \<Rightarrow>
          bindP (getP (\<lambda>s. filter (\<lambda>ch. chName ch = ChannelName n) (map fst (Listeners s)))) (\<lambda>chs.
          forP chs (\<lambda>ch. fanOut None ch n)))"

definition GetListenerStats :: "Server \<Rightarrow> (string \<times> nat) list" where
  "GetListenerStats s =
     fold (\<lambda>(ch, l) m. if clientCount l > 0 then AList.update (chDatabase ch @ ''/'' @ chName ch) (clientCount l) m else m)
       (Listeners s) []"

text \<open>The shims for the metrics path.\<close>

definition registerListener :: "Channel \<Rightarrow> clientId \<Rightarrow> (Server, unit) prog" where
  "registerListener ch c = returnP ()"

definition unregisterListener :: "Channel \<Rightarrow> clientId \<Rightarrow> (Server, unit) prog" where
  "unregisterListener ch c = RemoveClientFromListen None ch c"

section \<open>Commands\<close>

definition aborted_text :: string where
  "aborted_text = ''current transaction is aborted, commands ignored until end of transaction block''"

text \<open>The answer to a LISTEN or UNLISTEN inside a transaction block: refused in a failed one,
  otherwise the actions are buffered until the transaction ends.\<close>

definition deferred :: "clientId \<Rightarrow> string \<Rightarrow> (Client \<Rightarrow> Client) \<Rightarrow> (Server, unit) prog" where
  "deferred c tag buffer =
     bindP (getP (\<lambda>s. lastTxStatus (clientOf s c))) (\<lambda>status.
     if status = CHR ''E'' then
       thenP (send_error c ''ERROR'' ''25P02'' aborted_text) (client_send c (SendReadyForQuery (CHR ''E'')))
     else
       thenP (modifyP (upd_client c buffer))
       (thenP (client_send c (SendCommandComplete tag)) (client_send c (SendReadyForQuery (CHR ''T'')))))"

definition in_tx_block :: "Client \<Rightarrow> bool" where
  "in_tx_block x \<longleftrightarrow> lastTxStatus x = CHR ''T'' \<or> lastTxStatus x = CHR ''E''"

definition handleListen :: "(Server \<Rightarrow> Server) \<Rightarrow> clientId \<Rightarrow> string \<Rightarrow> (Server, unit) prog" where
  "handleListen race c query =
     (case strings_Fields query of
        _ # name # _ \<Rightarrow>
          bindP (getP (\<lambda>s. \<lparr>chDatabase = database (clientOf s c), chName = channel_of name\<rparr>)) (\<lambda>ch.
          bindP (getP (\<lambda>s. in_tx_block (clientOf s c))) (\<lambda>inTx.
          if inTx then deferred c ''LISTEN'' (BufferListen listenKindListen ch)
          else tryP (getOrCreateListen race ch c)
            (\<lambda>_. send_error c ''ERROR'' ''08006'' ''could not establish listen connection'')
            (\<lambda>_. thenP (modifyP (upd_client c (AddListenChannel ch)))
               (thenP (client_send c (SendCommandComplete ''LISTEN'')) (client_send c (SendReadyForQuery (CHR ''I'')))))))
      | _ \<Rightarrow> send_error c ''ERROR'' ''42601'' ''syntax error in LISTEN command'')"

definition leave_all :: "clientId \<Rightarrow> (Server, unit) prog" where
  "leave_all c =
     bindP (getP (\<lambda>s. listenChannels (clientOf s c))) (\<lambda>chs.
     thenP (forP chs (\<lambda>ch. RemoveClientFromListen None ch c)) (modifyP (upd_client c ClearListenChannels)))"

definition leave :: "Channel \<Rightarrow> clientId \<Rightarrow> (Server, unit) prog" where
  "leave ch c = thenP (RemoveClientFromListen None ch c) (modifyP (upd_client c (RemoveListenChannel ch)))"

definition handleUnlisten :: "clientId \<Rightarrow> string \<Rightarrow> (Server, unit) prog" where
  "handleUnlisten c query =
     bindP (getP (\<lambda>s. database (clientOf s c))) (\<lambda>db.
     bindP (getP (\<lambda>s. in_tx_block (clientOf s c))) (\<lambda>inTx.
     let channel = (\<lambda>name. \<lparr>chDatabase = db, chName = channel_of name\<rparr>) in
     if inTx then
       deferred c ''UNLISTEN''
         (case strings_Fields query of
            _ # name # _ \<Rightarrow>
              if name = ''*'' then BufferListen listenKindUnlistenAll \<lparr>chDatabase = db, chName = []\<rparr>
              else BufferListen listenKindUnlisten (channel name)
          | _ \<Rightarrow> id)
     else
       thenP (case strings_Fields query of
                _ # name # _ \<Rightarrow> if ToUpper name = ''*'' then leave_all c else leave (channel name) c
              | _ \<Rightarrow> returnP ())
       (thenP (client_send c (SendCommandComplete ''UNLISTEN'')) (client_send c (SendReadyForQuery (CHR ''I''))))))"

definition apply_listen :: "(Server \<Rightarrow> Server) \<Rightarrow> clientId \<Rightarrow> pendingListen \<Rightarrow> (Server, unit) prog" where
  "apply_listen race c a =
     (case plKind a of
        listenKindListen \<Rightarrow>
          tryP (getOrCreateListen race (plChannel a) c) (\<lambda>_. returnP ())
            (\<lambda>_. modifyP (upd_client c (AddListenChannel (plChannel a))))
      | listenKindUnlisten \<Rightarrow> leave (plChannel a) c
      | listenKindUnlistenAll \<Rightarrow> leave_all c)"

definition resolvePendingListens :: "(Server \<Rightarrow> Server) \<Rightarrow> clientId \<Rightarrow> (Server, unit) prog" where
  "resolvePendingListens race c =
     bindP (getP (\<lambda>s. clientOf s c)) (\<lambda>x.
     if \<not> HasPendingListens x then returnP ()
     else thenP (modifyP (upd_client c (\<lambda>y. snd (TakePendingListens y))))
       (if \<not> EqualFold (lastCommandTag x) ''COMMIT'' then returnP ()
        else forP (fst (TakePendingListens x)) (apply_listen race c)))"

definition handleNotify :: "sched \<Rightarrow> clientId \<Rightarrow> string \<Rightarrow> (Server, unit) prog" where
  "handleNotify sch c query =
     bindP (getP (\<lambda>s. clientOf s c)) (\<lambda>x.
     bindP (getPool (database x) (user x)) (\<lambda>pool.
     case pool of
       None \<Rightarrow> send_error c ''FATAL'' ''53300'' ''no Pool available''
     | Some p \<Rightarrow>
         tryP (borrowConn sch p) (\<lambda>_. send_error c ''FATAL'' ''53300'' ''too many connections'') (\<lambda>b.
         tryP (forwardQueryToBackend b query)
           (\<lambda>_. thenP (Release b) (send_error c ''ERROR'' ''08006'' ''connection failure''))
           (\<lambda>_. tryP (forwardCompleteBackendResponse c b)
             (\<lambda>e. thenP (Release b) (failP e))
             (\<lambda>_. Return b)))))"

section \<open>Who is subscribed\<close>

definition subs :: "Server \<Rightarrow> Channel \<Rightarrow> clientId set" where
  "subs s ch = (case map_of (Listeners s) ch of None \<Rightarrow> {} | Some l \<Rightarrow> set (l_clients l))"

lemma upd_listeners_simps [simp, heap_simps]:
  "Listeners (upd_listeners f s) = f (Listeners s)" "targetOf (upd_listeners f s) = targetOf s" "poolOf (upd_listeners f s) = poolOf s"
  "backendOf (upd_listeners f s) = backendOf s" "clientOf (upd_listeners f s) = clientOf s" "Targets (upd_listeners f s) = Targets s"
  "nextPool (upd_listeners f s) = nextPool s" "nextBackend (upd_listeners f s) = nextBackend s" "now (upd_listeners f s) = now s"
  "dials (upd_listeners f s) = dials s" "sv_config (upd_listeners f s) = sv_config s" "shuttingDown (upd_listeners f s) = shuttingDown s"
  by (simp_all add: upd_listeners_def)

lemma set_listen_simps [simp]:
  "map_of (Listeners (set_listen ch l s)) = (map_of (Listeners s))(ch \<mapsto> l)" "clientOf (set_listen ch l s) = clientOf s"
  by (simp_all add: set_listen_def update_conv')

lemma subs_set_listen [simp]: "subs (set_listen ch l s) = (subs s)(ch := set (l_clients l))"
  by (simp add: subs_def fun_eq_iff)

lemma subs_delete [simp]: "subs (upd_listeners (AList.delete ch) s) = (subs s)(ch := {})"
  by (simp add: subs_def fun_eq_iff delete_conv')

lemma subs_upd [simp]:
  "subs (upd_backend b f s) = subs s" "subs (upd_client c g s) = subs s" "subs (upd_target t h s) = subs s" "subs (upd_stats k s) = subs s"
  "subs (upd_pool p q s) = subs s"
  by (auto simp: subs_def)

text \<open>What the wire and the target see of a connection leaves subscriptions alone.\<close>

definition quiet :: "Server \<Rightarrow> Server \<Rightarrow> bool" where
  "quiet s s' \<longleftrightarrow> Listeners s' = Listeners s \<and> clientOf s' = clientOf s"

lemma quiet_keeps:
  "keeps (quiet s0) (backend_send b m)" "keeps (quiet s0) (on_backend b p)"
  "keeps (quiet s0) (modifyP (upd_backend b f))" "keeps (quiet s0) (modifyP (add_listen_open t d))"
  "keeps (quiet s0) (modifyP (\<lambda>s. add_listen_open (p_target (poolOf s q)) d s))"
  by (auto simp: keeps_def quiet_def backend_send_def on_backend_def zoomP_def modifyP_def add_listen_open_def split: prod.split)

lemma tearDownListen_run:
  "\<exists>s'. tearDownListen self ch l s = (if self = Some ch then Blocked else Ok (), s') \<and> quiet s s'"
proof -
  define m where "m = (case l_backend l of None \<Rightarrow> returnP ()
     | Some b \<Rightarrow> ignoreP (backend_send b (unlistenQuery (chName ch))) (thenP (modifyP (upd_backend b Backend_Close))
         (bindP (getP (\<lambda>s. b_pool (backendOf s b))) (\<lambda>pool. case pool of None \<Rightarrow> returnP ()
            | Some p \<Rightarrow> modifyP (\<lambda>s. add_listen_open (p_target (poolOf s p)) (- 1) s)))))"
  have k: "keeps (quiet s) m" unfolding m_def by (intro keeps_intros quiet_keeps)
  have "fst (m s) = Ok ()"
  proof (cases "l_backend l")
    case (Some b)
    obtain r s1 where w: "backend_send b (unlistenQuery (chName ch)) s = (r, s1)" by fastforce
    have "r \<noteq> Panic \<and> r \<noteq> Blocked"
      using w Backend_write_cases [of "unlistenQuery (chName ch)" "backendOf s b"]
      by (auto simp: backend_send_def on_backend_def zoomP_def split: prod.splits)
    then show ?thesis using Some w by (cases r) (auto simp: m_def prog_defs split: option.split)
  qed (simp add: m_def prog_defs)
  then obtain s1 where s1: "m s = (Ok (), s1)" by (metis prod.collapse)
  moreover have "quiet s s1" by (rule keepsD [OF k s1]) (simp add: quiet_def)
  moreover have "tearDownListen self ch l s = (if self = Some ch then blockP else returnP ()) s1"
    unfolding tearDownListen_def m_def [symmetric] by (rule run_then [of m, OF s1])
  ultimately show ?thesis by (simp add: blockP_def returnP_def)
qed

lemma RemoveClientFromListen_run:
  "\<exists>s'. RemoveClientFromListen self ch c s =
      (if self = Some ch \<and> map_of (Listeners s) ch \<noteq> None \<and> subs s ch \<subseteq> {c} then Blocked else Ok (), s') \<and>
     subs s' = (subs s)(ch := subs s ch - {c}) \<and> clientOf s' = clientOf s"
proof (cases "map_of (Listeners s) ch")
  case None
  then have "subs s ch = {}" by (simp add: subs_def)
  then show ?thesis using None by (simp add: RemoveClientFromListen_def prog_defs fun_eq_iff)
next
  case (Some l)
  then have sub: "subs s ch = set (l_clients l)" by (simp add: subs_def)
  show ?thesis
  proof (cases "removeAll c (l_clients l) = []")
    case True
    then have e: "set (l_clients l) - {c} = {}" by (metis empty_set set_removeAll)
    let ?s1 = "upd_listeners (AList.delete ch) s"
    obtain s' where t: "tearDownListen self ch l ?s1 = (if self = Some ch then Blocked else Ok (), s')" "quiet ?s1 s'"
      using tearDownListen_run by blast
    have "subs s' = subs ?s1" using t(2) by (auto simp: quiet_def subs_def fun_eq_iff delete_conv')
    moreover have "(subs s)(ch := subs s ch - {c}) = (subs s)(ch := {})" by (simp only: sub e)
    moreover have "subs s ch \<subseteq> {c}" using e sub by blast
    ultimately show ?thesis
      using Some True t by (simp add: RemoveClientFromListen_def removeClient_def prog_defs quiet_def)
  next
    case False
    then have "\<not> set (l_clients l) \<subseteq> {c}" by (metis Diff_eq_empty_iff set_empty set_removeAll)
    then show ?thesis using Some False sub by (auto simp: RemoveClientFromListen_def removeClient_def prog_defs)
  qed
qed

lemma remove_from_all:
  "\<exists>s'. forP chs (\<lambda>ch. RemoveClientFromListen None ch c) s = (Ok (), s') \<and>
     (\<forall>ch. subs s' ch = (if ch \<in> set chs then subs s ch - {c} else subs s ch)) \<and> clientOf s' = clientOf s"
proof (induction chs arbitrary: s)
  case Nil
  then show ?case by (simp add: returnP_def)
next
  case (Cons ch chs)
  obtain s1 where 1: "RemoveClientFromListen None ch c s = (Ok (), s1)" "subs s1 = (subs s)(ch := subs s ch - {c})"
      "clientOf s1 = clientOf s"
    using RemoveClientFromListen_run [of None ch c s] by auto
  obtain s2 where 2: "forP chs (\<lambda>ch. RemoveClientFromListen None ch c) s1 = (Ok (), s2)"
      "\<forall>ch. subs s2 ch = (if ch \<in> set chs then subs s1 ch - {c} else subs s1 ch)" "clientOf s2 = clientOf s1"
    using Cons.IH by blast
  show ?case using 1 2 by (intro exI [of _ s2]) (auto simp: thenP_def bindP_def)
qed

text \<open>Every client subscribed to a monitor knows it.\<close>

definition subs_known :: "Server \<Rightarrow> bool" where
  "subs_known s \<longleftrightarrow> (\<forall>c ch. c \<in> subs s ch \<longrightarrow> ch \<in> set (listenChannels (clientOf s c)))"

section \<open>Fan-out\<close>

definition delivers :: "msg \<Rightarrow> Client \<Rightarrow> bool" where
  "delivers m x \<longleftrightarrow> fst (Client_write m x) = Ok ()"

lemma client_send_run:
  "client_send c m s = (fst (Client_write m (clientOf s c)), upd_client c (\<lambda>x. snd (Client_write m x)) s)"
  by (simp add: client_send_def on_client_def zoomP_def upd_client_def case_prod_beta)

lemma client_send_cases:
  obtains (ok) "delivers m (clientOf s c)" "\<exists>s'. client_send c m s = (Ok (), s') \<and> Listeners s' = Listeners s \<and>
      to_client c s' = to_client c s @ [m] \<and> (\<forall>c'. c' \<noteq> c \<longrightarrow> clientOf s' c' = clientOf s c')"
  | (err) e where "\<not> delivers m (clientOf s c)" "client_send c m s = (Err e, s)"
proof -
  obtain r x where w: "Client_write m (clientOf s c) = (r, x)" by fastforce
  from w show ?thesis
  proof (cases rule: Client_write_cases)
    case (ok k)
    show ?thesis by (rule that(1)) (use w ok in \<open>simp_all add: delivers_def client_send_run to_client_def\<close>)
  next
    case (err e)
    have "upd_client c (\<lambda>x. snd (Client_write m x)) s = s"
      using w err by (simp add: upd_client_def)
    then show ?thesis by (intro that(2) [of e]) (use w err in \<open>simp_all add: delivers_def client_send_run\<close>)
  qed
qed

lemma fan_loop_delivers:
  assumes "distinct cs" "set cs \<subseteq> subs s ch" "map_of (Listeners s) ch \<noteq> None"
    and "\<exists>h \<in> subs s ch. h \<in> set cs \<longrightarrow> delivers (SendNotificationToClient n) (clientOf s h)"
  shows "\<exists>s'. fan_loop self ch n cs k s = (Ok (k + length (filter (\<lambda>c. delivers (SendNotificationToClient n) (clientOf s c)) cs)), s') \<and>
    subs s' ch = {c \<in> subs s ch. c \<in> set cs \<longrightarrow> delivers (SendNotificationToClient n) (clientOf s c)} \<and>
    (\<forall>c. to_client c s' = to_client c s @ (if c \<in> set cs \<and> delivers (SendNotificationToClient n) (clientOf s c)
       then [SendNotificationToClient n] else []))"
  using assms
proof (induction cs arbitrary: s k)
  case Nil
  then show ?case by (simp add: returnP_def)
next
  case (Cons c cs)
  let ?m = "SendNotificationToClient n"
  show ?case
  proof (cases rule: client_send_cases [of ?m s c])
    case ok
    then obtain s1 where s1: "client_send c ?m s = (Ok (), s1)" "Listeners s1 = Listeners s" "to_client c s1 = to_client c s @ [?m]"
        "\<forall>c'. c' \<noteq> c \<longrightarrow> clientOf s1 c' = clientOf s c'" by blast
    have sub: "subs s1 = subs s" by (simp add: subs_def s1(2) fun_eq_iff)
    have same: "clientOf s1 x = clientOf s x" "to_client x s1 = to_client x s" if "x \<noteq> c" for x
      using s1(4) that by (simp_all add: to_client_def)
    have cl: "clientOf s1 x = clientOf s x" if "x \<in> set cs" for x
      by (rule same(1)) (use Cons.prems(1) that in auto)
    have fe: "filter (\<lambda>x. delivers ?m (clientOf s1 x)) cs = filter (\<lambda>x. delivers ?m (clientOf s x)) cs"
      by (rule filter_cong) (simp_all add: cl)
    have "\<exists>h \<in> subs s1 ch. h \<in> set cs \<longrightarrow> delivers ?m (clientOf s1 h)"
      using Cons.prems(4) cl sub by auto
    then obtain s2 where s2: "fan_loop self ch n cs (k + 1) s1 = (Ok (k + 1 + length (filter (\<lambda>x. delivers ?m (clientOf s x)) cs)), s2)"
        "subs s2 ch = {x \<in> subs s ch. x \<in> set cs \<longrightarrow> delivers ?m (clientOf s1 x)}"
        "\<forall>x. to_client x s2 = to_client x s1 @ (if x \<in> set cs \<and> delivers ?m (clientOf s1 x) then [?m] else [])"
      using Cons.IH [of s1 "k + 1"] Cons.prems sub s1(2) unfolding fe by auto
    have "fan_loop self ch n (c # cs) k s = (Ok (k + length (filter (\<lambda>x. delivers ?m (clientOf s x)) (c # cs))), s2)"
      using s1(1) s2(1) ok(1) by (simp add: tryP_def)
    moreover have "subs s2 ch = {x \<in> subs s ch. x \<in> set (c # cs) \<longrightarrow> delivers ?m (clientOf s x)}"
      using s2(2) ok(1) cl by auto
    moreover have "to_client x s2 = to_client x s @ (if x \<in> set (c # cs) \<and> delivers ?m (clientOf s x) then [?m] else [])" for x
      using s2(3) s1(3) ok(1) cl same Cons.prems(1) by (cases "x = c") auto
    ultimately show ?thesis by blast
  next
    case (err e)
    obtain h where h: "h \<in> subs s ch" "h \<in> set (c # cs) \<longrightarrow> delivers ?m (clientOf s h)" using Cons.prems(4) by blast
    then have hc: "h \<noteq> c" using err(1) by auto
    then have "\<not> subs s ch \<subseteq> {c}" using h(1) by blast
    then obtain s1 where s1: "RemoveClientFromListen self ch c s = (Ok (), s1)" "subs s1 = (subs s)(ch := subs s ch - {c})"
        "clientOf s1 = clientOf s"
      using RemoveClientFromListen_run [of self ch c s] by auto
    have "h \<in> subs s1 ch" using s1(2) h(1) hc by simp
    then have ne: "map_of (Listeners s1) ch \<noteq> None" by (auto simp: subs_def split: option.splits)
    obtain s2 where s2: "fan_loop self ch n cs k s1 = (Ok (k + length (filter (\<lambda>x. delivers ?m (clientOf s x)) cs)), s2)"
        "subs s2 ch = {x \<in> subs s ch - {c}. x \<in> set cs \<longrightarrow> delivers ?m (clientOf s x)}"
        "\<forall>x. to_client x s2 = to_client x s @ (if x \<in> set cs \<and> delivers ?m (clientOf s x) then [?m] else [])"
      using Cons.IH [of s1 k] Cons.prems s1 ne h hc by (auto simp: to_client_def)
    have "fan_loop self ch n (c # cs) k s = (Ok (k + length (filter (\<lambda>x. delivers ?m (clientOf s x)) (c # cs))), s2)"
      using err s1(1) s2(1) by (simp add: tryP_def thenP_def bindP_def)
    then show ?thesis using s2(2,3) err(1) Cons.prems(1) by (intro exI [of _ s2]) auto
  qed
qed

lemma monitor_read:
  assumes "map_of (Listeners s) ch = Some l" "l_backend l = Some b" "on_backend b Backend_read s = (Ok (CHR ''A'', body), s1)"
    "parseNotificationResponse body = Some n"
  shows "monitor_step ch s = thenP (fanOut (Some ch) ch n) (returnP None) s1" "quiet s s1"
  using assms keepsD [OF quiet_keeps(2) assms(3), of s]
  by (simp_all add: monitor_step_def monitor_message_def bindP_def getP_def tryP_def quiet_def)

section \<open>What operations do to subscriptions\<close>

text \<open>\<open>m\<close> keeps \<open>subs_known\<close>, except that when it succeeds the client \<open>c\<close> may not know
  about the channel \<open>ch\<close> yet.\<close>

definition known_but :: "clientId \<Rightarrow> Channel \<Rightarrow> Server \<Rightarrow> bool" where
  "known_but c ch s \<longleftrightarrow> subs_known (upd_client c (AddListenChannel ch) s)"

definition joins :: "clientId \<Rightarrow> Channel \<Rightarrow> (Server, 'a) prog \<Rightarrow> bool" where
  "joins c ch m \<longleftrightarrow> (\<forall>s. subs_known s \<longrightarrow>
     (case m s of (Ok _, s') \<Rightarrow> known_but c ch s' | (_, s') \<Rightarrow> subs_known s'))"

lemma joinsI: "(\<And>s r s'. subs_known s \<Longrightarrow> m s = (r, s') \<Longrightarrow> if \<exists>x. r = Ok x then known_but c ch s' else subs_known s') \<Longrightarrow> joins c ch m"
  unfolding joins_def by (force split: prod.split res.split)

lemma joinsD: "joins c ch m \<Longrightarrow> subs_known s \<Longrightarrow> m s = (r, s') \<Longrightarrow> if \<exists>x. r = Ok x then known_but c ch s' else subs_known s'"
  unfolding joins_def by (cases r) (auto dest!: spec [of _ s])

lemma joins_try:
  assumes "keeps subs_known m" "\<And>e. joins c ch (h e)" "\<And>x. joins c ch (k x)"
  shows "joins c ch (tryP m h k)"
proof (rule joinsI)
  fix s r s' assume s: "subs_known s" and run: "tryP m h k s = (r, s')"
  obtain r1 s1 where m: "m s = (r1, s1)" by (rule prod.exhaust)
  have s1: "subs_known s1" using assms(1) m s by (rule keepsD)
  show "if \<exists>x. r = Ok x then known_but c ch s' else subs_known s'"
    using run m s1 joinsD [OF assms(2) s1] joinsD [OF assms(3) s1] by (cases r1) (auto simp: tryP_def)
qed

lemma joins_bind: "keeps subs_known m \<Longrightarrow> (\<And>x. joins c ch (k x)) \<Longrightarrow> joins c ch (bindP m k)"
proof -
  have "bindP m k = tryP m failP k" by (auto simp: fun_eq_iff prog_defs split: prod.split res.split)
  then show "keeps subs_known m \<Longrightarrow> (\<And>x. joins c ch (k x)) \<Longrightarrow> joins c ch (bindP m k)"
    using joins_try [of m c ch failP k] by (simp add: joins_def failP_def)
qed

lemma joins_then: "keeps subs_known m \<Longrightarrow> joins c ch k \<Longrightarrow> joins c ch (thenP m k)"
  unfolding thenP_def by (rule joins_bind)

lemma joins_fail: "joins c ch (failP e)"
  by (simp add: joins_def failP_def)

lemma joins_option: "(x = None \<Longrightarrow> joins c ch m) \<Longrightarrow> (\<And>y. x = Some y \<Longrightarrow> joins c ch (k y)) \<Longrightarrow>
     joins c ch (case x of None \<Rightarrow> m | Some y \<Rightarrow> k y)"
  by (cases x) auto

lemma joins_if: "joins c ch m \<Longrightarrow> joins c ch k \<Longrightarrow> joins c ch (if b then m else k)"
  by simp

lemmas joins_intros = joins_bind joins_try joins_fail joins_option joins_if joins_then

lemma known_cong:
  "Listeners s' = Listeners s \<Longrightarrow> (\<And>c. listenChannels (clientOf s' c) = listenChannels (clientOf s c)) \<Longrightarrow> subs_known s' = subs_known s"
  by (simp add: subs_known_def subs_def)

lemma known_quiet: "(\<And>s0. keeps (quiet s0) m) \<Longrightarrow> keeps subs_known m"
proof (rule keepsI)
  fix s assume k: "\<And>s0. keeps (quiet s0) m" and s: "subs_known s"
  have "quiet s (snd (m s))" using k [of s] by (simp add: keeps_def quiet_def)
  then show "subs_known (snd (m s))" using s known_cong [of "snd (m s)" s] by (simp add: quiet_def)
qed

lemma known_leaf [keeps_intros]:
  "keeps subs_known (backend_send b m)" "keeps subs_known (on_backend b p)" "keeps subs_known (modifyP (upd_backend b f))"
  "keeps subs_known (modifyP (add_listen_open t d))"
  "keeps subs_known (modifyP (\<lambda>s. add_listen_open (p_target (poolOf s q)) d s))"
  by (rule known_quiet, rule quiet_keeps)+

lemma known_stats [keeps_intros]: "keeps subs_known (modifyP (upd_stats g))"
  by (rule keeps_modify) (simp add: subs_known_def)

lemma known_client:
  "(\<And>x. listenChannels (f x) = listenChannels x) \<Longrightarrow> keeps subs_known (modifyP (upd_client c f))"
  by (rule keeps_modify) (simp add: subs_known_def)

lemma known_send [keeps_intros]: "keeps subs_known (client_send c m)" "keeps subs_known (send_error c x y z)"
proof -
  have io: "listenChannels (snd (Client_write m x)) = listenChannels x" for m x
    by (rule Client_write_cases [of m x "fst (Client_write m x)" "snd (Client_write m x)"]) simp_all
  have *: "keeps subs_known (client_send c m)" for m
    by (rule keepsI) (simp add: client_send_run subs_known_def io)
  show "keeps subs_known (client_send c m)" "keeps subs_known (send_error c x y z)"
    by (simp_all add: * send_error_def)
qed

lemma quiet_getPool [keeps_intros]: "keeps (quiet s0) (getPool db usr)"
  by (rule keepsI) (auto simp: quiet_def getPool_def Let_def split: option.split)

lemma quiet_newConn [keeps_intros]: "keeps (quiet s0) (newConn p)"
  unfolding newConn_def
proof (intro keeps_intros keepsI)
  fix q s assume s: "quiet s0 s"
  define m where "m n usr db = tryP (on_backend n (raw_write (buildStartupMessage usr db)))
                (\<lambda>e. thenP (modifyP (upd_backend n Backend_Close)) (failP (Wrapf ''failed to send startup message'' e)))
                (\<lambda>_. tryP (on_backend n drainBackendStartup)
                  (\<lambda>e. thenP (modifyP (upd_backend n Backend_Close)) (failP (Wrapf ''backend startup failed'' e)))
                  (\<lambda>_. returnP n))" for n usr db
  have "keeps (quiet s0) (m n usr db)" for n usr db
    unfolding m_def by (intro keeps_intros quiet_keeps)
  then have m: "quiet s0 x \<Longrightarrow> quiet s0 (snd (m n usr db x))" for n usr db x by (simp add: keeps_def)
  show "quiet s0 (snd (createCertBackend (p_target q) (DbName q) (Username q) s))"
    unfolding createCertBackend_def m_def [symmetric] using s
    by (auto simp: Let_def quiet_def [of s0 "_\<lparr>dials := _\<rparr>"] split: list.split sum.split intro!: m) (simp_all add: quiet_def)
qed

lemma known_conn [keeps_intros]: "keeps subs_known (getPool db usr)" "keeps subs_known (newConn p)"
  by (rule known_quiet, rule keeps_intros)+

lemma known_but_add:
  "subs_known s \<Longrightarrow> map_of (Listeners s) ch = Some l \<Longrightarrow> known_but c ch (set_listen ch (addClient c l) s)"
  by (auto simp: known_but_def subs_known_def AddListenChannel_def addClient_def subs_def)

lemma register_listen_joins: "joins c ch (register_listen t ch c b)"
proof (rule joinsI)
  fix s r s' assume s: "subs_known s" and run: "register_listen t ch c b s = (r, s')"
  let ?s1 = "add_listen_open t (- 1) (upd_backend b Backend_Close s)"
  have s1: "subs_known ?s1" "Listeners ?s1 = Listeners s" using s by (simp_all add: subs_known_def add_listen_open_def)
  show "if \<exists>x. r = Ok x then known_but c ch s' else subs_known s'"
  proof (cases "map_of (Listeners s) ch")
    case None
    then show ?thesis
      using run s by (auto simp: register_listen_def prog_defs known_but_def subs_known_def AddListenChannel_def split: if_splits)
  next
    case (Some l)
    then have "known_but c ch (set_listen ch (addClient c l) ?s1)" using s1 by (intro known_but_add) simp_all
    then show ?thesis using run Some by (auto simp: register_listen_def prog_defs)
  qed
qed

lemma getOrCreateListen_joins:
  assumes "\<And>s. subs_known s \<Longrightarrow> subs_known (race s)"
  shows "joins c ch (getOrCreateListen race ch c)"
proof (rule joinsI)
  fix s r s' assume s: "subs_known s" and run: "getOrCreateListen race ch c s = (r, s')"
  have race: "keeps subs_known (modifyP race)" by (rule keeps_modify) (rule assms)
  define slow where "slow = bindP (getP (\<lambda>s. user (clientOf s c))) (\<lambda>usr.
         bindP (getPool (chDatabase ch) usr) (\<lambda>pool.
         case pool of
           None \<Rightarrow> failP (Errorf (''no Pool for database '' @ chDatabase ch))
         | Some p \<Rightarrow>
             bindP (getP (\<lambda>s. targetOf s (p_target (poolOf s p)))) (\<lambda>x.
             if AtomicTotalOpen x + ListenOpen x \<ge> MaxConnections x
             then failP (Errorf (''target '' @ Name x @ '' at connection limit''))
             else open_listen race p ch c)))"
  have slow: "joins c ch slow"
    unfolding slow_def open_listen_def by (intro joins_intros keeps_intros register_listen_joins race)
  show "if \<exists>x. r = Ok x then known_but c ch s' else subs_known s'"
  proof (cases "map_of (Listeners s) ch")
    case None
    have "getOrCreateListen race ch c s = slow s"
      unfolding getOrCreateListen_def slow_def
      by (subst run_bind [where m = "getP (\<lambda>s. map_of (Listeners s) ch)", OF run_leaf(1)]) (simp only: None option.case)
    then have "slow s = (r, s')" using run by simp
    then show ?thesis using joinsD [OF slow s] by blast
  next
    case (Some l)
    then show ?thesis using run known_but_add [OF s Some] by (auto simp: getOrCreateListen_def prog_defs)
  qed
qed

lemma known_remove [keeps_intros]: "keeps subs_known (RemoveClientFromListen self ch c)"
proof (rule keepsI)
  fix s assume "subs_known s"
  then show "subs_known (snd (RemoveClientFromListen self ch c s))"
    using RemoveClientFromListen_run [of self ch c s] by (auto simp: subs_known_def split: if_splits)
qed

lemma known_delete [keeps_intros]:
  "keeps subs_known (modifyP (upd_listeners (AList.delete ch)))" "keeps subs_known (modifyP (upd_listeners (\<lambda>_. [])))"
  by (auto intro!: keeps_modify simp: subs_known_def) (simp add: subs_def)

lemma known_join:
  assumes "\<And>s. subs_known s \<Longrightarrow> subs_known (race s)" "\<And>e. keeps subs_known (h e)" "keeps subs_known k"
  shows "keeps subs_known (tryP (getOrCreateListen race ch c) h (\<lambda>_. thenP (modifyP (upd_client c (AddListenChannel ch))) k))"
proof (rule keepsI)
  fix s assume s: "subs_known s"
  obtain r s1 where m: "getOrCreateListen race ch c s = (r, s1)" by (rule prod.exhaust)
  from joinsD [OF getOrCreateListen_joins [OF assms(1)] s m]
  show "subs_known (snd (tryP (getOrCreateListen race ch c) h (\<lambda>_. thenP (modifyP (upd_client c (AddListenChannel ch))) k) s))"
    using assms(2,3) m by (cases r) (auto simp: tryP_def thenP_def bindP_def modifyP_def known_but_def keeps_def)
qed

lemma leave_run:
  "\<exists>s'. leave ch c s = (Ok (), s') \<and> subs s' = (subs s)(ch := subs s ch - {c}) \<and> clientOf s' = (clientOf s)(c := RemoveListenChannel ch (clientOf s c))"
  using RemoveClientFromListen_run [of None ch c s] by (auto simp: leave_def prog_defs)

lemma RemoveListenChannel_channels [simp]: "listenChannels (RemoveListenChannel ch x) = removeAll ch (listenChannels x)"
  by (simp add: RemoveListenChannel_def Let_def)

lemma known_leave [keeps_intros]: "keeps subs_known (leave ch c)"
proof (rule keepsI)
  fix s assume "subs_known s"
  then show "subs_known (snd (leave ch c s))"
    using leave_run [of ch c s] by (auto simp: subs_known_def split: if_splits)
qed

lemma cleanup_run:
  assumes "subs_known s"
  shows "\<exists>s'. cleanupClientListeners c s = (Ok (), s') \<and> (\<forall>ch. subs s' ch = subs s ch - {c}) \<and> clientOf s' = clientOf s"
proof -
  obtain s' where "forP (listenChannels (clientOf s c)) (\<lambda>ch. RemoveClientFromListen None ch c) s = (Ok (), s')"
     "\<forall>ch. subs s' ch = (if ch \<in> set (listenChannels (clientOf s c)) then subs s ch - {c} else subs s ch)" "clientOf s' = clientOf s"
    using remove_from_all by blast
  moreover have "c \<notin> subs s ch" if "ch \<notin> set (listenChannels (clientOf s c))" for ch
    using assms that by (auto simp: subs_known_def)
  ultimately show ?thesis by (auto simp: cleanupClientListeners_def bindP_def getP_def)
qed

lemma known_leave_all [keeps_intros]: "keeps subs_known (leave_all c)"
proof (rule keepsI)
  fix s assume s: "subs_known s"
  have "leave_all c s = thenP (cleanupClientListeners c) (modifyP (upd_client c ClearListenChannels)) s"
    by (simp add: leave_all_def cleanupClientListeners_def thenP_def bindP_def getP_def)
  then show "subs_known (snd (leave_all c s))"
    using cleanup_run [OF s, of c] s by (auto simp: thenP_def bindP_def modifyP_def subs_known_def)
qed

lemma known_fan_loop [keeps_intros]: "keeps subs_known (fan_loop self ch n cs k)"
  by (induction cs arbitrary: k) (auto intro!: keeps_intros)

lemma known_fanOut [keeps_intros]: "keeps subs_known (fanOut self ch n)"
  unfolding fanOut_def by (intro keeps_intros)

lemma known_notification [keeps_intros]: "keeps subs_known (handleNotificationResponse body)"
  unfolding handleNotificationResponse_def by (intro keeps_intros)

lemma known_shutdown [keeps_intros]: "keeps subs_known shutdownListeners"
  unfolding shutdownListeners_def by (intro keeps_intros)

lemma known_cleanup [keeps_intros]: "keeps subs_known (cleanupClientListeners c)"
  unfolding cleanupClientListeners_def by (intro keeps_intros)

lemma quiet_reconnect: "keeps (quiet s0) (reconnectListen ch l)"
  unfolding reconnectListen_def by (intro keeps_intros quiet_keeps)

text \<open>\<open>failListen\<close> first forgets the monitor and then tells its clients.\<close>

lemma known_fail_clients:
  "keeps (\<lambda>s. subs_known s \<and> subs s ch = {}) (forP cs (\<lambda>c.
        thenP (modifyP (upd_client c (RemoveListenChannel ch)))
        (ignoreP (send_error c x y z) (modifyP (Client_Close c)))))"
proof -
  have "keeps (\<lambda>s. subs_known s \<and> subs s ch = {}) (modifyP (upd_client c (RemoveListenChannel ch)))" for c
    by (rule keeps_modify) (fastforce simp: subs_known_def)
  moreover have "keeps (\<lambda>s. subs_known s \<and> subs s ch = {}) (modifyP (Client_Close c))" for c
    by (rule keeps_modify) (auto simp: Client_Close_def Let_def subs_known_def split: option.split)
  moreover have "keeps (\<lambda>s. subs_known s \<and> subs s ch = {}) (send_error c x y z)" for c
    using known_send(2) [of c x y z] by (auto simp: keeps_def send_error_def client_send_run)
  ultimately show ?thesis by (intro keeps_intros)
qed

lemma known_failListen [keeps_intros]: "keeps subs_known (failListen ch e)"
  unfolding failListen_def
proof (rule keeps_bind [OF keeps_get], rule keepsI)
  fix cs s assume s: "subs_known s"
  define m where "m = forP cs (\<lambda>c. thenP (modifyP (upd_client c (RemoveListenChannel ch)))
        (ignoreP (send_error c ''FATAL'' ''57P01''
            (''lost connection to PostgreSQL on channel '' @ fmt_q (chName ch) @ '': '' @ err_text e))
          (modifyP (Client_Close c))))"
  have "subs_known (upd_listeners (AList.delete ch) s) \<and> subs (upd_listeners (AList.delete ch) s) ch = {}"
    using s by (auto simp: subs_known_def)
  then have "subs_known (snd (m (upd_listeners (AList.delete ch) s)))"
    using known_fail_clients [of ch cs] unfolding m_def keeps_def by blast
  then show "subs_known (snd (thenP (modifyP (upd_listeners (AList.delete ch))) m s))"
    by (simp add: thenP_def bindP_def modifyP_def)
qed

lemma known_swap:
  "subs_known s \<Longrightarrow> map_of (Listeners s) ch = Some l \<Longrightarrow> subs_known (set_listen ch (l\<lparr>l_backend := b\<rparr>) s)"
  by (auto simp: subs_known_def subs_def)

lemma known_at:
  assumes "\<And>s0. keeps (quiet s0) m"
  shows "keeps (\<lambda>s. subs_known s \<and> map_of (Listeners s) ch = Some l) m"
proof (rule keepsI)
  fix s assume s: "subs_known s \<and> map_of (Listeners s) ch = Some l"
  have "quiet s (snd (m s))" using assms [of s] by (simp add: keeps_def quiet_def)
  moreover have "subs_known (snd (m s))" using known_quiet [of m, OF assms] s by (simp add: keeps_def)
  ultimately show "subs_known (snd (m s)) \<and> map_of (Listeners (snd (m s))) ch = Some l" using s by (simp add: quiet_def)
qed

lemma known_lost:
  assumes "subs_known s" "map_of (Listeners s) ch = Some l"
  shows "subs_known (snd (monitor_lost ch l s))"
proof -
  let ?J = "\<lambda>s. subs_known s \<and> map_of (Listeners s) ch = Some l"
  have re: "keeps ?J (reconnectListen ch l)" by (rule known_at) (rule quiet_reconnect)
  have f: "subs_known (snd (thenP (failListen ch e) (returnP (Some ())) s))" if "?J s" for e s
    by (rule keeps_def [THEN iffD1, rule_format]) (use that in \<open>auto intro: keeps_intros\<close>)
  have g: "subs_known (snd (thenP (modifyP (set_listen ch (l\<lparr>l_backend := Some b\<rparr>))) (returnP None) s))" if "?J s" for b s
    using that known_swap [of s ch l] by (simp add: prog_defs)
  have "subs_known (snd (tryP (reconnectListen ch l)
       (\<lambda>e. thenP (failListen ch (Wrapf (''lost connection to database '' @ fmt_q (chDatabase ch)) e)) (returnP (Some ())))
       (\<lambda>b. thenP (modifyP (set_listen ch (l\<lparr>l_backend := Some b\<rparr>))) (returnP None)) s))"
    by (intro post_try [where J = ?J and K = subs_known] re f g conjI assms) simp_all
  then show ?thesis using assms(1) by (simp add: monitor_lost_def bindP_def getP_def returnP_def)
qed

lemma known_message: "keeps subs_known (monitor_message ch m)"
  unfolding monitor_message_def by (intro keeps_intros)

lemma known_monitor: "keeps subs_known (monitor_step ch)"
proof (rule keepsI)
  fix s assume s: "subs_known s"
  have read: "subs_known (snd (tryP (on_backend b Backend_read) (\<lambda>_. monitor_lost ch l) (monitor_message ch) s))"
    if "map_of (Listeners s) ch = Some l" for b l
  proof (rule post_try [of "\<lambda>s. subs_known s \<and> map_of (Listeners s) ch = Some l"])
    show "keeps (\<lambda>s. subs_known s \<and> map_of (Listeners s) ch = Some l) (on_backend b Backend_read)"
      by (rule known_at) (rule quiet_keeps)
  qed (use s that known_message in \<open>auto simp: known_lost keeps_def\<close>)
  then show "subs_known (snd (monitor_step ch s))"
    using s by (simp add: monitor_step_def bindP_def getP_def returnP_def split: option.split)
qed

lemma known_deferred [keeps_intros]:
  "(\<And>x. listenChannels (f x) = listenChannels x) \<Longrightarrow> keeps subs_known (deferred c tag f)"
  unfolding deferred_def by (intro keeps_intros known_client)

lemma BufferListen_channels [simp]: "listenChannels (BufferListen k ch x) = listenChannels x"
  by (simp add: BufferListen_def)

lemma known_handleListen:
  "(\<And>s. subs_known s \<Longrightarrow> subs_known (race s)) \<Longrightarrow> keeps subs_known (handleListen race c q)"
  unfolding handleListen_def by (intro keeps_intros known_join) simp_all

lemma known_handleUnlisten: "keeps subs_known (handleUnlisten c q)"
  unfolding handleUnlisten_def Let_def by (intro keeps_intros) (simp split: list.split)

lemma known_apply:
  assumes "\<And>s. subs_known s \<Longrightarrow> subs_known (race s)"
  shows "keeps subs_known (apply_listen race c a)"
proof -
  have "keeps subs_known (tryP (getOrCreateListen race ch c) (\<lambda>_. returnP ()) (\<lambda>_. modifyP (upd_client c (AddListenChannel ch))))" for ch
    using known_join [of race "\<lambda>_. returnP ()" "returnP ()" ch c, OF assms keeps_return keeps_return]
    by (simp add: thenP_def bindP_def [abs_def] returnP_def [abs_def] modifyP_def [abs_def])
  then show ?thesis unfolding apply_listen_def by (cases "plKind a") (auto intro: keeps_intros)
qed

lemma known_resolve:
  assumes "\<And>s. subs_known s \<Longrightarrow> subs_known (race s)"
  shows "keeps subs_known (resolvePendingListens race c)"
  unfolding resolvePendingListens_def
  by (intro keeps_intros known_client known_apply assms) (simp add: TakePendingListens_def)

section \<open>Reachable subscriptions\<close>

text \<open>Any sequence of LISTEN/NOTIFY operations by any clients and monitors, whatever their
  outcome. \<open>other\<close> stands for the rest of the server, which does not write these fields. What other
  goroutines do while a monitor is being opened (\<open>race\<close>) is again such a sequence.\<close>

inductive listen_run :: "Server \<Rightarrow> Server \<Rightarrow> bool" where
  refl: "listen_run s s"
| trans: "listen_run s s' \<Longrightarrow> listen_run s' s'' \<Longrightarrow> listen_run s s''"
| listen: "(\<And>x. listen_run x (race x)) \<Longrightarrow> listen_run s (snd (handleListen race c q s))"
| unlisten: "listen_run s (snd (handleUnlisten c q s))"
| resolve: "(\<And>x. listen_run x (race x)) \<Longrightarrow> listen_run s (snd (resolvePendingListens race c s))"
| monitor: "listen_run s (snd (monitor_step ch s))"
| notification: "listen_run s (snd (handleNotificationResponse body s))"
| disconnect: "listen_run s (snd (cleanupClientListeners c s))"
| shutdown: "listen_run s (snd (shutdownListeners s))"
| other: "Listeners s' = Listeners s \<Longrightarrow> (\<And>c. listenChannels (clientOf s' c) = listenChannels (clientOf s c)) \<Longrightarrow> listen_run s s'"

lemma listen_run_known: "listen_run s s' \<Longrightarrow> subs_known s \<Longrightarrow> subs_known s'"
proof (induction rule: listen_run.induct)
  case (listen race s c q)
  then show ?case using known_handleListen [of race c q] by (simp add: keeps_def)
next
  case (resolve race s c)
  then show ?case using known_resolve [of race c] by (simp add: keeps_def)
next
  case (other s' s)
  then show ?case using known_cong by blast
qed (use known_handleUnlisten known_monitor known_notification known_cleanup known_shutdown in \<open>auto simp: keeps_def\<close>)

lemma known_start: "Listeners s = [] \<Longrightarrow> subs_known s"
  by (simp add: subs_known_def subs_def)

lemma Client_write_fields [simp]:
  "pendingListens (snd (Client_write m x)) = pendingListens x" "listenChannels (snd (Client_write m x)) = listenChannels x"
  by (rule Client_write_cases [of m x "fst (Client_write m x)" "snd (Client_write m x)"], simp_all)+

section \<open>Properties\<close>


text \<open>C14: A notification reaches every subscriber whose connection takes it, exactly once and nobody else; the
  subscribers whose connection fails are unsubscribed. As long as one subscriber is healthy the fan-out returns.\<close>

theorem fanout_delivers:
  assumes "map_of (Listeners s) ch = Some l" "distinct (l_clients l)"
    and "h \<in> set (l_clients l)" "delivers (SendNotificationToClient n) (clientOf s h)"
  shows "\<exists>s'. fanOut self ch n s = (Ok (), s') \<and>
    subs s' ch = {c \<in> subs s ch. delivers (SendNotificationToClient n) (clientOf s c)} \<and>
    (\<forall>c. to_client c s' = to_client c s @ (if c \<in> subs s' ch then [SendNotificationToClient n] else []))"
proof -
  have sub: "subs s ch = set (l_clients l)" using assms(1) by (simp add: subs_def)
  have "\<exists>h \<in> subs s ch. h \<in> set (l_clients l) \<longrightarrow> delivers (SendNotificationToClient n) (clientOf s h)" using assms(3,4) sub by auto
  then obtain s1 k where s1: "fan_loop self ch n (l_clients l) 0 s = (Ok k, s1)"
    "subs s1 ch = {c \<in> subs s ch. c \<in> set (l_clients l) \<longrightarrow> delivers (SendNotificationToClient n) (clientOf s c)}"
    "\<forall>c. to_client c s1 = to_client c s @ (if c \<in> set (l_clients l) \<and> delivers (SendNotificationToClient n) (clientOf s c)
       then [SendNotificationToClient n] else [])"
    using fan_loop_delivers [of "l_clients l" s ch n self 0] assms(1,2) sub by auto
  then show ?thesis using assms(1) sub by (auto simp: fanOut_def copyClients_def bindP_def getP_def modifyP_def to_client_def)
qed

text \<open>A monitor whose only subscriber can no longer be written to waits for itself: the goroutine
  removes the subscriber, tears the monitor down and waits for its own end.\<close>

theorem monitor_waits_for_itself:
  assumes "map_of (Listeners s) ch = Some l" "l_backend l = Some b" "l_clients l = [c]"
    and "on_backend b Backend_read s = (Ok (CHR ''A'', body), s1)" "parseNotificationResponse body = Some n"
    and "\<not> delivers (SendNotificationToClient n) (clientOf s c)"
  shows "fst (monitor_step ch s) = Blocked"
proof -
  note run = monitor_read [OF assms(1,2,4,5)]
  have s1: "map_of (Listeners s1) ch = Some l" "clientOf s1 = clientOf s" using run(2) assms(1) by (simp_all add: quiet_def)
  then have "subs s1 ch = {c}" using assms(3) by (simp add: subs_def)
  then obtain s2 where rem: "RemoveClientFromListen (Some ch) ch c s1 = (Blocked, s2)"
    using RemoveClientFromListen_run [of "Some ch" ch c s1] s1(1) by auto
  obtain e where "client_send c (SendNotificationToClient n) s1 = (Err e, s1)"
    using assms(6) s1(2) by (cases rule: client_send_cases [of "SendNotificationToClient n" s1 c]) auto
  then show ?thesis
    using rem s1(1) assms(3) by (simp add: run(1) fanOut_def copyClients_def thenP_def bindP_def getP_def tryP_def)
qed

text \<open>C16: LISTEN inside a transaction block touches no monitor and is only noted; nothing remains of it when the
  transaction ends with anything but COMMIT.\<close>

theorem rollback_discards_listen:
  assumes "lastTxStatus (clientOf s c) = CHR ''T''" "strings_Fields q = kw # name # rest"
    and "\<not> EqualFold tag ''COMMIT''"
  shows "\<exists>r s1 s2. handleListen race c q s = (r, s1) \<and> Listeners s1 = Listeners s \<and>
    pendingListens (clientOf s1 c) = pendingListens (clientOf s c) @
      [\<lparr>plKind = listenKindListen, plChannel = \<lparr>chDatabase = database (clientOf s c), chName = channel_of name\<rparr>\<rparr>] \<and>
    resolvePendingListens race c (upd_client c (\<lambda>x. x\<lparr>lastCommandTag := tag\<rparr>) s1) = (Ok (), s2) \<and>
    Listeners s2 = Listeners s \<and> listenChannels (clientOf s2 c) = listenChannels (clientOf s c) \<and> pendingListens (clientOf s2 c) = []"
proof -
  let ?ch = "\<lparr>chDatabase = database (clientOf s c), chName = channel_of name\<rparr>"
  let ?f = "BufferListen listenKindListen ?ch"
  let ?m = "thenP (client_send c (SendCommandComplete ''LISTEN'')) (client_send c (SendReadyForQuery (CHR ''T'')))"
  let ?I = "\<lambda>s'. Listeners s' = Listeners s \<and> listenChannels (clientOf s' c) = listenChannels (clientOf s c) \<and>
    pendingListens (clientOf s' c) = pendingListens (clientOf s c) @ [\<lparr>plKind = listenKindListen, plChannel = ?ch\<rparr>]"
  have "keeps ?I (client_send c m)" for m by (rule keepsI) (simp add: client_send_run Client_write_fields)
  then have "keeps ?I ?m" by (intro keeps_intros)
  moreover have "?I (upd_client c ?f s)" by (simp add: BufferListen_def)
  ultimately have I: "?I (snd (?m (upd_client c ?f s)))" by (simp add: keeps_def)
  have "handleListen race c q s = ?m (upd_client c ?f s)"
    using assms(1,2) by (simp add: handleListen_def deferred_def in_tx_block_def thenP_def bindP_def getP_def modifyP_def)
  then obtain r s1 where s1: "handleListen race c q s = (r, s1)" "?I s1" using I by (metis prod.collapse)
  have "resolvePendingListens race c (upd_client c (\<lambda>x. x\<lparr>lastCommandTag := tag\<rparr>) s1) =
      (Ok (), upd_client c (\<lambda>x. x\<lparr>lastCommandTag := tag, pendingListens := []\<rparr>) s1)"
    using s1(2) assms(3)
    by (simp add: resolvePendingListens_def HasPendingListens_def TakePendingListens_def prog_defs upd_client_def)
  then show ?thesis using s1 by auto
qed

text \<open>The channel \<open>news\<close> of \<open>app\<close>, whose subscriber 0 takes messages and whose subscriber 1 does not.\<close>

definition demo_channel :: Channel where
  "demo_channel = \<lparr>chDatabase = ''app'', chName = ''news''\<rparr>"

definition demo_note :: bytes where
  "demo_note = PutUint32 7 @ ''news'' @ [NUL] @ ''hi'' @ [NUL]"

definition demo_listen :: "clientId list \<Rightarrow> Server" where
  "demo_listen cs = demo_server\<lparr>
     Listeners := [(demo_channel, \<lparr>l_channel = demo_channel, l_backend = Some 0, l_clients = cs\<rparr>)],
     clientOf := (\<lambda>c. NewClient (demo_conn\<lparr>c_closed := (c = 1)\<rparr>) (TCPAddr [])),
     backendOf := (\<lambda>_. NewBackend (demo_conn\<lparr>c_in := [(CHR ''A'', demo_note)]\<rparr>) [] [] [] 0)\<rparr>"

definition demo_notification :: NotificationMessage where
  "demo_notification = the (parseNotificationResponse demo_note)"

lemma demo_parse: "parseNotificationResponse demo_note = Some demo_notification"
proof -
  have "parseNotificationResponse demo_note \<noteq> None" by code_simp
  then show ?thesis by (simp add: demo_notification_def)
qed

lemma demo_delivers: "delivers (SendNotificationToClient demo_notification) (clientOf (demo_listen cs) c) \<longleftrightarrow> c \<noteq> 1"
proof -
  have "length (snd (SendNotificationToClient demo_notification)) \<le> 1000" by code_simp
  then show ?thesis
    by (auto simp: delivers_def Client_write_def client_write_def conn_send_def Client_WriteMessage_def demo_listen_def NewClient_def demo_conn_def
        split: sum.split if_splits)
qed

lemma demo_monitor:
  "map_of (Listeners (demo_listen cs)) demo_channel = Some \<lparr>l_channel = demo_channel, l_backend = Some 0, l_clients = cs\<rparr>"
  by (simp add: demo_listen_def)


theorem fanout_delivers_witness:
  "\<exists>s'. fanOut None demo_channel demo_notification (demo_listen [0, 1]) = (Ok (), s') \<and> subs s' demo_channel = {0}"
proof -
  have "subs (demo_listen [0, 1]) demo_channel = {0, 1}" by (simp add: demo_listen_def subs_def)
  moreover have "\<exists>s'. fanOut None demo_channel demo_notification (demo_listen [0, 1]) = (Ok (), s') \<and>
      subs s' demo_channel = {c \<in> subs (demo_listen [0, 1]) demo_channel. delivers (SendNotificationToClient demo_notification) (clientOf (demo_listen [0, 1]) c)}"
    using fanout_delivers [OF demo_monitor _ _ demo_delivers [THEN iffD2], of "[0, 1]" 0 None] by auto
  ultimately show ?thesis by (auto simp: demo_delivers)
qed

theorem monitor_waits_for_itself_witness: "fst (monitor_step demo_channel (demo_listen [1])) = Blocked"
proof (rule monitor_waits_for_itself [OF demo_monitor _ _ _ demo_parse])
  show "on_backend 0 Backend_read (demo_listen [1]) = (Ok (CHR ''A'', demo_note), snd (on_backend 0 Backend_read (demo_listen [1])))"
    by (simp add: on_backend_def zoomP_def demo_listen_def NewBackend_def demo_conn_def)
  show "\<not> delivers (SendNotificationToClient demo_notification) (clientOf (demo_listen [1]) 1)"
    unfolding demo_delivers by simp
qed simp_all

theorem rollback_discards_listen_witness:
  "\<exists>r s1 s2. handleListen id 0 ''LISTEN news'' (upd_client 0 (\<lambda>x. x\<lparr>lastTxStatus := CHR ''T''\<rparr>) demo_server) = (r, s1) \<and>
    pendingListens (clientOf s1 0) \<noteq> [] \<and>
    resolvePendingListens id 0 (upd_client 0 (\<lambda>x. x\<lparr>lastCommandTag := ''ROLLBACK''\<rparr>) s1) = (Ok (), s2) \<and> pendingListens (clientOf s2 0) = []"
proof -
  have "strings_Fields ''LISTEN news'' = [''LISTEN'', ''news'']" "\<not> EqualFold ''ROLLBACK'' ''COMMIT''" by code_simp+
  then show ?thesis
    using rollback_discards_listen [of "upd_client 0 (\<lambda>x. x\<lparr>lastTxStatus := CHR ''T''\<rparr>) demo_server" 0 "''LISTEN news''" _ _ _ "''ROLLBACK''" id]
    by fastforce
qed

section \<open>The shape of the monitors\<close>

definition wf_monitor :: "Channel \<Rightarrow> Listen \<Rightarrow> bool" where
  "wf_monitor ch l \<longleftrightarrow> l_channel l = ch \<and> l_backend l \<noteq> None \<and> l_clients l \<noteq> [] \<and> distinct (l_clients l)"

definition wf_listeners :: "Server \<Rightarrow> bool" where
  "wf_listeners s \<longleftrightarrow> distinct (map fst (Listeners s)) \<and> (\<forall>(ch, l) \<in> set (Listeners s). wf_monitor ch l)"

lemma wf_lookup: "wf_listeners s \<Longrightarrow> map_of (Listeners s) ch = Some l \<Longrightarrow> wf_monitor ch l"
  by (auto simp: wf_listeners_def dest!: map_of_SomeD)

lemma keeps_bind_get: "(\<And>s. I s \<Longrightarrow> keeps I (k (f s))) \<Longrightarrow> keeps I (bindP (getP f) k)"
  by (simp add: keeps_def bindP_def getP_def)

lemma wf_quiet: "(\<And>s0. keeps (quiet s0) m) \<Longrightarrow> keeps wf_listeners m"
  by (rule keepsI) (simp add: keeps_def quiet_def wf_listeners_def)

lemma wf_same: "(\<And>s. Listeners (snd (m s)) = Listeners s) \<Longrightarrow> keeps wf_listeners m"
  by (simp add: keeps_def wf_listeners_def)

lemma wf_leaf [keeps_intros]:
  "keeps wf_listeners (backend_send b m)" "keeps wf_listeners (on_backend b p)" "keeps wf_listeners (modifyP (upd_backend b f))"
  "keeps wf_listeners (modifyP (add_listen_open t d))" "keeps wf_listeners (modifyP (\<lambda>s. add_listen_open (p_target (poolOf s q)) d s))"
  "keeps wf_listeners (modifyP (upd_stats g))" "keeps wf_listeners (modifyP (upd_client c h))" "keeps wf_listeners (modifyP (Client_Close c))"
  "keeps wf_listeners (getPool db usr)" "keeps wf_listeners (newConn pl)"
  by ((rule wf_quiet, rule quiet_keeps keeps_intros)+, (rule wf_same, simp add: modifyP_def Client_Close_def split: option.split)+,
      (rule wf_quiet, rule keeps_intros)+)

lemma wf_send [keeps_intros]: "keeps wf_listeners (client_send c m)" "keeps wf_listeners (send_error c x y z)"
  by (rule wf_same, simp add: client_send_run send_error_def)+

lemma wf_set: "wf_monitor ch l \<Longrightarrow> keeps wf_listeners (modifyP (set_listen ch l))"
  using set_alist_update [of ch l]
  by (intro keeps_modify) (fastforce simp: wf_listeners_def set_listen_def upd_listeners_def AList.distinct_update)

lemma wf_drop [keeps_intros]: "keeps wf_listeners (modifyP (upd_listeners (AList.delete ch)))" "keeps wf_listeners (modifyP (upd_listeners (\<lambda>_. [])))"
proof -
  have "set (AList.delete ch al) \<subseteq> set al" for al :: "(Channel \<times> Listen) list" by (auto simp: AList.delete_eq)
  then show "keeps wf_listeners (modifyP (upd_listeners (AList.delete ch)))"
    by (intro keeps_modify) (fastforce simp: wf_listeners_def upd_listeners_def AList.distinct_delete)
  show "keeps wf_listeners (modifyP (upd_listeners (\<lambda>_. [])))" by (rule keeps_modify) (simp add: wf_listeners_def upd_listeners_def)
qed

lemma wf_addClient: "wf_monitor ch l \<Longrightarrow> wf_monitor ch (addClient c l)"
  by (auto simp: wf_monitor_def addClient_def List.insert_def)

lemma wf_remove [keeps_intros]: "keeps wf_listeners (RemoveClientFromListen self ch c)"
  unfolding RemoveClientFromListen_def
proof (rule keeps_bind_get, goal_cases)
  case (1 s)
  have "wf_monitor ch (snd (removeClient c l))" if "map_of (Listeners s) ch = Some l" "\<not> fst (removeClient c l)" for l
    using wf_lookup [OF 1 that(1)] that(2) by (auto simp: wf_monitor_def removeClient_def Let_def distinct_removeAll)
  then show ?case by (auto intro!: keeps_intros wf_set simp: tearDownListen_def split: option.split prod.split)
qed

lemma wf_join:
  assumes "\<And>s. wf_listeners s \<Longrightarrow> wf_listeners (race s)"
  shows "keeps wf_listeners (getOrCreateListen race ch c)"
proof -
  have reg: "keeps wf_listeners (register_listen t ch c b)" for t b
    unfolding register_listen_def
    by (rule keeps_bind_get) (auto intro!: keeps_intros wf_set wf_addClient dest: wf_lookup split: option.split simp: wf_monitor_def)
  have op: "keeps wf_listeners (open_listen race p ch c)" for p
    unfolding open_listen_def by (intro keeps_intros reg keeps_modify assms)
  show ?thesis
    unfolding getOrCreateListen_def
    by (rule keeps_bind_get) (auto intro!: keeps_intros op wf_set wf_addClient dest: wf_lookup split: option.split)
qed

lemma wf_commands [keeps_intros]:
  "keeps wf_listeners (leave ch c)" "keeps wf_listeners (leave_all c)" "keeps wf_listeners (deferred c tag buffer)"
  "keeps wf_listeners (handleUnlisten c q)" "keeps wf_listeners (cleanupClientListeners c)" "keeps wf_listeners shutdownListeners"
  unfolding leave_def leave_all_def deferred_def handleUnlisten_def cleanupClientListeners_def shutdownListeners_def Let_def
  by (intro keeps_intros)+

lemma wf_fan [keeps_intros]: "keeps wf_listeners (fanOut self ch n)" "keeps wf_listeners (handleNotificationResponse body)"
proof -
  have "keeps wf_listeners (fan_loop self ch n cs k)" for self ch cs n k by (induction cs arbitrary: k) (auto intro!: keeps_intros)
  then show 1: "keeps wf_listeners (fanOut self ch n)" for self ch n unfolding fanOut_def by (intro keeps_intros)
  show "keeps wf_listeners (handleNotificationResponse body)" unfolding handleNotificationResponse_def by (intro keeps_intros 1)
qed

lemma wf_monitor_step: "keeps wf_listeners (monitor_step ch)"
  unfolding monitor_step_def
proof (rule keeps_bind_get, goal_cases)
  case (1 s)
  have re: "keeps wf_listeners (reconnectListen ch l)" for l by (rule wf_quiet) (rule quiet_reconnect)
  have fl: "keeps wf_listeners (failListen ch e)" for e unfolding failListen_def by (intro keeps_intros)
  have "keeps wf_listeners (monitor_lost ch l)" if "wf_monitor ch l" for l
    unfolding monitor_lost_def using that by (intro keeps_intros re fl wf_set) (simp add: wf_monitor_def)
  moreover have "keeps wf_listeners (monitor_message ch m)" for m unfolding monitor_message_def by (intro keeps_intros)
  ultimately show ?case using wf_lookup [OF 1] by (auto intro!: keeps_intros split: option.split)
qed

lemma wf_listen:
  assumes "\<And>s. wf_listeners s \<Longrightarrow> wf_listeners (race s)"
  shows "keeps wf_listeners (handleListen race c q)" "keeps wf_listeners (resolvePendingListens race c)"
proof -
  have "keeps wf_listeners (apply_listen race c a)" for a
    unfolding apply_listen_def by (cases "plKind a") (auto intro!: keeps_intros wf_join assms)
  then show "keeps wf_listeners (resolvePendingListens race c)" unfolding resolvePendingListens_def by (intro keeps_intros)
  show "keeps wf_listeners (handleListen race c q)" unfolding handleListen_def by (intro keeps_intros wf_join assms)
qed



end
