(* ===== verification/Pgfox_Query.thy ===== *)
theory Pgfox_Query
  imports Pgfox_Listen
begin

text \<open>
  Queries, \<open>src/pkg/pgfox/query.go\<close>: \<open>HandleClientMessage\<close>, the extended-protocol pipeline with its
  phases, simple queries, simple queries served as prepared statements, and \<open>reconcileConn\<close>.

  \<open>env\<close> collects what these handlers get from outside: the SQL parser, the goroutines that run while
  a listen connection is opened (\<open>q_race\<close>) and while the handler waits for a connection (\<open>q_sched\<close>), and the
  capacity of the slice \<open>getPipeline\<close> returned for the rewritten pipeline (\<open>q_cap\<close>, see \<open>Pgfox_BufPool\<close>).
  A read deadline shows as the error that ends a connection's input. The Go map \<open>bindRequiredHashes\<close> is a list without
  repetition in the order of insertion.
\<close>

record env =
  q_parse :: "string \<Rightarrow> node list option"
  q_race :: "Server \<Rightarrow> Server"
  q_sched :: sched
  q_cap :: nat

definition pureP :: "'a res \<Rightarrow> ('s, 'a) prog" where
  "pureP r s = (r, s)"

section \<open>Phase 1: inspecting a pipeline\<close>

record inspected =
  requiresPin :: bool
  remappedParses :: "(nat \<times> string) list"
  bindRequiredHashes :: "string list"
  specialCmd :: SimpleQueryCommand
  specialSQL :: string
  rewritten :: "msg list"

text \<open>\<open>rewritten[i].body = body\<close>.\<close>

definition set_body :: "nat \<Rightarrow> bytes \<Rightarrow> inspected \<Rightarrow> inspected" where
  "set_body i body x = x\<lparr>rewritten := (rewritten x)[i := (fst (rewritten x ! i), body)]\<rparr>"

definition register_stmt :: "clientId \<Rightarrow> ParameterizeResult \<Rightarrow> string \<Rightarrow> (Server, unit) prog" where
  "register_stmt c r querySQL =
     bindP (getP (\<lambda>s. clientOf s c)) (\<lambda>x.
     bindP (getPool (database x) (user x)) (\<lambda>pool.
     case pool of
       None \<Rightarrow> returnP ()
     | Some p \<Rightarrow>
         modifyP (\<lambda>s. upd_target (p_target (poolOf s p)) (\<lambda>t. t\<lparr>t_stmts :=
           on_entry (Hash r) (RecordExecution (now s))
             (snd (GetOrRegister (Hash r) (CanonicalSQL r) querySQL (length (Values r)) (now s) (t_stmts t)))\<rparr>) s)))"

definition inspect_parse :: "env \<Rightarrow> clientId \<Rightarrow> nat \<Rightarrow> bytes \<Rightarrow> (Server \<times> inspected, unit) prog" where
  "inspect_parse env c i body =
     (let clientName = ParseBodyStatementName body; querySQL = ParseBodyQuery body in
      bindP (pureP (ClassifyAndParameterize (q_parse env) querySQL)) (\<lambda>(cmd, _).
      bindP (getP (\<lambda>x. inTransaction (clientOf (fst x) c))) (\<lambda>inTx.
      if cmd \<noteq> SimpleQueryOther \<and> \<not> (cmd = SimpleQueryNotify \<and> inTx) then
        modifyP (\<lambda>(s, x). (s, x\<lparr>specialCmd := cmd, specialSQL := querySQL\<rparr>))
      else if clientName = [] then modifyP (\<lambda>(s, x). (s, x\<lparr>requiresPin := True\<rparr>))
      else bindP (pureP (ParameterizeQuery (q_parse env) querySQL)) (\<lambda>result.
        case result of
          Some r \<Rightarrow>
            thenP (serverP (register_stmt c r querySQL))
              (modifyP (\<lambda>(s, x). (upd_client c (MapStmtName clientName (Hash r)) s,
                 (set_body i (RewriteParseBodyName body (StmtName (Hash r))) x)\<lparr>remappedParses := remappedParses x @ [(i, Hash r)]\<rparr>)))
        | None \<Rightarrow> modifyP (\<lambda>(s, x). (upd_client c AddNamedStatement s, x\<lparr>requiresPin := True\<rparr>))))))"

definition inspect_bind :: "clientId \<Rightarrow> nat \<Rightarrow> bytes \<Rightarrow> Server \<times> inspected \<Rightarrow> Server \<times> inspected" where
  "inspect_bind c i body =
     (\<lambda>(s, x). let name = BindBodyStatementName body in
        if name = [] then (s, x)
        else case LookupInternalName name (clientOf s c) of
               None \<Rightarrow> (s, x)
             | Some hash \<Rightarrow> (s, (set_body i (RewriteBindBodyName body (StmtName hash)) x)
                              \<lparr>bindRequiredHashes := List.insert hash (bindRequiredHashes x)\<rparr>))"

definition inspect_describe :: "clientId \<Rightarrow> nat \<Rightarrow> bytes \<Rightarrow> Server \<times> inspected \<Rightarrow> Server \<times> inspected" where
  "inspect_describe c i body =
     (\<lambda>(s, x). case DescribeBodyTarget body of (descType, descName) \<Rightarrow>
        if descType = CHR ''S'' \<and> descName \<noteq> [] then
          (case LookupInternalName descName (clientOf s c) of
             None \<Rightarrow> (s, x)
           | Some hash \<Rightarrow> (s, set_body i (RewriteDescribeBodyName body (StmtName hash)) x))
        else (s, x))"

definition inspect_close :: "clientId \<Rightarrow> nat \<Rightarrow> bytes \<Rightarrow> Server \<times> inspected \<Rightarrow> Server \<times> inspected" where
  "inspect_close c i body =
     (\<lambda>(s, x). case CloseBodyTarget body of (closeType, closeName) \<Rightarrow>
        if closeType = CHR ''S'' \<and> closeName \<noteq> [] then
          (case LookupInternalName closeName (clientOf s c) of
             Some _ \<Rightarrow> (upd_client c (UnmapStmtName closeName) s, set_body i (RewriteCloseBodyName body []) x)
           | None \<Rightarrow> (upd_client c RemoveNamedStatement s, x))
        else (s, x))"

definition inspect_msg :: "env \<Rightarrow> clientId \<Rightarrow> nat \<times> msg \<Rightarrow> (Server \<times> inspected, unit) prog" where
  "inspect_msg env c =
     (\<lambda>(i, msgType, body).
        if msgType = CHR ''P'' then inspect_parse env c i body
        else if msgType = CHR ''B'' then modifyP (inspect_bind c i body)
        else if msgType = CHR ''D'' then modifyP (inspect_describe c i body)
        else if msgType = CHR ''C'' then modifyP (inspect_close c i body)
        else returnP ())"

definition not_inspected :: "msg list \<Rightarrow> inspected" where
  "not_inspected pipeline =
     \<lparr>requiresPin = False, remappedParses = [], bindRequiredHashes = [], specialCmd = SimpleQueryOther, specialSQL = [],
      rewritten = pipeline\<rparr>"

definition inspect_pipeline :: "env \<Rightarrow> clientId \<Rightarrow> msg list \<Rightarrow> (Server, inspected) prog" where
  "inspect_pipeline env c pipeline s =
     (case forP (enumerate 0 pipeline) (inspect_msg env c) (s, not_inspected pipeline) of
        (Ok _, (s', x)) \<Rightarrow> (Ok x, s')
      | (Err e, (s', _)) \<Rightarrow> (Err e, s')
      | (Panic, (s', _)) \<Rightarrow> (Panic, s')
      | (Blocked, (s', _)) \<Rightarrow> (Blocked, s'))"

section \<open>Phase 1.5: LISTEN, UNLISTEN and NOTIFY\<close>

definition skip_step :: "clientId \<Rightarrow> (Server, unit option) prog" where
  "skip_step c =
     bindP (on_client c Client_read) (\<lambda>(mt, _). returnP (if mt = CHR ''S'' \<or> mt = CHR ''H'' then Some () else None))"

text \<open>The answers to Parse, Describe and Flush, then the next pipeline is read and thrown away.\<close>

definition answer_flush :: "clientId \<Rightarrow> (Server, unit) prog" where
  "answer_flush c =
     thenP (client_send c (CHR ''1'', []))
     (thenP (client_send c (CHR ''t'', [NUL, NUL]))
     (thenP (client_send c (CHR ''n'', []))
     (thenP (\<lambda>s. loopP (Suc (length (c_in (cl_conn (clientOf s c))))) (skip_step c) s)
     (client_send c (CHR ''2'', [])))))"

definition run_special :: "env \<Rightarrow> clientId \<Rightarrow> SimpleQueryCommand \<Rightarrow> string \<Rightarrow> (Server, unit) prog" where
  "run_special env c cmd sql =
     (case cmd of
        SimpleQueryListen \<Rightarrow> handleListen (q_race env) c sql
      | SimpleQueryUnlisten \<Rightarrow> handleUnlisten c sql
      | SimpleQueryNotify \<Rightarrow> handleNotify (q_sched env) c sql
      | SimpleQueryOther \<Rightarrow> returnP ())"

section \<open>Phase 2: acquiring a backend\<close>

definition pin :: "clientId \<Rightarrow> backendId \<Rightarrow> Server \<Rightarrow> Server" where
  "pin c b s = upd_backend b (SetClient (Some c)) (upd_client c (SetBackend (Some b)) s)"

definition unpin :: "clientId \<Rightarrow> backendId \<Rightarrow> Server \<Rightarrow> Server" where
  "unpin c b s = upd_backend b (SetClient None) (upd_client c (SetBackend None) s)"

definition acquire :: "env \<Rightarrow> clientId \<Rightarrow> bool \<Rightarrow> (backendId \<Rightarrow> (Server, unit) prog) \<Rightarrow> (Server, unit) prog" where
  "acquire env c pinIt k =
     bindP (getP (\<lambda>s. clientOf s c)) (\<lambda>x.
     case cl_backend x of
       Some b \<Rightarrow> k b
     | None \<Rightarrow>
         bindP (getPool (database x) (user x)) (\<lambda>pool.
         case pool of
           None \<Rightarrow> send_error c ''FATAL'' ''53300'' ''no Pool available''
         | Some p \<Rightarrow>
             tryP (borrowConn (q_sched env) p)
               (\<lambda>_. send_error c ''FATAL'' ''53300'' ''too many connections'')
               (\<lambda>b. thenP (if pinIt then modifyP (pin c b) else returnP ()) (k b))))"

definition give_up :: "clientId \<Rightarrow> backendId \<Rightarrow> string \<times> string \<Rightarrow> (Server, unit) prog" where
  "give_up c b = (\<lambda>(code, message). thenP (Release b) (send_error c ''ERROR'' code message))"

abbreviation lost :: "string \<times> string" where
  "lost \<equiv> (''08006'', ''connection failure'')"

section \<open>Phase 3.5: deploying statements that Bind needs\<close>

text \<open>The result of the loop is the error to report, if any.\<close>

definition deploy_stmt_step :: "backendId \<Rightarrow> string \<Rightarrow> (Server, (string \<times> string) option option) prog" where
  "deploy_stmt_step b hash =
     tryP (on_backend b Backend_read) (\<lambda>_. returnP (Some (Some lost)))
       (\<lambda>(mt, _).
         if mt = CHR ''1'' then thenP (modifyP (upd_backend b (MarkStmt hash))) (returnP None)
         else if mt = CHR ''E'' then returnP (Some (Some (''26000'', ''failed to deploy prepared statement'')))
         else if mt = CHR ''Z'' then returnP (Some None)
         else returnP None)"

definition deploy_stmt :: "clientId \<Rightarrow> backendId \<Rightarrow> string \<Rightarrow> (Server, unit) prog \<Rightarrow> (Server, unit) prog" where
  "deploy_stmt c b hash k =
     bindP (getP (\<lambda>s. clientOf s c)) (\<lambda>x.
     bindP (getPool (database x) (user x)) (\<lambda>pool.
     bindP (getP (\<lambda>s. case pool of None \<Rightarrow> None | Some p \<Rightarrow> Get (t_stmts (targetOf s (p_target (poolOf s p)))) hash)) (\<lambda>found.
     case found of
       None \<Rightarrow> give_up c b (''26000'', ''prepared statement not found'')
     | Some entry \<Rightarrow>
         tryP (backend_send b (CHR ''P'', BuildParseBody (StmtName hash) (cs_CanonicalSQL entry) []))
           (\<lambda>_. give_up c b lost) (\<lambda>_.
         tryP (backend_send b (CHR ''S'', [])) (\<lambda>_. give_up c b lost) (\<lambda>_.
         bindP (\<lambda>s. loopP (backend_fuel (backendOf s b)) (deploy_stmt_step b hash) s) (\<lambda>problem.
         case problem of None \<Rightarrow> k | Some e \<Rightarrow> give_up c b e))))))"

fun deploy_missing :: "clientId \<Rightarrow> backendId \<Rightarrow> string list \<Rightarrow> string list \<Rightarrow> (Server, unit) prog \<Rightarrow> (Server, unit) prog" where
  "deploy_missing c b parsed [] k = k"
| "deploy_missing c b parsed (hash # hs) k =
     bindP (getP (\<lambda>s. HasStmt hash (backendOf s b))) (\<lambda>has.
     if hash \<in> set parsed \<or> has then deploy_missing c b parsed hs k
     else deploy_stmt c b hash (deploy_missing c b parsed hs k))"

section \<open>Phases 4 and 5: forwarding, and what becomes of the backend\<close>

fun forward_pipeline ::
  "clientId \<Rightarrow> backendId \<Rightarrow> (nat \<times> string) list \<Rightarrow> (nat \<times> msg) list \<Rightarrow> string list \<Rightarrow>
     (string list \<Rightarrow> (Server, unit) prog) \<Rightarrow> (Server, unit) prog" where
  "forward_pipeline c b remapped [] sent k = k sent"
| "forward_pipeline c b remapped ((i, m) # ms) sent k =
     (let forward = (\<lambda>sent'. tryP (backend_send b m) (\<lambda>_. give_up c b lost)
                       (\<lambda>_. forward_pipeline c b remapped ms sent' k))
      in case (if fst m = CHR ''P'' then map_of remapped i else None) of
           None \<Rightarrow> forward sent
         | Some hash \<Rightarrow>
             bindP (getP (\<lambda>s. HasStmt hash (backendOf s b))) (\<lambda>has.
             if has then
               tryP (client_send c (CHR ''1'', [])) (\<lambda>e. thenP (Release b) (failP e))
                 (\<lambda>_. forward_pipeline c b remapped ms sent k)
             else forward (sent @ [hash])))"

definition pin_if_free :: "clientId \<Rightarrow> backendId \<Rightarrow> (Server, unit) prog" where
  "pin_if_free c b =
     bindP (getP (\<lambda>s. cl_backend (clientOf s c))) (\<lambda>cur. if cur = None then modifyP (pin c b) else returnP ())"

definition reconcileConn :: "(Server \<Rightarrow> Server) \<Rightarrow> clientId \<Rightarrow> backendId \<Rightarrow> byte \<Rightarrow> bool \<Rightarrow> (Server, unit) prog" where
  "reconcileConn race c b txStatus wasPinned =
     bindP (getP (\<lambda>s. HasNamedStatements (clientOf s c))) (\<lambda>hasNamedStmts.
     if txStatus = CHR ''T'' \<or> txStatus = CHR ''E'' then
       thenP (pin_if_free c b) (modifyP (upd_client c (SetInTransaction True)))
     else if txStatus = CHR ''I'' then
       thenP (modifyP (upd_client c (SetInTransaction False)))
       (thenP (resolvePendingListens race c)
       (if hasNamedStmts then pin_if_free c b
        else if wasPinned then thenP (modifyP (unpin c b)) (Return b)
        else Return b))
     else
       thenP (modifyP (upd_client c (SetInTransaction False)))
       (thenP (if wasPinned \<and> \<not> hasNamedStmts then modifyP (unpin c b) else returnP ())
       (Return b)))"

text \<open>After phase 4: the responses to Sync, or to Flush.\<close>

definition await_pipeline :: "env \<Rightarrow> clientId \<Rightarrow> backendId \<Rightarrow> inspected \<Rightarrow> bool \<Rightarrow> string list \<Rightarrow> (Server, unit) prog" where
  "await_pipeline env c b x wasPinned sent =
     (if rewritten x = [] then panicP
      else if fst (last (rewritten x)) = CHR ''S'' then
        tryP (forwardExtendedResponse c b sent) (\<lambda>e. thenP (Release b) (failP e))
          (\<lambda>txStatus. reconcileConn (q_race env) c b txStatus (wasPinned \<or> requiresPin x))
      else
        tryP (drainFlushResponse c b sent) (\<lambda>e. thenP (Release b) (failP e))
          (\<lambda>_. if \<not> wasPinned \<and> \<not> requiresPin x then modifyP (pin c b) else returnP ()))"

definition run_pipeline :: "env \<Rightarrow> clientId \<Rightarrow> inspected \<Rightarrow> (Server, unit) prog" where
  "run_pipeline env c x =
     bindP (getP (\<lambda>s. cl_backend (clientOf s c) \<noteq> None)) (\<lambda>wasPinned.
     acquire env c (requiresPin x) (\<lambda>b.
     deploy_missing c b (map snd (remappedParses x)) (bindRequiredHashes x)
       (forward_pipeline c b (remappedParses x) (enumerate 0 (rewritten x)) []
         (await_pipeline env c b x wasPinned))))"

definition executeExtendedPipeline :: "env \<Rightarrow> clientId \<Rightarrow> msg list \<Rightarrow> (Server, unit) prog" where
  "executeExtendedPipeline env c pipeline =
     (if length pipeline > q_cap env then panicP
      else bindP (inspect_pipeline env c pipeline) (\<lambda>x.
        if specialCmd x \<noteq> SimpleQueryOther then
          thenP (if fst (last pipeline) = CHR ''H'' then answer_flush c else returnP ())
            (run_special env c (specialCmd x) (specialSQL x))
        else run_pipeline env c x))"

section \<open>Simple queries\<close>

fun send_all :: "clientId \<Rightarrow> backendId \<Rightarrow> msg list \<Rightarrow> (Server, unit) prog \<Rightarrow> (Server, unit) prog" where
  "send_all c b [] k = k"
| "send_all c b (m # ms) k = tryP (backend_send b m) (\<lambda>_. give_up c b lost) (\<lambda>_. send_all c b ms k)"

definition count_query :: "poolId \<Rightarrow> Server \<Rightarrow> Server" where
  "count_query p = upd_pool p (\<lambda>x. x\<lparr>QueriesExecuted := QueriesExecuted x + 1\<rparr>)"

definition count_total :: "Server \<Rightarrow> Server" where
  "count_total = upd_stats (\<lambda>g. g\<lparr>TotalQueries := TotalQueries g + 1\<rparr>)"

text \<open>\<open>executeAsPrepared\<close> once it has a backend; \<open>t\<close> is the target of the pool \<open>p\<close>.\<close>

definition prepared_on :: "env \<Rightarrow> clientId \<Rightarrow> poolId \<Rightarrow> targetId \<Rightarrow> ParameterizeResult \<Rightarrow> backendId \<Rightarrow> (Server, unit) prog" where
  "prepared_on env c p t r b =
     bindP (getP (\<lambda>s. HasStmt (Hash r) (backendOf s b))) (\<lambda>has.
     send_all c b
       ((if has then [] else [(CHR ''P'', BuildParseBody (StmtName (Hash r)) (CanonicalSQL r) [])]) @
        [(CHR ''B'', BuildBindBody [] (StmtName (Hash r)) [] (Values r) []),
         (CHR ''D'', BuildDescribePortal []), (CHR ''E'', BuildExecuteBody [] 0), (CHR ''S'', SyncBody)])
       (tryP (forwardPreparedResponse t c b (Hash r)) (\<lambda>e. thenP (Release b) (failP e)) (\<lambda>txStatus.
        thenP (modifyP (count_query p))
        (thenP (modifyP count_total)
        (thenP (modifyP (\<lambda>s. upd_target t (\<lambda>x. x\<lparr>t_stmts := on_entry (Hash r) (RecordExecution (now s)) (t_stmts x)\<rparr>) s))
          (reconcileConn (q_race env) c b txStatus False))))))"

definition executeAsPrepared :: "env \<Rightarrow> clientId \<Rightarrow> string \<Rightarrow> ParameterizeResult \<Rightarrow> (Server, unit) prog" where
  "executeAsPrepared env c originalSQL r =
     bindP (getP (\<lambda>s. clientOf s c)) (\<lambda>x.
     bindP (getPool (database x) (user x)) (\<lambda>pool.
     case pool of
       None \<Rightarrow> send_error c ''FATAL'' ''53300'' ''no Pool available''
     | Some p \<Rightarrow>
         bindP (getP (\<lambda>s. p_target (poolOf s p))) (\<lambda>t.
         thenP (modifyP (\<lambda>s. upd_target t (\<lambda>y. y\<lparr>t_stmts :=
             snd (GetOrRegister (Hash r) (CanonicalSQL r) originalSQL (length (Values r)) (now s) (t_stmts y))\<rparr>) s))
         (tryP (borrowConn (q_sched env) p)
           (\<lambda>_. send_error c ''FATAL'' ''53300'' ''too many connections'')
           (prepared_on env c p t r)))))"

definition simple_on :: "env \<Rightarrow> clientId \<Rightarrow> bool \<Rightarrow> string \<Rightarrow> backendId \<Rightarrow> (Server, unit) prog" where
  "simple_on env c pinned query b =
     tryP (forwardQueryToBackend b query) (\<lambda>_. give_up c b lost) (\<lambda>_.
     tryP (forwardCompleteBackendResponse c b) (\<lambda>e. thenP (Release b) (failP e)) (\<lambda>txStatus.
     bindP (getP (\<lambda>s. clientOf s c)) (\<lambda>x.
     bindP (getPool (database x) (user x)) (\<lambda>pool.
     thenP (case pool of None \<Rightarrow> returnP () | Some p \<Rightarrow> modifyP (count_query p))
     (thenP (modifyP count_total) (reconcileConn (q_race env) c b txStatus pinned))))))"

definition executeQuery :: "env \<Rightarrow> clientId \<Rightarrow> string \<Rightarrow> (Server, unit) prog" where
  "executeQuery env c query =
     bindP (pureP (ClassifyAndParameterize (q_parse env) query)) (\<lambda>(cmd, result).
     bindP (getP (\<lambda>s. clientOf s c)) (\<lambda>x.
     if cmd = SimpleQueryListen \<or> cmd = SimpleQueryUnlisten \<or> cmd = SimpleQueryNotify \<and> \<not> inTransaction x
     then run_special env c cmd query
     else let pinned = (cl_backend x \<noteq> None) in
       case (if pinned then None else result) of
         Some r \<Rightarrow> executeAsPrepared env c query r
       | None \<Rightarrow> acquire env c pinned (simple_on env c pinned query)))"

section \<open>Client messages\<close>

definition collect_step :: "clientId \<Rightarrow> (Server \<times> msg list, msg list option) prog" where
  "collect_step c =
     bindP (serverP (on_client c Client_read)) (\<lambda>(next, body).
     if next = CHR ''X'' then failP Eof
     else thenP (modifyP (\<lambda>(s, pp). (s, pp @ [(next, body)])))
       (if next = CHR ''S'' \<or> next = CHR ''H'' then bindP (getP snd) (\<lambda>pp. returnP (Some pp)) else returnP None))"

definition HandleClientMessage :: "env \<Rightarrow> clientId \<Rightarrow> (Server, unit) prog" where
  "HandleClientMessage env c =
     tryP (on_client c Client_read)
       (\<lambda>e. failP (if e = Eof then e else Wrapf ''failed to read client message'' e))
       (\<lambda>(msgType, body).
         if msgType = CHR ''Q'' then
           executeQuery env c (if body \<noteq> [] \<and> last body = NUL then butlast body else body)
         else if msgType = CHR ''X'' then failP Eof
         else if msgType = CHR ''S'' \<or> msgType = CHR ''H'' then executeExtendedPipeline env c [(msgType, body)]
         else bindP (run_local (\<lambda>s. Suc (length (c_in (cl_conn (clientOf s c))))) (collect_step c) [(msgType, body)])
           (executeExtendedPipeline env c))"

end
