(* ===== verification/Pgfox_Session.thy ===== *)
theory Pgfox_Session
  imports Pgfox_Query
begin

text \<open>
  What serving a client does to the connections. \<open>accounts_ok\<close> lifts the accounts of \<open>Pgfox_Pool\<close> to all
  targets, \<open>balanced\<close> says that between client messages every connection is queued, waiting to be closed, or
  pinned to exactly one client, and \<open>working\<close> describes the state while a handler uses one. The locale
  \<open>stable\<close> holds what the LISTEN machinery and the relays need of such a condition; it is
  interpreted for both. The last sections put the handlers of \<open>Pgfox_Query\<close> together.
\<close>

section \<open>The accounts of all targets\<close>

text \<open>\<open>T\<close> are the targets whose goroutines run (those of the configuration and those being drained);
  \<open>H\<close> the connections that are checked out.\<close>

definition accounts_ok :: "targetId set \<Rightarrow> backendId set \<Rightarrow> Server \<Rightarrow> bool" where
  "accounts_ok T H s \<longleftrightarrow> set (Targets s) \<subseteq> T \<and> H \<subseteq> (\<Union>t \<in> T. owned t s) \<and> (\<forall>t \<in> T. pools_ok (H \<inter> owned t s) t s)"

lemma accounts_okD:
  assumes "accounts_ok T H s"
  shows "set (Targets s) \<subseteq> T" "t \<in> T \<Longrightarrow> pools_ok (H \<inter> owned t s) t s" "b \<in> H \<Longrightarrow> \<exists>t \<in> T. b \<in> owned t s"
  using assms by (auto simp: accounts_ok_def)

lemma owned_once:
  assumes "accounts_ok T H s" "t \<in> T" "u \<in> T" "b \<in> owned t s" "b \<in> owned u s"
  shows "u = t"
  using owned_pool [OF accounts_okD(2) [OF assms(1,2)] assms(4)] owned_pool [OF accounts_okD(2) [OF assms(1,3)] assms(5)]
  by (metis option.inject)

lemma accounts_agree:
  assumes "accounts_ok T H s" "\<And>t. t \<in> T \<Longrightarrow> agrees t s s'" "Targets s' = Targets s"
  shows "accounts_ok T H s'"
  using assms(1,3) agrees_owned [OF assms(2)] agrees_pools_ok [OF assms(2)] by (simp add: accounts_ok_def)

lemma owned_upd:
  "(\<And>x. All_conns (f x) = All_conns x) \<Longrightarrow> owned t (upd_pool p f s) = owned t s"
  "(\<And>x. Pools (g x) = Pools x) \<Longrightarrow> owned t (upd_target u g s) = owned t s"
  "owned t (upd_backend b h s) = owned t s" "owned t (upd_client c k s) = owned t s" "owned t (upd_stats l s) = owned t s"
proof -
  assume "\<And>x. All_conns (f x) = All_conns x"
  then have "All_conns (poolOf (upd_pool p f s) q) = All_conns (poolOf s q)" for q by simp
  then show "owned t (upd_pool p f s) = owned t s" unfolding owned_def target_pools_def by simp
qed (simp_all add: owned_def target_pools_def)

text \<open>A change of one target's connections that the others do not see.\<close>

lemma accounts_change:
  assumes ok: "accounts_ok T H s" and t: "t \<in> T" and b: "b \<in> owned t s"
    and t': "pools_ok (H' \<inter> owned t s) t s'" "owned t s' = owned t s"
    and others: "\<And>u. u \<in> T \<Longrightarrow> u \<noteq> t \<Longrightarrow> agrees u s s'" and tg: "Targets s' = Targets s"
    and H': "H' - {b} = H - {b}"
  shows "accounts_ok T H' s'"
proof -
  have own: "owned u s' = owned u s" if "u \<in> T" for u
    using that t'(2) agrees_owned [OF others] by (cases "u = t") auto
  have "pools_ok (H' \<inter> owned u s') u s'" if u: "u \<in> T" for u
  proof (cases "u = t")
    case False
    then have "b \<notin> owned u s" using owned_once [OF ok t u b] by blast
    then have "H' \<inter> owned u s = H \<inter> owned u s" using H' by blast
    then show ?thesis using agrees_pools_ok [OF others [OF u False] accounts_okD(2) [OF ok u]] own [OF u] by simp
  qed (use t' in simp)
  moreover have "H' \<subseteq> (\<Union>u \<in> T. owned u s')"
  proof -
    have "H' \<subseteq> insert b H" using H' by blast
    then show ?thesis using ok b t own by (auto simp: accounts_ok_def)
  qed
  ultimately show ?thesis using tg ok by (simp add: accounts_ok_def)
qed

lemma other_pool:
  assumes "accounts_ok T H s" "t \<in> T" "p \<in> set (target_pools t s)" "u \<in> T" "u \<noteq> t"
  shows "p \<notin> set (target_pools u s)"
  using pools_ok_pool [OF accounts_okD(2) [OF assms(1,2)] assms(3)] pools_ok_pool [OF accounts_okD(2) [OF assms(1,4)], of p] assms(5)
  by (auto simp: pool_ok_def)

lemma agrees_other_pool: "p \<notin> set (target_pools u s) \<Longrightarrow> agrees u s (upd_pool p f s)"
  by (auto simp: agrees_def same_target_def same_pool_def)

lemma agrees_other_target: "u \<noteq> t \<Longrightarrow> agrees u s (upd_target t f s)"
  by (auto simp: agrees_def same_target_def same_pool_def)

lemma take_accounts:
  assumes ok: "accounts_ok T H s" and t: "t \<in> T" and p: "p \<in> set (target_pools t s)" and q: "Queue (poolOf s p) = b # q"
  shows "accounts_ok T (insert b H) (take_idle p b s)" "b \<notin> H" "b \<in> owned t s"
proof -
  note okt = accounts_okD(2) [OF ok t]
  show bo: "b \<in> owned t s" by (rule dequeue_ok(3) [OF okt p q])
  then show "b \<notin> H" using dequeue_ok(2) [OF okt p q] by blast
  show "accounts_ok T (insert b H) (take_idle p b s)"
  proof (rule accounts_change [OF ok t bo])
    have "insert b H \<inter> owned t s = insert b (H \<inter> owned t s)" using bo by blast
    then show "pools_ok (insert b H \<inter> owned t s) t (take_idle p b s)" using take_idle_ok [OF okt p q] by simp
    show "owned t (take_idle p b s) = owned t s" by (simp add: take_idle_def owned_upd)
    show "agrees u s (take_idle p b s)" if "u \<in> T" "u \<noteq> t" for u
      unfolding take_idle_def
      by (rule agrees_trans [OF agrees_other_pool [OF other_pool [OF ok t p that]] agrees_upd_backend]) simp
    show "Targets (take_idle p b s) = Targets s" by (simp add: take_idle_def)
  qed blast
qed

lemma Return_run:
  assumes ok: "accounts_ok T H s" and b: "b \<in> H"
  shows "\<exists>s'. Return b s = (Ok (), s') \<and> accounts_ok T (H - {b}) s' \<and> clientOf s' = clientOf s \<and>
     (\<forall>x. b_client (backendOf s' x) = (if x = b then None else b_client (backendOf s x))) \<and> (\<forall>t. owned t s' = owned t s)"
proof -
  obtain t where t: "t \<in> T" "b \<in> owned t s" using accounts_okD(3) [OF ok b] by blast
  note okt = accounts_okD(2) [OF ok t(1)]
  obtain p where p: "p \<in> set (target_pools t s)" "b_pool (backendOf s b) = Some p" "p_target (poolOf s p) = t"
    by (rule owned_pool [OF okt t(2)])
  have bh: "b \<in> H \<inter> owned t s" using b t by blast
  obtain s' where s': "Return b s = (Ok (), s')" "pools_ok (H \<inter> owned t s - {b}) t s'"
      "Queue (poolOf s' p) = Queue (poolOf s p) @ [b]"
    using Return_ok [OF okt bh] p(2) by auto
  let ?s1 = "upd_backend b (\<lambda>x. SetClient None (SetInUse False (now s) x)) s"
  have "b_pool (backendOf ?s1 b) = Some p" using p(2) by simp
  then have "s' = signalConnReady t (upd_pool p (\<lambda>y. y\<lparr>Queue := Queue y @ [b]\<rparr>) ?s1)"
    using s'(1,3) p(2,3) by (auto simp: Return_def prog_defs send_close_def split: if_splits)
  note eq = this
  have sub: "owned u s' = owned u s" "b_client (backendOf s' x) = (if x = b then None else b_client (backendOf s x))" "clientOf s' = clientOf s" for u x
    by (simp_all add: eq signalConnReady_def owned_upd)
  have "accounts_ok T (H - {b}) s'"
  proof (rule accounts_change [OF ok t])
    have "(H - {b}) \<inter> owned t s = H \<inter> owned t s - {b}" by blast
    then show "pools_ok ((H - {b}) \<inter> owned t s) t s'" using s'(2) by simp
    show "owned t s' = owned t s" by (rule sub)
    show "agrees u s s'" if "u \<in> T" "u \<noteq> t" for u
    proof -
      have "agrees u s ?s1" by (rule agrees_upd_backend) simp
      moreover have "p \<notin> set (target_pools u ?s1)" using other_pool [OF ok t(1) p(1) that] by (simp add: target_pools_def)
      ultimately show ?thesis unfolding eq by (blast intro: agrees_trans agrees_other_pool agrees_signal)
    qed
    show "Targets s' = Targets s" by (simp add: eq signalConnReady_def)
  qed blast
  then show ?thesis using s'(1) sub by blast
qed

lemma Release_run:
  assumes ok: "accounts_ok T H s" and b: "b \<in> H"
  shows "\<exists>s'. Release b s = (Ok (), s') \<and> accounts_ok T (H - {b}) s' \<and>
     clientOf s' = (case b_client (backendOf s b) of None \<Rightarrow> clientOf s
        | Some c \<Rightarrow> (clientOf s)(c := SetInTransaction False (SetBackend None (clientOf s c)))) \<and>
     (\<forall>x. b_client (backendOf s' x) = (if x = b then None else b_client (backendOf s x))) \<and> (\<forall>t. owned t s' = owned t s)"
proof -
  obtain t where t: "t \<in> T" "b \<in> owned t s" using accounts_okD(3) [OF ok b] by blast
  note okt = accounts_okD(2) [OF ok t(1)]
  obtain p where p: "p \<in> set (target_pools t s)" "b_pool (backendOf s b) = Some p" "p_target (poolOf s p) = t"
    by (rule owned_pool [OF okt t(2)])
  have bh: "b \<in> H \<inter> owned t s" using b t by blast
  obtain s' where s': "Release b s = (Ok (), s')" "pools_ok (H \<inter> owned t s - {b}) t s'"
    using Release_ok [OF okt bh] by auto
  let ?s1 = "upd_backend b (SetClient None) s"
  let ?s2 = "case b_client (backendOf s b) of None \<Rightarrow> ?s1
     | Some c \<Rightarrow> upd_client c (\<lambda>x. SetInTransaction False (SetBackend None x)) ?s1"
  have eq: "s' = upd_target t (\<lambda>x. x\<lparr>CloseCh := CloseCh x @ [b]\<rparr>) ?s2"
    using s'(1) p by (cases "b_client (backendOf s b)") (auto simp: Release_def prog_defs send_close_def split: if_splits)
  have sub: "owned u s' = owned u s" "b_client (backendOf s' x) = (if x = b then None else b_client (backendOf s x))"
     "clientOf s' = (case b_client (backendOf s b) of None \<Rightarrow> clientOf s
        | Some c \<Rightarrow> (clientOf s)(c := SetInTransaction False (SetBackend None (clientOf s c))))" for u x
    by (simp_all add: eq owned_upd split: option.split)
  have "accounts_ok T (H - {b}) s'"
  proof (rule accounts_change [OF ok t])
    have "(H - {b}) \<inter> owned t s = H \<inter> owned t s - {b}" by blast
    then show "pools_ok ((H - {b}) \<inter> owned t s) t s'" using s'(2) by simp
    show "owned t s' = owned t s" by (rule sub)
    show "agrees u s s'" if "u \<in> T" "u \<noteq> t" for u
    proof -
      have "agrees u s ?s1" by (rule agrees_upd_backend) simp
      then have "agrees u s ?s2" by (auto intro: agrees_trans agrees_upd_client split: option.split)
      then show ?thesis unfolding eq by (rule agrees_trans) (rule agrees_other_target [OF that(2)])
    qed
    show "Targets s' = Targets s" by (simp add: eq split: option.split)
  qed blast
  then show ?thesis using s'(1) sub by blast
qed

section \<open>Pins\<close>

definition pinned :: "Server \<Rightarrow> backendId set" where
  "pinned s = {b. \<exists>c. cl_backend (clientOf s c) = Some b}"

text \<open>The two pointers of a pin agree.\<close>

definition linked :: "targetId set \<Rightarrow> Server \<Rightarrow> bool" where
  "linked T s \<longleftrightarrow> (\<forall>t \<in> T. \<forall>b \<in> owned t s. \<forall>c. b_client (backendOf s b) = Some c \<longleftrightarrow> cl_backend (clientOf s c) = Some b)"

text \<open>Between two client messages: every connection of a running target is in exactly one place, in
  its queue, in the close channel, or pinned to one client.\<close>

definition balanced :: "targetId set \<Rightarrow> clientId \<Rightarrow> Server \<Rightarrow> bool" where
  "balanced T c s \<longleftrightarrow> accounts_ok T (pinned s) s \<and> linked T s \<and> namedStmts (clientOf s c) = 0"

text \<open>While the client \<open>c\<close> is served by \<open>b\<close>: its pinned connection, one that was borrowed because it has none, or
  one borrowed beside its own (for NOTIFY).\<close>

datatype hold = Pinned | Borrowed | Extra

definition working :: "targetId set \<Rightarrow> clientId \<Rightarrow> backendId \<Rightarrow> hold \<Rightarrow> Server \<Rightarrow> bool" where
  "working T c b w s \<longleftrightarrow> accounts_ok T (insert b (pinned s)) s \<and> linked T s \<and> namedStmts (clientOf s c) = 0 \<and>
     (case w of
        Pinned \<Rightarrow> cl_backend (clientOf s c) = Some b
      | Borrowed \<Rightarrow> cl_backend (clientOf s c) = None \<and> b \<notin> pinned s
      | Extra \<Rightarrow> b \<notin> pinned s)"

lemma working_pinned: "working T c b Pinned s \<longleftrightarrow> balanced T c s \<and> cl_backend (clientOf s c) = Some b"
proof -
  have "cl_backend (clientOf s c) = Some b \<Longrightarrow> insert b (pinned s) = pinned s" by (auto simp: pinned_def)
  then show ?thesis by (auto simp: working_def balanced_def)
qed

text \<open>What the LISTEN machinery and the relays need to know of such a condition.\<close>

locale stable =
  fixes I :: "Server \<Rightarrow> bool"
  assumes frame: "I s \<Longrightarrow> framed s s' \<Longrightarrow> I s'"
    and pool: "keeps I (getPool db usr)"
begin

lemma frames: "(\<And>s0. keeps (framed s0) m) \<Longrightarrow> keeps I m"
  by (meson frame framed_refl keeps_def)

lemma modify: "(\<And>s. framed s (f s)) \<Longrightarrow> keeps I (modifyP f)"
  by (rule keeps_modify) (rule frame)

lemma io:
  "keeps I (on_backend b Backend_read)" "keeps I (backend_send b m)" "keeps I (client_send c m)"
  "keeps I (send_error c x y z)" "keeps I (read_failed c e)" "keeps I (on_client c Client_read)"
  "keeps I (forwardCompleteBackendResponse c b)" "keeps I (forwardPreparedResponse t c b h)"
  "keeps I (forwardExtendedResponse c b hs)" "keeps I (drainFlushResponse c b hs)"
  by (rule frames, rule frames_io frames_forward)+

lemma conn: "keeps I (newConn p)"
proof (rule keepsI)
  fix s assume s: "I s"
  obtain r s' where "newConn p s = (r, s')" by (rule prod.exhaust)
  moreover from this have "fresh_conn r s s'" by (rule newConn_fresh)
  then have "framed s s'" using fresh_conn_agrees by (simp add: framed_def same_client_def) (simp add: fresh_conn_def)
  ultimately show "I (snd (newConn p s))" using frame [OF s] by simp
qed

end

lemma client_io_backend [simp]:
  "b_client (snd (Backend_read b)) = b_client b" "b_client (snd (Backend_write m b)) = b_client b"
  by (simp_all add: Backend_io_same)

lemma framed_listeners: "framed s (upd_listeners f s)" "framed s (set_listen ch l s)"
  by (simp_all add: framed_def same_client_def agrees_def same_target_def same_pool_def set_listen_def)

lemma framed_listen_open: "framed s (add_listen_open t d s)"
  unfolding add_listen_open_def by (rule framed_upd_target) (simp add: same_target_def)

lemma framed_close: "framed s (upd_backend b Backend_Close s)"
  by (rule framed_upd_backend) simp

lemma same_client_listen [simp]:
  "same_client x (AddListenChannel ch x)" "same_client x (RemoveListenChannel ch x)" "same_client x (ClearListenChannels x)"
  "same_client x (BufferListen k ch x)" "same_client x (snd (TakePendingListens x))" "same_client x (SetInTransaction v x)"
  "same_client x (MapStmtName n h x)" "same_client x (UnmapStmtName n x)" "same_client x x"
  by (simp_all add: same_client_def AddListenChannel_def RemoveListenChannel_def ClearListenChannels_def BufferListen_def
      TakePendingListens_def SetInTransaction_def MapStmtName_def UnmapStmtName_def Let_def)

lemma keeps_client_ready: "keeps (\<lambda>b. b_client b = x) drainUntilReady"
proof -
  have "keeps (\<lambda>b. b_client b = x) Backend_read" by (simp add: keeps_def)
  then have "keeps (\<lambda>b. b_client b = x) ready_step" unfolding ready_step_def by (intro keeps_intros)
  from keeps_loop [OF this] show ?thesis unfolding keeps_def drainUntilReady_def by blast
qed

context stable
begin

lemma client: "(\<And>x. same_client x (f x)) \<Longrightarrow> keeps I (modifyP (upd_client c f))"
  by (rule modify) (rule framed_upd_client)

lemma listen_leaf:
  "keeps I (modifyP (upd_listeners f))" "keeps I (modifyP (set_listen ch l))" "keeps I (modifyP (add_listen_open t d))"
  "keeps I (modifyP (\<lambda>s. add_listen_open (p_target (poolOf s q)) d s))" "keeps I (modifyP (upd_backend b Backend_Close))"
  "keeps I (modifyP (upd_stats g))"
  by (rule modify, rule framed_listeners framed_listen_open framed_close framed_upd_stats)+

lemma ready: "keeps I (on_backend b drainUntilReady)"
proof (rule frames, rule frames_on_backend)
  fix x
  show "b_pool (snd (drainUntilReady x)) = b_pool x \<and> b_client (snd (drainUntilReady x)) = b_client x"
    using keeps_pool_ready [of "b_pool x"] keeps_client_ready [of "b_client x"] by (simp add: keeps_def)
qed

lemmas listen_intros = keeps_intros io conn pool listen_leaf ready

lemma remove: "keeps I (RemoveClientFromListen self ch c)"
  unfolding RemoveClientFromListen_def tearDownListen_def by (intro listen_intros)

lemma leaves: "keeps I (leave ch c)" "keeps I (leave_all c)"
  unfolding leave_def leave_all_def by (intro listen_intros remove client same_client_listen)+

lemma join: "(\<And>s. framed s (race s)) \<Longrightarrow> keeps I (getOrCreateListen race ch c)"
  unfolding getOrCreateListen_def open_listen_def register_listen_def by (intro listen_intros modify)

lemma deferring: "(\<And>x. same_client x (f x)) \<Longrightarrow> keeps I (deferred c tag f)"
  unfolding deferred_def by (intro listen_intros client)

lemma listen: "(\<And>s. framed s (race s)) \<Longrightarrow> keeps I (handleListen race c q)"
  unfolding handleListen_def by (intro listen_intros join deferring client same_client_listen)

lemma unlisten: "keeps I (handleUnlisten c q)"
  unfolding handleUnlisten_def Let_def
  by (intro listen_intros deferring leaves) (simp split: list.split)

lemma resolve: "(\<And>s. framed s (race s)) \<Longrightarrow> keeps I (resolvePendingListens race c)"
  unfolding resolvePendingListens_def apply_listen_def
  by (intro listen_intros client same_client_listen) (auto split: listenKind.split intro!: listen_intros join leaves client)

end

section \<open>Balanced and working states are stable\<close>

lemma framed_accounts: "accounts_ok T H s \<Longrightarrow> framed s s' \<Longrightarrow> accounts_ok T H s'"
  by (rule accounts_agree) (auto simp: framed_def)

lemma framed_pinned: "framed s s' \<Longrightarrow> pinned s' = pinned s"
  by (simp add: framed_def same_client_def pinned_def)

lemma framed_linked:
  assumes "accounts_ok T H s" "linked T s" "framed s s'"
  shows "linked T s'"
  unfolding linked_def
proof (intro ballI allI)
  fix t b c assume t: "t \<in> T" and b: "b \<in> owned t s'"
  then have b': "b \<in> owned t s" using agrees_owned assms(3) by (auto simp: framed_def)
  then have "b < nextBackend s" using owned_pool [OF accounts_okD(2) [OF assms(1) t] b'] by blast
  then show "b_client (backendOf s' b) = Some c \<longleftrightarrow> cl_backend (clientOf s' c) = Some b"
    using assms(2,3) t b' by (simp add: linked_def framed_def same_client_def)
qed

lemma framed_client: "framed s s' \<Longrightarrow> cl_backend (clientOf s' c) = cl_backend (clientOf s c) \<and> namedStmts (clientOf s' c) = namedStmts (clientOf s c)"
  by (simp add: framed_def same_client_def)

lemma getPool_owned:
  assumes "getPool db usr s = (r, s')" "pools_ok H t s"
  shows "owned t s' = owned t s"
  using assms(1)
proof (cases rule: getPool_cases)
  case (new u)
  have key: "PoolKey db usr \<notin> fst ` set (Pools (targetOf s u))"
    using new(2) by (simp add: LookupPool_def map_of_eq_None_iff)
  have tp: "target_pools t s' = target_pools t s @ (if t = u then [nextPool s] else [])"
    using alist_update_fresh [OF key] by (auto simp: new(5) target_pools_def)
  have po: "All_conns (poolOf s' p) = (if p = nextPool s then [] else All_conns (poolOf s p))" for p
    by (simp add: new(5) new_pool_def)
  have "nextPool s \<notin> set (target_pools t s)" using pools_ok_fresh [OF assms(2)] by blast
  then show ?thesis by (auto simp: owned_def tp po split: if_splits)
qed simp_all

lemma getPool_rest:
  assumes "getPool db usr s = (r, s')"
  shows "clientOf s' = clientOf s" "backendOf s' = backendOf s" "Targets s' = Targets s"
  using assms by (cases rule: getPool_cases; simp)+

lemma getPool_run:
  assumes "accounts_ok T H s" "getPool db usr s = (r, s')"
  shows "accounts_ok T H s'" "linked T s \<Longrightarrow> linked T s'" "pinned s' = pinned s"
    and "r = Ok (Some p) \<Longrightarrow> \<exists>t \<in> T. p \<in> set (target_pools t s')" "r \<noteq> Blocked" "r \<noteq> Err e"
proof -
  note own = getPool_owned [OF assms(2) accounts_okD(2) [OF assms(1)]]
  note rest = getPool_rest [OF assms(2)]
  show "accounts_ok T H s'"
    using assms(1) own rest(3) getPool_ok [OF assms(2) accounts_okD(2) [OF assms(1)]] by (simp add: accounts_ok_def)
  show "linked T s \<Longrightarrow> linked T s'" using own rest by (simp add: linked_def)
  show "pinned s' = pinned s" using rest by (simp add: pinned_def)
  show "r \<noteq> Blocked" "r \<noteq> Err e" using assms(2) by (cases rule: getPool_cases; simp)+
  show "\<exists>t \<in> T. p \<in> set (target_pools t s')" if "r = Ok (Some p)"
    using assms(2)
  proof (cases rule: getPool_cases)
    case (found t q)
    then have "p \<in> set (target_pools t s')" using that by (force simp: LookupPool_def target_pools_def dest: map_of_SomeD)
    then show ?thesis using found(1) accounts_okD(1) [OF assms(1)] by blast
  next
    case (new t)
    have key: "PoolKey db usr \<notin> fst ` set (Pools (targetOf s t))"
      using new(2) by (simp add: LookupPool_def map_of_eq_None_iff)
    have "p \<in> set (target_pools t s')" using that new(4) alist_update_fresh [OF key] by (auto simp: new(5) target_pools_def)
    then show ?thesis using new(1) accounts_okD(1) [OF assms(1)] by blast
  qed (use that in simp_all)
qed

interpretation calm: stable "balanced T c" for T c
proof
  fix s s' assume b: "balanced T c s" and f: "framed s s'"
  show "balanced T c s'"
    using b framed_accounts [OF _ f] framed_linked [OF _ _ f] framed_client [OF f] framed_pinned [OF f] by (auto simp: balanced_def)
next
  fix db usr show "keeps (balanced T c) (getPool db usr)"
  proof (rule keepsI)
    fix s assume b: "balanced T c s"
    obtain r s' where g: "getPool db usr s = (r, s')" by (rule prod.exhaust)
    have "accounts_ok T (pinned s) s" using b by (simp add: balanced_def)
    from getPool_run(1-3) [OF this g] show "balanced T c (snd (getPool db usr s))"
      using b getPool_rest [OF g] g by (simp add: balanced_def)
  qed
qed

interpretation busy: stable "working T c b w" for T c b w
proof
  fix s s' assume b: "working T c b w s" and f: "framed s s'"
  show "working T c b w s'"
    using b framed_accounts [OF _ f] framed_linked [OF _ _ f] framed_client [OF f, of c] framed_pinned [OF f] by (cases w) (auto simp: working_def)
next
  fix db usr show "keeps (working T c b w) (getPool db usr)"
  proof (rule keepsI)
    fix s assume b: "working T c b w s"
    obtain r s' where g: "getPool db usr s = (r, s')" by (rule prod.exhaust)
    have "accounts_ok T (insert b (pinned s)) s" using b by (simp add: working_def)
    from getPool_run(1-3) [OF this g] show "working T c b w (snd (getPool db usr s))"
      using b getPool_rest [OF g] g by (cases w) (simp_all add: working_def)
  qed
qed

section \<open>Taking, pinning and giving back\<close>

lemma take_working:
  assumes b: "balanced T c s" "w = Borrowed \<and> cl_backend (clientOf s c) = None \<or> w = Extra" and t: "t \<in> T" "p \<in> set (target_pools t s)" "Queue (poolOf s p) = b # q"
  shows "working T c b w (take_idle p b s)"
proof -
  have ok: "accounts_ok T (pinned s) s" using b by (simp add: balanced_def)
  note tk = take_accounts [OF ok t]
  have "pinned (take_idle p b s) = pinned s" by (simp add: take_idle_def pinned_def)
  moreover have "linked T (take_idle p b s)"
    using b by (simp add: balanced_def linked_def take_idle_def owned_upd)
  ultimately show ?thesis using tk b by (auto simp: working_def balanced_def take_idle_def)
qed

lemma only_pin:
  assumes "working T c b w s" "cl_backend (clientOf s x) = Some b"
  shows "w = Pinned \<and> x = c \<and> b_client (backendOf s b) = Some c"
proof -
  have ok: "accounts_ok T (insert b (pinned s)) s" "linked T s" using assms(1) by (auto simp: working_def)
  obtain t where "t \<in> T" "b \<in> owned t s" using accounts_okD(3) [OF ok(1), of b] by blast
  then have l: "b_client (backendOf s b) = Some y \<longleftrightarrow> cl_backend (clientOf s y) = Some b" for y using ok(2) by (simp add: linked_def)
  have "b \<in> pinned s" using assms(2) by (auto simp: pinned_def)
  then have "w = Pinned" using assms(1) by (auto simp: working_def split: hold.splits)
  then have "cl_backend (clientOf s c) = Some b" using assms(1) by (simp add: working_def)
  then show ?thesis using l [of c] l [of x] assms(2) \<open>w = Pinned\<close> by simp
qed

lemma unpinned_by:
  assumes "working T c b w s"
  shows "b_client (backendOf s b) = (if w = Pinned then Some c else None)"
proof -
  have ok: "accounts_ok T (insert b (pinned s)) s" "linked T s" using assms(1) by (auto simp: working_def)
  obtain t where "t \<in> T" "b \<in> owned t s" using accounts_okD(3) [OF ok(1), of b] by blast
  then have l: "b_client (backendOf s b) = Some y \<longleftrightarrow> cl_backend (clientOf s y) = Some b" for y using ok(2) by (simp add: linked_def)
  show ?thesis
  proof (cases "b_client (backendOf s b)")
    case None
    then show ?thesis using l [of c] assms by (auto simp: working_def)
  next
    case (Some y)
    then show ?thesis using only_pin [OF assms, of y] l [of y] by auto
  qed
qed

lemma pinned_split: "pinned s = set_option (cl_backend (clientOf s c)) \<union> {b. \<exists>x. x \<noteq> c \<and> cl_backend (clientOf s x) = Some b}"
  by (auto simp: pinned_def)

lemma pinned_drop:
  assumes "working T c b w s" "clientOf s' = (if w = Pinned then (clientOf s)(c := y) else clientOf s)" "w = Pinned \<Longrightarrow> cl_backend y = None"
  shows "pinned s' = pinned s - {b}"
proof (cases "w = Pinned")
  case True
  then have "cl_backend (clientOf s x) \<noteq> Some b" if "x \<noteq> c" for x using only_pin [OF assms(1)] that by blast
  then show ?thesis
    using True assms unfolding pinned_split [of s c] pinned_split [of s' c] by (auto simp: working_def)
next
  case False
  then have "b \<notin> pinned s" using assms(1) by (cases w) (simp_all add: working_def)
  then show ?thesis using False assms(2) by (simp add: pinned_def)
qed

lemma linked_drop:
  assumes "working T c b w s" "clientOf s' = (if w = Pinned then (clientOf s)(c := y) else clientOf s)" "w = Pinned \<Longrightarrow> cl_backend y = None"
    and "\<And>x. b_client (backendOf s' x) = (if x = b then None else b_client (backendOf s x))" "\<And>t. owned t s' = owned t s"
  shows "linked T s'"
  unfolding linked_def
proof (intro ballI allI)
  fix t x z assume t: "t \<in> T" and x: "x \<in> owned t s'"
  have l: "b_client (backendOf s x) = Some z \<longleftrightarrow> cl_backend (clientOf s z) = Some x"
    using assms(1,5) t x by (simp add: working_def linked_def)
  have z: "cl_backend (clientOf s z) = Some b \<Longrightarrow> w = Pinned \<and> z = c" using only_pin [OF assms(1)] by blast
  have cw: "w = Pinned \<Longrightarrow> cl_backend (clientOf s c) = Some b" using assms(1) by (simp add: working_def)
  show "b_client (backendOf s' x) = Some z \<longleftrightarrow> cl_backend (clientOf s' z) = Some x"
  proof (cases "x = b")
    case True
    then have "cl_backend (clientOf s' z) \<noteq> Some x" using z assms(2,3) by (cases "w = Pinned") auto
    then show ?thesis using True assms(4) by simp
  next
    case False
    then have "cl_backend (clientOf s' z) = Some x \<longleftrightarrow> cl_backend (clientOf s z) = Some x" using cw assms(2,3) by (cases "w = Pinned") auto
    then show ?thesis using False l assms(4) by simp
  qed
qed

lemma Release_settles:
  assumes w: "working T c b w s"
  shows "\<exists>s'. Release b s = (Ok (), s') \<and> balanced T c s'"
proof -
  have ok: "accounts_ok T (insert b (pinned s)) s" using w by (simp add: working_def)
  obtain s' where s': "Release b s = (Ok (), s')" "accounts_ok T (insert b (pinned s) - {b}) s'"
      "clientOf s' = (case b_client (backendOf s b) of None \<Rightarrow> clientOf s
        | Some c \<Rightarrow> (clientOf s)(c := SetInTransaction False (SetBackend None (clientOf s c))))"
      "\<And>x. b_client (backendOf s' x) = (if x = b then None else b_client (backendOf s x))" "\<And>t. owned t s' = owned t s"
    using Release_run [OF ok, of b] by blast
  let ?y = "SetInTransaction False (SetBackend None (clientOf s c))"
  have y: "cl_backend ?y = None" "namedStmts ?y = namedStmts (clientOf s c)" by (simp_all add: SetInTransaction_def SetBackend_def)
  have c: "clientOf s' = (if w = Pinned then (clientOf s)(c := ?y) else clientOf s)" using s'(3) unpinned_by [OF w] by simp
  have "pinned s' = pinned s - {b}" by (rule pinned_drop [OF w c y(1)])
  moreover have "linked T s'" by (rule linked_drop [OF w c y(1) s'(4,5)])
  ultimately show ?thesis using s'(1,2) w c y by (auto simp: balanced_def working_def)
qed

lemma Return_settles:
  assumes w: "working T c b w s" and n: "w \<noteq> Pinned"
  shows "\<exists>s'. Return b s = (Ok (), s') \<and> balanced T c s'"
proof -
  have ok: "accounts_ok T (insert b (pinned s)) s" using w by (simp add: working_def)
  obtain s' where s': "Return b s = (Ok (), s')" "accounts_ok T (insert b (pinned s) - {b}) s'" "clientOf s' = clientOf s"
      "\<And>x. b_client (backendOf s' x) = (if x = b then None else b_client (backendOf s x))" "\<And>t. owned t s' = owned t s"
    using Return_run [OF ok, of b] by blast
  have "pinned s' = pinned s - {b}" by (rule pinned_drop [OF w]) (use s'(3) n in simp_all)
  moreover have "linked T s'" by (rule linked_drop [OF w _ _ s'(4,5)]) (use s'(3) n in simp_all)
  ultimately show ?thesis using s'(1,2,3) w by (auto simp: balanced_def working_def)
qed

lemma pin_ptrs: "clientOf (pin c b s) = (clientOf s)(c := SetBackend (Some b) (clientOf s c))" "owned t (pin c b s) = owned t s"
  "b_client (backendOf (pin c b s) x) = (if x = b then Some c else b_client (backendOf s x))"
  "clientOf (unpin c b s) = (clientOf s)(c := SetBackend None (clientOf s c))" "owned t (unpin c b s) = owned t s"
  "b_client (backendOf (unpin c b s) x) = (if x = b then None else b_client (backendOf s x))"
  by (simp_all add: pin_def unpin_def owned_upd)

lemma pin_accounts: "accounts_ok T H s \<Longrightarrow> accounts_ok T H (pin c b s)" "accounts_ok T H s \<Longrightarrow> accounts_ok T H (unpin c b s)"
  unfolding pin_def unpin_def
  by (rule accounts_agree, assumption, rule agrees_trans [OF agrees_upd_client agrees_upd_backend], simp_all)+

lemma pin_working:
  assumes "working T c b Borrowed s"
  shows "working T c b Pinned (pin c b s)"
proof -
  have "cl_backend (clientOf s c) = None" "b \<notin> pinned s" using assms by (simp_all add: working_def)
  then have p: "pinned (pin c b s) = insert b (pinned s)" 
    unfolding pinned_split [of s c] pinned_split [of "pin c b s" c] by (auto simp: pin_ptrs SetBackend_def)
  have "linked T (pin c b s)"
    unfolding linked_def
  proof (intro ballI allI)
    fix t x z assume "t \<in> T" "x \<in> owned t (pin c b s)"
    then have l: "b_client (backendOf s x) = Some z \<longleftrightarrow> cl_backend (clientOf s z) = Some x"
      using assms by (simp add: working_def linked_def pin_ptrs)
    have "cl_backend (clientOf s z) \<noteq> Some b" using assms by (auto simp: working_def pinned_def)
    then show "b_client (backendOf (pin c b s) x) = Some z \<longleftrightarrow> cl_backend (clientOf (pin c b s) z) = Some x"
      using l assms by (auto simp: pin_ptrs SetBackend_def working_def)
  qed
  then show ?thesis using assms pin_accounts(1) p by (simp add: working_def pin_ptrs) (simp add: SetBackend_def)
qed

lemma unpin_working:
  assumes w: "working T c b Pinned s"
  shows "working T c b Borrowed (unpin c b s)"
proof -
  have y: "cl_backend (SetBackend None (clientOf s c)) = None" "namedStmts (SetBackend None (clientOf s c)) = namedStmts (clientOf s c)"
    by (simp_all add: SetBackend_def)
  have c: "clientOf (unpin c b s) = (if Pinned = Pinned then (clientOf s)(c := SetBackend None (clientOf s c)) else clientOf s)"
    by (simp add: pin_ptrs)
  have "pinned (unpin c b s) = pinned s - {b}" by (rule pinned_drop [OF w c y(1)])
  moreover have "linked T (unpin c b s)" by (rule linked_drop [OF w c y(1)]) (simp_all add: pin_ptrs)
  ultimately show ?thesis using w y pin_accounts(2) by (simp add: working_def pin_ptrs)
qed

section \<open>Borrowing\<close>

text \<open>The other goroutines that run while a client waits for a connection: they leave
  a balanced state, do not touch that client's pin and remove no pool.\<close>

definition sched_ok :: "targetId set \<Rightarrow> clientId \<Rightarrow> sched \<Rightarrow> bool" where
  "sched_ok T c sch \<longleftrightarrow> (\<forall>(w, f) \<in> set sch. \<forall>s. balanced T c s \<longrightarrow>
     balanced T c (f s) \<and> cl_backend (clientOf (f s) c) = cl_backend (clientOf s c) \<and> (\<forall>t \<in> T. set (target_pools t s) \<subseteq> set (target_pools t (f s))))"

definition borrowed :: "targetId set \<Rightarrow> clientId \<Rightarrow> hold \<Rightarrow> backendId res \<times> Server \<Rightarrow> bool" where
  "borrowed T c w x \<longleftrightarrow> (case x of (Ok b, s) \<Rightarrow> working T c b w s | (Panic, s) \<Rightarrow> False | (_, s) \<Rightarrow> balanced T c s)"

lemma balanced_target:
  "balanced T c s \<Longrightarrow> (\<And>x. same_target x (f x)) \<Longrightarrow> balanced T c (upd_target u f s)"
  by (rule calm.frame) (auto intro: framed_upd_target)

lemma borrow_wait_working:
  assumes "balanced T c s" "h = Borrowed \<and> cl_backend (clientOf s c) = None \<or> h = Extra" "t \<in> T" "p \<in> set (target_pools t s)" "sched_ok T c sch"
  shows "borrowed T c h (borrow_wait p sch s)"
  using assms
proof (induction sch arbitrary: s)
  case Nil
  then show ?case by (simp add: borrowed_def)
next
  case (Cons x ws)
  obtain w f where x: "x = (w, f)" by (cases x)
  have ws: "sched_ok T c ws" using Cons.prems(5) by (simp add: sched_ok_def)
  have fs: "balanced T c (f s)" "h = Borrowed \<and> cl_backend (clientOf (f s) c) = None \<or> h = Extra" "p \<in> set (target_pools t (f s))"
    using Cons.prems by (auto simp: sched_ok_def x)
  let ?u = "p_target (poolOf (f s) p)"
  let ?s1 = "upd_target ?u (\<lambda>x. x\<lparr>ConnReady := ConnReady x - 1\<rparr>) (f s)"
  let ?s2 = "upd_target ?u (\<lambda>x. x\<lparr>Demand := True\<rparr>) ?s1"
  have 1: "balanced T c ?s1" by (rule balanced_target [OF fs(1)]) (simp add: same_target_def)
  have 2: "balanced T c ?s2" by (rule balanced_target [OF 1]) (simp add: same_target_def)
  have p: "p \<in> set (target_pools t ?s1)" "p \<in> set (target_pools t ?s2)" using fs(3) by (auto simp: target_pools_def)
  note IH = Cons.IH [OF _ _ Cons.prems(3) _ ws]
  have go: "borrowed T c h (borrow_wait p ws (f s))" "borrowed T c h (borrow_wait p ws ?s2)"
    using IH [OF fs] IH [OF 2 _ p(2)] fs(2) by simp_all
  have tk: "borrowed T c h (Ok b, take_idle p b (f s))" "borrowed T c h (Ok b, take_idle p b ?s1)" if "Queue (poolOf (f s) p) = b # q" for b q
    using take_working [OF fs(1,2) Cons.prems(3) fs(3) that] take_working [OF 1 _ Cons.prems(3) p(1)] that fs(2)
    by (simp_all add: borrowed_def)
  show ?case
    using go tk fs by (cases w; cases "Queue (poolOf (f s) p)") (simp_all add: x Let_def, simp_all add: borrowed_def)
qed

lemma borrowConn_working:
  assumes "balanced T c s" "h = Borrowed \<and> cl_backend (clientOf s c) = None \<or> h = Extra" "t \<in> T" "p \<in> set (target_pools t s)" "sched_ok T c sch"
  shows "borrowed T c h (borrowConn sch p s)"
proof -
  let ?s1 = "upd_target (p_target (poolOf s p)) (\<lambda>x. x\<lparr>Demand := True\<rparr>) s"
  have 1: "balanced T c ?s1" by (rule balanced_target [OF assms(1)]) (simp add: same_target_def)
  have p: "p \<in> set (target_pools t ?s1)" using assms(4) by (auto simp: target_pools_def)
  have "borrowed T c h (borrow_wait p sch ?s1)" using borrow_wait_working [OF 1 _ assms(3) p assms(5)] assms(2) by simp
  then show ?thesis
    using take_working [OF assms(1-4)] assms(1,2)
    by (cases "Queue (poolOf s p)") (auto simp: borrowConn_def Let_def borrowed_def)
qed

section \<open>Handlers settle\<close>

text \<open>\<open>sure m\<close>: \<open>m\<close> returns without an error, or panics. \<open>settles\<close>: started while \<open>c\<close> is served
  by \<open>b\<close>, the handler leaves a balanced state however it returns. \<open>serves\<close>: the same from a balanced
  state.\<close>

definition sure :: "('s, 'a) prog \<Rightarrow> bool" where
  "sure m \<longleftrightarrow> (\<forall>s. fst (m s) = Panic \<or> (\<exists>x. fst (m s) = Ok x))"

definition settles :: "targetId set \<Rightarrow> clientId \<Rightarrow> backendId \<Rightarrow> hold \<Rightarrow> (Server, 'a) prog \<Rightarrow> bool" where
  "settles T c b w m \<longleftrightarrow> (\<forall>s. working T c b w s \<longrightarrow> fst (m s) = Panic \<or> balanced T c (snd (m s)))"

definition serves :: "targetId set \<Rightarrow> clientId \<Rightarrow> (Server, 'a) prog \<Rightarrow> bool" where
  "serves T c m \<longleftrightarrow> (\<forall>s. balanced T c s \<longrightarrow> fst (m s) = Panic \<or> balanced T c (snd (m s)))"

lemma sure_leaf: "sure (returnP x)" "sure (getP f)" "sure (modifyP g)" "sure panicP" "sure (getPool db usr)"
  by (simp_all add: sure_def prog_defs) (auto simp: getPool_def Let_def split: option.split)

lemma sureD: "sure m \<Longrightarrow> m s = (r, s') \<Longrightarrow> r = Panic \<or> (\<exists>x. r = Ok x)"
  unfolding sure_def by (metis fst_conv)

lemma sureI: "(\<And>s. fst (m s) = Panic \<or> (\<exists>x. fst (m s) = Ok x)) \<Longrightarrow> sure m"
  by (simp add: sure_def)

lemma sure_bind:
  assumes "sure m" "\<And>x. sure (k x)"
  shows "sure (bindP m k)"
proof (rule sureI)
  fix s obtain r s1 where m: "m s = (r, s1)" by (rule prod.exhaust)
  have "fst (k x s1) = Panic \<or> (\<exists>y. fst (k x s1) = Ok y)" for x using assms(2) [of x] by (simp add: sure_def)
  then show "fst (bindP m k s) = Panic \<or> (\<exists>x. fst (bindP m k s) = Ok x)"
    using sureD [OF assms(1) m] m by (elim disjE exE) (simp_all add: bindP_def)
qed

lemma sure_then: "sure m \<Longrightarrow> sure k \<Longrightarrow> sure (thenP m k)"
  unfolding thenP_def by (rule sure_bind)

lemma sure_try: "ends m \<Longrightarrow> (\<And>e. sure (h e)) \<Longrightarrow> (\<And>x. sure (k x)) \<Longrightarrow> sure (tryP m h k)"
  unfolding sure_def [of "tryP m h k"]
proof
  fix s assume "ends m" "\<And>e. sure (h e)" "\<And>x. sure (k x)"
  moreover obtain r s1 where "m s = (r, s1)" by (rule prod.exhaust)
  ultimately show "fst (tryP m h k s) = Panic \<or> (\<exists>x. fst (tryP m h k s) = Ok x)"
    by (cases r) (auto simp: tryP_def sure_def ends_def dest: spec [of _ s])
qed

lemma sure_for: "(\<And>x. sure (body x)) \<Longrightarrow> sure (forP xs body)"
  by (induction xs) (simp_all add: sure_leaf sure_then)

lemma settlesD: "settles T c b w m \<Longrightarrow> working T c b w s \<Longrightarrow> fst (m s) = Panic \<or> balanced T c (snd (m s))"
  by (simp add: settles_def)

lemma settles_try:
  assumes "keeps (working T c b w) m" "ends m" "\<And>e. settles T c b w (h e)" "\<And>x. settles T c b w (k x)"
  shows "settles T c b w (tryP m h k)"
  unfolding settles_def
proof (intro allI impI)
  fix s assume s: "working T c b w s"
  obtain r s1 where m: "m s = (r, s1)" by (rule prod.exhaust)
  have s1: "working T c b w s1" by (rule keepsD [OF assms(1) m s])
  have "r \<noteq> Blocked" using assms(2) m unfolding ends_def by (metis fst_conv)
  then show "fst (tryP m h k s) = Panic \<or> balanced T c (snd (tryP m h k s))"
    using m s1 assms(3,4) by (cases r) (auto simp: tryP_def settles_def)
qed

lemma settles_bind:
  assumes "keeps (working T c b w) m" "sure m" "\<And>x. settles T c b w (k x)"
  shows "settles T c b w (bindP m k)"
  unfolding settles_def
proof (intro allI impI)
  fix s assume s: "working T c b w s"
  obtain r s1 where m: "m s = (r, s1)" by (rule prod.exhaust)
  have s1: "working T c b w s1" by (rule keepsD [OF assms(1) m s])
  show "fst (bindP m k s) = Panic \<or> balanced T c (snd (bindP m k s))"
    using sureD [OF assms(2) m] m settlesD [OF assms(3) s1] by (elim disjE exE) (simp_all add: bindP_def)
qed

lemma settles_then: "keeps (working T c b w) m \<Longrightarrow> sure m \<Longrightarrow> settles T c b w k \<Longrightarrow> settles T c b w (thenP m k)"
  unfolding thenP_def by (rule settles_bind)

lemma settles_panic: "settles T c b w panicP"
  by (simp add: settles_def panicP_def)

lemma settles_Release: "keeps (balanced T c) k \<Longrightarrow> settles T c b w (thenP (Release b) k)"
  unfolding settles_def
proof (intro allI impI)
  fix s assume k: "keeps (balanced T c) k" and "working T c b w s"
  then obtain s1 where "Release b s = (Ok (), s1)" "balanced T c s1" using Release_settles by blast
  then show "fst (thenP (Release b) k s) = Panic \<or> balanced T c (snd (thenP (Release b) k s))"
    using k by (simp add: thenP_def bindP_def keeps_def)
qed

lemma settles_give_up: "settles T c b w (give_up c' b e)"
  unfolding give_up_def by (cases e) (auto intro!: settles_Release calm.io)

lemma settles_fail: "settles T c b w (thenP (Release b) (failP e))"
  by (rule settles_Release) (rule keeps_fail)

lemma settles_Return: "w \<noteq> Pinned \<Longrightarrow> settles T c b w (Return b)"
  using Return_settles by (fastforce simp: settles_def)

lemma settles_unpin: "settles T c b Pinned (thenP (modifyP (unpin c b)) (Return b))"
  using unpin_working Return_settles by (fastforce simp: settles_def thenP_def bindP_def modifyP_def)

lemma settles_pinned: "keeps (working T c b Pinned) m \<Longrightarrow> settles T c b Pinned m"
  by (simp add: settles_def keeps_def working_pinned)

lemma settles_pin: "settles T c b Borrowed (modifyP (pin c b))"
  using pin_working by (simp add: settles_def modifyP_def working_pinned)

lemma pin_if_free_run:
  "working T c b (if p then Pinned else Borrowed) s \<Longrightarrow> pin_if_free c b s = (Ok (), if p then s else pin c b s)"
  by (auto simp: pin_if_free_def prog_defs working_def split: if_splits)

lemma settles_pin_if_free: "keeps (balanced T c) k \<Longrightarrow> settles T c b (if p then Pinned else Borrowed) (thenP (pin_if_free c b) k)"
  unfolding settles_def
proof (intro allI impI)
  fix s assume k: "keeps (balanced T c) k" and w: "working T c b (if p then Pinned else Borrowed) s"
  have "balanced T c (if p then s else pin c b s)"
    using w pin_working [of T c b s] by (cases p) (simp_all add: working_pinned)
  then show "fst (thenP (pin_if_free c b) k s) = Panic \<or> balanced T c (snd (thenP (pin_if_free c b) k s))"
    using k pin_if_free_run [OF w] by (simp add: thenP_def bindP_def keeps_def)
qed

lemma RemoveClientFromListen_sure: "sure (RemoveClientFromListen None ch c)"
proof (rule sureI)
  fix s show "fst (RemoveClientFromListen None ch c s) = Panic \<or> (\<exists>x. fst (RemoveClientFromListen None ch c s) = Ok x)"
    using RemoveClientFromListen_run [of None ch c s] by auto
qed

lemma ends_conn [ends_intros]: "ends (newConn p)" "ends (getPool db usr)"
  unfolding newConn_def by (intro ends_intros) (auto simp: ends_def getPool_def Let_def split: option.split)

lemma ends_join: "ends (getOrCreateListen race ch c)"
  unfolding getOrCreateListen_def open_listen_def register_listen_def by (intro ends_intros ends_ready)

lemma sure_resolve: "sure (resolvePendingListens race c)"
proof -
  have "sure (apply_listen race c a)" for a
    unfolding apply_listen_def leave_def leave_all_def
    by (cases "plKind a") (auto intro!: sure_try ends_join sure_leaf sure_then sure_bind sure_for RemoveClientFromListen_sure)
  then show ?thesis
    unfolding resolvePendingListens_def by (intro sure_bind sure_leaf) (auto intro!: sure_then sure_leaf sure_for)
qed

lemma reconcile_settles:
  assumes "\<And>s. framed s (race s)"
  shows "settles T c b (if w then Pinned else Borrowed) (reconcileConn race c b st w)"
  unfolding settles_def
proof (intro allI impI)
  fix s assume s: "working T c b (if w then Pinned else Borrowed) s"
  have n: "\<not> HasNamedStatements (clientOf s c)" using s by (simp add: working_def HasNamedStatements_def split: if_splits)
  let ?idle = "modifyP (upd_client c (SetInTransaction False))"
  let ?out = "if w then thenP (modifyP (unpin c b)) (Return b) else Return b"
  have out: "settles T c b (if w then Pinned else Borrowed) ?out" using settles_unpin settles_Return by (cases w) auto
  have idle: "keeps (working T c b (if w then Pinned else Borrowed)) ?idle" by (rule busy.client) simp
  have 1: "settles T c b (if w then Pinned else Borrowed) (thenP (pin_if_free c b) (modifyP (upd_client c (SetInTransaction True))))"
    by (rule settles_pin_if_free) (rule calm.client, simp)
  have 2: "settles T c b (if w then Pinned else Borrowed) (thenP ?idle (thenP (resolvePendingListens race c) ?out))"
    by (intro settles_then idle sure_leaf sure_resolve busy.resolve out assms)
  have 3: "settles T c b (if w then Pinned else Borrowed) (thenP ?idle ?out)" by (intro settles_then idle sure_leaf out)
  have "reconcileConn race c b st w s =
      (if st = CHR ''T'' \<or> st = CHR ''E'' then thenP (pin_if_free c b) (modifyP (upd_client c (SetInTransaction True)))
       else if st = CHR ''I'' then thenP ?idle (thenP (resolvePendingListens race c) ?out) else thenP ?idle ?out) s"
    using n unfolding reconcileConn_def
    by (subst run_bind [OF run_leaf(1)], cases w) (simp_all add: thenP_def bindP_def modifyP_def returnP_def)
  then show "fst (reconcileConn race c b st w s) = Panic \<or> balanced T c (snd (reconcileConn race c b st w s))"
    using 1 2 3 s by (simp add: settles_def)
qed

lemma settles_if: "(p \<Longrightarrow> settles T c b w m) \<Longrightarrow> (\<not> p \<Longrightarrow> settles T c b w k) \<Longrightarrow> settles T c b w (if p then m else k)"
  by simp

lemma settles_option:
  "(x = None \<Longrightarrow> settles T c b w m) \<Longrightarrow> (\<And>y. x = Some y \<Longrightarrow> settles T c b w (k y)) \<Longrightarrow>
     settles T c b w (case x of None \<Rightarrow> m | Some y \<Rightarrow> k y)"
  by (cases x) auto

lemmas settles_intros = settles_try settles_bind settles_panic settles_give_up settles_fail settles_if settles_option
  sure_leaf ends_forward ends_send

lemma loop_sure:
  assumes "sure body"
  shows "fst (loopP n body s) \<in> {Panic, Blocked} \<or> (\<exists>x. fst (loopP n body s) = Ok x)"
proof (induction n arbitrary: s)
  case (Suc n)
  obtain r s1 where m: "body s = (r, s1)" by (rule prod.exhaust)
  from sureD [OF assms m] show ?case
  proof (elim disjE exE)
    fix y assume "r = Ok y"
    then show ?case using m Suc [of s1] by (cases y) (simp_all add: bindP_def returnP_def)
  qed (use m in \<open>simp add: bindP_def\<close>)
qed simp

lemma deploy_loop:
  "sure (\<lambda>s. loopP (backend_fuel (backendOf s b)) (deploy_stmt_step b h) s)"
  "keeps (working T c b' w) (\<lambda>s. loopP (backend_fuel (backendOf s b)) (deploy_stmt_step b h) s)"
proof -
  have e: "ends (deploy_stmt_step b h)" unfolding deploy_stmt_step_def by (intro ends_intros)
  have s: "sure (deploy_stmt_step b h)"
    unfolding deploy_stmt_step_def by (intro sure_try ends_intros sure_leaf) (auto intro!: sure_leaf sure_then)
  have "length (from_backend b s') < length (from_backend b s)" if "deploy_stmt_step b h s = (Ok None, s')" for s s'
    using that by (auto simp: deploy_stmt_step_def tryP_def thenP_def bindP_def returnP_def modifyP_def MarkStmt_def
        split: prod.splits res.splits if_splits elim!: on_backend_read_cases)
  then have nb: "fst (loopP (Suc (length (from_backend b s))) (deploy_stmt_step b h) s) \<noteq> Blocked" for s
    by (rule relay_ends [OF e])
  note ok = loop_sure [OF s]
  show "sure (\<lambda>s. loopP (backend_fuel (backendOf s b)) (deploy_stmt_step b h) s)"
  proof (rule sureI)
    fix s show "fst (loopP (backend_fuel (backendOf s b)) (deploy_stmt_step b h) s) = Panic \<or>
        (\<exists>x. fst (loopP (backend_fuel (backendOf s b)) (deploy_stmt_step b h) s) = Ok x)"
      using ok [of "backend_fuel (backendOf s b)" s] nb [of s] unfolding from_backend_def by (simp del: loopP.simps)
  qed
  have "framed s (upd_backend b (MarkStmt h) s)" for s by (rule framed_upd_backend) (simp add: MarkStmt_def)
  then have "keeps (working T c b' w) (deploy_stmt_step b h)"
    unfolding deploy_stmt_step_def by (intro keeps_intros busy.io busy.modify)
  then show "keeps (working T c b' w) (\<lambda>s. loopP (backend_fuel (backendOf s b)) (deploy_stmt_step b h) s)"
    by (intro keeps_state [where m = "\<lambda>n. loopP n (deploy_stmt_step b h)" and f = "\<lambda>s. backend_fuel (backendOf s b)"] keeps_loop)
qed

lemma settles_deploy: "settles T c b w k \<Longrightarrow> settles T c b w (deploy_stmt c' b h k)"
  unfolding deploy_stmt_def by (intro settles_intros keeps_intros busy.io busy.pool deploy_loop)

lemma settles_deploy_missing: "settles T c b w k \<Longrightarrow> settles T c b w (deploy_missing c' b ps hs k)"
  by (induction hs) (auto intro!: settles_intros keeps_intros settles_deploy)

lemma settles_forward:
  "(\<And>sent. settles T c b w (k sent)) \<Longrightarrow> settles T c b w (forward_pipeline c' b rm ms sent k)"
proof (induction ms arbitrary: sent)
  case (Cons x ms)
  obtain i m where "x = (i, m)" by (cases x)
  then show ?case using Cons by (auto simp: Let_def intro!: settles_intros keeps_intros busy.io)
qed simp

lemma settles_send_all: "settles T c b w k \<Longrightarrow> settles T c b w (send_all c' b ms k)"
  by (induction ms) (auto intro!: settles_intros busy.io)

lemma settles_await:
  assumes "\<And>s. framed s (q_race env s)"
  shows "settles T c b (if wp \<or> requiresPin x then Pinned else Borrowed) (await_pipeline env c b x wp sent)"
proof -
  have 1: "\<not> wp \<and> \<not> requiresPin x \<Longrightarrow> settles T c b (if wp \<or> requiresPin x then Pinned else Borrowed) (modifyP (pin c b))"
    and 2: "\<not> (\<not> wp \<and> \<not> requiresPin x) \<Longrightarrow> settles T c b (if wp \<or> requiresPin x then Pinned else Borrowed) (returnP ())"
    using settles_pin settles_pinned [OF keeps_return] by auto
  show ?thesis
    unfolding await_pipeline_def
    by (intro settles_if settles_panic settles_try busy.io ends_forward settles_fail reconcile_settles assms 1 2)
qed

section \<open>From a balanced state\<close>

lemma servesD: "serves T c m \<Longrightarrow> balanced T c s \<Longrightarrow> fst (m s) = Panic \<or> balanced T c (snd (m s))"
  by (simp add: serves_def)

lemma serves_keeps: "keeps (balanced T c) m \<Longrightarrow> serves T c m"
  by (simp add: serves_def keeps_def)

text \<open>Getting a connection: the rest of the handler runs on one that is pinned, or pinned now, or
  only borrowed.\<close>

lemma borrow_serves:
  assumes b: "balanced T c s" "w = Borrowed \<and> cl_backend (clientOf s c) = None \<or> w = Extra" and sch: "sched_ok T c sch"
    and t: "t \<in> T" "p \<in> set (target_pools t s)" and k: "\<And>b. settles T c b w (k b)" and h: "\<And>e. keeps (balanced T c) (h e)"
  shows "fst (tryP (borrowConn sch p) h k s) = Panic \<or> balanced T c (snd (tryP (borrowConn sch p) h k s))"
proof -
  obtain r s1 where m: "borrowConn sch p s = (r, s1)" by (rule prod.exhaust)
  have "borrowed T c w (r, s1)" using borrowConn_working [OF b t sch] m by simp
  then show ?thesis using m settlesD [OF k] h by (cases r) (simp_all add: tryP_def borrowed_def keeps_def)
qed

lemma pool_borrow_serves:
  assumes "balanced T c s" "w = Borrowed \<and> cl_backend (clientOf s c) = None \<or> w = Extra" "sched_ok T c sch"
    and "\<And>p b. settles T c b w (k p b)" "\<And>e. keeps (balanced T c) (h e)" "keeps (balanced T c) none"
  shows "fst (bindP (getPool db usr) (\<lambda>pool. case pool of None \<Rightarrow> none | Some p \<Rightarrow> tryP (borrowConn sch p) h (k p)) s) = Panic \<or>
    balanced T c (snd (bindP (getPool db usr) (\<lambda>pool. case pool of None \<Rightarrow> none | Some p \<Rightarrow> tryP (borrowConn sch p) h (k p)) s))"
proof -
  obtain r s1 where g: "getPool db usr s = (r, s1)" by (rule prod.exhaust)
  have ok: "accounts_ok T (pinned s) s" using assms(1) by (simp add: balanced_def)
  have b1: "balanced T c s1" by (rule keepsD [OF calm.pool g assms(1)])
  have c1: "w = Borrowed \<and> cl_backend (clientOf s1 c) = None \<or> w = Extra" using getPool_rest [OF g] assms(2) by simp
  show ?thesis
  proof (cases r)
    case (Ok pool)
    show ?thesis
    proof (cases pool)
      case None
      then show ?thesis using Ok g assms(6) b1 by (simp add: bindP_def keeps_def)
    next
      case (Some p)
      obtain t where t: "t \<in> T" "p \<in> set (target_pools t s1)" using getPool_run(4) [OF ok g] Ok Some by blast
      then show ?thesis using borrow_serves [OF b1 c1 assms(3) t assms(4,5)] Ok Some g by (simp add: bindP_def)
    qed
  qed (use g b1 in \<open>simp_all add: bindP_def\<close>)
qed

lemma acquire_serves:
  assumes s: "balanced T c s" and sch: "sched_ok T c (q_sched env)"
    and k: "\<And>b. settles T c b (if cl_backend (clientOf s c) \<noteq> None \<or> pinIt then Pinned else Borrowed) (k b)"
  shows "fst (acquire env c pinIt k s) = Panic \<or> balanced T c (snd (acquire env c pinIt k s))"
proof (cases "cl_backend (clientOf s c)")
  case (Some b)
  then have "working T c b Pinned s" using s by (simp add: working_pinned)
  then show ?thesis using settlesD [OF k, of b s] Some by (simp add: acquire_def bindP_def getP_def)
next
  case None
  have kb: "settles T c b (if pinIt then Pinned else Borrowed) (k b)" for b using k [of b] None by simp
  have "settles T c b Borrowed (thenP (if pinIt then modifyP (pin c b) else returnP ()) (k b))" for b
  proof (cases pinIt)
    case True
    then show ?thesis using kb [of b] pin_working [of T c b] by (simp add: settles_def thenP_def bindP_def modifyP_def)
  next
    case False
    then show ?thesis using kb [of b] by (simp add: settles_def thenP_def bindP_def returnP_def)
  qed
  from pool_borrow_serves [OF s _ sch this calm.io(4) calm.io(4), of "database (clientOf s c)" "user (clientOf s c)"]
  show ?thesis using None by (simp add: acquire_def bindP_def [of "getP (\<lambda>s. clientOf s c)"] getP_def)
qed

lemma serves_notify:
  assumes "sched_ok T c sch"
  shows "serves T c (handleNotify sch c q)"
  unfolding serves_def
proof (intro allI impI)
  fix s assume s: "balanced T c s"
  have k: "settles T c b Extra (tryP (forwardQueryToBackend b q)
        (\<lambda>_. thenP (Release b) (send_error c ''ERROR'' ''08006'' ''connection failure''))
        (\<lambda>_. tryP (forwardCompleteBackendResponse c b) (\<lambda>e. thenP (Release b) (failP e)) (\<lambda>_. Return b)))" for b
    unfolding forwardQueryToBackend_def
    by (intro settles_try busy.io ends_send ends_forward settles_Release settles_fail calm.io settles_Return) simp
  show "fst (handleNotify sch c q s) = Panic \<or> balanced T c (snd (handleNotify sch c q s))"
    using pool_borrow_serves [OF s _ assms k calm.io(4) calm.io(4), of "database (clientOf s c)" "user (clientOf s c)"]
    by (simp add: handleNotify_def bindP_def [of "getP (\<lambda>s. clientOf s c)"] getP_def)
qed

lemma serves_special:
  assumes "sched_ok T c (q_sched env)" "\<And>s. framed s (q_race env s)"
  shows "serves T c (run_special env c cmd sql)"
  unfolding run_special_def
  by (cases cmd) (auto intro!: serves_keeps keeps_return calm.listen calm.unlisten serves_notify assms)

lemma stmts_framed: "framed s (upd_target t (\<lambda>x. x\<lparr>t_stmts := f x\<rparr>) s)"
  by (rule framed_upd_target) (simp add: same_target_def)

lemma count_framed: "framed s (count_query p s)" "framed s (count_total s)"
  unfolding count_query_def count_total_def
  by (auto simp: framed_def same_client_def framed_upd_stats [unfolded framed_def] agrees_def same_target_def same_pool_def)

lemma serves_run_pipeline:
  assumes "sched_ok T c (q_sched env)" "\<And>s. framed s (q_race env s)"
  shows "serves T c (run_pipeline env c x)"
  unfolding serves_def
proof (intro allI impI)
  fix s assume s: "balanced T c s"
  let ?wp = "cl_backend (clientOf s c) \<noteq> None"
  have k: "settles T c b (if ?wp \<or> requiresPin x then Pinned else Borrowed) (deploy_missing c b (map snd (remappedParses x)) (bindRequiredHashes x)
       (forward_pipeline c b (remappedParses x) (enumerate 0 (rewritten x)) [] (await_pipeline env c b x ?wp)))" for b
    by (intro settles_deploy_missing settles_forward settles_await assms)
  show "fst (run_pipeline env c x s) = Panic \<or> balanced T c (snd (run_pipeline env c x s))"
    using acquire_serves [OF s assms(1) k] by (simp add: run_pipeline_def bindP_def [of "getP _"] getP_def)
qed

lemma settles_prepared_on:
  assumes "\<And>s. framed s (q_race env s)"
  shows "settles T c b Borrowed (prepared_on env c p t r b)"
proof -
  have "settles T c b (if False then Pinned else Borrowed) (reconcileConn (q_race env) c b st False)" for st
    by (rule reconcile_settles) (rule assms)
  then show ?thesis
    unfolding prepared_on_def
    by (intro settles_bind keeps_get sure_leaf settles_send_all settles_try busy.io ends_forward settles_fail settles_then busy.modify
        count_framed stmts_framed) simp
qed

lemma settles_simple_on:
  assumes "\<And>s. framed s (q_race env s)"
  shows "settles T c b (if p then Pinned else Borrowed) (simple_on env c p q b)"
  unfolding simple_on_def forwardQueryToBackend_def
proof (intro settles_try busy.io ends_send ends_forward settles_give_up settles_fail settles_bind keeps_get sure_leaf busy.pool)
  fix pool st
  have "keeps (working T c b (if p then Pinned else Borrowed)) (case pool of None \<Rightarrow> returnP () | Some pl \<Rightarrow> modifyP (count_query pl))"
    by (intro keeps_option keeps_return busy.modify count_framed)
  moreover have "sure (case pool of None \<Rightarrow> returnP () | Some pl \<Rightarrow> modifyP (count_query pl))"
    by (cases pool) (simp_all add: sure_leaf)
  ultimately show "settles T c b (if p then Pinned else Borrowed) (thenP (case pool of None \<Rightarrow> returnP () | Some pl \<Rightarrow> modifyP (count_query pl))
     (thenP (modifyP count_total) (reconcileConn (q_race env) c b st p)))"
    by (intro settles_then busy.modify count_framed sure_leaf reconcile_settles assms)
qed

lemma serves_prepared:
  assumes "balanced T c s" "cl_backend (clientOf s c) = None" "sched_ok T c (q_sched env)" "\<And>s. framed s (q_race env s)"
  shows "fst (executeAsPrepared env c sql r s) = Panic \<or> balanced T c (snd (executeAsPrepared env c sql r s))"
proof -
  let ?x = "clientOf s c"
  obtain g s1 where g: "getPool (database ?x) (user ?x) s = (g, s1)" by (rule prod.exhaust)
  have ok: "accounts_ok T (pinned s) s" using assms(1) by (simp add: balanced_def)
  have b1: "balanced T c s1" by (rule keepsD [OF calm.pool g assms(1)])
  show ?thesis
  proof (cases g)
    case (Ok pool)
    show ?thesis
    proof (cases pool)
      case None
      then show ?thesis using Ok g calm.io(4) [of T c c] b1
        by (simp add: executeAsPrepared_def bindP_def getP_def keeps_def)
    next
      case (Some p)
      define t where "t = p_target (poolOf s1 p)"
      define s2 where "s2 = upd_target t (\<lambda>y. y\<lparr>t_stmts :=
             snd (GetOrRegister (Hash r) (CanonicalSQL r) sql (length (Values r)) (now s1) (t_stmts y))\<rparr>) s1"
      have "balanced T c s2" unfolding s2_def by (rule calm.frame [OF b1 stmts_framed])
      moreover have "cl_backend (clientOf s2 c) = None" using assms(2) getPool_rest [OF g] by (simp add: s2_def)
      moreover obtain u where u: "u \<in> T" "p \<in> set (target_pools u s1)" using getPool_run(4) [OF ok g] Ok Some by blast
      then have "p \<in> set (target_pools u s2)" by (auto simp: s2_def target_pools_def)
      ultimately have "fst (tryP (borrowConn (q_sched env) p) (\<lambda>_. send_error c ''FATAL'' ''53300'' ''too many connections'') (prepared_on env c p t r) s2) = Panic \<or>
        balanced T c (snd (tryP (borrowConn (q_sched env) p) (\<lambda>_. send_error c ''FATAL'' ''53300'' ''too many connections'') (prepared_on env c p t r) s2))"
        using u(1) by (intro borrow_serves [where w = Borrowed] settles_prepared_on calm.io assms) auto
      then show ?thesis
        using Ok Some g by (simp add: executeAsPrepared_def bindP_def getP_def thenP_def modifyP_def s2_def t_def)
    qed
  qed (use g b1 in \<open>simp_all add: executeAsPrepared_def bindP_def getP_def\<close>)
qed

lemma serves_query:
  assumes "sched_ok T c (q_sched env)" "\<And>s. framed s (q_race env s)"
  shows "serves T c (executeQuery env c q)"
  unfolding serves_def
proof (intro allI impI)
  fix s assume s: "balanced T c s"
  show "fst (executeQuery env c q s) = Panic \<or> balanced T c (snd (executeQuery env c q s))"
  proof (cases "ClassifyAndParameterize (q_parse env) q")
    case (Ok y)
    obtain cmd result where y: "y = (cmd, result)" by (cases y)
    let ?x = "clientOf s c"
    define p where "p \<longleftrightarrow> cl_backend ?x \<noteq> None"
    have run: "executeQuery env c q s =
        (if cmd = SimpleQueryListen \<or> cmd = SimpleQueryUnlisten \<or> cmd = SimpleQueryNotify \<and> \<not> inTransaction ?x
         then run_special env c cmd q
         else case (if p then None else result) of
           Some r \<Rightarrow> executeAsPrepared env c q r | None \<Rightarrow> acquire env c p (simple_on env c p q)) s"
      using Ok y by (simp add: executeQuery_def bindP_def pureP_def getP_def Let_def p_def [symmetric] del: not_None_eq)
    have simple: "fst (acquire env c p (simple_on env c p q) s) = Panic \<or> balanced T c (snd (acquire env c p (simple_on env c p q) s))"
      by (rule acquire_serves [OF s assms(1)]) (use settles_simple_on [of env T c _ p q, OF assms(2)] p_def in simp)
    have prep: "\<not> p \<Longrightarrow> fst (executeAsPrepared env c q r s) = Panic \<or> balanced T c (snd (executeAsPrepared env c q r s))" for r
      using serves_prepared [OF s _ assms(1)] assms(2) by (simp add: p_def)
    have special: "fst (run_special env c cmd q s) = Panic \<or> balanced T c (snd (run_special env c cmd q s))"
      by (rule servesD [OF serves_special s]) (rule assms)+
    show ?thesis
      unfolding run using special simple prep by (cases p; cases result) simp_all
  qed (use s in \<open>simp_all add: executeQuery_def bindP_def pureP_def\<close>)
qed

section \<open>Pipelines\<close>

text \<open>A Parse the pooler can manage itself: of the unnamed statement, or parameterizable.\<close>

definition remappable :: "(string \<Rightarrow> node list option) \<Rightarrow> msg \<Rightarrow> bool" where
  "remappable parse m \<longleftrightarrow> fst m = CHR ''P'' \<longrightarrow>
     ParseBodyStatementName (snd m) = [] \<or> ParameterizeQuery parse (ParseBodyQuery (snd m)) \<noteq> Ok None"

lemma keeps_server: "keeps I m \<Longrightarrow> keeps (\<lambda>x. I (fst x)) (serverP m)"
  unfolding serverP_def by (rule keeps_zoom) auto

lemma keeps_pure: "keeps I (pureP r)"
  by (simp add: keeps_def pureP_def)

lemma keeps_modify_fst: "(\<And>s x. I s \<Longrightarrow> I (fst (f (s, x)))) \<Longrightarrow> keeps (\<lambda>x. I (fst x)) (modifyP f)"
  by (rule keeps_modify) (metis prod.collapse)

lemma pure_bind: "(\<And>y. r = Ok y \<Longrightarrow> keeps I (k y)) \<Longrightarrow> keeps I (bindP (pureP r) k)"
  by (auto simp: keeps_def bindP_def pureP_def split: res.split)

lemma balanced_client: "balanced T c s \<Longrightarrow> (\<And>x. same_client x (f x)) \<Longrightarrow> balanced T c (upd_client c' f s)"
  by (rule calm.frame) (auto intro: framed_upd_client)

lemma remove_named_balanced: "balanced T c s \<Longrightarrow> balanced T c (upd_client c RemoveNamedStatement s)"
proof -
  assume b: "balanced T c s"
  then have "upd_client c RemoveNamedStatement s = s"
    by (simp add: balanced_def upd_client_def RemoveNamedStatement_def)
  then show ?thesis using b by simp
qed

lemma register_balanced: "keeps (balanced T c) (register_stmt c' r sql)"
  unfolding register_stmt_def by (intro keeps_intros calm.pool calm.modify stmts_framed)

lemma inspect_parse_balanced:
  assumes "remappable (q_parse env) (CHR ''P'', body)"
  shows "keeps (\<lambda>x. balanced T c (fst x)) (inspect_parse env c i body)"
proof -
  have n: "ParameterizeQuery (q_parse env) (ParseBodyQuery body) \<noteq> Ok None" if "ParseBodyStatementName body \<noteq> []"
    using assms that by (simp add: remappable_def)
  show ?thesis
    unfolding inspect_parse_def Let_def
    by (intro keeps_bind keeps_pure keeps_prod keeps_get keeps_if pure_bind keeps_modify_fst keeps_option keeps_then keeps_server register_balanced)
      (auto intro: balanced_client dest: n)
qed

lemma inspect_msg_balanced:
  assumes "remappable (q_parse env) m"
  shows "keeps (\<lambda>x. balanced T c (fst x)) (inspect_msg env c (i, m))"
proof -
  obtain ty body where m: "m = (ty, body)" by (cases m)
  have bind: "balanced T c s \<Longrightarrow> balanced T c (fst (inspect_bind c i body (s, x)))"
    and desc: "balanced T c s \<Longrightarrow> balanced T c (fst (inspect_describe c i body (s, x)))" for s x
    by (simp_all add: inspect_bind_def inspect_describe_def Let_def split: option.split prod.split)
  have close: "balanced T c s \<Longrightarrow> balanced T c (fst (inspect_close c i body (s, x)))" for s x
    by (auto simp: inspect_close_def remove_named_balanced intro: balanced_client split: option.split prod.split)
  show ?thesis
    unfolding inspect_msg_def m prod.case
    by (intro keeps_if inspect_parse_balanced keeps_modify_fst bind desc close keeps_return) (use assms m in simp_all)
qed

lemma inspect_pipeline_balanced:
  assumes "\<And>m. m \<in> set pipeline \<Longrightarrow> remappable (q_parse env) m"
  shows "keeps (balanced T c) (inspect_pipeline env c pipeline)"
proof (rule keepsI)
  fix s assume s: "balanced T c s"
  have "keeps (\<lambda>x. balanced T c (fst x)) (forP (enumerate 0 pipeline) (inspect_msg env c))"
  proof (rule keeps_for)
    fix x assume "x \<in> set (enumerate 0 pipeline)"
    then have "snd x \<in> set pipeline" by (metis in_set_conv_nth map_snd_enumerate length_map nth_map)
    then show "keeps (\<lambda>x. balanced T c (fst x)) (inspect_msg env c x)"
      using inspect_msg_balanced [OF assms, of "snd x" T c "fst x"] by simp
  qed
  then have "balanced T c (fst (snd (forP (enumerate 0 pipeline) (inspect_msg env c) (s, not_inspected pipeline))))"
    using s by (simp add: keeps_def)
  then show "balanced T c (snd (inspect_pipeline env c pipeline s))"
    by (auto simp: inspect_pipeline_def split: prod.splits res.splits)
qed

lemma serves_bind:
  assumes "keeps (balanced T c) m" "\<And>x. serves T c (k x)"
  shows "serves T c (bindP m k)"
  unfolding serves_def
proof (intro allI impI)
  fix s assume s: "balanced T c s"
  obtain r s1 where m: "m s = (r, s1)" by (rule prod.exhaust)
  have "balanced T c s1" by (rule keepsD [OF assms(1) m s])
  then show "fst (bindP m k s) = Panic \<or> balanced T c (snd (bindP m k s))"
    using m servesD [OF assms(2)] by (cases r) (simp_all add: bindP_def)
qed

lemma serves_pipeline:
  assumes "sched_ok T c (q_sched env)" "\<And>s. framed s (q_race env s)" "\<And>m. m \<in> set pipeline \<Longrightarrow> remappable (q_parse env) m"
  shows "serves T c (executeExtendedPipeline env c pipeline)"
proof -
  have "keeps (balanced T c) (skip_step c)" unfolding skip_step_def by (intro keeps_intros calm.io)
  then have "keeps (balanced T c) (\<lambda>s. loopP (Suc (length (c_in (cl_conn (clientOf s c))))) (skip_step c) s)"
    by (intro keeps_state [where m = "\<lambda>n. loopP n (skip_step c)" and f = "\<lambda>s. Suc (length (c_in (cl_conn (clientOf s c))))"] keeps_loop)
  then have "keeps (balanced T c) (if p then answer_flush c else returnP ())" for p
    unfolding answer_flush_def by (intro keeps_if keeps_return keeps_then calm.io)
  then have special: "serves T c (thenP (if p then answer_flush c else returnP ()) (run_special env c cmd sql))" for p cmd sql
    unfolding thenP_def by (intro serves_bind serves_special assms)
  have if_rule: "serves T c m \<Longrightarrow> serves T c k \<Longrightarrow> serves T c (if p then m else k)" for p and m k :: "(Server, unit) prog"
    by simp
  have "serves T c (panicP :: (Server, unit) prog)" by (simp add: serves_def panicP_def)
  then show ?thesis
    unfolding executeExtendedPipeline_def
    by (intro if_rule serves_bind inspect_pipeline_balanced special serves_run_pipeline assms)
qed

section \<open>Client messages\<close>

definition client_in :: "clientId \<Rightarrow> Server \<Rightarrow> msg list" where
  "client_in c s = c_in (cl_conn (clientOf s c))"

definition ready_for :: "targetId set \<Rightarrow> env \<Rightarrow> clientId \<Rightarrow> Server \<Rightarrow> bool" where
  "ready_for T env c s \<longleftrightarrow> balanced T c s \<and> (\<forall>m \<in> set (client_in c s). remappable (q_parse env) m)"

lemma client_read_run:
  assumes "on_client c Client_read s = (r, s')"
  shows "(\<exists>m. r = Ok m \<and> client_in c s = m # client_in c s') \<or> (\<exists>e. r = Err e \<and> client_in c s' = client_in c s)"
proof -
  obtain x where x: "Client_read (clientOf s c) = (r, x)" "s' = upd_client c (\<lambda>_. x) s"
    using assms by (auto simp: on_client_def zoomP_def split: prod.splits)
  from x(1) show ?thesis by (cases rule: Client_read_cases) (use x(2) in \<open>auto simp: client_in_def\<close>)
qed

lemma read_ready:
  assumes "ready_for T env c s" "on_client c Client_read s = (r, s')"
  shows "ready_for T env c s'" "r = Ok m \<Longrightarrow> remappable (q_parse env) m"
proof -
  have "balanced T c s'" by (rule keepsD [OF calm.io(6) assms(2)]) (use assms(1) in \<open>simp add: ready_for_def\<close>)
  then show "ready_for T env c s'" "r = Ok m \<Longrightarrow> remappable (q_parse env) m"
    using client_read_run [OF assms(2)] assms(1) by (auto simp: ready_for_def)
qed

lemma collect_ready:
  assumes "ready_for T env c (fst x)" "\<forall>m \<in> set (snd x). remappable (q_parse env) m"
    and "loopP n (collect_step c) x = (r, x')"
  shows "ready_for T env c (fst x') \<and> (\<forall>pp. r = Ok pp \<longrightarrow> (\<forall>m \<in> set pp. remappable (q_parse env) m))"
  using assms
proof (induction n arbitrary: x)
  case (Suc n)
  obtain s pp where x: "x = (s, pp)" by (cases x)
  obtain r1 s1 where m: "on_client c Client_read s = (r1, s1)" by (rule prod.exhaust)
  note rd = read_ready [OF _ m]
  show ?case
  proof (cases r1)
    case (Ok p)
    obtain ty bd where p: "p = (ty, bd)" by (cases p)
    let ?x1 = "(s1, pp @ [(ty, bd)])"
    have 1: "ready_for T env c s1" "remappable (q_parse env) (ty, bd)" using rd Suc.prems(1) Ok p x by auto
    have pp: "\<forall>m \<in> set (pp @ [(ty, bd)]). remappable (q_parse env) m" using 1(2) Suc.prems(2) x by auto
    have "loopP (Suc n) (collect_step c) x =
        (if ty = CHR ''X'' then (Err Eof, (s1, pp)) else if ty = CHR ''S'' \<or> ty = CHR ''H'' then (Ok (pp @ [(ty, bd)]), ?x1)
         else loopP n (collect_step c) ?x1)"
      using m Ok p by (simp add: x collect_step_def bindP_def thenP_def serverP_run failP_def modifyP_def getP_def returnP_def)
    then show ?thesis using Suc.IH [of ?x1] Suc.prems(3) 1 pp by (auto split: if_splits)
  next
    case (Err e)
    then show ?thesis using m rd Suc.prems x by (auto simp: collect_step_def bindP_def serverP_run)
  qed (use m client_read_run [OF m] in auto)
qed auto

lemma serves_message:
  assumes "ready_for T env c s" and sr: "sched_ok T c (q_sched env)" "\<And>s. framed s (q_race env s)"
  shows "fst (HandleClientMessage env c s) = Panic \<or> balanced T c (snd (HandleClientMessage env c s))"
proof -
  obtain r s1 where m: "on_client c Client_read s = (r, s1)" by (rule prod.exhaust)
  note rd = read_ready [OF assms(1) m]
  have b1: "balanced T c s1" using rd(1) by (simp add: ready_for_def)
  show ?thesis
  proof (cases r)
    case (Ok p)
    obtain ty bd where p: "p = (ty, bd)" by (cases p)
    have first: "remappable (q_parse env) (ty, bd)" using rd(2) Ok p by blast
    let ?fuel = "\<lambda>s. Suc (length (c_in (cl_conn (clientOf s c))))"
    let ?col = "run_local ?fuel (collect_step c) [(ty, bd)]"
    obtain r2 s2 where col: "?col s1 = (r2, s2)" by (rule prod.exhaust)
    then obtain x2 where x2: "loopP (?fuel s1) (collect_step c) (s1, [(ty, bd)]) = (r2, x2)" "s2 = fst x2"
      by (auto simp: run_local_def split: prod.splits simp del: loopP.simps)
    have cr: "ready_for T env c s2" "\<And>pp. r2 = Ok pp \<Longrightarrow> \<forall>m \<in> set pp. remappable (q_parse env) m"
      using collect_ready [OF _ _ x2(1), of T env] rd(1) first x2(2) by auto
    have ext: "fst (bindP ?col (executeExtendedPipeline env c) s1) = Panic \<or> balanced T c (snd (bindP ?col (executeExtendedPipeline env c) s1))"
    proof (cases r2)
      case (Ok pp)
      then show ?thesis
        using servesD [OF serves_pipeline [OF sr, of pp] , of s2] cr col by (auto simp: bindP_def ready_for_def)
    qed (use col cr(1) in \<open>simp_all add: bindP_def ready_for_def\<close>)
    have sync: "fst (executeExtendedPipeline env c [(ty, bd)] s1) = Panic \<or> balanced T c (snd (executeExtendedPipeline env c [(ty, bd)] s1))"
      by (rule servesD [OF serves_pipeline [OF sr] b1]) (use first in simp)
    have query: "fst (executeQuery env c q s1) = Panic \<or> balanced T c (snd (executeQuery env c q s1))" for q
      by (rule servesD [OF serves_query [OF sr] b1])
    have "HandleClientMessage env c s =
        (if ty = CHR ''Q'' then executeQuery env c (if bd \<noteq> [] \<and> last bd = NUL then butlast bd else bd)
         else if ty = CHR ''X'' then failP Eof
         else if ty = CHR ''S'' \<or> ty = CHR ''H'' then executeExtendedPipeline env c [(ty, bd)]
         else bindP ?col (executeExtendedPipeline env c)) s1"
      using m Ok p by (simp add: HandleClientMessage_def tryP_def)
    then show ?thesis using ext sync query b1 by (simp add: failP_def)
  qed (use m b1 client_read_run [OF m] in \<open>auto simp: HandleClientMessage_def tryP_def failP_def\<close>)
qed

section \<open>Properties\<close>


lemma read_error_run:
  assumes "from_backend b s = [] \<or> c_closed (b_conn (backendOf s b))" "sound_conn (cl_conn (clientOf s c))"
    and "100 \<le> c_max (cl_conn (clientOf s c))"
  shows "\<exists>s1. forwardExtendedResponse c b hs s = (Ok NUL, s1)"
proof -
  let ?s = "upd_client c (SetActiveBackend (Some b)) s"
  have "\<exists>e. conn_read (b_conn (backendOf s b)) = (Err e, b_conn (backendOf s b))"
    using assms(1) by (auto simp: conn_read_def from_backend_def)
  then obtain e where "Backend_read (backendOf s b) = (Err e, backendOf s b)"
    by (auto simp: Backend_read_def zoomP_def)
  then have e: "on_backend b Backend_read ?s = (Err e, ?s)"
    by (simp add: on_backend_def zoomP_def upd_backend_def)
  have "int (length (snd (SendErrorResponse ''ERROR'' ''57014'' ''query timeout''))) \<le> 100"
    "int (length (snd (SendErrorResponse ''ERROR'' ''08006'' ''connection failure''))) \<le> 100" by code_simp+
  then have "\<exists>s1. read_failed c e ?s = (Ok (), s1)"
    using assms(2,3) by (simp add: read_failed_def send_error_def client_send_run SetActiveBackend_def)
  then obtain s1 where "read_failed c e ?s = (Ok (), s1)" by blast
  then have "extended_step c b (?s, hs) = (Ok (Some NUL), (s1, hs))"
    using e by (simp add: extended_step_def tryP_def thenP_def bindP_def serverP_run returnP_def)
  then show ?thesis
    by (simp add: forwardExtendedResponse_def with_active_def run_local_def thenP_def bindP_def modifyP_def deferP_def returnP_def)
qed

text \<open>C33: When the backend of a client with named statements is lost while its answer is read, the read error is answered
  and then forgotten: the dead connection goes back to the queue while the client stays pinned to it, so
  the next client that borrows it shares it.\<close>

theorem lost_backend_shared:
  assumes "accounts_ok T (pinned s) s" "cl_backend (clientOf s c) = Some b" "namedStmts (clientOf s c) > 0"
    and "from_backend b s = [] \<or> c_closed (b_conn (backendOf s b))"
    and "sound_conn (cl_conn (clientOf s c))" "100 \<le> c_max (cl_conn (clientOf s c))"
    and "rewritten x \<noteq> []" "fst (last (rewritten x)) = CHR ''S''"
  shows "\<exists>s' p. await_pipeline env c b x True hs s = (Ok (), s') \<and> b \<in> set (Queue (poolOf s' p)) \<and>
    cl_backend (clientOf s' c) = Some b"
proof -
  obtain s1 where s1: "forwardExtendedResponse c b hs s = (Ok NUL, s1)" using read_error_run [OF assms(4-6)] by blast
  have f: "framed s s1" by (rule keepsD [OF frames_forward(3) s1 framed_refl])
  let ?s2 = "upd_client c (SetInTransaction False) s1"
  have f2: "framed s ?s2" by (rule framed_trans [OF f framed_upd_client]) simp
  have ok: "accounts_ok T (pinned s) ?s2" by (rule framed_accounts [OF assms(1) f2])
  have bp: "b \<in> pinned s" using assms(2) by (auto simp: pinned_def)
  obtain t where t: "t \<in> T" "b \<in> owned t ?s2" using accounts_okD(3) [OF ok bp] by blast
  have "b \<in> pinned s \<inter> owned t ?s2" using bp t by blast
  then obtain s' p where s': "Return b ?s2 = (Ok (), s')" "Queue (poolOf s' p) = Queue (poolOf ?s2 p) @ [b]"
    using Return_ok [OF accounts_okD(2) [OF ok t(1)]] by blast
  have c: "clientOf s' = clientOf ?s2" using Return_run [OF ok bp] s'(1) by auto
  have n: "HasNamedStatements (clientOf s1 c)" "cl_backend (clientOf s1 c) = Some b"
    using framed_client [OF f, of c] assms(2,3) by (simp_all add: HasNamedStatements_def)
  have "reconcileConn (q_race env) c b NUL True s1 = Return b ?s2"
    using n(1) by (simp add: reconcileConn_def thenP_def bindP_def getP_def modifyP_def returnP_def)
  then have "await_pipeline env c b x True hs s = (Ok (), s')"
    using s1 s'(1) assms(7,8) by (simp add: await_pipeline_def tryP_def)
  then show ?thesis using s'(2) c n(2) by (intro exI [of _ s'] exI [of _ p]) (simp add: SetInTransaction_def)
qed

lemma param_hash: "ParameterizeQuery parse sql = Ok (Some r) \<Longrightarrow> Hash r = QueryHash (CanonicalSQL r)"
  by (auto simp: ParameterizeQuery_def ClassifyAndParameterize_def Let_def parameterize_def
      split: res.splits option.splits list.splits if_splits rewrite.splits)

text \<open>C34: A named statement is identified by its query with the literals taken out, but what is prepared on the backend
  is the text of whoever came first, literals included: once a backend holds \<open>sql1\<close>, a Parse of \<open>sql2\<close> that differs
  from it in its literals only is not sent to it. The client is told that the statement was parsed, and
  executing it runs \<open>sql1\<close>.\<close>

theorem other_literals_not_parsed:
  assumes "ParameterizeQuery parse sql1 = Ok (Some r1)" "ParameterizeQuery parse sql2 = Ok (Some r2)"
    and "CanonicalSQL r1 = CanonicalSQL r2" and "HasStmt (Hash r1) (backendOf s b)"
    and "sound_conn (cl_conn (clientOf s c))" "0 \<le> c_max (cl_conn (clientOf s c))"
  shows "\<exists>s'. forward_pipeline c b [(i, Hash r2)] [(i, CHR ''P'', RewriteParseBodyName body (StmtName (Hash r2)))] [] k s = k [] s' \<and>
    backendOf s' = backendOf s \<and> to_client c s' = to_client c s @ [(CHR ''1'', [])]"
proof -
  have "HasStmt (Hash r2) (backendOf s b)" using assms(3,4) param_hash [OF assms(1)] param_hash [OF assms(2)] by simp
  then show ?thesis
    using assms(5,6)
    by (intro exI [of _ "upd_client c (\<lambda>x. snd (Client_write (CHR ''1'', []) x)) s"])
      (simp add: bindP_def getP_def tryP_def client_send_run to_client_def)
qed

section \<open>Witnesses\<close>

definition demo_env :: env where
  "demo_env = \<lparr>q_parse = (\<lambda>_. None), q_race = id, q_sched = [(TimerFired, id)], q_cap = 16\<rparr>"

definition demo_asking :: Server where
  "demo_asking = upd_client 0 (\<lambda>_. NewClient (demo_link [(CHR ''Q'', ''BEGIN'' @ [NUL])]) (TCPAddr [])) demo_server"

lemma demo_asking_balanced: "balanced {0} 0 demo_asking"
proof -
  have "pools_ok {} 0 demo_asking"
    by (rule initial_ok) (simp add: initial_target_def demo_asking_def demo_server_def demo_target_def)
  moreover have "owned 0 demo_asking = {}"
    by (simp add: owned_def target_pools_def demo_asking_def demo_server_def demo_target_def)
  moreover have "pinned demo_asking = {}"
    by (auto simp: pinned_def demo_asking_def demo_server_def NewClient_def)
  ultimately show ?thesis
    by (simp add: balanced_def accounts_ok_def linked_def) (simp add: demo_asking_def demo_server_def NewClient_def)
qed


definition literal_parse :: "string \<Rightarrow> node list option" where
  "literal_parse s =
     (if s = ''SELECT 1'' then Some [SelectStmt [ResTarget (Some (A_Const False (Integer 1)))] [] None [] None [] None None None None]
      else if s = ''SELECT 2'' then Some [SelectStmt [ResTarget (Some (A_Const False (Integer 2)))] [] None [] None [] None None None None]
      else None)"

lemma literal_parse_results:
  "ParameterizeQuery literal_parse ''SELECT 1'' = Ok (Some (parameterize ''SELECT $1'' [''1'']))"
  "ParameterizeQuery literal_parse ''SELECT 2'' = Ok (Some (parameterize ''SELECT $1'' [''2'']))"
proof -
  have t: "trimStmt (TrimSpace ''SELECT 1'') = ''SELECT 1''" "TrimSpace ''SELECT 1'' \<noteq> []"
    "trimStmt (TrimSpace ''SELECT 2'') = ''SELECT 2''" "TrimSpace ''SELECT 2'' \<noteq> []"
    "\<not> str_contains (ToUpper ''SELECT1'') ''PG_NOTIFY(''" "\<not> str_contains (ToUpper ''SELECT2'') ''PG_NOTIFY(''"
    "rewriteLiteralsWS ''SELECT 1'' [\<lparr>lkind = litInt, lvalue = fmt_int 1\<rparr>] = Rewritten ''SELECT $1'' [''1'']"
    "rewriteLiteralsWS ''SELECT 2'' [\<lparr>lkind = litInt, lvalue = fmt_int 2\<rparr>] = Rewritten ''SELECT $1'' [''2'']"
    by code_simp+
  show "ParameterizeQuery literal_parse ''SELECT 1'' = Ok (Some (parameterize ''SELECT $1'' [''1'']))"
    "ParameterizeQuery literal_parse ''SELECT 2'' = Ok (Some (parameterize ''SELECT $1'' [''2'']))"
    by (simp_all add: ParameterizeQuery_def ClassifyAndParameterize_def Let_def t literal_parse_def special_command_def constLiteral_def)
qed

theorem other_literals_not_parsed_witness:
  "\<exists>s'. forward_pipeline 0 0 [(0, Hash (parameterize ''SELECT $1'' [''2'']))]
      [(0, CHR ''P'', RewriteParseBodyName (''q'' @ NUL # ''SELECT 2'' @ NUL # [NUL, NUL]) (StmtName (Hash (parameterize ''SELECT $1'' [''2'']))))] []
      (\<lambda>_. returnP ()) (upd_backend 0 (MarkStmt (Hash (parameterize ''SELECT $1'' [''1'']))) demo_relay) = (Ok (), s') \<and>
    to_client 0 s' = [(CHR ''1'', [])]"
proof -
  let ?s = "upd_backend 0 (MarkStmt (Hash (parameterize ''SELECT $1'' [''1'']))) demo_relay"
  have "to_client 0 ?s = []" by (simp add: to_client_def demo_relay_def NewClient_def demo_link_def demo_conn_def)
  moreover have "HasStmt (Hash (parameterize ''SELECT $1'' [''1''])) (backendOf ?s 0)" by (simp add: HasStmt_def MarkStmt_def)
  moreover have "sound_conn (cl_conn (clientOf ?s 0))" "0 \<le> c_max (cl_conn (clientOf ?s 0))"
    by (simp_all add: demo_relay_def NewClient_def demo_link_def demo_conn_def sound_conn_def)
  moreover have "CanonicalSQL (parameterize ''SELECT $1'' [''1'']) = CanonicalSQL (parameterize ''SELECT $1'' [''2''])"
    by (simp add: parameterize_def)
  ultimately show ?thesis
    using other_literals_not_parsed [OF literal_parse_results, of ?s 0 0 0 "''q'' @ NUL # ''SELECT 2'' @ NUL # [NUL, NUL]" "\<lambda>_. returnP ()"]
    by (auto simp: returnP_def simp del: forward_pipeline.simps)
qed
text \<open>The connection of \<open>Pgfox_Run\<close>'s run, pinned to client 0, which has a named statement, and lost.\<close>

definition demo_lost :: Server where
  "demo_lost = upd_backend 1 Backend_Close ((take_idle 0 1 demo_grown)\<lparr>Targets := [0],
     clientOf := (\<lambda>c. (NewClient (demo_link []) (TCPAddr []))\<lparr>cl_backend := if c = 0 then Some 1 else None, namedStmts := 1\<rparr>)\<rparr>)"

lemma demo_lost_accounts: "accounts_ok {0} (pinned demo_lost) demo_lost"
proof -
  have "agrees 0 (take_idle 0 1 demo_grown) demo_lost"
    by (simp add: demo_lost_def agrees_def same_target_def same_pool_def)
  moreover have "pools_ok {1} 0 (take_idle 0 1 demo_grown)" using target_run_ok [OF demo_borrowed] by simp
  ultimately have ok: "pools_ok {1} 0 demo_lost" by (rule agrees_pools_ok)
  have "1 \<in> owned 0 demo_lost" by (rule held_owned [OF ok]) simp
  then have "{1} \<inter> owned 0 demo_lost = {1}" by blast
  moreover have "pinned demo_lost = {1}" by (auto simp: pinned_def demo_lost_def)
  moreover have "Targets demo_lost = [0]" by (simp add: demo_lost_def)
  ultimately show ?thesis using ok \<open>1 \<in> owned 0 demo_lost\<close> by (simp add: accounts_ok_def)
qed

theorem lost_backend_shared_witness:
  "\<exists>s' p. await_pipeline demo_env 0 1 (not_inspected [(CHR ''S'', [])]) True [] demo_lost = (Ok (), s') \<and>
     1 \<in> set (Queue (poolOf s' p)) \<and> cl_backend (clientOf s' 0) = Some 1"
  by (rule lost_backend_shared [OF demo_lost_accounts])
    (simp_all add: demo_lost_def NewClient_def demo_link_def demo_conn_def sound_conn_def Backend_Close_def conn_close_def not_inspected_def)

end
