(* ===== verification/Pgfox_Startup.thy ===== *)
theory Pgfox_Startup
  imports Pgfox_Session
begin

text \<open>
  The life of a client connection and of the server: \<open>handleStartupMessage\<close>, client authentication and
  \<open>handleCancelRequest\<close> of \<open>src/pkg/pgfox/startup.go\<close>, and \<open>handleClient\<close>, \<open>shutdown\<close> and
  \<open>isClientGone\<close> of \<open>server.go\<close>.

  Packets before authentication have no type byte, so the startup phase runs on the raw bytes: \<open>rawio\<close> holds what
  the client sends, and for each TLS upgrade its outcome, an error or the decrypted bytes that follow. The
  typed messages that come after the startup packet are the client's connection as everywhere else.
\<close>

section \<open>Raw input and output\<close>

record rawio =
  r_cur :: reader
  r_tls :: "(goerr + reader) list"

definition rawP :: "(reader \<Rightarrow> goerr + 'a \<times> reader) \<Rightarrow> (Server \<times> rawio, 'a) prog" where
  "rawP rd x =
     (case rd (r_cur (snd x)) of
        Inl e \<Rightarrow> (Err e, x)
      | Inr (a, r) \<Rightarrow> (Ok a, (fst x, (snd x)\<lparr>r_cur := r\<rparr>)))"

definition raw_reply :: "clientId \<Rightarrow> byte \<Rightarrow> (Server, unit) prog" where
  "raw_reply c ch = on_client c (zoomP cl_conn (\<lambda>k x. x\<lparr>cl_conn := k\<rparr>) (conn_send (NUL, [ch])))"

text \<open>What \<open>bufio\<close> has read ahead of the plain connection is dropped.\<close>

definition upgradeToTLS :: "(Server \<times> rawio, unit) prog" where
  "upgradeToTLS x =
     (case r_tls (snd x) of
        [] \<Rightarrow> (Err (Errorf ''TLS handshake failed''), x)
      | Inl e # rs \<Rightarrow> (Err e, (fst x, (snd x)\<lparr>r_tls := rs\<rparr>))
      | Inr r # rs \<Rightarrow> (Ok (), (fst x, \<lparr>r_cur = r, r_tls = rs\<rparr>)))"

section \<open>Authentication\<close>

text \<open>Randomness: the outcomes of reading the SCRAM nonce and the cancel secret.\<close>

record random =
  rnd_nonce :: "goerr + bytes"
  rnd_secret :: "goerr + 32 word"

text \<open>The request goes to the goroutine of the target, which answers it between two of its own steps.\<close>

definition getSCRAMVerifier :: "targetId \<Rightarrow> string \<Rightarrow> (Server, SCRAMVerifier) prog" where
  "getSCRAMVerifier t usr =
     bindP (getP shuttingDown) (\<lambda>down.
     if down then failP (Errorf ''server shutting down'') else fetchSCRAMVerifier t usr)"

definition sendTargetParameterStatuses :: "clientId \<Rightarrow> string \<Rightarrow> (string \<times> string) list \<Rightarrow> (Server, unit) prog" where
  "sendTargetParameterStatuses c usr params =
     (let auth = ''session_authorization'';
          all = map (\<lambda>(name, val). (name, if name = auth then usr else val)) params @
                (if auth \<in> fst ` set params then [] else [(auth, usr)])
      in forP all (\<lambda>(name, val). wrapP (''failed to send parameter status '' @ name)
           (client_send c (SendParameterStatus name val)) (\<lambda>_. returnP ())))"

definition register_cancel :: "clientId \<Rightarrow> 32 word \<Rightarrow> 32 word \<Rightarrow> Server \<Rightarrow> Server" where
  "register_cancel c pid secret s =
     upd_client c (SetCancelKey pid secret) (s\<lparr>cancelKeys := AList.update pid c (cancelKeys s)\<rparr>)"

text \<open>After a successful exchange.\<close>

definition admit :: "random \<Rightarrow> clientId \<Rightarrow> string \<Rightarrow> targetId \<Rightarrow> (Server, unit) prog" where
  "admit rnd c usr t =
     wrapP ''failed to send AuthenticationOK'' (client_send c SendAuthenticationOK) (\<lambda>_.
     thenP (modifyP (\<lambda>s. s\<lparr>nextCancelPID := nextCancelPID s + 1\<rparr>))
     (bindP (getP nextCancelPID) (\<lambda>pid.
      wrapP ''failed to generate cancel secret'' (liftP (rnd_secret rnd)) (\<lambda>secret.
      thenP (modifyP (register_cancel c pid secret))
      (wrapP ''failed to send BackendKeyData'' (client_send c (SendBackendKeyData pid secret)) (\<lambda>_.
       bindP (getP (\<lambda>s. Params (targetOf s t))) (\<lambda>params.
       thenP (sendTargetParameterStatuses c usr params)
       (wrapP ''failed to send ReadyForQuery'' (client_send c (SendReadyForQuery (CHR ''I''))) (\<lambda>_.
        modifyP (upd_client c (SetAuthenticated True)))))))))))"

definition authenticateClientWithBackend :: "random \<Rightarrow> clientId \<Rightarrow> string \<Rightarrow> string \<Rightarrow> (Server, unit) prog" where
  "authenticateClientWithBackend rnd c usr db =
     bindP (getPool db usr) (\<lambda>pool.
     case pool of
       None \<Rightarrow> send_error c ''FATAL'' ''3D000'' ''database not found''
     | Some p \<Rightarrow>
         bindP (getP (\<lambda>s. p_target (poolOf s p))) (\<lambda>t.
         bindP (getP (\<lambda>s. checkAccess (targetOf s t) (cl_addr (clientOf s c)) usr db)) (\<lambda>denied.
         if denied \<noteq> None then send_error c ''FATAL'' ''28000'' ''access denied''
         else tryP (getSCRAMVerifier t usr)
           (\<lambda>_. send_error c ''FATAL'' ''28P01'' ''authentication failed'')
           (\<lambda>verifier. tryP (on_client c (handleClientSCRAM (rnd_nonce rnd) verifier))
             (\<lambda>_. send_error c ''FATAL'' ''28P01'' ''password authentication failed'')
             (\<lambda>_. admit rnd c usr t)))))"

section \<open>Cancel requests\<close>

definition cancel_packet :: "32 word \<Rightarrow> 32 word \<Rightarrow> bytes" where
  "cancel_packet pid secret = PutUint32 16 @ PutUint32 CancelRequestCode @ PutUint32 pid @ PutUint32 secret"

text \<open>The result is what was sent on a new connection to PostgreSQL, if anything.\<close>

definition forward_cancel :: "backendId \<Rightarrow> (Server, (targetId \<times> bytes) option) prog" where
  "forward_cancel b s =
     (case b_pool (backendOf s b) of
        None \<Rightarrow> (Panic, s)
      | Some p \<Rightarrow>
          (case dials s of
             [] \<Rightarrow> (Ok None, s)
           | Inl _ # ds \<Rightarrow> (Ok None, s\<lparr>dials := ds\<rparr>)
           | Inr k # ds \<Rightarrow>
               (let msg = cancel_packet (processID (backendOf s b)) (secretKey (backendOf s b))
                in (Ok (if fst (conn_send (NUL, msg) k) = Ok () then Some (p_target (poolOf s p), msg) else None), s\<lparr>dials := ds\<rparr>))))"

definition handleCancelRequest :: "(Server \<times> rawio, (targetId \<times> bytes) option) prog" where
  "handleCancelRequest =
     wrapP ''failed to read cancel data'' (rawP (readFull 8)) (\<lambda>buf.
     bindP (getP (\<lambda>x. map_of (cancelKeys (fst x)) (Uint32 buf))) (\<lambda>known.
     case known of
       None \<Rightarrow> returnP None
     | Some c \<Rightarrow>
         bindP (getP (\<lambda>x. clientOf (fst x) c)) (\<lambda>cl.
         if cancelSecret cl \<noteq> Uint32 (drop 4 buf) then returnP None
         else case activeBackend cl of
                None \<Rightarrow> returnP None
              | Some b \<Rightarrow> serverP (forward_cancel b))))"

section \<open>The startup packet\<close>

datatype started = Session | Cancel "(targetId \<times> bytes) option"

definition param :: "(string \<rightharpoonup> string) \<Rightarrow> string \<Rightarrow> string" where
  "param m k = (case m k of None \<Rightarrow> [] | Some v \<Rightarrow> v)"

definition startup_params :: "random \<Rightarrow> clientId \<Rightarrow> bytes \<Rightarrow> (Server, unit) prog" where
  "startup_params rnd c bs =
     (let params = parseStartupParams bs; usr = param params ''user''; db = param params ''database'' in
      if usr = [] then failP (Errorf ''missing required parameter: user'')
      else if db = [] then failP (Errorf ''missing required parameter: database'')
      else thenP (modifyP (upd_client c (\<lambda>x. SetDatabase db (SetUser usr x))))
             (authenticateClientWithBackend rnd c usr db))"

definition bad_version :: "32 word \<Rightarrow> goerr" where
  "bad_version version =
     Errorf (''unsupported protocol version: '' @ fmt_int (sint version) @ '', expected '' @ fmt_int (sint ProtocolVersion30))"

text \<open>One call of \<open>handleStartupMessage\<close>; \<open>None\<close> is the recursive call. \<open>int(length - 8)\<close> is computed in
  32 bits without a sign, so the test for a negative length never holds.\<close>

definition startup_packet :: "bool \<Rightarrow> random \<Rightarrow> clientId \<Rightarrow> (Server \<times> rawio, started option) prog" where
  "startup_packet ssl rnd c =
     wrapP ''failed to read message length'' (rawP readUint32) (\<lambda>len.
     if len = 8 then
       wrapP ''failed to read request code'' (rawP readUint32) (\<lambda>code.
       if code = SSLRequestCode then
         (if ssl then
            wrapP ''failed to flush SSL acceptance'' (serverP (raw_reply c (CHR ''S''))) (\<lambda>_.
            wrapP ''failed to upgrade to TLS'' upgradeToTLS (\<lambda>_. returnP None))
          else wrapP ''failed to flush SSL rejection'' (serverP (raw_reply c (CHR ''N''))) (\<lambda>_. returnP None))
       else if code = CancelRequestCode then bindP handleCancelRequest (\<lambda>r. returnP (Some (Cancel r)))
       else failP (Errorf (''unknown request code: '' @ fmt_nat (unat code))))
     else
       wrapP ''failed to read protocol version'' (rawP readInt32) (\<lambda>version.
       if version \<noteq> ProtocolVersion30 then failP (bad_version version)
       else
         wrapP ''failed to read startup parameters'' (rawP (readFull (unat (len - 8)))) (\<lambda>bs.
         thenP (serverP (startup_params rnd c bs)) (returnP (Some Session)))))"

definition raw_fuel :: "rawio \<Rightarrow> nat" where
  "raw_fuel r = length (rbuf (r_cur r)) + sum_list (map (\<lambda>x. case x of Inl _ \<Rightarrow> 1 | Inr y \<Rightarrow> Suc (length (rbuf y))) (r_tls r))"

definition handleStartupMessage :: "bool \<Rightarrow> random \<Rightarrow> clientId \<Rightarrow> (Server \<times> rawio, started) prog" where
  "handleStartupMessage ssl rnd c x = loopP (Suc (raw_fuel (snd x))) (startup_packet ssl rnd c) x"

section \<open>A client connection (server.go)\<close>

definition isClientGone :: "goerr option \<Rightarrow> bool" where
  "isClientGone err =
     (case err of
        None \<Rightarrow> False
      | Some e \<Rightarrow> let m = err_text e in m = ''EOF'' \<or> str_contains m ''broken pipe'' \<or>
          str_contains m ''connection reset by peer'' \<or> str_contains m ''use of closed network connection'')"

text \<open>The message loop: \<open>env\<close> may differ from message to message.\<close>

definition message_step :: "(Server \<Rightarrow> env) \<Rightarrow> clientId \<Rightarrow> (Server, unit option) prog" where
  "message_step env c s =
     (if shuttingDown s then (Ok (Some ()), s)
      else tryP (HandleClientMessage (env s) c) (\<lambda>_. returnP (Some ())) (\<lambda>_. returnP None) s)"

definition message_loop :: "(Server \<Rightarrow> env) \<Rightarrow> clientId \<Rightarrow> (Server, unit) prog" where
  "message_loop env c s = loopP (Suc (length (client_in c s))) (message_step env c) s"

text \<open>The deferred functions.\<close>

definition disconnect :: "clientId \<Rightarrow> (Server, unit) prog" where
  "disconnect c =
     thenP (modifyP (\<lambda>s. s\<lparr>Clients := removeAll c (Clients s), cancelKeys := AList.delete (cancelPID (clientOf s c)) (cancelKeys s)\<rparr>))
     (thenP (cleanupClientListeners c)
     (thenP (bindP (getP (\<lambda>s. cl_backend (clientOf s c))) (\<lambda>backend.
             case backend of
               None \<Rightarrow> returnP ()
             | Some b \<Rightarrow> ignoreP (backend_send b (CHR ''X'', [])) (Release b)))
     (modifyP (\<lambda>s. upd_client c (\<lambda>x. x\<lparr>cl_conn := conn_close (cl_conn x)\<rparr>)
        (upd_stats (\<lambda>g. g\<lparr>ActiveClients := ActiveClients g - 1\<rparr>) s)))))"

definition serve_client :: "(Server \<Rightarrow> env) \<Rightarrow> bool \<Rightarrow> random \<Rightarrow> clientId \<Rightarrow> (Server \<times> rawio, unit) prog" where
  "serve_client env ssl rnd c = tryP (handleStartupMessage ssl rnd c) (\<lambda>_. returnP ()) (\<lambda>_. serverP (message_loop env c))"

text \<open>A panic is not recovered from: the process ends with it.\<close>

definition handleClient :: "(Server \<Rightarrow> env) \<Rightarrow> bool \<Rightarrow> random \<Rightarrow> clientId \<Rightarrow> conn \<Rightarrow> netAddr \<Rightarrow> (Server \<times> rawio, unit) prog" where
  "handleClient env ssl rnd c conn addr =
     thenP (modifyP (\<lambda>(s, r). (upd_client c (\<lambda>_. NewClient (conn\<lparr>c_max := MaxMessageSize (sv_config s)\<rparr>) addr)
                                 (s\<lparr>Clients := List.insert c (Clients s)\<rparr>), r)))
     (thenP (serve_client env ssl rnd c) (serverP (disconnect c)))"

section \<open>Shutdown (server.go)\<close>

definition shutdown :: "(Server, unit) prog" where
  "shutdown =
     thenP (modifyP (\<lambda>s. s\<lparr>shuttingDown := True\<rparr>))
     (thenP shutdownListeners
     (modifyP (\<lambda>s. fold (\<lambda>t s. drain t (upd_target t (\<lambda>x. x\<lparr>Cancelled := True\<rparr>) s)) (Targets s) (fold (\<lambda>c. upd_client c (\<lambda>x. x\<lparr>cl_conn := conn_close (cl_conn x)\<rparr>)) (Clients s) s))))"

section \<open>Names (startup.go)\<close>

definition getAuthTypeName :: "32 word \<Rightarrow> string" where
  "getAuthTypeName authType =
     (if authType = 0 then ''AuthenticationOK'' else if authType = 3 then ''AuthenticationCleartextPassword''
      else if authType = 5 then ''AuthenticationMD5'' else if authType = 10 then ''AuthenticationSASL''
      else if authType = 11 then ''AuthenticationSASLContinue'' else if authType = 12 then ''AuthenticationSASLFinal''
      else ''Unknown('' @ fmt_nat (unat authType) @ '')'')"

section \<open>Startup ends\<close>

lemma ends_client_io [ends_intros]: "ends (Client_write m)" "ends Client_read"
  by (simp_all add: ends_def) (metis Client_write_not(2) Client_read_not(2) prod.collapse)+

lemma ends_scram: "ends (handleClientSCRAM rnd v)"
  unfolding handleClientSCRAM_def Let_def by (intro ends_intros)

lemma ends_on_client_any [ends_intros]: "ends m \<Longrightarrow> ends (on_client c m)"
  unfolding on_client_def by (rule ends_zoom)

lemma ends_admit: "ends (admit rnd c usr t)"
  unfolding admit_def sendTargetParameterStatuses_def Let_def by (intro ends_intros)

lemma ends_authenticate: "ends (authenticateClientWithBackend rnd c usr db)"
  unfolding authenticateClientWithBackend_def getSCRAMVerifier_def by (intro ends_intros ends_fetch ends_scram ends_admit)

lemma ends_raw [ends_intros]: "ends (rawP rd)" "ends upgradeToTLS" "ends (raw_reply c ch)" "ends (forward_cancel b)"
proof -
  show "ends (rawP rd)" "ends upgradeToTLS" "ends (forward_cancel b)"
    by (auto simp: ends_def rawP_def upgradeToTLS_def forward_cancel_def Let_def split: sum.split list.split option.split)
  show "ends (raw_reply c ch)"
    unfolding raw_reply_def by (intro ends_intros) (auto simp: ends_def conn_send_def split: option.split nat.split)
qed

lemma ends_packet: "ends (startup_packet ssl rnd c)"
  unfolding startup_packet_def handleCancelRequest_def startup_params_def Let_def by (intro ends_intros ends_authenticate)

lemma raw_read_fuel:
  assumes "rawP readUint32 x = (Ok w, x')"
  shows "raw_fuel (snd x') + 4 = raw_fuel (snd x)"
  using assms by (auto simp: rawP_def readUint32_def readFull_def raw_fuel_def split: sum.splits if_splits)

lemma packet_reads:
  assumes "startup_packet ssl rnd c x = (Ok None, x')"
  shows "raw_fuel (snd x') < raw_fuel (snd x)"
proof -
  have up: "raw_fuel (snd x2) \<le> raw_fuel (snd x1)" if "upgradeToTLS x1 = (Ok u, x2)" for x1 x2 and u :: unit
    using that by (auto simp: upgradeToTLS_def raw_fuel_def split: list.splits sum.splits)
  have "raw_fuel (snd x') + 8 \<le> raw_fuel (snd x)"
    using assms
    by (auto simp: startup_packet_def wrapP_Ok_iff bindP_Ok_iff thenP_def leafP_iffs serverP_iff split: if_splits dest!: raw_read_fuel up)
  then show ?thesis by simp
qed


section \<open>Cancel requests\<close>

lemma read_u32: "rbuf (r_cur (snd x)) = PutUint32 w @ bs \<Longrightarrow>
   rawP readUint32 x = (Ok w, (fst x, (snd x)\<lparr>r_cur := (r_cur (snd x))\<lparr>rbuf := bs\<rparr>\<rparr>)) \<and>
   rawP readInt32 x = (Ok w, (fst x, (snd x)\<lparr>r_cur := (r_cur (snd x))\<lparr>rbuf := bs\<rparr>\<rparr>))"
  by (simp add: rawP_def readUint32_def readInt32_def readFull_def)

text \<open>A cancel request as PostgreSQL defines it is sixteen bytes long. \<open>handleStartupMessage\<close> looks for it among the
  eight-byte requests, takes it for a startup packet of an unknown protocol and refuses it; the server and what is left to
  cancel stay as they are.\<close>

theorem cancel_request_refused:
  assumes "rbuf (r_cur r) = cancel_packet pid secret"
  shows "\<exists>r'. handleStartupMessage ssl rnd c (s, r) =
    (Err (bad_version CancelRequestCode), (s, r'))"
proof -
  let ?bs = "PutUint32 pid @ PutUint32 secret"
  have 1: "rawP readUint32 (s, r) = (Ok 16, (s, r\<lparr>r_cur := (r_cur r)\<lparr>rbuf := PutUint32 CancelRequestCode @ ?bs\<rparr>\<rparr>))"
    using read_u32 [of "(s, r)" 16] assms by (simp add: cancel_packet_def)
  have 2: "rawP readInt32 (s, r\<lparr>r_cur := (r_cur r)\<lparr>rbuf := PutUint32 CancelRequestCode @ ?bs\<rparr>\<rparr>) =
      (Ok CancelRequestCode, (s, r\<lparr>r_cur := (r_cur r)\<lparr>rbuf := ?bs\<rparr>\<rparr>))"
    using read_u32 [of "(s, r\<lparr>r_cur := (r_cur r)\<lparr>rbuf := PutUint32 CancelRequestCode @ ?bs\<rparr>\<rparr>)" CancelRequestCode ?bs] by simp
  have "CancelRequestCode \<noteq> ProtocolVersion30" by (simp add: CancelRequestCode_def ProtocolVersion30_def)
  then have "startup_packet ssl rnd c (s, r) =
      (Err (bad_version CancelRequestCode), (s, r\<lparr>r_cur := (r_cur r)\<lparr>rbuf := ?bs\<rparr>\<rparr>))"
    using 1 2 by (simp add: startup_packet_def tryP_def failP_def)
  then show ?thesis by (simp add: handleStartupMessage_def bindP_def)
qed

theorem cancel_request_refused_witness:
  "\<exists>r'. handleStartupMessage False \<lparr>rnd_nonce = Inr [], rnd_secret = Inr 0\<rparr> 0
      (demo_server, \<lparr>r_cur = \<lparr>rbuf = cancel_packet 7 42, rend = Eof\<rparr>, r_tls = []\<rparr>) =
    (Err (bad_version CancelRequestCode), (demo_server, r'))"
  by (rule cancel_request_refused) simp

section \<open>Authentication\<close>

lemma Client_write_keeps [simp]:
  "authenticated (snd (Client_write m x)) = authenticated x"
  by (rule Client_write_cases [OF surjective_pairing, of m x]) simp_all

lemma keeps_auth_io [keeps_intros]:
  "keeps (\<lambda>x. authenticated x = v) (Client_write m)" "keeps (\<lambda>x. authenticated x = v) Client_read"
  by (simp_all add: keeps_def Client_read_def zoomP_def split: prod.split)

lemma keeps_auth_scram: "keeps (\<lambda>x. authenticated x = v) (handleClientSCRAM rnd ver)"
  unfolding handleClientSCRAM_def Let_def by (intro keeps_intros)

lemma keeps_auth_on_client: "keeps (\<lambda>x. authenticated x = v) m \<Longrightarrow> keeps (\<lambda>s. authenticated (clientOf s c) = v) (on_client c m)"
  unfolding on_client_def by (rule keeps_zoom) auto

lemma keeps_auth_send: "keeps (\<lambda>s. authenticated (clientOf s c) = v) (send_error c x y z)"
  unfolding send_error_def client_send_def by (rule keeps_auth_on_client) (rule keeps_auth_io)

lemma getSCRAMVerifier_clients: "getSCRAMVerifier t usr s = (r, s') \<Longrightarrow> clientOf s' = clientOf s"
  by (auto simp: getSCRAMVerifier_def fetchSCRAMVerifier_def bindP_def getP_def failP_def on_backend_eq split: if_splits option.splits)

text \<open>What \<open>authenticateClientWithBackend\<close> does up to the SCRAM exchange.\<close>

lemma authenticate_run:
  assumes "getPool db usr s = (Ok (Some p), s1)" "checkAccess (targetOf s1 (p_target (poolOf s1 p))) (cl_addr (clientOf s c)) usr db = None"
    and "getSCRAMVerifier (p_target (poolOf s1 p)) usr s1 = (Ok v, s2)"
  shows "authenticateClientWithBackend rnd c usr db s =
    tryP (on_client c (handleClientSCRAM (rnd_nonce rnd) v)) (\<lambda>_. send_error c ''FATAL'' ''28P01'' ''password authentication failed'')
      (\<lambda>_. admit rnd c usr (p_target (poolOf s1 p))) s2"
  using assms getPool_rest(1) [OF assms(1)]
  by (simp add: authenticateClientWithBackend_def bindP_def getP_def tryP_def [of "getSCRAMVerifier _ _"])

text \<open>C7: A client becomes authenticated only after a permitting access check for its address, user and database and a successful
  SCRAM exchange against the verifier PostgreSQL holds for that user.\<close>

theorem authenticated_only_by_scram:
  assumes "authenticateClientWithBackend rnd c usr db s = (r, s')" "\<not> authenticated (clientOf s c)" "authenticated (clientOf s' c)"
  shows "\<exists>p s1 v s2 s3. getPool db usr s = (Ok (Some p), s1) \<and>
    checkAccess (targetOf s1 (p_target (poolOf s1 p))) (cl_addr (clientOf s c)) usr db = None \<and>
    getSCRAMVerifier (p_target (poolOf s1 p)) usr s1 = (Ok v, s2) \<and>
    on_client c (handleClientSCRAM (rnd_nonce rnd) v) s2 = (Ok (), s3)"
proof -
  obtain g s1 where g: "getPool db usr s = (g, s1)" by (rule prod.exhaust)
  have c1: "clientOf s1 = clientOf s" by (rule getPool_rest [OF g])
  have no: "\<not> authenticated (clientOf s' c)" if "send_error c x y z q = (r, s')" "clientOf q = clientOf s" for x y z q
    using keepsD [OF keeps_auth_send [where c = c and v = False] that(1)] that(2) assms(2) by simp
  obtain p where p: "g = Ok (Some p)"
  proof (cases g)
    case (Ok pool)
    then show ?thesis
      using that assms g c1 no by (cases pool) (auto simp: authenticateClientWithBackend_def bindP_def)
  qed (use assms g c1 in \<open>auto simp: authenticateClientWithBackend_def bindP_def\<close>)
  let ?t = "p_target (poolOf s1 p)"
  have acc: "checkAccess (targetOf s1 ?t) (cl_addr (clientOf s c)) usr db = None"
    using assms g p c1 no by (auto simp: authenticateClientWithBackend_def bindP_def getP_def split: if_splits)
  obtain vr s2 where vr: "getSCRAMVerifier ?t usr s1 = (vr, s2)" by (rule prod.exhaust)
  have c2: "clientOf s2 = clientOf s" using getSCRAMVerifier_clients [OF vr] c1 by simp
  obtain v where v: "vr = Ok v"
    using assms g p acc vr c1 c2 no
    by (cases vr) (auto simp: authenticateClientWithBackend_def bindP_def getP_def tryP_def)
  note run = authenticate_run [OF g [unfolded p] acc vr [unfolded v], of rnd]
  obtain sr s3 where sr: "on_client c (handleClientSCRAM (rnd_nonce rnd) v) s2 = (sr, s3)" by (rule prod.exhaust)
  have c3: "\<not> authenticated (clientOf s3 c)"
    using keepsD [OF keeps_auth_on_client [OF keeps_auth_scram, where v = False] sr] c2 assms(2) by simp
  have "sr = Ok ()"
    using run sr assms(1,3) c3 keepsD [OF keeps_auth_send [where c = c and v = False], OF sym] by (cases sr) (auto simp: tryP_def)
  then show ?thesis using g p acc vr v sr by blast
qed


section \<open>A server that can be logged in to\<close>

definition demo_verifier :: SCRAMVerifier where "demo_verifier = make_verifier demo_kdf ''pw'' ''salt'' 4096"

definition demo_row :: bytes where
  "demo_row = [NUL, CHR 0x01] @ PutUint32 117 @ print_verifier demo_verifier"

definition demo_login :: "msg list \<Rightarrow> Server" where
  "demo_login ms = demo_server\<lparr>
     targetOf := (\<lambda>_. (targetOf demo_server 0)\<lparr>t_backend := Some 0\<rparr>),
     backendOf := (\<lambda>_. demo_backend [(CHR ''D'', demo_row), (CHR ''Z'', ''I'')]),
     clientOf := (\<lambda>_. demo_client ms)\<rparr>"

lemma demo_row_read: "scram_row demo_row [] = Some (print_verifier demo_verifier)" "length (print_verifier demo_verifier) = 117"
proof -
  show l: "length (print_verifier demo_verifier) = 117"
    by (simp add: print_verifier_def demo_verifier_def make_verifier_def length_b64 fmt_int_def fmt_nat.simps)
  have "Uint32 (drop 2 demo_row) = 117" by (simp add: demo_row_def)
  then have "be_int32 (drop 2 demo_row) = 117" by (simp add: be_int32_def)
  moreover have "be_int16 demo_row = 1" by (simp add: be_int16_def demo_row_def)
  moreover have "length demo_row = 123" "drop 6 demo_row = print_verifier demo_verifier" using l by (simp_all add: demo_row_def)
  ultimately show "scram_row demo_row [] = Some (print_verifier demo_verifier)" using l by (simp add: scram_row_def)
qed

lemma demo_fetch:
  "\<exists>b. fetch_on ''bob'' (demo_backend [(CHR ''D'', demo_row), (CHR ''Z'', ''I'')]) = (Ok demo_verifier, b)"
proof -
  have v: "ParseSCRAMVerifier (print_verifier demo_verifier) = Inr demo_verifier"
    by (rule verifier_roundtrip) (simp_all add: demo_verifier_def make_verifier_def)
  have ne: "print_verifier demo_verifier \<noteq> []" by (simp add: print_verifier_def)
  have "\<exists>b'. loopP (Suc (Suc (Suc 0))) (scram_step ''bob'') (b, []) = (Ok demo_verifier, b')"
    if "\<not> c_closed (b_conn b)" "c_in (b_conn b) = [(CHR ''D'', demo_row), (CHR ''Z'', ''I'')]" for b
    using that demo_row_read(1) v ne by (simp add: scram_step_def prog_defs zoomP_def)
  then have loop: "\<exists>b'. (case loopP (Suc (Suc (Suc 0))) (scram_step ''bob'') (b, []) of (r, (b', _)) \<Rightarrow> (r, b')) = (Ok demo_verifier, b')"
    if "\<not> c_closed (b_conn b)" "c_in (b_conn b) = [(CHR ''D'', demo_row), (CHR ''Z'', ''I'')]" for b
    using that by fastforce
  have has: "\<not> HasStmt scramStmtHash (demo_backend ms)" for ms by (simp add: HasStmt_def demo_backend_def NewBackend_def)
  have len: "length (BuildParseBody scramStmtHash scramStmtSQL []) \<le> 200" "length (BuildBindBody [] scramStmtHash [] [''bob''] [1]) \<le> 200"
      "length (BuildExecuteBody [] 0) \<le> 200" "length SyncBody \<le> 200"
    by (simp_all add: BuildParseBody_def BuildBindBody_def BuildExecuteBody_def SyncBody_def scramStmtHash_def scramStmtSQL_def
        appendInt16_def appendInt32_def)
  show ?thesis
    using has len loop by (simp add: fetch_on_def tryP_def bindP_def getP_def returnP_def del: loopP.simps)
qed

lemma demo_getPool:
  assumes "Targets s = [0]" "targetOf s = targetOf (demo_login [])" "nextPool s = 0" "\<not> shuttingDown s"
  obtains s1 where "getPool ''app'' ''bob'' s = (Ok (Some 0), s1)" "p_target (poolOf s1 0) = 0" "t_backend (targetOf s1 0) = Some 0"
    "Rules (targetOf s1 0) = []" "Params (targetOf s1 0) = []" "\<not> shuttingDown s1"
  using assms by (simp add: getPool_def LookupPool_def targetServesDatabase_def new_pool_def poolRegisteredCap_def Let_def
      demo_login_def demo_server_def demo_target_def)

lemma demo_verified:
  assumes "backendOf s = backendOf (demo_login [])" "t_backend (targetOf s 0) = Some 0" "\<not> shuttingDown s"
  obtains s2 where "getSCRAMVerifier 0 ''bob'' s = (Ok demo_verifier, s2)" "targetOf s2 = targetOf s"
  using assms demo_fetch by (auto simp: getSCRAMVerifier_def fetchSCRAMVerifier_def bindP_def getP_def on_backend_eq demo_login_def)

lemma demo_permit: "Rules t = [] \<Longrightarrow> checkAccess t addr usr db = None"
  by (simp add: checkAccess_def)

definition demo_params :: bytes where
  "demo_params = ''user'' @ [NUL] @ ''bob'' @ [NUL] @ ''database'' @ [NUL] @ ''app'' @ [NUL, NUL]"

definition demo_random :: random where "demo_random = \<lparr>rnd_nonce = Inr ''server'', rnd_secret = Inr 42\<rparr>"

lemma demo_refused:
  assumes "clientOf s c = SetDatabase db (SetUser usr (demo_client []))"
  obtains e s' where "on_client c (handleClientSCRAM rnd v) s = (Err e, s')"
    "delivers (SendErrorResponse ''FATAL'' ''28P01'' ''password authentication failed'') (clientOf s' c)"
proof -
  have "length (scram_mechanism @ [NUL, NUL]) \<le> 20" by (simp add: scram_mechanism_def)
  moreover have "length (snd (SendErrorResponse ''FATAL'' ''28P01'' ''password authentication failed'')) \<le> 1000"
    by (simp add: SendErrorResponse_def)
  ultimately show ?thesis
    using assms that by (simp add: on_client_def zoomP_def handleClientSCRAM_def tryP_def failP_def SetDatabase_def SetUser_def sasl_body_def
        delivers_def upd_client_def)
qed


lemma demo_admitted:
  assumes "sound_conn (cl_conn (clientOf s c))" "c_max (cl_conn (clientOf s c)) = 1000" "Params (targetOf s t) = []"
  shows "authenticated (clientOf (snd (admit demo_random c ''bob'' t s)) c)"
proof -
  have "length (snd SendAuthenticationOK) \<le> 1000" "length (snd (SendBackendKeyData x y)) \<le> 1000"
    "length (snd (SendParameterStatus ''session_authorization'' ''bob'')) \<le> 1000" "length (snd (SendReadyForQuery (CHR ''I''))) \<le> 1000" for x y
    by (simp_all add: SendAuthenticationOK_def SendBackendKeyData_def SendParameterStatus_def SendReadyForQuery_def)
  then show ?thesis
    using assms
    by (simp add: admit_def demo_random_def liftP_def client_send_run tryP_def thenP_def bindP_def modifyP_def getP_def returnP_def
        sendTargetParameterStatuses_def register_cancel_def Let_def SetCancelKey_def SetAuthenticated_def)
qed

lemma keeps_sound_io:
  "keeps (\<lambda>x. sound_conn (cl_conn x) \<and> c_max (cl_conn x) = k) (Client_write m)"
  "keeps (\<lambda>x. sound_conn (cl_conn x) \<and> c_max (cl_conn x) = k) Client_read"
  by (simp_all add: keeps_def Client_write_def client_write_def Client_read_def conn_read_def zoomP_def conn_send_def sound_conn_def split: sum.split list.split)

lemma keeps_sound_scram: "keeps (\<lambda>x. sound_conn (cl_conn x) \<and> c_max (cl_conn x) = k) (handleClientSCRAM rnd v)"
  unfolding handleClientSCRAM_def Let_def by (intro keeps_intros keeps_sound_io)

definition demo_exchange :: "string \<Rightarrow> msg list" where
  "demo_exchange final =
     [(CHR ''p'', sasl_initial (fst (BuildInitialResponse (NewSCRAMAuth ''client'' ''bob'' ''pw'')))), (CHR ''p'', final)]"

theorem authenticated_only_by_scram_witness:
  "\<exists>final p s1 v s2 s3. getPool ''app'' ''bob'' (demo_login (demo_exchange final)) = (Ok (Some p), s1) \<and>
    getSCRAMVerifier (p_target (poolOf s1 p)) ''bob'' s1 = (Ok v, s2) \<and>
    on_client 5 (handleClientSCRAM (Inr ''server'') v) s2 = (Ok (), s3)"
proof -
  obtain final c' where run: "handleClientSCRAM (Inr ''server'') demo_verifier
     (demo_client (demo_exchange final)) = (Ok (), c')"
    using demo_honest_run unfolding demo_verifier_def demo_exchange_def by blast
  let ?ms = "demo_exchange final"
  obtain s1 where s1: "getPool ''app'' ''bob'' (demo_login ?ms) = (Ok (Some 0), s1)" "p_target (poolOf s1 0) = 0" "t_backend (targetOf s1 0) = Some 0"
    "Rules (targetOf s1 0) = []" "Params (targetOf s1 0) = []" "\<not> shuttingDown s1"
    by (rule demo_getPool [of "demo_login ?ms"]) (simp_all add: demo_login_def demo_server_def)
  obtain s2 where s2: "getSCRAMVerifier 0 ''bob'' s1 = (Ok demo_verifier, s2)" "targetOf s2 = targetOf s1"
    using demo_verified [of s1] getPool_rest [OF s1(1)] s1 by (auto simp: demo_login_def)
  have cl: "clientOf s2 5 = demo_client ?ms"
    using getSCRAMVerifier_clients [OF s2(1)] getPool_rest [OF s1(1)] by (simp add: demo_login_def)
  then have s3: "on_client 5 (handleClientSCRAM (rnd_nonce demo_random) demo_verifier) s2 = (Ok (), upd_client 5 (\<lambda>_. c') s2)"
    using run by (simp add: on_client_def zoomP_def demo_random_def)
  have "authenticateClientWithBackend demo_random 5 ''bob'' ''app'' (demo_login ?ms) = admit demo_random 5 ''bob'' 0 (upd_client 5 (\<lambda>_. c') s2)"
    using authenticate_run [of "''app''" "''bob''" "demo_login ?ms" 0 s1 5 demo_verifier s2 demo_random] s1 s2 s3 by (simp add: demo_permit tryP_def)
  moreover have "sound_conn (cl_conn c') \<and> c_max (cl_conn c') = 1000"
    using keepsD [OF keeps_sound_scram run] by simp
  ultimately have "authenticated (clientOf (snd (authenticateClientWithBackend demo_random 5 ''bob'' ''app'' (demo_login ?ms))) 5)"
    using demo_admitted [of "upd_client 5 (\<lambda>_. c') s2" 5 0] s1(5) s2(2) by simp
  then show ?thesis
    using authenticated_only_by_scram [of demo_random 5 "''bob''" "''app''" "demo_login ?ms", OF surjective_pairing]
    by (simp add: demo_login_def demo_client_def NewClient_def demo_random_def) blast
qed

section \<open>Disconnecting\<close>

lemma Release_unpins:
  assumes "working T c b Pinned s"
  shows "\<exists>s'. Release b s = (Ok (), s') \<and> balanced T c s' \<and> cl_backend (clientOf s' c) = None"
proof -
  have "accounts_ok T (insert b (pinned s)) s" using assms by (simp add: working_def)
  then show ?thesis
    using Release_settles [OF assms] Release_run [of T "insert b (pinned s)" s b] unpinned_by [OF assms]
    by (auto simp: SetInTransaction_def SetBackend_def)
qed

lemma keeps_listeners_let_go: "keeps (\<lambda>s. Listeners s = ls) (ignoreP (backend_send b m) (Release b))"
proof -
  have "keeps (\<lambda>s. Listeners s = ls) (on_backend b k)" for k :: "(Backend, unit) prog"
    unfolding on_backend_def by (simp add: keeps_def zoomP_def split: prod.split)
  moreover have "keeps (\<lambda>s. Listeners s = ls) (send_close t b)" for t b
    by (simp add: keeps_def send_close_def)
  ultimately show ?thesis
    unfolding Release_def backend_send_def by (intro keeps_intros keeps_modify) simp_all
qed

lemma let_go_run:
  assumes "working T c b Pinned s"
  shows "\<exists>s'. ignoreP (backend_send b m) (Release b) s = (Ok (), s') \<and> balanced T c s' \<and> cl_backend (clientOf s' c) = None \<and>
    Listeners s' = Listeners s"
proof -
  obtain r s1 where w: "backend_send b m s = (r, s1)" by (rule prod.exhaust)
  have "working T c b Pinned s1" by (rule keepsD [OF busy.io(2) w assms])
  then obtain s' where s': "Release b s1 = (Ok (), s')" "balanced T c s'" "cl_backend (clientOf s' c) = None"
    using Release_unpins by blast
  have "ends (backend_send b m)" unfolding backend_send_def by (intro ends_intros)
  then have "(\<exists>x. r = Ok x) \<or> (\<exists>e. r = Err e) \<or> r = Panic" using w by (cases r) (auto simp: ends_def dest: spec [of _ s])
  moreover have "r \<noteq> Panic" using w by (auto simp: backend_send_def on_backend_eq intro: Backend_write_cases [OF surjective_pairing, of m "backendOf s b"])
  ultimately have run: "ignoreP (backend_send b m) (Release b) s = (Ok (), s')" using w s'(1) by (auto simp: tryP_def)
  then show ?thesis using s' keepsD [OF keeps_listeners_let_go run] by blast
qed



section \<open>What keeps the list of targets\<close>

text \<open>The targets with their names and rules.\<close>

definition same_targets :: "Server \<Rightarrow> Server \<Rightarrow> bool" where
  "same_targets s s' \<longleftrightarrow> Targets s' = Targets s \<and> shuttingDown s' = shuttingDown s \<and>
     (\<forall>t. Name (targetOf s' t) = Name (targetOf s t) \<and> Rules (targetOf s' t) = Rules (targetOf s t))"

lemma same_targets_refl [simp]: "same_targets s s"
  by (simp add: same_targets_def)

lemma same_targets_trans: "same_targets s s' \<Longrightarrow> same_targets s' s'' \<Longrightarrow> same_targets s s''"
  by (simp add: same_targets_def)

lemma same_targets_fold: "(\<And>x s. same_targets s (f x s)) \<Longrightarrow> same_targets s (fold f xs s)"
  by (induction xs arbitrary: s) (auto intro: same_targets_trans)

lemma same_targets_leaf:
  "(\<And>x. Name (f x) = Name x \<and> Rules (f x) = Rules x) \<Longrightarrow> same_targets s (upd_target t f s)"
  "same_targets s (upd_pool p g s)" "same_targets s (upd_backend b h s)" "same_targets s (close_counted t b s)"
  by (simp_all add: same_targets_def close_counted_def)

lemma same_targets_drain: "same_targets s (drain t s)"
proof -
  have pool: "same_targets s (drain_pool t p s)" for p s
    unfolding drain_pool_def by (rule same_targets_trans [OF same_targets_fold same_targets_leaf(2)]) (rule same_targets_leaf)
  have "same_targets s (drain_close t s)"
    unfolding drain_close_def by (rule same_targets_trans [OF same_targets_fold same_targets_leaf(1)]) (simp_all add: same_targets_leaf)
  moreover have "same_targets s (snd (allPools t s))" for s by (simp add: allPools_def same_targets_leaf)
  moreover have "same_targets s (drain_privileged t s)" for s
    by (auto simp: drain_privileged_def same_targets_def close_counted_def split: option.split)
  ultimately show ?thesis
    unfolding drain_def by (auto split: prod.split intro: same_targets_trans same_targets_fold [OF pool])
      (metis pool same_targets_fold same_targets_trans snd_conv)
qed

section \<open>The length of the startup packet\<close>

lemma packet_body:
  assumes "rbuf (r_cur r) = PutUint32 len @ PutUint32 ProtocolVersion30 @ bs" "len \<noteq> 8"
  shows "startup_packet ssl rnd c (s, r) =
    wrapP ''failed to read startup parameters'' (rawP (readFull (unat (len - 8))))
      (\<lambda>bs. thenP (serverP (startup_params rnd c bs)) (returnP (Some Session))) (s, r\<lparr>r_cur := (r_cur r)\<lparr>rbuf := bs\<rparr>\<rparr>)"
proof -
  let ?r1 = "r\<lparr>r_cur := (r_cur r)\<lparr>rbuf := PutUint32 ProtocolVersion30 @ bs\<rparr>\<rparr>"
  have 1: "rawP readUint32 (s, r) = (Ok len, (s, ?r1))" using read_u32 [of "(s, r)" len] assms(1) by simp
  have 2: "rawP readInt32 (s, ?r1) = (Ok ProtocolVersion30, (s, r\<lparr>r_cur := (r_cur r)\<lparr>rbuf := bs\<rparr>\<rparr>))"
    using read_u32 [of "(s, ?r1)" ProtocolVersion30 bs] by simp
  show ?thesis unfolding startup_packet_def using 1 2 assms(2) by (simp add: run_try)
qed

lemma word_minus_8: "unat (len - 8 :: 32 word) = (if 8 \<le> len then unat len - 8 else 2 ^ 32 - 8 + unat len)"
  by (auto simp: unat_sub_if' word_le_nat_alt)

text \<open>C40: The number of parameter bytes is computed in 32 bits without a sign. A packet whose length field is at least 8 has that many
  less 8; for a field below 8, which the code means to refuse as negative, it is \<open>2^32 - 8\<close> and the field, so that a buffer of about 4 GiB
  is waited for. Unless that many bytes have come, the packet fails at reading its parameters, and the server is as
  before.\<close>

theorem startup_length_wraps:
  assumes "rbuf (r_cur r) = PutUint32 len @ PutUint32 ProtocolVersion30 @ bs" "len \<noteq> 8" "length bs < 2 ^ 32 - 8"
  shows "unat (len - 8) < 2 ^ 32 \<and> unat (len - 8) = (if 8 \<le> len then unat len - 8 else 2 ^ 32 - 8 + unat len) \<and>
    (if 8 < len \<and> unat len - 8 \<le> length bs
     then startup_packet ssl rnd c (s, r) = thenP (serverP (startup_params rnd c (take (unat len - 8) bs))) (returnP (Some Session))
       (s, r\<lparr>r_cur := (r_cur r)\<lparr>rbuf := drop (unat len - 8) bs\<rparr>\<rparr>)
     else \<exists>e r'. startup_packet ssl rnd c (s, r) = (Err (Wrapf ''failed to read startup parameters'' e), (s, r')))"
proof -
  let ?n = "unat (len - 8)"
  have n: "?n < 2 ^ 32" using unsigned_less [of "len - 8", where 'a = nat] by simp
  have w: "?n = (if 8 \<le> len then unat len - 8 else 2 ^ 32 - 8 + unat len)" by (rule word_minus_8)
  have "unat len \<noteq> 8" using assms(2) word_unat_eq_iff [of len 8] by auto
  then have le: "8 < len \<and> unat len - 8 \<le> length bs \<longleftrightarrow> ?n \<le> length bs"
    using w assms(2,3) by (auto simp: word_less_nat_alt word_le_nat_alt)
  have short: "\<exists>e. readFull ?n ((r_cur r)\<lparr>rbuf := bs\<rparr>) = Inl e" if "\<not> ?n \<le> length bs"
    using that by (auto simp: readFull_def)
  show ?thesis
  proof (cases "?n \<le> length bs")
    case True
    then have "8 \<le> len" "unat len - 8 = ?n" using le w by (auto simp: word_le_nat_alt word_less_nat_alt)
    then show ?thesis using True n w le packet_body [OF assms(1,2)] by (simp add: tryP_def rawP_def readFull_def)
  next
    case False
    then show ?thesis using n w le packet_body [OF assms(1,2), of ssl rnd c s] short by (auto simp: tryP_def rawP_def failP_def)
  qed
qed

theorem startup_length_wraps_witness:
  "\<exists>e r'. startup_packet False demo_random 5 (demo_login [], \<lparr>r_cur = \<lparr>rbuf = PutUint32 7 @ PutUint32 ProtocolVersion30 @ [], rend = Eof\<rparr>, r_tls = []\<rparr>) =
    (Err (Wrapf ''failed to read startup parameters'' e), (demo_login [], r'))"
  using startup_length_wraps [of "\<lparr>r_cur = \<lparr>rbuf = PutUint32 7 @ PutUint32 ProtocolVersion30 @ [], rend = Eof\<rparr>, r_tls = []\<rparr>" 7 "[]" False demo_random 5 "demo_login []"]
  by (simp add: word_less_nat_alt)

end
