(* ===== verification/Pgfox_Certs.thy ===== *)
theory Pgfox_Certs
  imports Pgfox_Config
begin

text \<open>
  Certificates, \<open>src/pkg/pgfox/certs.go\<close>: where they are kept, when a cached one is used, how new ones
  are made, and what \<open>ensureBootstrapCerts\<close> sets up before the server starts.

  Cryptography is symbolic: a key is its number, a certificate records the key it certifies and the
  key that signed it, and serial numbers, which nothing reads, are left out. A file is what
  \<open>pem.Decode\<close> and the parsers of \<open>crypto/x509\<close> make of it. Reading a file fails when it is not there; any other call of
  the operating system or the random source, and the encoding of a certificate, may fail, and \<open>d_io\<close> is the list of
  the outcomes to come (when it is used up, all calls succeed). \<open>net.ParseIP\<close> is a parameter. The lock of a user name makes
  \<open>loadOrGenerateUserCert\<close> one step.
\<close>

section \<open>Paths (path/filepath)\<close>

abbreviation SLASH :: byte where "SLASH \<equiv> CHR 0x2F"

fun clean_parts :: "bool \<Rightarrow> string list \<Rightarrow> string list \<Rightarrow> string list" where
  "clean_parts rooted acc [] = rev acc"
| "clean_parts rooted acc (p # ps) =
     (if p = [] \<or> p = ''.'' then clean_parts rooted acc ps
      else if p = ''..'' then
        (case acc of
           [] \<Rightarrow> clean_parts rooted (if rooted then [] else [''..'']) ps
         | a # as \<Rightarrow> clean_parts rooted (if a = ''..'' then ''..'' # acc else as) ps)
      else clean_parts rooted (p # acc) ps)"

fun path_text :: "string list \<Rightarrow> string" where
  "path_text [] = []"
| "path_text [p] = p"
| "path_text (p # ps) = p @ SLASH # path_text ps"

definition filepath_Clean :: "string \<Rightarrow> string" where
  "filepath_Clean path =
     (let rooted = (path \<noteq> [] \<and> hd path = SLASH);
          out = path_text (clean_parts rooted [] (str_split SLASH path))
      in if rooted then SLASH # out else if out = [] then ''.'' else out)"

definition filepath_Join :: "string list \<Rightarrow> string" where
  "filepath_Join elems =
     (case dropWhile (\<lambda>e. e = []) elems of [] \<Rightarrow> [] | es \<Rightarrow> filepath_Clean (path_text es))"

definition caCertPath :: "ServerConfig \<Rightarrow> string" where "caCertPath sc = filepath_Join [PgFoxDir sc, ''ca.crt'']"
definition caKeyPath :: "ServerConfig \<Rightarrow> string" where "caKeyPath sc = filepath_Join [PgFoxDir sc, ''ca.key'']"
definition serverCertPath :: "ServerConfig \<Rightarrow> string" where "serverCertPath sc = filepath_Join [PgFoxDir sc, ''server.crt'']"
definition serverKeyPath :: "ServerConfig \<Rightarrow> string" where "serverKeyPath sc = filepath_Join [PgFoxDir sc, ''server.key'']"
definition pgfoxTLSCertPath :: "ServerConfig \<Rightarrow> string" where "pgfoxTLSCertPath sc = filepath_Join [PgFoxDir sc, ''pgfox.crt'']"
definition pgfoxTLSKeyPath :: "ServerConfig \<Rightarrow> string" where "pgfoxTLSKeyPath sc = filepath_Join [PgFoxDir sc, ''pgfox.key'']"
definition certsDir :: "ServerConfig \<Rightarrow> string" where "certsDir sc = filepath_Join [PgFoxDir sc, ''certs'']"
definition userCertPath :: "ServerConfig \<Rightarrow> string \<Rightarrow> string" where
  "userCertPath sc usr = filepath_Join [certsDir sc, usr @ ''.crt'']"
definition userKeyPath :: "ServerConfig \<Rightarrow> string \<Rightarrow> string" where
  "userKeyPath sc usr = filepath_Join [certsDir sc, usr @ ''.key'']"
definition pgfoxCertPath :: "ServerConfig \<Rightarrow> string" where "pgfoxCertPath sc = filepath_Join [certsDir sc, PgFoxRole sc @ ''.crt'']"
definition pgfoxKeyPath :: "ServerConfig \<Rightarrow> string" where "pgfoxKeyPath sc = filepath_Join [certsDir sc, PgFoxRole sc @ ''.key'']"

section \<open>Certificates (crypto/x509, crypto/tls)\<close>

type_synonym keyId = nat

datatype keyUsage = KeyUsageDigitalSignature | KeyUsageKeyEncipherment | KeyUsageCertSign | KeyUsageCRLSign
datatype extKeyUsage = ExtKeyUsageServerAuth | ExtKeyUsageClientAuth

record pkixName =
  CommonName :: string
  pkOrganization :: "string list"
  pkOrganizationalUnit :: "string list"
  pkCountry :: "string list"

record Certificate =
  Subject :: pkixName
  Issuer :: pkixName
  NotBefore :: int
  NotAfter :: int
  KeyUsage :: "keyUsage list"
  ExtKeyUsage :: "extKeyUsage list"
  IsCA :: bool
  MaxPathLen :: int
  IPAddresses :: "bytes list"
  DNSNames :: "string list"
  PublicKey :: keyId
  SignedBy :: keyId

text \<open>Times are encoded to the second.\<close>

definition whole_seconds :: "int \<Rightarrow> int" where
  "whole_seconds t = t div Second * Second"

definition signed :: "pkixName \<Rightarrow> keyId \<Rightarrow> keyId \<Rightarrow> Certificate \<Rightarrow> Certificate" where
  "signed issuer pub priv template =
     template\<lparr>Issuer := issuer, PublicKey := pub, SignedBy := priv,
              NotBefore := whole_seconds (NotBefore template), NotAfter := whole_seconds (NotAfter template)\<rparr>"

definition time_ok :: "int \<Rightarrow> Certificate \<Rightarrow> bool" where
  "time_ok t c \<longleftrightarrow> NotBefore c \<le> t \<and> t \<le> NotAfter c"

definition usage_ok :: "extKeyUsage \<Rightarrow> Certificate \<Rightarrow> bool" where
  "usage_ok u c \<longleftrightarrow> ExtKeyUsage c = [] \<or> u \<in> set (ExtKeyUsage c)"

definition signed_from :: "Certificate \<Rightarrow> Certificate \<Rightarrow> bool" where
  "signed_from parent c \<longleftrightarrow> Issuer c = Subject parent \<and> SignedBy c = PublicKey parent \<and> IsCA parent \<and>
     (KeyUsage parent = [] \<or> KeyUsageCertSign \<in> set (KeyUsage parent))"

text \<open>\<open>cert.Verify\<close> with roots and one extended key usage, and no intermediate certificates.\<close>

definition Verify :: "Certificate list \<Rightarrow> int \<Rightarrow> extKeyUsage \<Rightarrow> Certificate \<Rightarrow> bool" where
  "Verify roots t u c \<longleftrightarrow> time_ok t c \<and> usage_ok u c \<and>
     (c \<in> set roots \<or> list_ex (\<lambda>root. signed_from root c \<and> time_ok t root \<and> usage_ok u root) roots)"

section \<open>The disk\<close>

datatype keyFormat = PKCS8_RSA | PKCS8_other | PKCS1 | UnknownKey

datatype fileData = CertPEM Certificate | KeyPEM keyFormat keyId | OtherPEM | NoPEM

record disk =
  d_files :: "string \<rightharpoonup> fileData"
  d_io :: "goerr option list"
  d_now :: int
  d_nextKey :: keyId
  caPool :: "Certificate list option"

definition sysP :: "(disk, unit) prog" where
  "sysP d =
     (case d_io d of
        [] \<Rightarrow> (Ok (), d)
      | None # os \<Rightarrow> (Ok (), d\<lparr>d_io := os\<rparr>)
      | Some e # os \<Rightarrow> (Err e, d\<lparr>d_io := os\<rparr>))"

definition ReadFile :: "string \<Rightarrow> (disk, fileData) prog" where
  "ReadFile path d =
     (case d_files d path of
        None \<Rightarrow> (Err (Errorf (''open '' @ path @ '': no such file or directory'')), d)
      | Some f \<Rightarrow> (Ok f, d))"

definition GenerateKey :: "(disk, keyId) prog" where
  "GenerateKey = thenP sysP (bindP (getP d_nextKey) (\<lambda>k. thenP (modifyP (\<lambda>d. d\<lparr>d_nextKey := k + 1\<rparr>)) (returnP k)))"

text \<open>\<open>x509.CreateCertificate\<close>; without a parent the certificate is self-signed.\<close>

definition CreateCertificate :: "Certificate \<Rightarrow> Certificate option \<Rightarrow> keyId \<Rightarrow> keyId \<Rightarrow> (disk, Certificate) prog" where
  "CreateCertificate template parent pub priv =
     (case parent of
        None \<Rightarrow> thenP sysP (returnP (signed (Subject template) pub priv template))
      | Some p \<Rightarrow>
          if PublicKey p \<noteq> priv then failP (Errorf ''x509: provided PrivateKey doesn't match parent's PublicKey'')
          else thenP sysP (returnP (signed (Subject p) pub priv template)))"

text \<open>\<open>os.OpenFile(path, O_CREATE|O_WRONLY|O_TRUNC)\<close> and \<open>pem.Encode\<close>.\<close>

definition put_file :: "string \<Rightarrow> fileData \<Rightarrow> disk \<Rightarrow> disk" where
  "put_file path f d = d\<lparr>d_files := (d_files d)(path \<mapsto> f)\<rparr>"

definition OpenFile :: "string \<Rightarrow> (disk, unit) prog" where
  "OpenFile path = thenP sysP (modifyP (put_file path NoPEM))"

definition pem_Encode :: "string \<Rightarrow> fileData \<Rightarrow> (disk, unit) prog" where
  "pem_Encode path f = thenP sysP (modifyP (put_file path f))"

definition fileExists :: "string \<Rightarrow> disk \<Rightarrow> bool" where
  "fileExists path d \<longleftrightarrow> d_files d path \<noteq> None"

definition writeCertFile :: "string \<Rightarrow> Certificate \<Rightarrow> (disk, unit) prog" where
  "writeCertFile path c = thenP (OpenFile path) (pem_Encode path (CertPEM c))"

definition writeKeyFile :: "string \<Rightarrow> keyId \<Rightarrow> (disk, unit) prog" where
  "writeKeyFile path k = thenP (OpenFile path) (pem_Encode path (KeyPEM PKCS8_RSA k))"

text \<open>\<open>tls.LoadX509KeyPair\<close>.\<close>

definition LoadX509KeyPair :: "string \<Rightarrow> string \<Rightarrow> (disk, Certificate \<times> keyId) prog" where
  "LoadX509KeyPair certFile keyFile =
     bindP (ReadFile certFile) (\<lambda>c.
     bindP (ReadFile keyFile) (\<lambda>k.
     case c of
       CertPEM cert \<Rightarrow>
         (case k of
            KeyPEM fmt key \<Rightarrow>
              if fmt = UnknownKey then failP (Errorf ''tls: failed to parse private key'')
              else if PublicKey cert \<noteq> key then failP (Errorf ''tls: private key does not match public key'')
              else returnP (cert, key)
          | _ \<Rightarrow> failP (Errorf ''tls: failed to find any PEM data in key input''))
     | _ \<Rightarrow> failP (Errorf ''tls: failed to find any PEM data in certificate input'')))"

section \<open>The certificate authority\<close>

definition loadCA :: "ServerConfig \<Rightarrow> (disk, Certificate \<times> keyId) prog" where
  "loadCA sc =
     wrapP (''failed to read CA cert '' @ caCertPath sc) (ReadFile (caCertPath sc)) (\<lambda>caCertPEM.
     wrapP (''failed to read CA key '' @ caKeyPath sc) (ReadFile (caKeyPath sc)) (\<lambda>caKeyPEM.
     case caCertPEM of
       NoPEM \<Rightarrow> failP (Errorf ''failed to decode CA cert PEM'')
     | CertPEM caCert \<Rightarrow>
         (case caKeyPEM of
            NoPEM \<Rightarrow> failP (Errorf ''failed to decode CA key PEM'')
          | KeyPEM fmt key \<Rightarrow>
              if fmt = PKCS8_RSA \<or> fmt = PKCS1 then returnP (caCert, key)
              else if fmt = PKCS8_other then failP (Errorf ''CA key is not an RSA key'')
              else failP (Errorf ''failed to parse CA key (tried PKCS8 and PKCS1)'')
          | _ \<Rightarrow> failP (Errorf ''failed to parse CA key (tried PKCS8 and PKCS1)''))
     | _ \<Rightarrow> failP (Errorf ''failed to parse CA cert'')))"

definition caCertPool :: "ServerConfig \<Rightarrow> (disk, Certificate list) prog" where
  "caCertPool sc =
     bindP (getP caPool) (\<lambda>cached.
     case cached of
       Some pool \<Rightarrow> returnP pool
     | None \<Rightarrow>
         wrapP ''failed to read CA cert'' (ReadFile (caCertPath sc)) (\<lambda>caCertPEM.
         case caCertPEM of
           CertPEM ca \<Rightarrow> thenP (modifyP (\<lambda>d. d\<lparr>caPool := Some [ca]\<rparr>)) (returnP [ca])
         | _ \<Rightarrow> failP (Errorf ''failed to parse CA cert into Pool'')))"

text \<open>\<open>isCertValidForCA\<close>: all errors mean no.\<close>

definition isCertValidForCA :: "ServerConfig \<Rightarrow> string \<Rightarrow> bool \<Rightarrow> (disk, bool) prog" where
  "isCertValidForCA sc certPath requireSAN =
     tryP (ReadFile certPath) (\<lambda>_. returnP False) (\<lambda>certPEM.
     case certPEM of
       CertPEM cert \<Rightarrow>
         bindP (getP d_now) (\<lambda>t.
         if t + 24 * Hour > NotAfter cert then returnP False
         else if requireSAN \<and> length (IPAddresses cert) = 0 \<and> length (DNSNames cert) = 0 then returnP False
         else tryP (caCertPool sc) (\<lambda>_. returnP False) (\<lambda>pool.
           returnP (Verify pool t ExtKeyUsageClientAuth cert)))
     | _ \<Rightarrow> returnP False)"

section \<open>User certificates\<close>

definition user_template :: "ServerConfig \<Rightarrow> string \<Rightarrow> int \<Rightarrow> Certificate" where
  "user_template sc usr t =
     \<lparr>Subject = \<lparr>CommonName = usr, pkOrganization = [Organization (Certs sc)],
                 pkOrganizationalUnit = [OrganizationalUnit (Certs sc)], pkCountry = [Country (Certs sc)]\<rparr>,
      Issuer = \<lparr>CommonName = [], pkOrganization = [], pkOrganizationalUnit = [], pkCountry = []\<rparr>,
      NotBefore = t - 60 * Second, NotAfter = t + TTL (Certs sc), KeyUsage = [KeyUsageDigitalSignature],
      ExtKeyUsage = [ExtKeyUsageClientAuth], IsCA = False, MaxPathLen = 0, IPAddresses = [], DNSNames = [],
      PublicKey = 0, SignedBy = 0\<rparr>"

definition generateAndCacheUserCert :: "ServerConfig \<Rightarrow> string \<Rightarrow> (disk, Certificate \<times> keyId) prog" where
  "generateAndCacheUserCert sc usr =
     wrapP ''failed to load CA for cert generation'' (loadCA sc) (\<lambda>(caCert, caKey).
     wrapP (''failed to generate RSA key for '' @ usr) GenerateKey (\<lambda>privateKey.
     wrapP ''failed to generate serial number'' sysP (\<lambda>_.
     bindP (getP d_now) (\<lambda>t.
     wrapP (''failed to create certificate for '' @ usr)
       (CreateCertificate (user_template sc usr t) (Some caCert) privateKey caKey) (\<lambda>cert.
     wrapP (''failed to create certs dir '' @ certsDir sc) sysP (\<lambda>_.
     let certPath = userCertPath sc usr; keyPath = userKeyPath sc usr in
     wrapP (''failed to write cert file '' @ certPath) (OpenFile certPath) (\<lambda>_.
     wrapP ''failed to encode cert PEM'' (pem_Encode certPath (CertPEM cert)) (\<lambda>_.
     wrapP (''failed to write key file '' @ keyPath) (OpenFile keyPath) (\<lambda>_.
     wrapP ''failed to encode key PEM'' (pem_Encode keyPath (KeyPEM PKCS8_RSA privateKey)) (\<lambda>_.
     LoadX509KeyPair certPath keyPath))))))))))"

definition loadOrGenerateUserCert :: "ServerConfig \<Rightarrow> string \<Rightarrow> (disk, Certificate \<times> keyId) prog" where
  "loadOrGenerateUserCert sc usr =
     bindP (isCertValidForCA sc (userCertPath sc usr) False) (\<lambda>valid.
     if valid then
       tryP (LoadX509KeyPair (userCertPath sc usr) (userKeyPath sc usr))
         (\<lambda>_. generateAndCacheUserCert sc usr) returnP
     else generateAndCacheUserCert sc usr)"

record tlsConfig =
  ServerName :: string
  RootCAs :: "Certificate list"
  tlsCertificates :: "(Certificate \<times> keyId) list"
  InsecureSkipVerify :: bool

definition backendTLSConfig :: "ServerConfig \<Rightarrow> string \<Rightarrow> Certificate \<times> keyId \<Rightarrow> (disk, tlsConfig) prog" where
  "backendTLSConfig sc host clientCert =
     wrapP ''failed to load CA Pool for backend TLS'' (caCertPool sc) (\<lambda>caPool.
     returnP \<lparr>ServerName = host, RootCAs = caPool, tlsCertificates = [clientCert], InsecureSkipVerify = False\<rparr>)"

section \<open>Bootstrap\<close>

definition ca_template :: "ServerConfig \<Rightarrow> int \<Rightarrow> Certificate" where
  "ca_template sc t =
     \<lparr>Subject = \<lparr>CommonName = ''PgFox CA'', pkOrganization = [Organization (Certs sc)],
                 pkOrganizationalUnit = [''Certificate Authority''], pkCountry = [Country (Certs sc)]\<rparr>,
      Issuer = \<lparr>CommonName = [], pkOrganization = [], pkOrganizationalUnit = [], pkCountry = []\<rparr>,
      NotBefore = t - 60 * Second, NotAfter = t + 10 * 365 * 24 * Hour, KeyUsage = [KeyUsageCertSign, KeyUsageCRLSign],
      ExtKeyUsage = [], IsCA = True, MaxPathLen = 1, IPAddresses = [], DNSNames = [], PublicKey = 0, SignedBy = 0\<rparr>"

definition ensureCA :: "ServerConfig \<Rightarrow> (disk, unit) prog" where
  "ensureCA sc =
     bindP (getP (\<lambda>d. fileExists (caCertPath sc) d \<and> fileExists (caKeyPath sc) d)) (\<lambda>exists.
     if exists then returnP ()
     else
       wrapP ''failed to generate CA key'' GenerateKey (\<lambda>caKey.
       wrapP ''failed to generate CA serial'' sysP (\<lambda>_.
       bindP (getP d_now) (\<lambda>t.
       wrapP ''failed to create CA certificate'' (CreateCertificate (ca_template sc t) None caKey caKey) (\<lambda>cert.
       wrapP ''failed to write CA cert'' (writeCertFile (caCertPath sc) cert) (\<lambda>_.
       wrapP ''failed to write CA key'' (writeKeyFile (caKeyPath sc) caKey) returnP))))))"

definition server_template :: "(string \<Rightarrow> bytes option) \<Rightarrow> ServerConfig \<Rightarrow> string \<Rightarrow> string \<Rightarrow> int \<Rightarrow> Certificate" where
  "server_template parseIP sc cn ou t =
     \<lparr>Subject = \<lparr>CommonName = cn, pkOrganization = [Organization (Certs sc)], pkOrganizationalUnit = [ou],
                 pkCountry = [Country (Certs sc)]\<rparr>,
      Issuer = \<lparr>CommonName = [], pkOrganization = [], pkOrganizationalUnit = [], pkCountry = []\<rparr>,
      NotBefore = t - 60 * Second, NotAfter = t + TTL (Certs sc),
      KeyUsage = [KeyUsageDigitalSignature, KeyUsageKeyEncipherment],
      ExtKeyUsage = [ExtKeyUsageServerAuth, ExtKeyUsageClientAuth], IsCA = False, MaxPathLen = 0,
      IPAddresses = (case parseIP cn of Some ip \<Rightarrow> [ip] | None \<Rightarrow> []),
      DNSNames = (case parseIP cn of Some ip \<Rightarrow> [] | None \<Rightarrow> [cn]), PublicKey = 0, SignedBy = 0\<rparr>"

definition ensureSignedCert ::
  "(string \<Rightarrow> bytes option) \<Rightarrow> ServerConfig \<Rightarrow> string \<Rightarrow> string \<Rightarrow> string \<Rightarrow> string \<Rightarrow> Certificate \<Rightarrow> keyId \<Rightarrow> (disk, unit) prog" where
  "ensureSignedCert parseIP sc certPath keyPath cn ou caCert caKey =
     bindP (isCertValidForCA sc certPath True) (\<lambda>valid.
     if valid then returnP ()
     else
       wrapP (''failed to generate key for '' @ cn) GenerateKey (\<lambda>privateKey.
       wrapP (''failed to generate serial for '' @ cn) sysP (\<lambda>_.
       bindP (getP d_now) (\<lambda>t.
       wrapP (''failed to create certificate for '' @ cn)
         (CreateCertificate (server_template parseIP sc cn ou t) (Some caCert) privateKey caKey) (\<lambda>cert.
       wrapP (''failed to write cert '' @ certPath) (writeCertFile certPath cert) (\<lambda>_.
       wrapP (''failed to write key '' @ keyPath) (writeKeyFile keyPath privateKey) returnP))))))"

definition ensureBootstrapCerts :: "(string \<Rightarrow> bytes option) \<Rightarrow> ServerConfig \<Rightarrow> Target list \<Rightarrow> (disk, unit) prog" where
  "ensureBootstrapCerts parseIP sc targets =
     wrapP (''failed to create pgfox_dir '' @ PgFoxDir sc) sysP (\<lambda>_.
     wrapP ''CA setup failed'' (ensureCA sc) (\<lambda>_.
     wrapP ''failed to load CA for bootstrap'' (loadCA sc) (\<lambda>(caCert, caKey).
     let serverHost = (case targets of [] \<Rightarrow> ''localhost'' | t # _ \<Rightarrow> Host t) in
     wrapP ''server cert setup failed''
       (ensureSignedCert parseIP sc (serverCertPath sc) (serverKeyPath sc) serverHost ''PostgreSQL Server'' caCert caKey) (\<lambda>_.
     wrapP ''pgfox TLS cert setup failed''
       (ensureSignedCert parseIP sc (pgfoxTLSCertPath sc) (pgfoxTLSKeyPath sc) (Hostname sc) ''PgFox Server'' caCert caKey) returnP))))"

text \<open>\<open>isSSLSupported\<close> of \<open>server.go\<close>.\<close>

definition isSSLSupported :: "ServerConfig \<Rightarrow> disk \<Rightarrow> bool" where
  "isSSLSupported sc d = fileExists (pgfoxTLSCertPath sc) d"

section \<open>Paths\<close>

text \<open>A directory is given by its parts; \<open>clean_dir\<close> says that \<open>pgfox_dir\<close> is absolute and clean.\<close>

definition plain_part :: "string \<Rightarrow> bool" where
  "plain_part p \<longleftrightarrow> p \<noteq> [] \<and> p \<noteq> ''.'' \<and> p \<noteq> ''..'' \<and> SLASH \<notin> set p"

definition dir_of :: "string list \<Rightarrow> string" where
  "dir_of ps = concat (map (\<lambda>p. SLASH # p) ps)"

definition clean_dir :: "ServerConfig \<Rightarrow> string list \<Rightarrow> bool" where
  "clean_dir sc ps \<longleftrightarrow> PgFoxDir sc = dir_of ps \<and> ps \<noteq> [] \<and> list_all plain_part ps"

lemma str_split_plain: "SLASH \<notin> set p \<Longrightarrow> str_split SLASH (p @ q) = (case str_split SLASH q of [] \<Rightarrow> [p] | w # ws \<Rightarrow> (p @ w) # ws)"
  by (induction p) (auto split: list.split)

lemma split_dir: "list_all (\<lambda>p. SLASH \<notin> set p) ps \<Longrightarrow> str_split SLASH (dir_of ps) = [] # ps"
  by (induction ps) (auto simp: dir_of_def str_split_plain)

lemma dir_of_inj: "list_all (\<lambda>p. SLASH \<notin> set p) ps \<Longrightarrow> list_all (\<lambda>p. SLASH \<notin> set p) qs \<Longrightarrow> dir_of ps = dir_of qs \<longleftrightarrow> ps = qs"
  using split_dir by (metis list.inject)

lemma clean_step: "list_all plain_part ps \<Longrightarrow> clean_parts r acc (ps @ qs) = clean_parts r (rev ps @ acc) qs"
  by (induction ps arbitrary: acc) (auto simp: plain_part_def)

lemma clean_plain: "list_all plain_part ps \<Longrightarrow> clean_parts r acc ps = rev acc @ ps"
  using clean_step [of ps r acc "[]"] by simp

lemma path_text_dir: "ps \<noteq> [] \<Longrightarrow> SLASH # path_text ps = dir_of ps"
  by (induction ps rule: path_text.induct) (auto simp: dir_of_def)

lemma plain_no_slash: "list_all plain_part ps \<Longrightarrow> list_all (\<lambda>p. SLASH \<notin> set p) ps"
  by (auto simp: list_all_iff plain_part_def)

lemma Join_plain:
  assumes "ps \<noteq> []" "list_all plain_part ps" "plain_part q"
  shows "filepath_Join [dir_of ps, q] = dir_of (ps @ [q])"
proof -
  have d: "dir_of ps @ SLASH # q = dir_of (ps @ [q])" "dir_of ps \<noteq> []" "hd (dir_of (ps @ [q])) = SLASH" "dir_of (ps @ [q]) \<noteq> []"
    using assms(1) by (cases ps; simp add: dir_of_def)+
  have "list_all plain_part (ps @ [q])" using assms by simp
  then show ?thesis
    using d split_dir [OF plain_no_slash, of "ps @ [q]"] clean_plain [of "ps @ [q]" True "[]"] path_text_dir [of "ps @ [q]"]
    by (simp add: filepath_Join_def filepath_Clean_def Let_def)
qed

lemma plain_names [simp]:
  "plain_part ''ca.crt''" "plain_part ''ca.key''" "plain_part ''server.crt''" "plain_part ''server.key''"
  "plain_part ''pgfox.crt''" "plain_part ''pgfox.key''" "plain_part ''certs''"
  by (simp_all add: plain_part_def)

lemma paths:
  assumes "clean_dir sc ps"
  shows "caCertPath sc = dir_of (ps @ [''ca.crt''])" "caKeyPath sc = dir_of (ps @ [''ca.key''])"
    "serverCertPath sc = dir_of (ps @ [''server.crt''])" "serverKeyPath sc = dir_of (ps @ [''server.key''])"
    "pgfoxTLSCertPath sc = dir_of (ps @ [''pgfox.crt''])" "pgfoxTLSKeyPath sc = dir_of (ps @ [''pgfox.key''])"
    and "SLASH \<notin> set u \<Longrightarrow> userCertPath sc u = dir_of (ps @ [''certs'', u @ ''.crt''])"
    and "SLASH \<notin> set u \<Longrightarrow> userKeyPath sc u = dir_of (ps @ [''certs'', u @ ''.key''])"
proof -
  note c = assms [unfolded clean_dir_def]
  show "caCertPath sc = dir_of (ps @ [''ca.crt''])" "caKeyPath sc = dir_of (ps @ [''ca.key''])"
    "serverCertPath sc = dir_of (ps @ [''server.crt''])" "serverKeyPath sc = dir_of (ps @ [''server.key''])"
    "pgfoxTLSCertPath sc = dir_of (ps @ [''pgfox.crt''])" "pgfoxTLSKeyPath sc = dir_of (ps @ [''pgfox.key''])"
    using c by (simp_all add: caCertPath_def caKeyPath_def serverCertPath_def serverKeyPath_def pgfoxTLSCertPath_def
        pgfoxTLSKeyPath_def Join_plain)
  have d: "certsDir sc = dir_of (ps @ [''certs''])" using c by (simp add: certsDir_def Join_plain)
  assume "SLASH \<notin> set u"
  then have "plain_part (u @ ''.crt'')" "plain_part (u @ ''.key'')" by (auto simp: plain_part_def append_eq_Cons_conv)
  then show "userCertPath sc u = dir_of (ps @ [''certs'', u @ ''.crt''])" "userKeyPath sc u = dir_of (ps @ [''certs'', u @ ''.key''])"
    using c d Join_plain [of "ps @ [''certs'']"] by (simp_all add: userCertPath_def userKeyPath_def)
qed

lemma path_eq_iff:
  "clean_dir sc ps \<Longrightarrow> list_all (\<lambda>p. SLASH \<notin> set p) qs \<Longrightarrow> list_all (\<lambda>p. SLASH \<notin> set p) rs \<Longrightarrow>
     dir_of (ps @ qs) = dir_of (ps @ rs) \<longleftrightarrow> qs = rs"
  using dir_of_inj [of "ps @ qs" "ps @ rs"] plain_no_slash [of ps] by (simp add: clean_dir_def)

lemma suffix_eq [simp]: "u @ ''.crt'' \<noteq> v @ ''.key''" "u @ ''.key'' \<noteq> v @ ''.crt''"
proof -
  have "last (u @ ''.crt'') \<noteq> last (v @ ''.key'')" for u v by simp
  then show "u @ ''.crt'' \<noteq> v @ ''.key''" "u @ ''.key'' \<noteq> v @ ''.crt''" by metis+
qed

section \<open>What the operations leave alone\<close>

text \<open>The certificate store of a running server: the authority on disk is usable, the cached pool is the authority's
  certificate, and the certificate cached for a user name without a slash has that name.\<close>

definition usable_ca :: "int \<Rightarrow> Certificate \<Rightarrow> bool" where
  "usable_ca t ca \<longleftrightarrow> IsCA ca \<and> (KeyUsage ca = [] \<or> KeyUsageCertSign \<in> set (KeyUsage ca)) \<and> usage_ok ExtKeyUsageClientAuth ca \<and> time_ok t ca"

definition ca_on_disk :: "ServerConfig \<Rightarrow> Certificate \<Rightarrow> disk \<Rightarrow> bool" where
  "ca_on_disk sc ca d \<longleftrightarrow> d_files d (caCertPath sc) = Some (CertPEM ca) \<and>
     (\<exists>fmt \<in> {PKCS8_RSA, PKCS1}. d_files d (caKeyPath sc) = Some (KeyPEM fmt (PublicKey ca))) \<and>
     (caPool d = None \<or> caPool d = Some [ca]) \<and> usable_ca (d_now d) ca"

definition names_ok :: "ServerConfig \<Rightarrow> disk \<Rightarrow> bool" where
  "names_ok sc d \<longleftrightarrow> (\<forall>u c. SLASH \<notin> set u \<longrightarrow> d_files d (userCertPath sc u) = Some (CertPEM c) \<longrightarrow> CommonName (Subject c) = u)"

definition store_ok :: "ServerConfig \<Rightarrow> Certificate \<Rightarrow> disk \<Rightarrow> bool" where
  "store_ok sc ca d \<longleftrightarrow> ca_on_disk sc ca d \<and> names_ok sc d"

lemma loadCA_state: "snd (loadCA sc d) = d"
  by (simp add: loadCA_def ReadFile_def tryP_def failP_def returnP_def split: option.split fileData.split)

lemma loadCA_Ok: "loadCA sc d = (Ok x, d') \<Longrightarrow> d' = d \<and> d_files d (caCertPath sc) = Some (CertPEM (fst x)) \<and>
    (\<exists>fmt \<in> {PKCS8_RSA, PKCS1}. d_files d (caKeyPath sc) = Some (KeyPEM fmt (snd x)))"
  by (auto simp: loadCA_def ReadFile_def tryP_def failP_def returnP_def split: option.splits fileData.splits if_splits)

lemma loadCA_run: "ca_on_disk sc ca d \<Longrightarrow> loadCA sc d = (Ok (ca, PublicKey ca), d)"
  by (auto simp: ca_on_disk_def loadCA_def ReadFile_def tryP_def returnP_def)

lemma LoadX509KeyPair_state [simp]: "snd (LoadX509KeyPair c k d) = d"
  by (simp add: LoadX509KeyPair_def ReadFile_def bindP_def failP_def returnP_def split: option.split fileData.split)

lemma LoadX509KeyPair_Ok:
  "LoadX509KeyPair c k d = (Ok (cert, key), d') \<Longrightarrow> d' = d \<and> d_files d c = Some (CertPEM cert) \<and> PublicKey cert = key \<and>
     (\<exists>fmt. d_files d k = Some (KeyPEM fmt key))"
  by (auto simp: LoadX509KeyPair_def ReadFile_def bindP_def failP_def returnP_def split: option.splits fileData.splits if_splits)

lemma caCertPool_run:
  assumes "ca_on_disk sc ca d"
  shows "caCertPool sc d = (Ok [ca], d\<lparr>caPool := Some [ca]\<rparr>)"
  using assms
  by (auto simp: ca_on_disk_def caCertPool_def ReadFile_def bindP_def getP_def tryP_def thenP_def modifyP_def returnP_def)

lemma caCertPool_frame: "\<exists>p. snd (caCertPool sc d) = d\<lparr>caPool := p\<rparr>"
proof (cases "caPool d")
  case None
  then show ?thesis
    by (auto simp: caCertPool_def ReadFile_def bindP_def getP_def tryP_def thenP_def modifyP_def failP_def returnP_def
        intro: exI [of _ None] split: option.split fileData.split)
qed (auto simp: caCertPool_def bindP_def getP_def returnP_def intro: exI [of _ "caPool d"])

text \<open>\<open>isCertValidForCA\<close> when the authority is on disk.\<close>

definition cert_fit :: "Certificate \<Rightarrow> int \<Rightarrow> bool \<Rightarrow> Certificate \<Rightarrow> bool" where
  "cert_fit ca t requireSAN c \<longleftrightarrow> t + 24 * Hour \<le> NotAfter c \<and> (requireSAN \<longrightarrow> IPAddresses c \<noteq> [] \<or> DNSNames c \<noteq> []) \<and>
     Verify [ca] t ExtKeyUsageClientAuth c"

lemma valid_run:
  assumes "ca_on_disk sc ca d"
  shows "\<exists>p. isCertValidForCA sc path san d =
    (Ok (case d_files d path of Some (CertPEM c) \<Rightarrow> cert_fit ca (d_now d) san c | _ \<Rightarrow> False), d\<lparr>caPool := p\<rparr>) \<and> (p = caPool d \<or> p = Some [ca])"
proof -
  have id: "d = d\<lparr>caPool := caPool d\<rparr>" by simp
  show ?thesis
  proof (cases "\<exists>c. d_files d path = Some (CertPEM c) \<and> d_now d + 24 * Hour \<le> NotAfter c \<and> (san \<longrightarrow> IPAddresses c \<noteq> [] \<or> DNSNames c \<noteq> [])")
    case True
    then show ?thesis
      using caCertPool_run [OF assms]
      by (auto simp: isCertValidForCA_def ReadFile_def tryP_def bindP_def getP_def returnP_def cert_fit_def)
  next
    case False
    then show ?thesis
      by (intro exI [of _ "caPool d"])
        (auto simp: isCertValidForCA_def ReadFile_def tryP_def bindP_def getP_def returnP_def cert_fit_def not_less split: option.split fileData.split)
  qed
qed

section \<open>User certificates\<close>

lemma store_put:
  assumes "clean_dir sc ps" "SLASH \<notin> set u" "store_ok sc ca d"
  shows "store_ok sc ca (put_file (userKeyPath sc u) f d)"
    and "(\<And>c. f = CertPEM c \<Longrightarrow> CommonName (Subject c) = u) \<Longrightarrow> store_ok sc ca (put_file (userCertPath sc u) f d)"
proof -
  note p = paths [OF assms(1)] and e = path_eq_iff [OF assms(1)]
  have ne: "caCertPath sc \<noteq> userKeyPath sc u" "caKeyPath sc \<noteq> userKeyPath sc u" "caCertPath sc \<noteq> userCertPath sc u"
    "caKeyPath sc \<noteq> userCertPath sc u"
    using assms(2) by (simp_all add: p e)
  have nu: "userCertPath sc v \<noteq> userKeyPath sc u" "userCertPath sc v = userCertPath sc u \<longleftrightarrow> v = u" if "SLASH \<notin> set v" for v
    using assms(2) that by (simp_all add: p e)
  show "store_ok sc ca (put_file (userKeyPath sc u) f d)"
    using assms(3) ne nu by (auto simp: store_ok_def ca_on_disk_def names_ok_def put_file_def)
  show "store_ok sc ca (put_file (userCertPath sc u) f d)" if "\<And>c. f = CertPEM c \<Longrightarrow> CommonName (Subject c) = u"
    using assms(3) ne nu that by (auto simp: store_ok_def ca_on_disk_def names_ok_def put_file_def)
qed

lemma keeps_store_sys [keeps_intros]: "keeps (store_ok sc ca) sysP" "keeps (store_ok sc ca) GenerateKey"
proof -
  show 1: "keeps (store_ok sc ca) sysP"
    by (auto simp: keeps_def sysP_def store_ok_def ca_on_disk_def names_ok_def split: list.split option.split)
  show "keeps (store_ok sc ca) GenerateKey"
    unfolding GenerateKey_def by (intro keeps_intros keeps_modify 1) (simp add: store_ok_def ca_on_disk_def names_ok_def)
qed

lemma keeps_try_create:
  assumes "\<And>e. keeps (store_ok sc ca) (h e)" "\<And>c. Subject c = Subject tm \<Longrightarrow> keeps (store_ok sc ca) (k c)"
  shows "keeps (store_ok sc ca) (tryP (CreateCertificate tm p pub priv) h k)"
proof -
  have "keeps (store_ok sc ca) (tryP (thenP sysP (returnP c)) h k)" if "Subject c = Subject tm" for c
  proof -
    have "keeps (store_ok sc ca) (tryP sysP h (\<lambda>_. k c))" by (intro keeps_intros assms that)
    moreover have "tryP (thenP sysP (returnP c)) h k = tryP sysP h (\<lambda>_. k c)"
      by (auto simp: fun_eq_iff tryP_def thenP_def bindP_def returnP_def split: prod.split res.split)
    ultimately show ?thesis by simp
  qed
  moreover have "keeps (store_ok sc ca) (tryP (failP e) h k)" for e
    using assms(1) by (simp add: keeps_def tryP_def failP_def)
  ultimately show ?thesis by (auto simp: CreateCertificate_def signed_def split: option.split)
qed

lemma keeps_generate:
  assumes "clean_dir sc ps" "SLASH \<notin> set u"
  shows "keeps (store_ok sc ca) (generateAndCacheUserCert sc u)"
proof -
  have io: "keeps (store_ok sc ca) (OpenFile (userCertPath sc u))" "keeps (store_ok sc ca) (OpenFile (userKeyPath sc u))"
    "keeps (store_ok sc ca) (pem_Encode (userKeyPath sc u) f)"
    "(\<And>c. f = CertPEM c \<Longrightarrow> CommonName (Subject c) = u) \<Longrightarrow> keeps (store_ok sc ca) (pem_Encode (userCertPath sc u) f)" for f
    unfolding OpenFile_def pem_Encode_def by (intro keeps_intros keeps_modify store_put [OF assms]; simp)+
  have load: "keeps (store_ok sc ca) (loadCA sc)" "keeps (store_ok sc ca) (LoadX509KeyPair x y)" for x y
    by (simp_all add: keeps_def loadCA_state)
  show ?thesis
    unfolding generateAndCacheUserCert_def Let_def
    by (intro keeps_try_create keeps_intros io load) (auto simp: user_template_def)
qed

text \<open>Running the calls that may fail.\<close>

lemma sysP_Ok: "sysP d = (Ok u, d') \<Longrightarrow> d_files d' = d_files d \<and> d_now d' = d_now d \<and> caPool d' = caPool d \<and> d_nextKey d' = d_nextKey d"
  by (auto simp: sysP_def split: list.splits option.splits)

lemma GenerateKey_Ok: "GenerateKey d = (Ok k, d') \<Longrightarrow> d_files d' = d_files d \<and> d_now d' = d_now d \<and> caPool d' = caPool d \<and> k = d_nextKey d \<and> d_nextKey d' = Suc k"
  by (auto simp: GenerateKey_def thenP_def bindP_Ok_iff run_leaf returnP_def dest!: sysP_Ok)

lemma put_Ok:
  "OpenFile path d = (Ok u, d') \<Longrightarrow> d_files d' = (d_files d)(path \<mapsto> NoPEM) \<and> d_now d' = d_now d \<and> caPool d' = caPool d \<and> d_nextKey d' = d_nextKey d"
  "pem_Encode path f d = (Ok u, d') \<Longrightarrow> d_files d' = (d_files d)(path \<mapsto> f) \<and> d_now d' = d_now d \<and> caPool d' = caPool d \<and> d_nextKey d' = d_nextKey d"
  by (auto simp: OpenFile_def pem_Encode_def thenP_def bindP_Ok_iff run_leaf put_file_def dest!: sysP_Ok)

lemma CreateCertificate_Ok:
  "CreateCertificate tm (Some p) pub priv d = (Ok c, d') \<Longrightarrow> PublicKey p = priv \<and> c = signed (Subject p) pub priv tm \<and>
     d_files d' = d_files d \<and> d_now d' = d_now d \<and> caPool d' = caPool d \<and> d_nextKey d' = d_nextKey d"
  by (auto simp: CreateCertificate_def thenP_def bindP_Ok_iff run_leaf returnP_def failP_def split: if_splits dest!: sysP_Ok)

lemmas calls_Ok = sysP_Ok GenerateKey_Ok CreateCertificate_Ok put_Ok

lemma generate_Ok:
  assumes "generateAndCacheUserCert sc u d = (Ok (c, k), d')" "userCertPath sc u \<noteq> userKeyPath sc u"
  shows "\<exists>ca. d_files d (caCertPath sc) = Some (CertPEM ca) \<and> c = signed (Subject ca) k (PublicKey ca) (user_template sc u (d_now d)) \<and> PublicKey c = k"
  using assms
  by (auto simp: generateAndCacheUserCert_def Let_def wrapP_Ok_iff bindP_Ok_iff run_leaf
      split: if_splits prod.splits dest!: calls_Ok loadCA_Ok LoadX509KeyPair_Ok)

lemma generate_runs:
  assumes "ca_on_disk sc ca d" "d_io d = []" "userCertPath sc u \<noteq> userKeyPath sc u"
  shows "\<exists>c k d'. generateAndCacheUserCert sc u d = (Ok (c, k), d') \<and> IsCA c = False \<and>
    d_files d' = (d_files d)(userCertPath sc u \<mapsto> CertPEM c, userKeyPath sc u \<mapsto> KeyPEM PKCS8_RSA k) \<and>
    d_io d' = [] \<and> d_now d' = d_now d \<and> caPool d' = caPool d"
  using loadCA_run [OF assms(1)] assms(2,3)
  by (simp add: generateAndCacheUserCert_def tryP_def bindP_def thenP_def getP_def modifyP_def returnP_def liftP_def CreateCertificate_def
      GenerateKey_def sysP_def OpenFile_def pem_Encode_def put_file_def LoadX509KeyPair_def ReadFile_def signed_def user_template_def Let_def)

lemma whole_seconds_bounds: "whole_seconds t \<le> t" "t < whole_seconds t + Second"
  by (simp_all add: whole_seconds_def Second_def)

lemma user_cert_fits:
  assumes "usable_ca t ca" "Second \<le> TTL (Certs sc)"
  shows "Verify [ca] t ExtKeyUsageClientAuth (signed (Subject ca) k (PublicKey ca) (user_template sc u t))"
  using assms whole_seconds_bounds [of "t - 60 * Second"] whole_seconds_bounds [of "t + TTL (Certs sc)"]
  by (auto simp: Verify_def usable_ca_def time_ok_def usage_ok_def signed_from_def signed_def user_template_def Second_def)

lemma generate_sound:
  assumes "clean_dir sc ps" "SLASH \<notin> set u" "store_ok sc ca d" "Second \<le> TTL (Certs sc)"
    and "generateAndCacheUserCert sc u d = (r, d')"
  shows "store_ok sc ca d'" "d_io d = [] \<Longrightarrow> \<exists>x. r = Ok x"
    "r = Ok (c, k) \<Longrightarrow> CommonName (Subject c) = u \<and> PublicKey c = k \<and> Verify [ca] (d_now d) ExtKeyUsageClientAuth c"
proof -
  have ne: "userCertPath sc u \<noteq> userKeyPath sc u" using paths(7,8) [OF assms(1,2)] path_eq_iff [OF assms(1)] assms(2) by simp
  have ca: "ca_on_disk sc ca d" "usable_ca (d_now d) ca" using assms(3) by (auto simp: store_ok_def ca_on_disk_def)
  show "store_ok sc ca d'" by (rule keepsD [OF keeps_generate [OF assms(1,2)] assms(5,3)])
  show "\<exists>x. r = Ok x" if "d_io d = []" using generate_runs [OF ca(1) that ne] assms(5) by auto
  assume "r = Ok (c, k)"
  then have "c = signed (Subject ca) k (PublicKey ca) (user_template sc u (d_now d))" "PublicKey c = k"
    using generate_Ok [of sc u d c k d'] assms(5) ne ca(1) by (auto simp: ca_on_disk_def)
  then show "CommonName (Subject c) = u \<and> PublicKey c = k \<and> Verify [ca] (d_now d) ExtKeyUsageClientAuth c"
    using user_cert_fits [OF ca(2) assms(4)] by (simp add: signed_def user_template_def)
qed

lemma user_cert_ok:
  assumes "clean_dir sc ps" "SLASH \<notin> set u" "store_ok sc ca d" "Second \<le> TTL (Certs sc)"
    and "loadOrGenerateUserCert sc u d = (r, d')"
  shows "store_ok sc ca d' \<and> (d_io d = [] \<longrightarrow> (\<exists>x. r = Ok x)) \<and>
    (\<forall>c k. r = Ok (c, k) \<longrightarrow> CommonName (Subject c) = u \<and> PublicKey c = k \<and> Verify [ca] (d_now d) ExtKeyUsageClientAuth c)"
proof -
  let ?c = "userCertPath sc u" and ?k = "userKeyPath sc u"
  have ca: "ca_on_disk sc ca d" using assms(3) by (simp add: store_ok_def)
  obtain p where v: "isCertValidForCA sc ?c False d =
      (Ok (case d_files d ?c of Some (CertPEM c) \<Rightarrow> cert_fit ca (d_now d) False c | _ \<Rightarrow> False), d\<lparr>caPool := p\<rparr>)" "p = caPool d \<or> p = Some [ca]"
    using valid_run [OF ca] by blast
  let ?d = "d\<lparr>caPool := p\<rparr>"
  have ok: "store_ok sc ca ?d" using assms(3) v(2) by (auto simp: store_ok_def ca_on_disk_def names_ok_def)
  have gen: "store_ok sc ca d' \<and> (d_io d = [] \<longrightarrow> (\<exists>x. r = Ok x)) \<and>
    (\<forall>c k. r = Ok (c, k) \<longrightarrow> CommonName (Subject c) = u \<and> PublicKey c = k \<and> Verify [ca] (d_now d) ExtKeyUsageClientAuth c)"
    if "generateAndCacheUserCert sc u ?d = (r, d')"
    using generate_sound [OF assms(1,2) ok assms(4) that] by auto
  show ?thesis
  proof (cases "\<exists>c. d_files d ?c = Some (CertPEM c) \<and> cert_fit ca (d_now d) False c")
    case True
    then obtain c where c: "d_files d ?c = Some (CertPEM c)" "cert_fit ca (d_now d) False c" by blast
    have cn: "CommonName (Subject c) = u" using assms(2,3) c(1) by (simp add: store_ok_def names_ok_def)
    obtain l where l: "LoadX509KeyPair ?c ?k ?d = (l, ?d)" using LoadX509KeyPair_state [of ?c ?k ?d] by (metis prod.collapse)
    show ?thesis
    proof (cases l)
      case (Ok x)
      then have "fst x = c" "PublicKey c = snd x" using LoadX509KeyPair_Ok [of ?c ?k ?d "fst x" "snd x"] l c(1) by auto
      moreover have "r = Ok x" "d' = ?d" using assms(5) v(1) c l Ok by (auto simp: loadOrGenerateUserCert_def bindP_def tryP_def returnP_def)
      ultimately show ?thesis using ok cn c(2) by (cases x) (auto simp: cert_fit_def)
    next
      case (Err e)
      then show ?thesis using assms(5) v(1) c l by (intro gen) (simp add: loadOrGenerateUserCert_def bindP_def tryP_def)
    qed (use l in \<open>auto simp: LoadX509KeyPair_def ReadFile_def bindP_def failP_def returnP_def split: option.splits fileData.splits if_splits\<close>)
  next
    case False
    then have "(case d_files d ?c of Some (CertPEM c) \<Rightarrow> cert_fit ca (d_now d) False c | _ \<Rightarrow> False) = False" by (auto split: option.split fileData.split)
    then show ?thesis using assms(5) v(1) by (intro gen) (simp add: loadOrGenerateUserCert_def bindP_def)
  qed
qed

text \<open>C19: \<open>loadOrGenerateUserCert\<close> presents for a user name without a slash, whether it was cached or made now, a certificate with
  that name and its own key which the authority on disk vouches for; the store stays as it has to be, also when
  calls of the operating system fail half-way, and when none fails there is a certificate.\<close>

theorem user_cert_sound:
  assumes "clean_dir sc ps" "SLASH \<notin> set u" "store_ok sc ca d" "Second \<le> TTL (Certs sc)"
    and "loadOrGenerateUserCert sc u d = (r, d')"
  shows "store_ok sc ca d' \<and> (d_io d = [] \<longrightarrow> (\<exists>x. r = Ok x)) \<and>
    (\<forall>c k. r = Ok (c, k) \<longrightarrow> CommonName (Subject c) = u \<and> PublicKey c = k \<and> Verify [ca] (d_now d) ExtKeyUsageClientAuth c)"
  using assms by (rule user_cert_ok)

text \<open>When the calls of the operating system succeed there is a certificate, and the authority is still there.\<close>

lemma load_runs:
  assumes "clean_dir sc ps" "SLASH \<notin> set u" "ca_on_disk sc ca d" "d_io d = []"
  shows "\<exists>x d'. loadOrGenerateUserCert sc u d = (Ok x, d') \<and> ca_on_disk sc ca d' \<and> d_io d' = []"
proof -
  let ?c = "userCertPath sc u" and ?k = "userKeyPath sc u"
  note p = paths [OF assms(1)] and e = path_eq_iff [OF assms(1)]
  have ne: "?c \<noteq> ?k" "caCertPath sc \<notin> {?c, ?k}" "caKeyPath sc \<notin> {?c, ?k}" using assms(2) by (simp_all add: p e)
  obtain v q where v: "isCertValidForCA sc ?c False d = (Ok v, d\<lparr>caPool := q\<rparr>)" "q = caPool d \<or> q = Some [ca]"
    using valid_run [OF assms(3), of ?c False] by blast
  let ?d = "d\<lparr>caPool := q\<rparr>"
  have ca: "ca_on_disk sc ca ?d" using assms(3) v(2) by (auto simp: ca_on_disk_def)
  obtain c k d' where g: "generateAndCacheUserCert sc u ?d = (Ok (c, k), d')"
      "d_files d' = (d_files d)(?c \<mapsto> CertPEM c, ?k \<mapsto> KeyPEM PKCS8_RSA k)" "d_io d' = []" "d_now d' = d_now d" "caPool d' = q"
    using generate_runs [OF ca _ ne(1)] assms(4) by auto
  have "ca_on_disk sc ca d'" using ca g(2,4,5) ne by (auto simp: ca_on_disk_def)
  then have gen: ?thesis if "loadOrGenerateUserCert sc u d = generateAndCacheUserCert sc u ?d" using that g by auto
  show ?thesis
  proof (cases v)
    case True
    obtain l where l: "LoadX509KeyPair ?c ?k ?d = (l, ?d)" using LoadX509KeyPair_state [of ?c ?k ?d] by (metis prod.collapse)
    show ?thesis
    proof (cases l)
      case (Ok x)
      then show ?thesis using v(1) l \<open>v\<close> ca assms(4) by (simp add: loadOrGenerateUserCert_def bindP_def tryP_def returnP_def)
    next
      case (Err er)
      then show ?thesis using v(1) l \<open>v\<close> by (intro gen) (simp add: loadOrGenerateUserCert_def bindP_def tryP_def)
    qed (use l in \<open>auto simp: LoadX509KeyPair_def ReadFile_def bindP_def failP_def returnP_def split: option.splits fileData.splits if_splits\<close>)
  next
    case False
    then show ?thesis using v(1) by (intro gen) (simp add: loadOrGenerateUserCert_def bindP_def)
  qed
qed

section \<open>Bootstrap\<close>

lemma sysP_quiet: "d_io d = [] \<Longrightarrow> sysP d = (Ok (), d)"
  by (simp add: sysP_def)

lemma write_run:
  "d_io d = [] \<Longrightarrow> writeCertFile path c d = (Ok (), put_file path (CertPEM c) d)"
  "d_io d = [] \<Longrightarrow> writeKeyFile path k d = (Ok (), put_file path (KeyPEM PKCS8_RSA k) d)"
  by (simp_all add: writeCertFile_def writeKeyFile_def OpenFile_def pem_Encode_def thenP_def bindP_def modifyP_def sysP_def put_file_def)

lemma GenerateKey_quiet: "d_io d = [] \<Longrightarrow> GenerateKey d = (Ok (d_nextKey d), d\<lparr>d_nextKey := d_nextKey d + 1\<rparr>)"
  by (simp add: GenerateKey_def thenP_def bindP_def modifyP_def getP_def returnP_def sysP_def)

lemma put_file_simps [simp]:
  "d_io (put_file path f d) = d_io d" "d_now (put_file path f d) = d_now d" "caPool (put_file path f d) = caPool d"
  "d_files (put_file path f d) = (d_files d)(path \<mapsto> f)"
  by (simp_all add: put_file_def)

lemma server_cert_fits:
  assumes "usable_ca t ca" "24 * Hour + Second \<le> TTL (Certs sc)"
  shows "cert_fit ca t True (signed (Subject ca) k (PublicKey ca) (server_template parseIP sc cn ou t))"
  using assms whole_seconds_bounds [of "t - 60 * Second"] whole_seconds_bounds [of "t + TTL (Certs sc)"]
  by (auto simp: cert_fit_def Verify_def usable_ca_def time_ok_def usage_ok_def signed_from_def signed_def server_template_def
      Second_def Hour_def split: option.split)

text \<open>A file that holds a certificate the authority vouches for, with a name for hosts to check.\<close>

definition good_file :: "Certificate \<Rightarrow> disk \<Rightarrow> string \<Rightarrow> bool" where
  "good_file ca d path \<longleftrightarrow> (\<exists>c. d_files d path = Some (CertPEM c) \<and> cert_fit ca (d_now d) True c)"

text \<open>A pair of files that \<open>LoadX509KeyPair\<close> takes.\<close>

definition paired :: "disk \<Rightarrow> string \<Rightarrow> string \<Rightarrow> bool" where
  "paired d certPath keyPath \<longleftrightarrow>
     (\<exists>c fmt. d_files d certPath = Some (CertPEM c) \<and> d_files d keyPath = Some (KeyPEM fmt (PublicKey c)) \<and> fmt \<noteq> UnknownKey)"

lemma ensureSigned_run:
  assumes "ca_on_disk sc ca d" "d_io d = []" "24 * Hour + Second \<le> TTL (Certs sc)"
    and "path \<notin> {keyPath, caCertPath sc, caKeyPath sc}" "keyPath \<notin> {caCertPath sc, caKeyPath sc}"
  shows "\<exists>d'. ensureSignedCert parseIP sc path keyPath cn ou ca (PublicKey ca) d = (Ok (), d') \<and> ca_on_disk sc ca d' \<and> d_io d' = [] \<and>
    d_now d' = d_now d \<and> good_file ca d' path \<and> (\<forall>q. q \<notin> {path, keyPath} \<longrightarrow> d_files d' q = d_files d q) \<and>
    (good_file ca d path \<longrightarrow> d_files d' = d_files d) \<and> (\<not> good_file ca d path \<longrightarrow> paired d' path keyPath)"
proof -
  obtain p where v: "isCertValidForCA sc path True d = (Ok (good_file ca d path), d\<lparr>caPool := p\<rparr>)" "p = caPool d \<or> p = Some [ca]"
    using valid_run [OF assms(1), of path True] by (force simp: good_file_def split: option.splits fileData.splits)
  show ?thesis
  proof (cases "good_file ca d path")
    case True
    then show ?thesis
      using v assms(1,2) by (intro exI [of _ "d\<lparr>caPool := p\<rparr>"])
        (auto simp: ensureSignedCert_def bindP_def returnP_def ca_on_disk_def good_file_def)
  next
    case False
    let ?k = "d_nextKey d"
    let ?c = "signed (Subject ca) ?k (PublicKey ca) (server_template parseIP sc cn ou (d_now d))"
    let ?d' = "put_file keyPath (KeyPEM PKCS8_RSA ?k) (put_file path (CertPEM ?c) (d\<lparr>caPool := p, d_nextKey := ?k + 1\<rparr>))"
    have "ensureSignedCert parseIP sc path keyPath cn ou ca (PublicKey ca) d = (Ok (), ?d')"
      using v(1) False assms(2)
      by (simp add: ensureSignedCert_def bindP_def tryP_def getP_def CreateCertificate_def thenP_def GenerateKey_quiet sysP_quiet write_run
          returnP_def)
    moreover have "cert_fit ca (d_now d) True ?c" using assms(1,3) by (intro server_cert_fits) (simp add: ca_on_disk_def)
    ultimately show ?thesis
      using v(2) False assms(1,2,4,5) by (intro exI [of _ ?d']) (auto simp: good_file_def ca_on_disk_def paired_def signed_def)
  qed
qed

lemma ensureCA_run:
  assumes "d_io d = []" "caCertPath sc \<noteq> caKeyPath sc"
    and "(\<exists>ca. ca_on_disk sc ca d) \<or> caPool d = None \<and> \<not> (fileExists (caCertPath sc) d \<and> fileExists (caKeyPath sc) d)"
  shows "\<exists>ca d'. ensureCA sc d = (Ok (), d') \<and> ca_on_disk sc ca d' \<and> d_io d' = [] \<and> d_now d' = d_now d \<and>
    ((\<exists>ca. ca_on_disk sc ca d) \<longrightarrow> d' = d) \<and> (\<forall>q. q \<notin> {caCertPath sc, caKeyPath sc} \<longrightarrow> d_files d' q = d_files d q)"
proof (cases "fileExists (caCertPath sc) d \<and> fileExists (caKeyPath sc) d")
  case True
  then show ?thesis using assms by (auto simp: ensureCA_def bindP_def getP_def returnP_def)
next
  case False
  let ?k = "d_nextKey d" and ?t = "ca_template sc (d_now d)"
  let ?ca = "signed (Subject ?t) ?k ?k ?t"
  let ?d' = "put_file (caKeyPath sc) (KeyPEM PKCS8_RSA ?k) (put_file (caCertPath sc) (CertPEM ?ca) (d\<lparr>d_nextKey := ?k + 1\<rparr>))"
  have f: "(fileExists (caCertPath sc) d \<and> fileExists (caKeyPath sc) d) = False" using False by simp
  have "ensureCA sc d = (Ok (), ?d')"
    using assms(1) by (simp only: ensureCA_def bindP_def getP_def prod.case res.case f if_False)
      (simp add: CreateCertificate_def thenP_def bindP_def tryP_def getP_def GenerateKey_quiet sysP_quiet write_run returnP_def Let_def)
  moreover have "usable_ca (d_now d) ?ca"
    using whole_seconds_bounds [of "d_now d - 60 * Second"] whole_seconds_bounds [of "d_now d + 10 * 365 * 24 * Hour"]
    by (simp add: usable_ca_def signed_def ca_template_def usage_ok_def time_ok_def Second_def Hour_def)
  moreover have no: "\<not> (\<exists>x. ca_on_disk sc x d)" using False by (auto simp: ca_on_disk_def fileExists_def)
  moreover have "caPool d = None" using assms(3) no by blast
  moreover have "ca_on_disk sc ?ca ?d'" using calculation(2,4) assms(2) by (simp add: ca_on_disk_def signed_def)
  ultimately show ?thesis using assms(1) by (intro exI [of _ ?ca] exI [of _ ?d'] conjI) simp_all
qed

lemma bootstrap_run:
  assumes "clean_dir sc ps" "24 * Hour + Second \<le> TTL (Certs sc)" "d_io d = []"
    and "(\<exists>ca. ca_on_disk sc ca d) \<or> caPool d = None \<and> \<not> (fileExists (caCertPath sc) d \<and> fileExists (caKeyPath sc) d)"
  shows "\<exists>ca d'. ensureBootstrapCerts parseIP sc targets d = (Ok (), d') \<and> ca_on_disk sc ca d' \<and> d_io d' = [] \<and>
    good_file ca d' (serverCertPath sc) \<and> good_file ca d' (pgfoxTLSCertPath sc) \<and>
    (\<forall>ca. ca_on_disk sc ca d \<longrightarrow> good_file ca d (serverCertPath sc) \<longrightarrow> good_file ca d (pgfoxTLSCertPath sc) \<longrightarrow> d_files d' = d_files d) \<and>
    ((good_file ca d (pgfoxTLSCertPath sc) \<longrightarrow> paired d (pgfoxTLSCertPath sc) (pgfoxTLSKeyPath sc)) \<longrightarrow> paired d' (pgfoxTLSCertPath sc) (pgfoxTLSKeyPath sc))"
proof -
  note p = paths [OF assms(1)] and e = path_eq_iff [OF assms(1)]
  have ne: "serverCertPath sc \<notin> {serverKeyPath sc, caCertPath sc, caKeyPath sc}" "serverKeyPath sc \<notin> {caCertPath sc, caKeyPath sc}"
    "pgfoxTLSCertPath sc \<notin> {pgfoxTLSKeyPath sc, caCertPath sc, caKeyPath sc}" "pgfoxTLSKeyPath sc \<notin> {caCertPath sc, caKeyPath sc}"
    "serverCertPath sc \<notin> {pgfoxTLSCertPath sc, pgfoxTLSKeyPath sc}" "pgfoxTLSCertPath sc \<notin> {serverCertPath sc, serverKeyPath sc}"
    "caCertPath sc \<noteq> caKeyPath sc" "pgfoxTLSKeyPath sc \<notin> {serverCertPath sc, serverKeyPath sc}"
    by (simp_all add: p e)
  obtain ca d1 where d1: "ensureCA sc d = (Ok (), d1)" "ca_on_disk sc ca d1" "d_io d1 = []" "(\<exists>ca. ca_on_disk sc ca d) \<longrightarrow> d1 = d"
    "d_now d1 = d_now d" "\<forall>q. q \<notin> {caCertPath sc, caKeyPath sc} \<longrightarrow> d_files d1 q = d_files d q"
    using ensureCA_run [OF assms(3) ne(7) assms(4)] by blast
  let ?h = "case targets of [] \<Rightarrow> ''localhost'' | t # _ \<Rightarrow> Host t"
  obtain d2 where d2: "ensureSignedCert parseIP sc (serverCertPath sc) (serverKeyPath sc) ?h ''PostgreSQL Server'' ca (PublicKey ca) d1 = (Ok (), d2)"
    "ca_on_disk sc ca d2" "d_io d2 = []" "d_now d2 = d_now d1" "good_file ca d2 (serverCertPath sc)"
    "\<forall>q. q \<notin> {serverCertPath sc, serverKeyPath sc} \<longrightarrow> d_files d2 q = d_files d1 q" "good_file ca d1 (serverCertPath sc) \<longrightarrow> d_files d2 = d_files d1"
    using ensureSigned_run [OF d1(2,3) assms(2) ne(1,2)] by blast
  obtain d3 where d3: "ensureSignedCert parseIP sc (pgfoxTLSCertPath sc) (pgfoxTLSKeyPath sc) (Hostname sc) ''PgFox Server'' ca (PublicKey ca) d2 = (Ok (), d3)"
    "ca_on_disk sc ca d3" "d_io d3 = []" "d_now d3 = d_now d2" "good_file ca d3 (pgfoxTLSCertPath sc)"
    "\<forall>q. q \<notin> {pgfoxTLSCertPath sc, pgfoxTLSKeyPath sc} \<longrightarrow> d_files d3 q = d_files d2 q" "good_file ca d2 (pgfoxTLSCertPath sc) \<longrightarrow> d_files d3 = d_files d2"
    "\<not> good_file ca d2 (pgfoxTLSCertPath sc) \<longrightarrow> paired d3 (pgfoxTLSCertPath sc) (pgfoxTLSKeyPath sc)"
    using ensureSigned_run [OF d2(2,3) assms(2) ne(3,4)] by blast
  have "ensureBootstrapCerts parseIP sc targets d = (Ok (), d3)"
    using d1(1) d2(1) d3(1) loadCA_run [OF d1(2)] assms(3)
    by (simp add: ensureBootstrapCerts_def tryP_def sysP_quiet returnP_def Let_def)
  moreover have "good_file ca d3 (serverCertPath sc)" using d2(5) d3(4,6) ne(5) by (simp add: good_file_def)
  moreover have "d_files d3 = d_files d"
    if "ca_on_disk sc x d" "good_file x d (serverCertPath sc)" "good_file x d (pgfoxTLSCertPath sc)" for x
  proof -
    have "d1 = d" using d1(4) that(1) by blast
    moreover from this have "x = ca" using d1(2) that(1) by (simp add: ca_on_disk_def)
    ultimately have g: "d_files d2 = d_files d" using d2(7) that(2) by simp
    moreover have "good_file ca d2 (pgfoxTLSCertPath sc)" using that(3) \<open>x = ca\<close> \<open>d1 = d\<close> g d2(4) by (simp add: good_file_def)
    ultimately show ?thesis using d3(7) by simp
  qed
  moreover have "paired d3 (pgfoxTLSCertPath sc) (pgfoxTLSKeyPath sc)"
    if "good_file ca d (pgfoxTLSCertPath sc) \<longrightarrow> paired d (pgfoxTLSCertPath sc) (pgfoxTLSKeyPath sc)"
  proof -
    have same: "d_files d2 q = d_files d q" if "q \<in> {pgfoxTLSCertPath sc, pgfoxTLSKeyPath sc}" for q using that d1(6) d2(6) ne by auto
    then have g: "good_file ca d2 (pgfoxTLSCertPath sc) = good_file ca d (pgfoxTLSCertPath sc)" using d1(5) d2(4) by (simp add: good_file_def)
    show ?thesis
    proof (cases "good_file ca d2 (pgfoxTLSCertPath sc)")
      case True
      then show ?thesis using that g same d3(7) by (simp add: paired_def)
    qed (use d3(8) in blast)
  qed
  ultimately show ?thesis using d3 by blast
qed

text \<open>C20: When the calls of the operating system succeed, \<open>ensureBootstrapCerts\<close> sets up a usable authority (or keeps the one it
  finds) and leaves a server certificate and a certificate for clients which that authority vouches for, with names for
  hosts to check, and which do not run out within a day; started again at that point it changes no file.\<close>

theorem bootstrap_ready:
  assumes "clean_dir sc ps" "24 * Hour + Second \<le> TTL (Certs sc)" "d_io d = []"
    and "(\<exists>ca. ca_on_disk sc ca d) \<or> caPool d = None \<and> \<not> (fileExists (caCertPath sc) d \<and> fileExists (caKeyPath sc) d)"
  shows "\<exists>ca d' d''. ensureBootstrapCerts parseIP sc targets d = (Ok (), d') \<and> ca_on_disk sc ca d' \<and>
    good_file ca d' (serverCertPath sc) \<and> good_file ca d' (pgfoxTLSCertPath sc) \<and> isSSLSupported sc d' \<and>
    ensureBootstrapCerts parseIP sc targets d' = (Ok (), d'') \<and> d_files d'' = d_files d'"
proof -
  obtain ca d' where d': "ensureBootstrapCerts parseIP sc targets d = (Ok (), d')" "ca_on_disk sc ca d'" "d_io d' = []"
    "good_file ca d' (serverCertPath sc)" "good_file ca d' (pgfoxTLSCertPath sc)"
    using bootstrap_run [OF assms] by blast
  moreover obtain d'' where "ensureBootstrapCerts parseIP sc targets d' = (Ok (), d'')" "d_files d'' = d_files d'"
    using bootstrap_run [OF assms(1,2) d'(3), of parseIP targets] d' by blast
  moreover have "isSSLSupported sc d'" using d'(5) by (auto simp: isSSLSupported_def fileExists_def good_file_def)
  ultimately show ?thesis by blast
qed

definition empty_disk :: disk where
  "empty_disk = \<lparr>d_files = Map.empty, d_io = [], d_now = 0, d_nextKey = 1, caPool = None\<rparr>"

lemma clean_default: "clean_dir defaultServerConfig [''etc'', ''pgfox'']"
  by (simp add: clean_dir_def defaultServerConfig_def dir_of_def plain_part_def)

theorem bootstrap_ready_witness:
  "\<exists>ca d' d''. ensureBootstrapCerts (\<lambda>_. None) defaultServerConfig [] empty_disk = (Ok (), d') \<and> ca_on_disk defaultServerConfig ca d' \<and>
    good_file ca d' (serverCertPath defaultServerConfig) \<and> good_file ca d' (pgfoxTLSCertPath defaultServerConfig) \<and>
    isSSLSupported defaultServerConfig d' \<and>
    ensureBootstrapCerts (\<lambda>_. None) defaultServerConfig [] d' = (Ok (), d'') \<and> d_files d'' = d_files d'"
  by (rule bootstrap_ready [OF clean_default]) (simp_all add: empty_disk_def fileExists_def defaultServerConfig_def Hour_def Second_def)

definition demo_ca :: Certificate where
  "demo_ca = signed (Subject (ca_template defaultServerConfig 0)) 7 7 (ca_template defaultServerConfig 0)"

definition demo_disk :: disk where
  "demo_disk = empty_disk\<lparr>d_files := [caCertPath defaultServerConfig \<mapsto> CertPEM demo_ca,
     caKeyPath defaultServerConfig \<mapsto> KeyPEM PKCS8_RSA 7]\<rparr>"

lemma demo_store: "store_ok defaultServerConfig demo_ca demo_disk"
proof -
  note p = paths [OF clean_default] and e = path_eq_iff [OF clean_default]
  have "usable_ca 0 demo_ca" "PublicKey demo_ca = 7"
    by (simp_all add: usable_ca_def demo_ca_def signed_def ca_template_def usage_ok_def time_ok_def whole_seconds_def Second_def Hour_def)
  moreover have "caCertPath defaultServerConfig \<noteq> caKeyPath defaultServerConfig" using e [of "[''ca.crt'']" "[''ca.key'']"] by (simp add: p)
  moreover have "userCertPath defaultServerConfig u \<notin> {caCertPath defaultServerConfig, caKeyPath defaultServerConfig}" if "SLASH \<notin> set u" for u
    using that e [of "[''certs'', u @ ''.crt'']" "[''ca.crt'']"] e [of "[''certs'', u @ ''.crt'']" "[''ca.key'']"] by (simp add: p)
  ultimately show ?thesis by (auto simp: store_ok_def ca_on_disk_def names_ok_def demo_disk_def empty_disk_def)
qed

theorem user_cert_sound_witness:
  "\<exists>c k d'. loadOrGenerateUserCert defaultServerConfig ''alice'' demo_disk = (Ok (c, k), d') \<and> store_ok defaultServerConfig demo_ca d' \<and>
    CommonName (Subject c) = ''alice'' \<and> PublicKey c = k \<and> Verify [demo_ca] 0 ExtKeyUsageClientAuth c"
proof -
  obtain r d' where r: "loadOrGenerateUserCert defaultServerConfig ''alice'' demo_disk = (r, d')" by (rule prod.exhaust)
  have "SLASH \<notin> set ''alice''" "Second \<le> TTL (Certs defaultServerConfig)" "d_io demo_disk = []" "d_now demo_disk = 0"
    by (simp_all add: defaultServerConfig_def Hour_def Second_def demo_disk_def empty_disk_def)
  with user_cert_sound [OF clean_default this(1) demo_store this(2) r] r show ?thesis by auto
qed

section \<open>User names with slashes\<close>

lemma Join_up:
  assumes "ps \<noteq> []" "list_all plain_part ps" "plain_part p" "plain_part q"
  shows "filepath_Join [dir_of (ps @ [p]), ''..'' @ SLASH # q] = dir_of (ps @ [q])"
proof -
  have d: "dir_of (ps @ [p]) @ SLASH # ''..'' @ SLASH # q = dir_of (ps @ [p, ''..'', q])" "dir_of (ps @ [p]) \<noteq> []"
    "hd (dir_of (ps @ [p, ''..'', q])) = SLASH" "dir_of (ps @ [p, ''..'', q]) \<noteq> []"
    using assms(1) by (cases ps; simp add: dir_of_def)+
  have "clean_parts True [] ((ps @ [p]) @ [''..'', q]) = ps @ [q]"
    using assms clean_step [of "ps @ [p]" True "[]" "[''..'', q]"] by (simp add: plain_part_def)
  then show ?thesis
    using d split_dir [of "ps @ [p, ''..'', q]"] assms plain_no_slash [OF assms(2)] path_text_dir [of "ps @ [q]"]
    by (simp add: filepath_Join_def filepath_Clean_def Let_def plain_part_def)
qed

lemma escape_paths:
  assumes "clean_dir sc ps"
  shows "userCertPath sc ''../ca'' = caCertPath sc" "userKeyPath sc ''../ca'' = caKeyPath sc"
proof -
  note c = assms [unfolded clean_dir_def]
  have d: "certsDir sc = dir_of (ps @ [''certs''])" using c by (simp add: certsDir_def Join_plain)
  show "userCertPath sc ''../ca'' = caCertPath sc" "userKeyPath sc ''../ca'' = caKeyPath sc"
    using c Join_up [of ps "''certs''" "''ca.crt''"] Join_up [of ps "''certs''" "''ca.key''"]
    by (simp_all add: userCertPath_def userKeyPath_def d paths [OF assms])
qed

text \<open>The name of a user goes into the path of the certificate as it is: for the user \<open>../ca\<close>, \<open>loadOrGenerateUserCert\<close> finds the
  authority's own certificate and key valid and hands them out as the user's; once the authority has less than a day left,
  it writes a client certificate for that name and its key over those of the authority.\<close>

theorem user_name_escapes:
  assumes "clean_dir sc ps" "ca_on_disk sc ca d" "d_io d = []"
  shows "if d_now d + 24 * Hour \<le> NotAfter ca then fst (loadOrGenerateUserCert sc ''../ca'' d) = Ok (ca, PublicKey ca)
    else \<exists>c k d'. loadOrGenerateUserCert sc ''../ca'' d = (Ok (c, k), d') \<and> d_files d' (caCertPath sc) = Some (CertPEM c) \<and> \<not> IsCA c \<and>
      d_files d' (caKeyPath sc) = Some (KeyPEM PKCS8_RSA k)"
proof -
  note p = escape_paths [OF assms(1)]
  have ne: "caCertPath sc \<noteq> caKeyPath sc" using path_eq_iff [OF assms(1), of "[''ca.crt'']" "[''ca.key'']"] by (simp add: paths [OF assms(1)])
  have ca: "d_files d (caCertPath sc) = Some (CertPEM ca)" "\<exists>fmt \<in> {PKCS8_RSA, PKCS1}. d_files d (caKeyPath sc) = Some (KeyPEM fmt (PublicKey ca))"
    using assms(2) by (auto simp: ca_on_disk_def)
  have fit: "cert_fit ca (d_now d) False ca \<longleftrightarrow> d_now d + 24 * Hour \<le> NotAfter ca"
    using assms(2) by (auto simp: ca_on_disk_def usable_ca_def cert_fit_def Verify_def)
  obtain q where v: "isCertValidForCA sc (caCertPath sc) False d = (Ok (d_now d + 24 * Hour \<le> NotAfter ca), d\<lparr>caPool := q\<rparr>)" "q = caPool d \<or> q = Some [ca]"
    using valid_run [OF assms(2), of "caCertPath sc" False] ca(1) fit by auto
  have ca': "ca_on_disk sc ca (d\<lparr>caPool := q\<rparr>)" using assms(2) v(2) by (auto simp: ca_on_disk_def)
  show ?thesis
  proof (cases "d_now d + 24 * Hour \<le> NotAfter ca")
    case True
    then show ?thesis using ca v(1)
      by (auto simp: loadOrGenerateUserCert_def p bindP_def tryP_def LoadX509KeyPair_def ReadFile_def returnP_def)
  next
    case False
    then have "loadOrGenerateUserCert sc ''../ca'' d = generateAndCacheUserCert sc ''../ca'' (d\<lparr>caPool := q\<rparr>)"
      using v(1) by (simp add: loadOrGenerateUserCert_def p bindP_def)
    moreover obtain c k d' where "generateAndCacheUserCert sc ''../ca'' (d\<lparr>caPool := q\<rparr>) = (Ok (c, k), d')" "\<not> IsCA c"
        "d_files d' = (d_files d)(caCertPath sc \<mapsto> CertPEM c, caKeyPath sc \<mapsto> KeyPEM PKCS8_RSA k)"
      using generate_runs [OF ca', of "''../ca''"] assms(3) ne p by auto
    ultimately show ?thesis using False ne by auto
  qed
qed

theorem user_name_escapes_witness:
  "fst (loadOrGenerateUserCert defaultServerConfig ''../ca'' demo_disk) = Ok (demo_ca, 7)"
proof -
  have "d_now demo_disk + 24 * Hour \<le> NotAfter demo_ca" "d_io demo_disk = []" "PublicKey demo_ca = 7"
    by (simp_all add: demo_disk_def empty_disk_def demo_ca_def signed_def ca_template_def whole_seconds_def Hour_def Second_def)
  moreover have "ca_on_disk defaultServerConfig demo_ca demo_disk" using demo_store by (simp add: store_ok_def)
  ultimately show ?thesis using user_name_escapes [OF clean_default, of demo_ca demo_disk] by simp
qed

end
