(* ===== verification/Pgfox_Web.thy ===== *)
theory Pgfox_Web
  imports Pgfox_Startup "HOL-Library.Log_Nat"
begin

text \<open>
  The metrics endpoint, \<open>src/pkg/web\<close>: the collector that the registry runs for each scrape of
  \<open>/metrics\<close> (\<open>Describe\<close>, \<open>Collect\<close> of \<open>web.go\<close>) and the text writer \<open>handleMetrics\<close> of \<open>metrics.go\<close>,
  which no route reaches.

  \<open>prometheus.NewConstMetric\<close> is the parameter \<open>newConst\<close>; what the collector relies on is
  \<open>const_metric\<close>: a sample is made when the labels are as many as the descriptor has and are
  UTF-8, and refused otherwise; \<open>MustNewConstMetric\<close> panics when it is refused. The channel of the collector is the list of the
  samples sent. A value is an integer, rounded the way a conversion to \<open>float64\<close> rounds. \<open>strconv.Quote\<close> needs the table of
  printable runes, the parameter \<open>isPrint\<close>.
\<close>

section \<open>UTF-8 and quoting\<close>

definition cont_byte :: "nat \<Rightarrow> nat \<Rightarrow> byte \<Rightarrow> bool" where
  "cont_byte lo hi b \<longleftrightarrow> lo \<le> of_char b \<and> of_char b \<le> hi"

text \<open>\<open>utf8.DecodeRuneInString\<close>: the rune and its width, \<open>None\<close> for an invalid byte.\<close>

definition decodeRune :: "bytes \<Rightarrow> (nat \<times> nat) option" where
  "decodeRune bs =
     (case bs of
        [] \<Rightarrow> None
      | b # rest \<Rightarrow>
          let n = (of_char b :: nat); tail = (\<lambda>i. of_char (rest ! i) mod 64 :: nat) in
          if n < 0x80 then Some (n, 1)
          else if 0xC2 \<le> n \<and> n \<le> 0xDF then
            (if 1 \<le> length rest \<and> cont_byte 0x80 0xBF (rest ! 0) then Some (n mod 32 * 64 + tail 0, 2) else None)
          else if 0xE0 \<le> n \<and> n \<le> 0xEF then
            (if 2 \<le> length rest \<and> cont_byte (if n = 0xE0 then 0xA0 else 0x80) (if n = 0xED then 0x9F else 0xBF) (rest ! 0) \<and>
                cont_byte 0x80 0xBF (rest ! 1)
             then Some (n mod 16 * 4096 + tail 0 * 64 + tail 1, 3) else None)
          else if 0xF0 \<le> n \<and> n \<le> 0xF4 then
            (if 3 \<le> length rest \<and> cont_byte (if n = 0xF0 then 0x90 else 0x80) (if n = 0xF4 then 0x8F else 0xBF) (rest ! 0) \<and>
                cont_byte 0x80 0xBF (rest ! 1) \<and> cont_byte 0x80 0xBF (rest ! 2)
             then Some (n mod 8 * 262144 + tail 0 * 4096 + tail 1 * 64 + tail 2, 4) else None)
          else None)"

lemma decodeRune_width: "decodeRune bs = Some (r, w) \<Longrightarrow> 0 < w \<and> w \<le> length bs"
  by (auto simp: decodeRune_def Let_def split: list.splits if_splits)

function utf8_valid :: "bytes \<Rightarrow> bool" where
  "utf8_valid bs =
     (if bs = [] then True
      else case decodeRune bs of None \<Rightarrow> False | Some (r, w) \<Rightarrow> utf8_valid (drop w bs))"
  by pat_completeness auto
termination
  by (relation "measure length") (auto dest!: decodeRune_width)

declare utf8_valid.simps [simp del]

fun hex_digits :: "nat \<Rightarrow> nat \<Rightarrow> string" where
  "hex_digits 0 n = []"
| "hex_digits (Suc k) n = hex_digits k (n div 16) @ [hex_digit (n mod 16)]"

definition escapeRune :: "(nat \<Rightarrow> bool) \<Rightarrow> nat \<Rightarrow> bytes \<Rightarrow> string" where
  "escapeRune isPrint r raw =
     (if r = 0x22 \<or> r = 0x5C then CHR 0x5C # raw
      else if isPrint r then raw
      else if r = 7 then CHR 0x5C # ''a'' else if r = 8 then CHR 0x5C # ''b'' else if r = 12 then CHR 0x5C # ''f''
      else if r = 10 then CHR 0x5C # ''n'' else if r = 13 then CHR 0x5C # ''r'' else if r = 9 then CHR 0x5C # ''t''
      else if r = 11 then CHR 0x5C # ''v''
      else if r < 32 \<or> r = 0x7F then CHR 0x5C # ''x'' @ hex_digits 2 r
      else if r < 0x10000 then CHR 0x5C # ''u'' @ hex_digits 4 r
      else CHR 0x5C # ''U'' @ hex_digits 8 r)"

function quote_body :: "(nat \<Rightarrow> bool) \<Rightarrow> bytes \<Rightarrow> string" where
  "quote_body isPrint bs =
     (if bs = [] then []
      else case decodeRune bs of
        None \<Rightarrow> CHR 0x5C # ''x'' @ hex_digits 2 (of_char (hd bs)) @ quote_body isPrint (tl bs)
      | Some (r, w) \<Rightarrow> escapeRune isPrint r (take w bs) @ quote_body isPrint (drop w bs))"
  by pat_completeness auto
termination
  by (relation "measure (length \<circ> snd)") (auto dest!: decodeRune_width)

declare quote_body.simps [simp del]

text \<open>\<open>%q\<close>.\<close>

definition Quote :: "(nat \<Rightarrow> bool) \<Rightarrow> string \<Rightarrow> string" where
  "Quote isPrint s = CHR 0x22 # quote_body isPrint s @ [CHR 0x22]"

section \<open>The collector (web.go)\<close>

record Desc =
  fqName :: string
  d_help :: string
  variableLabels :: "string list"

datatype ValueType = CounterValue | GaugeValue

record Metric =
  m_desc :: Desc
  m_type :: ValueType
  m_value :: int
  m_labels :: "string list"

type_synonym const_fun = "Desc \<Rightarrow> ValueType \<Rightarrow> int \<Rightarrow> string list \<Rightarrow> goerr + Metric"

text \<open>\<open>float64(i)\<close>: the nearest number with 53 significant bits, ties to even.\<close>

definition float64 :: "int \<Rightarrow> int" where
  "float64 i =
     (let n = nat \<bar>i\<bar>; u = 2 ^ (floorlog 2 n - 53); q = n div u; r = n mod u;
          q' = (if 2 * r > u \<or> 2 * r = u \<and> odd q then q + 1 else q)
      in sgn i * int (q' * u))"

definition pool_labels :: "string list" where
  "pool_labels = [''target'', ''database'', ''user'']"

definition clientsTotal :: Desc where
  "clientsTotal = \<lparr>fqName = ''pgfox_clients_total'', d_help = ''Total number of client connections'', variableLabels = []\<rparr>"
definition clientsActive :: Desc where
  "clientsActive = \<lparr>fqName = ''pgfox_clients_active'', d_help = ''Current active client connections'', variableLabels = []\<rparr>"
definition pools_desc :: Desc where
  "pools_desc = \<lparr>fqName = ''pgfox_pools'', d_help = ''Total number of pools (target/database/user combinations)'', variableLabels = []\<rparr>"
definition queriesTotal :: Desc where
  "queriesTotal = \<lparr>fqName = ''pgfox_queries_total'', d_help = ''Total number of queries executed'', variableLabels = []\<rparr>"
definition notificationsSent :: Desc where
  "notificationsSent = \<lparr>fqName = ''pgfox_notifications_sent_total'', d_help = ''Total number of notifications sent'', variableLabels = []\<rparr>"
definition idleConnectionsClosed :: Desc where
  "idleConnectionsClosed =
     \<lparr>fqName = ''pgfox_idle_connections_closed_total'', d_help = ''Total number of idle connections closed by health checks'',
      variableLabels = []\<rparr>"
definition poolConnectionsTotal :: Desc where
  "poolConnectionsTotal =
     \<lparr>fqName = ''pgfox_pool_connections_total'', d_help = ''Total connections currently open in the pool'', variableLabels = pool_labels\<rparr>"
definition poolConnectionsActive :: Desc where
  "poolConnectionsActive =
     \<lparr>fqName = ''pgfox_pool_connections_active'', d_help = ''Connections currently checked out from the pool'', variableLabels = pool_labels\<rparr>"
definition poolConnectionsIdle :: Desc where
  "poolConnectionsIdle =
     \<lparr>fqName = ''pgfox_pool_connections_idle'', d_help = ''Connections currently idle in the pool'', variableLabels = pool_labels\<rparr>"
definition poolQueriesTotal :: Desc where
  "poolQueriesTotal =
     \<lparr>fqName = ''pgfox_pool_queries_total'', d_help = ''Total queries executed on this pool'', variableLabels = pool_labels\<rparr>"
definition poolErrorsTotal :: Desc where
  "poolErrorsTotal = \<lparr>fqName = ''pgfox_pool_errors_total'', d_help = ''Total errors on this pool'', variableLabels = pool_labels\<rparr>"

lemmas desc_defs = clientsTotal_def clientsActive_def pools_desc_def queriesTotal_def notificationsSent_def idleConnectionsClosed_def
  poolConnectionsTotal_def poolConnectionsActive_def poolConnectionsIdle_def poolQueriesTotal_def poolErrorsTotal_def pool_labels_def

definition Describe :: "Desc list" where
  "Describe = [clientsTotal, clientsActive, pools_desc, queriesTotal, notificationsSent, idleConnectionsClosed,
     poolConnectionsTotal, poolConnectionsActive, poolConnectionsIdle, poolQueriesTotal, poolErrorsTotal]"

definition MustNewConstMetric :: "const_fun \<Rightarrow> Desc \<Rightarrow> ValueType \<Rightarrow> int \<Rightarrow> string list \<Rightarrow> (Metric list, Metric) prog" where
  "MustNewConstMetric newConst desc ty v labels = (case newConst desc ty v labels of Inl e \<Rightarrow> panicP | Inr m \<Rightarrow> returnP m)"

definition send_metric :: "const_fun \<Rightarrow> Desc \<Rightarrow> ValueType \<Rightarrow> int \<Rightarrow> string list \<Rightarrow> (Metric list, unit) prog" where
  "send_metric newConst desc ty v labels =
     bindP (MustNewConstMetric newConst desc ty (float64 v) labels) (\<lambda>m. modifyP (\<lambda>ch. ch @ [m]))"

definition collect_pool :: "const_fun \<Rightarrow> Target \<Rightarrow> Pool \<Rightarrow> (Metric list, unit) prog" where
  "collect_pool newConst target pool =
     (let labels = [Name target, DbName pool, Username pool] in
      thenP (send_metric newConst poolConnectionsTotal GaugeValue (TotalConnections pool) labels)
      (thenP (send_metric newConst poolConnectionsActive GaugeValue (ActiveConnections pool) labels)
      (thenP (send_metric newConst poolConnectionsIdle GaugeValue (IdleConnections pool) labels)
      (thenP (send_metric newConst poolQueriesTotal CounterValue (int (QueriesExecuted pool)) labels)
             (send_metric newConst poolErrorsTotal CounterValue (int (ErrorCount pool)) labels)))))"

definition Collect_metrics :: "const_fun \<Rightarrow> Server \<Rightarrow> (Metric list, unit) prog" where
  "Collect_metrics newConst s =
     (let stats = globalStats s in
      thenP (send_metric newConst clientsTotal CounterValue (int (TotalClients stats)) [])
      (thenP (send_metric newConst clientsActive GaugeValue (ActiveClients stats) [])
      (thenP (send_metric newConst pools_desc GaugeValue (int (TotalPools stats)) [])
      (thenP (send_metric newConst queriesTotal CounterValue (int (TotalQueries stats)) [])
      (thenP (send_metric newConst notificationsSent CounterValue (int (NotificationsSent stats)) [])
      (thenP (send_metric newConst idleConnectionsClosed CounterValue (int (IdleConnectionsClosed stats)) [])
      (forP (Targets s) (\<lambda>t. forP (Pools (targetOf s t)) (\<lambda>(_, p). collect_pool newConst (targetOf s t) (poolOf s p))))))))))"

section \<open>The text writer (metrics.go)\<close>

abbreviation LF :: byte where "LF \<equiv> CHR 0x0A"

definition metric_head :: "string \<Rightarrow> string \<Rightarrow> string \<Rightarrow> string" where
  "metric_head name hlp ty = ''# HELP '' @ name @ '' '' @ hlp @ [LF] @ ''# TYPE '' @ name @ '' '' @ ty @ [LF]"

definition global_text :: "string \<Rightarrow> string \<Rightarrow> string \<Rightarrow> int \<Rightarrow> string" where
  "global_text name hlp ty v = metric_head name hlp ty @ name @ '' '' @ fmt_int v @ [LF, LF]"

definition target_text :: "(nat \<Rightarrow> bool) \<Rightarrow> string \<Rightarrow> string \<Rightarrow> string \<Rightarrow> int \<Rightarrow> string" where
  "target_text isPrint tname name hlp v =
     metric_head name hlp ''gauge'' @ name @ ''{target='' @ Quote isPrint tname @ ''} '' @ fmt_int v @ [LF, LF]"

definition pool_line :: "string \<Rightarrow> string \<Rightarrow> int \<Rightarrow> string" where
  "pool_line labels name v = name @ ''{'' @ labels @ ''} '' @ fmt_int v @ [LF]"

definition label_text :: "(nat \<Rightarrow> bool) \<Rightarrow> string \<Rightarrow> string \<Rightarrow> string \<Rightarrow> string" where
  "label_text isPrint tname db usr =
     ''target='' @ Quote isPrint tname @ '',database='' @ Quote isPrint db @ '',user='' @ Quote isPrint usr"

definition pool_text :: "(nat \<Rightarrow> bool) \<Rightarrow> Target \<Rightarrow> Pool \<Rightarrow> string" where
  "pool_text isPrint target pool =
     (let labels = label_text isPrint (Name target) (DbName pool) (Username pool) in
      pool_line labels ''pgfox_pool_connections_total'' (TotalConnections pool) @
      pool_line labels ''pgfox_pool_connections_active'' (ActiveConnections pool) @
      pool_line labels ''pgfox_pool_connections_idle'' (IdleConnections pool) @
      pool_line labels ''pgfox_pool_queries_total'' (int (QueriesExecuted pool)) @
      pool_line labels ''pgfox_pool_errors_total'' (int (ErrorCount pool)))"

definition listener_text :: "(nat \<Rightarrow> bool) \<Rightarrow> (string \<times> nat) list \<Rightarrow> string" where
  "listener_text isPrint listenerStats =
     (if length listenerStats > 0 then
        metric_head ''pgfox_listeners'' ''Number of clients listening on channel'' ''gauge'' @
        concat (map (\<lambda>(channel, count). ''pgfox_listeners{channel='' @ Quote isPrint channel @ ''} '' @ fmt_int (int count) @ [LF]) listenerStats) @
        [LF]
      else [])"

definition handleMetrics :: "(nat \<Rightarrow> bool) \<Rightarrow> Server \<Rightarrow> string" where
  "handleMetrics isPrint s =
     (let stats = globalStats s in
      global_text ''pgfox_clients_total'' ''Total number of client connections'' ''counter'' (int (TotalClients stats)) @
      global_text ''pgfox_clients_active'' ''Current active client connections'' ''gauge'' (ActiveClients stats) @
      global_text ''pgfox_pools'' ''Total number of pools'' ''gauge'' (int (TotalPools stats)) @
      global_text ''pgfox_queries_total'' ''Total number of queries executed'' ''counter'' (int (TotalQueries stats)) @
      global_text ''pgfox_notifications_sent_total'' ''Total number of notifications sent'' ''counter'' (int (NotificationsSent stats)) @
      global_text ''pgfox_idle_connections_closed_total'' ''Total idle connections closed'' ''counter'' (int (IdleConnectionsClosed stats)) @
      concat (map (\<lambda>t. let target = targetOf s t in
        target_text isPrint (Name target) ''pgfox_target_connections_total'' ''Total open connections on target'' (AtomicTotalOpen target) @
        target_text isPrint (Name target) ''pgfox_target_server_max_connections'' ''PostgreSQL max_connections'' (ServerMaxConns target) @
        target_text isPrint (Name target) ''pgfox_target_server_open_connections'' ''PostgreSQL open connections'' (ServerOpenConns target) @
        concat (map (\<lambda>(_, p). pool_text isPrint target (poolOf s p)) (Pools target))) (Targets s)) @
      [LF] @ listener_text isPrint (GetListenerStats s))"

section \<open>The samples of a scrape\<close>

definition metric :: "Desc \<Rightarrow> ValueType \<Rightarrow> int \<Rightarrow> string list \<Rightarrow> Metric" where
  "metric d ty v ls = \<lparr>m_desc = d, m_type = ty, m_value = v, m_labels = ls\<rparr>"

definition const_metric :: "const_fun \<Rightarrow> bool" where
  "const_metric newConst \<longleftrightarrow>
     (\<forall>d ty v ls. if length ls = length (variableLabels d) \<and> list_all utf8_valid ls then newConst d ty v ls = Inr (metric d ty v ls)
       else \<exists>e. newConst d ty v ls = Inl e)"

definition pool_samples :: "Target \<Rightarrow> Pool \<Rightarrow> Metric list" where
  "pool_samples target pool =
     (let ls = [Name target, DbName pool, Username pool] in
      [metric poolConnectionsTotal GaugeValue (float64 (TotalConnections pool)) ls,
       metric poolConnectionsActive GaugeValue (float64 (ActiveConnections pool)) ls,
       metric poolConnectionsIdle GaugeValue (float64 (IdleConnections pool)) ls,
       metric poolQueriesTotal CounterValue (float64 (int (QueriesExecuted pool))) ls,
       metric poolErrorsTotal CounterValue (float64 (int (ErrorCount pool))) ls])"

definition global_samples :: "GlobalStats \<Rightarrow> Metric list" where
  "global_samples g =
     [metric clientsTotal CounterValue (float64 (int (TotalClients g))) [],
      metric clientsActive GaugeValue (float64 (ActiveClients g)) [],
      metric pools_desc GaugeValue (float64 (int (TotalPools g))) [],
      metric queriesTotal CounterValue (float64 (int (TotalQueries g))) [],
      metric notificationsSent CounterValue (float64 (int (NotificationsSent g))) [],
      metric idleConnectionsClosed CounterValue (float64 (int (IdleConnectionsClosed g))) []]"

definition target_samples :: "Server \<Rightarrow> targetId \<Rightarrow> Metric list" where
  "target_samples s t = concat (map (\<lambda>p. pool_samples (targetOf s t) (poolOf s p)) (target_pools t s))"

definition samples :: "Server \<Rightarrow> Metric list" where
  "samples s = global_samples (globalStats s) @ concat (map (target_samples s) (Targets s))"

text \<open>The names that become labels.\<close>

definition names_utf8 :: "Server \<Rightarrow> bool" where
  "names_utf8 s \<longleftrightarrow> (\<forall>t \<in> set (Targets s). \<forall>p \<in> set (target_pools t s).
     utf8_valid (Name (targetOf s t)) \<and> utf8_valid (DbName (poolOf s p)) \<and> utf8_valid (Username (poolOf s p)))"

lemma send_metric_run:
  "const_metric f \<Longrightarrow> length ls = length (variableLabels d) \<Longrightarrow> list_all utf8_valid ls \<Longrightarrow>
     send_metric f d ty v ls ch = (Ok (), ch @ [metric d ty (float64 v) ls])"
  by (simp add: send_metric_def MustNewConstMetric_def const_metric_def prog_defs)

lemma collect_pool_run:
  assumes "const_metric f" "utf8_valid (Name x)" "utf8_valid (DbName p)" "utf8_valid (Username p)"
  shows "collect_pool f x p ch = (Ok (), ch @ pool_samples x p)"
  using assms by (simp add: collect_pool_def pool_samples_def Let_def thenP_def bindP_def send_metric_run desc_defs)

lemma forP_emits:
  "(\<And>x ch. x \<in> set xs \<Longrightarrow> body x ch = (Ok (), ch @ g x)) \<Longrightarrow> forP xs body ch = (Ok (), ch @ concat (map g xs))"
  by (induction xs arbitrary: ch) (simp_all add: prog_defs)

lemma collect_run:
  assumes "const_metric f" "names_utf8 s"
  shows "Collect_metrics f s ch = (Ok (), ch @ samples s)"
proof -
  let ?ps = "\<lambda>t. forP (Pools (targetOf s t)) (\<lambda>(_, p). collect_pool f (targetOf s t) (poolOf s p))"
  have "?ps t ch = (Ok (), ch @ target_samples s t)" if "t \<in> set (Targets s)" for t ch
  proof -
    have "(\<lambda>(_, p). collect_pool f (targetOf s t) (poolOf s p)) x ch = (Ok (), ch @ pool_samples (targetOf s t) (poolOf s (snd x)))"
      if "x \<in> set (Pools (targetOf s t))" for x ch
      using assms \<open>t \<in> set (Targets s)\<close> that by (cases x) (force simp: names_utf8_def target_pools_def intro!: collect_pool_run)
    from forP_emits [OF this] show ?thesis by (simp add: target_samples_def target_pools_def comp_def)
  qed
  from forP_emits [of "Targets s" ?ps "target_samples s", OF this] assms(1) show ?thesis
    by (simp add: Collect_metrics_def Let_def thenP_def bindP_def send_metric_run desc_defs samples_def global_samples_def)
qed

lemma sample_form: "m \<in> set (samples s) \<Longrightarrow> m_desc m \<in> set Describe \<and> length (m_labels m) = length (variableLabels (m_desc m))"
  by (auto simp: samples_def global_samples_def target_samples_def pool_samples_def Let_def metric_def Describe_def) (simp_all add: desc_defs)

text \<open>What identifies a time series.\<close>

definition series :: "Metric \<Rightarrow> string \<times> string list" where
  "series m = (fqName (m_desc m), m_labels m)"

lemma distinct_concat_map:
  "distinct xs \<Longrightarrow> (\<And>x. x \<in> set xs \<Longrightarrow> distinct (g x)) \<Longrightarrow> (\<And>x y. x \<in> set xs \<Longrightarrow> y \<in> set xs \<Longrightarrow> x \<noteq> y \<Longrightarrow> set (g x) \<inter> set (g y) = {}) \<Longrightarrow>
     distinct (concat (map g xs))"
  by (induction xs) (auto simp: disjoint_iff)

lemma pool_series:
  "distinct (map series (pool_samples x p))" "k \<in> set (map series (pool_samples x p)) \<Longrightarrow> snd k = [Name x, DbName p, Username p]"
  by (auto simp: pool_samples_def series_def metric_def Let_def desc_defs)

lemma target_series:
  assumes "pools_ok held t s"
  shows "distinct (map series (target_samples s t))"
proof -
  let ?ls = "\<lambda>p. [Name (targetOf s t), DbName (poolOf s p), Username (poolOf s p)]"
  have inj: "?ls p \<noteq> ?ls q" if "p \<in> set (target_pools t s)" "q \<in> set (target_pools t s)" "p \<noteq> q" for p q
  proof -
    have "\<exists>k. (k, x) \<in> set (Pools (targetOf s t))" if "x \<in> set (target_pools t s)" for x using that by (auto simp: target_pools_def)
    with that obtain kp kq where k: "(kp, p) \<in> set (Pools (targetOf s t))" "(kq, q) \<in> set (Pools (targetOf s t))" by blast
    then have "kp \<noteq> kq" using that(3) assms by (auto simp: pools_ok_def dest: eq_key_imp_eq_value)
    moreover have "kp = PoolKey (DbName (poolOf s p)) (Username (poolOf s p))" "kq = PoolKey (DbName (poolOf s q)) (Username (poolOf s q))"
      using k assms unfolding pools_ok_def keys_ok_def by fast+
    ultimately show ?thesis by auto
  qed
  have "distinct (concat (map (\<lambda>p. map series (pool_samples (targetOf s t) (poolOf s p))) (target_pools t s)))"
    using assms inj pool_series by (intro distinct_concat_map) (simp add: pools_ok_def, blast, metis (no_types, lifting) disjoint_iff)
  then show ?thesis by (simp add: target_samples_def map_concat comp_def)
qed

text \<open>C23: In a state of the running server whose names are UTF-8, a scrape ends with samples that the registry accepts: each has
  a descriptor the collector announced and as many labels as that needs, and no series occurs twice; among them
  are the five samples of every pool, with the pool's counts.\<close>

theorem scrape_accepted:
  assumes "const_metric newConst" "names_utf8 s" "distinct (map (\<lambda>t. Name (targetOf s t)) (Targets s))"
    and "\<And>t. t \<in> set (Targets s) \<Longrightarrow> \<exists>held. pools_ok held t s"
  shows "\<exists>ms. Collect_metrics newConst s [] = (Ok (), ms) \<and> distinct (map series ms) \<and>
    (\<forall>m \<in> set ms. m_desc m \<in> set Describe \<and> length (m_labels m) = length (variableLabels (m_desc m))) \<and>
    (\<forall>t \<in> set (Targets s). \<forall>p \<in> set (target_pools t s). set (pool_samples (targetOf s t) (poolOf s p)) \<subseteq> set ms)"
proof -
  have lab: "hd (snd k) = Name (targetOf s t) \<and> snd k \<noteq> []" if "k \<in> set (map series (target_samples s t))" for k t
    using that pool_series(2) by (fastforce simp: target_samples_def)
  have "distinct (concat (map (\<lambda>t. map series (target_samples s t)) (Targets s)))"
  proof (intro distinct_concat_map)
    show "distinct (Targets s)" using assms(3) by (simp add: distinct_map)
    show "distinct (map series (target_samples s t))" if "t \<in> set (Targets s)" for t using assms(4) [OF that] target_series by blast
    show "set (map series (target_samples s t)) \<inter> set (map series (target_samples s u)) = {}"
      if "t \<in> set (Targets s)" "u \<in> set (Targets s)" "t \<noteq> u" for t u
      using lab that assms(3) by (metis (no_types, lifting) disjoint_iff distinct_map inj_onD)
  qed
  moreover have "distinct (map series (global_samples (globalStats s)))" "\<forall>k \<in> set (map series (global_samples (globalStats s))). snd k = []"
    by (simp_all add: global_samples_def series_def metric_def desc_defs)
  moreover have "series m \<noteq> series n" if "m \<in> set (target_samples s t)" "n \<in> set (global_samples (globalStats s))" for m n t
    using lab [of "series m" t] calculation(3) that by auto
  ultimately have "distinct (map series (samples s))"
    by (auto simp: samples_def map_concat comp_def)
  moreover have "set (pool_samples (targetOf s t) (poolOf s p)) \<subseteq> set (samples s)" if "t \<in> set (Targets s)" "p \<in> set (target_pools t s)" for t p
    using that by (auto simp: samples_def target_samples_def)
  ultimately show ?thesis using collect_run [OF assms(1,2), of "[]"] sample_form by auto
qed

section \<open>A name that is not UTF-8\<close>

text \<open>A collector step returns or panics.\<close>

definition returns_or_panics :: "('s, unit) prog \<Rightarrow> bool" where
  "returns_or_panics m \<longleftrightarrow> (\<forall>s. \<exists>s'. m s = (Ok (), s') \<or> m s = (Panic, s'))"

lemma then_runs: "m s = (Ok (), s1) \<Longrightarrow> thenP m k s = k s1" "m s = (Panic, s1) \<Longrightarrow> thenP m k s = (Panic, s1)"
  by (simp_all add: thenP_def bindP_def)

lemma rop_then: "returns_or_panics m \<Longrightarrow> returns_or_panics k \<Longrightarrow> returns_or_panics (thenP m k)"
  unfolding returns_or_panics_def by (metis then_runs)

lemma rop_for: "(\<And>x. x \<in> set xs \<Longrightarrow> returns_or_panics (body x)) \<Longrightarrow> returns_or_panics (forP xs body)"
  by (induction xs) (simp add: returns_or_panics_def returnP_def, simp add: rop_then)

lemma rop_send: "returns_or_panics (send_metric f d ty v ls)"
  by (auto simp: returns_or_panics_def send_metric_def MustNewConstMetric_def prog_defs split: sum.split)

lemma then_panics: "returns_or_panics m \<Longrightarrow> (\<And>s. fst (k s) = Panic) \<Longrightarrow> fst (thenP m k s) = Panic"
  unfolding returns_or_panics_def by (metis then_runs fst_conv)

lemma panics_then: "fst (m s) = Panic \<Longrightarrow> fst (thenP m k s) = Panic"
  by (cases "m s") (simp add: thenP_def bindP_def)

lemma for_panics:
  assumes "\<And>x. x \<in> set xs \<Longrightarrow> returns_or_panics (body x)" "x \<in> set xs" "\<And>s. fst (body x s) = Panic"
  shows "fst (forP xs body s) = Panic"
  using assms(1,2)
proof (induction xs arbitrary: s)
  case (Cons y ys)
  then show ?case using assms(3) by (cases "x = y") (simp add: panics_then, auto intro!: then_panics)
qed simp

lemma rop_pool: "returns_or_panics (collect_pool f x p)"
  unfolding collect_pool_def Let_def by (intro rop_then rop_send)

lemma bad_label: "const_metric f \<Longrightarrow> l \<in> set ls \<Longrightarrow> \<not> utf8_valid l \<Longrightarrow> fst (send_metric f d ty v ls ch) = Panic"
  unfolding const_metric_def send_metric_def MustNewConstMetric_def
  by (auto simp: prog_defs list_all_iff split: sum.split if_splits) (metis Inl_Inr_False)

lemma collect_pool_panics:
  assumes "const_metric f" "\<not> utf8_valid (Username p)"
  shows "fst (collect_pool f x p ch) = Panic"
  using bad_label [OF assms(1) _ assms(2), of "[Name x, DbName p, Username p]" poolConnectionsTotal GaugeValue "TotalConnections p" ch]
  by (simp add: collect_pool_def Let_def panics_then)

lemma collect_panics:
  assumes "const_metric f" "t \<in> set (Targets s)" "p \<in> set (target_pools t s)" "\<not> utf8_valid (Username (poolOf s p))"
  shows "fst (Collect_metrics f s ch) = Panic"
proof -
  obtain k where k: "(k, p) \<in> set (Pools (targetOf s t))" using assms(3) by (auto simp: target_pools_def)
  have "fst (forP (Pools (targetOf s t)) (\<lambda>(_, p). collect_pool f (targetOf s t) (poolOf s p)) ch) = Panic" for ch
    using k assms(1,4) by (intro for_panics [of _ _ "(k, p)"]) (auto intro: rop_pool collect_pool_panics)
  then have "fst (forP (Targets s) (\<lambda>t. forP (Pools (targetOf s t)) (\<lambda>(_, p). collect_pool f (targetOf s t) (poolOf s p))) ch) = Panic" for ch
    using assms(2) by (intro for_panics [of _ _ t]) (auto intro!: rop_for rop_pool)
  then show ?thesis
    unfolding Collect_metrics_def Let_def by (intro then_panics rop_send)
qed

text \<open>The pool of a login stays, whatever becomes of the login.\<close>

definition pool_kept :: "targetId \<Rightarrow> poolId \<Rightarrow> string \<Rightarrow> Server \<Rightarrow> bool" where
  "pool_kept t p usr s \<longleftrightarrow> t \<in> set (Targets s) \<and> p \<in> set (target_pools t s) \<and> Username (poolOf s p) = usr"

lemma keeps_pool_leaf [keeps_intros]:
  "keeps (pool_kept t p usr) (on_client c m)" "keeps (pool_kept t p usr) (on_backend b m')"
  "keeps (pool_kept t p usr) (modifyP (\<lambda>s. s\<lparr>nextCancelPID := w s\<rparr>))" "keeps (pool_kept t p usr) (modifyP (register_cancel c pid secret))"
  "keeps (pool_kept t p usr) (modifyP (upd_client c f))"
  by (auto simp: keeps_def pool_kept_def target_pools_def on_client_def on_backend_def zoomP_def modifyP_def register_cancel_def split: prod.split)

lemma keeps_pool_login:
  "keeps (pool_kept t p usr) (getSCRAMVerifier x u)" "keeps (pool_kept t p usr) (send_error c a b d)" "keeps (pool_kept t p usr) (admit rnd c u x)"
  unfolding getSCRAMVerifier_def fetchSCRAMVerifier_def send_error_def client_send_def admit_def sendTargetParameterStatuses_def Let_def
  by (intro keeps_intros)+

lemma getPool_new:
  assumes "find_pool s db usr (Targets s) = None" "select_target s db (Targets s) = Some t" "0 \<le> MaxConnections (targetOf s t)"
  shows "\<exists>s1. getPool db usr s = (Ok (Some (nextPool s)), s1) \<and> pool_kept t (nextPool s) usr s1"
proof -
  have t: "t \<in> set (Targets s)" "LookupPool (targetOf s t) db usr = None"
    using select_target_Some [OF assms(2)] find_pool_None [OF assms(1)] by auto
  then have "PoolKey db usr \<notin> fst ` set (Pools (targetOf s t))" by (simp add: LookupPool_def map_of_eq_None_iff)
  with t assms show ?thesis
    by (simp add: getPool_def Let_def pool_kept_def target_pools_def new_pool_def alist_update_fresh)
qed

text \<open>A login with a user name that is not UTF-8, whatever becomes of it, leaves a pool of that name behind, and from then on
  the collector panics: nothing is sent after the pool's first sample.\<close>

theorem bad_user_name_stops_metrics:
  assumes "const_metric newConst" "\<not> utf8_valid usr" "authenticateClientWithBackend rnd c usr db s = (r, s')"
    and "find_pool s db usr (Targets s) = None" "select_target s db (Targets s) = Some t" "0 \<le> MaxConnections (targetOf s t)"
  shows "fst (Collect_metrics newConst s' []) = Panic"
proof -
  let ?I = "pool_kept t (nextPool s) usr"
  obtain s1 where s1: "getPool db usr s = (Ok (Some (nextPool s)), s1)" "?I s1" using getPool_new [OF assms(4-6)] by blast
  have "keeps ?I (tryP (getSCRAMVerifier x usr) (\<lambda>_. send_error c ''FATAL'' ''28P01'' ''authentication failed'')
      (\<lambda>verifier. tryP (on_client c (handleClientSCRAM (rnd_nonce rnd) verifier))
        (\<lambda>_. send_error c ''FATAL'' ''28P01'' ''password authentication failed'') (\<lambda>_. admit rnd c usr x)))" for x
    by (intro keeps_intros keeps_pool_login)
  then have "?I (snd (authenticateClientWithBackend rnd c usr db s))"
    using s1 keeps_pool_login(2) [of t "nextPool s" usr c "''FATAL''" "''28000''" "''access denied''"]
    by (simp add: authenticateClientWithBackend_def bindP_def getP_def keeps_def)
  then show ?thesis using assms(1-3) collect_panics [of newConst t s' "nextPool s"] by (simp add: pool_kept_def)
qed

definition demo_const :: const_fun where
  "demo_const d ty v ls =
     (if length ls = length (variableLabels d) \<and> list_all utf8_valid ls then Inr (metric d ty v ls) else Inl (Errorf ''bad label''))"

lemma demo_const: "const_metric demo_const"
  by (auto simp: const_metric_def demo_const_def)

theorem bad_user_name_stops_metrics_witness:
  "fst (Collect_metrics demo_const (snd (authenticateClientWithBackend demo_random 5 [CHR 0xFF] ''app'' (demo_login []))) []) = Panic"
proof -
  have bad: "\<not> utf8_valid [CHR 0xFF]" by (simp add: utf8_valid.simps decodeRune_def Let_def)
  have "find_pool (demo_login []) ''app'' [CHR 0xFF] (Targets (demo_login [])) = None"
      "select_target (demo_login []) ''app'' (Targets (demo_login [])) = Some 0" "0 \<le> MaxConnections (targetOf (demo_login []) 0)"
    by (simp_all add: demo_login_def demo_server_def demo_target_def LookupPool_def targetServesDatabase_def Let_def)
  from bad_user_name_stops_metrics [OF demo_const bad surjective_pairing this] show ?thesis by simp
qed

lemma utf8_ascii: "list_all (\<lambda>c. of_char c < (128 :: nat)) bs \<Longrightarrow> utf8_valid bs"
proof (induction bs)
  case (Cons b bs)
  then have "decodeRune (b # bs) = Some (of_char b, 1)" by (simp add: decodeRune_def)
  with Cons show ?case by (simp add: utf8_valid.simps [of "b # bs"])
qed (simp add: utf8_valid.simps)

lemma globalStats_upd [simp]:
  "globalStats (upd_target t f s) = globalStats s" "globalStats (upd_pool p g s) = globalStats s" "globalStats (upd_backend b h s) = globalStats s"
  "globalStats (upd_client c k s) = globalStats s" "globalStats (upd_stats j s) = j (globalStats s)"
  by (simp_all add: upd_target_def upd_pool_def upd_backend_def upd_client_def upd_stats_def)

lemma demo_pool_state:
  "Targets demo_pool = [0]" "names_utf8 demo_pool" "globalStats demo_pool = (globalStats demo_server)\<lparr>TotalPools := 1\<rparr>"
  "connCount (poolOf demo_pool 0) = 0" "QueriesExecuted (poolOf demo_pool 0) = 0" "ErrorCount (poolOf demo_pool 0) = 0"
proof -
  have o: "Name (targetOf demo_opened 0) = ''primary''" "globalStats demo_opened = globalStats demo_server"
    unfolding demo_opened_def by (simp_all add: demo_eval split: sum.split)
  have 1: "Targets demo_pool = [0]" "DbName (poolOf demo_pool 0) = ''app''" "Username (poolOf demo_pool 0) = ''bob''"
    "Name (targetOf demo_pool 0) = ''primary''"
    unfolding demo_pool_def
    by (simp_all add: getPool_def demo_opened o LookupPool_def targetServesDatabase_def new_pool_def poolRegisteredCap_def Let_def)
  show "Targets demo_pool = [0]" by (fact 1)
  show "names_utf8 demo_pool" using 1 demo_pool(11) by (simp add: names_utf8_def utf8_ascii)
  show "globalStats demo_pool = (globalStats demo_server)\<lparr>TotalPools := 1\<rparr>"
  "connCount (poolOf demo_pool 0) = 0" "QueriesExecuted (poolOf demo_pool 0) = 0" "ErrorCount (poolOf demo_pool 0) = 0"
    unfolding demo_pool_def
    by (simp_all add: getPool_def demo_opened o LookupPool_def targetServesDatabase_def new_pool_def poolRegisteredCap_def Let_def
        upd_stats_def demo_server_def)
qed

theorem scrape_accepted_witness:
  "\<exists>ms. Collect_metrics demo_const demo_pool [] = (Ok (), ms) \<and> distinct (map series ms) \<and>
    set (pool_samples (targetOf demo_pool 0) (poolOf demo_pool 0)) \<subseteq> set ms"
  using scrape_accepted [OF demo_const demo_pool_state(2)] demo_pool_state(1) target_run_ok [OF demo_runs(2)] demo_pool(11) by fastforce

section \<open>The text has the samples of the collector\<close>

definition lines_text :: "string list \<Rightarrow> string" where
  "lines_text ls = concat (map (\<lambda>l. l @ [LF]) ls)"

lemma lines_text_simps [simp]: "lines_text [] = []" "lines_text (l # ls) = l @ LF # lines_text ls" "lines_text (ls @ ks) = lines_text ls @ lines_text ks"
  by (simp_all add: lines_text_def)

lemma split_lines: "list_all (\<lambda>l. LF \<notin> set l) ls \<Longrightarrow> str_split LF (lines_text ls) = ls @ [[]]"
proof (induction ls)
  case (Cons l ls)
  have "str_split LF (l @ LF # r) = l # str_split LF r" if "LF \<notin> set l" for l r using that by (induction l) auto
  then show ?case using Cons by simp
qed simp

lemma lines_concat: "lines_text (concat (map g xs)) = concat (map (\<lambda>x. lines_text (g x)) xs)"
  by (induction xs) simp_all

lemma fmt_int_LF: "LF \<notin> set (fmt_int i)"
  using fmt_nat_digits [of LF "nat i"] fmt_nat_digits [of LF "nat (- i)"] by (auto simp: fmt_int_def)

lemma hex_LF: "n < 16 \<Longrightarrow> hex_digit n \<noteq> LF" "LF \<notin> set (hex_digits k n)"
proof -
  show 1: "hex_digit n \<noteq> LF" if "n < 16" for n
  proof -
    have "hex_digit n \<in> set ''0123456789abcdef''" using that nth_mem [of n "''0123456789abcdef''"] by (simp only: hex_digit_def) simp
    then show ?thesis by auto
  qed
  show "LF \<notin> set (hex_digits k n)" using 1 by (induction k arbitrary: n) (auto simp: eq_commute [of LF])
qed

lemma cont_LF: "128 \<le> lo \<Longrightarrow> cont_byte lo hi b \<Longrightarrow> b \<noteq> LF"
  by (auto simp: cont_byte_def)

lemma decodeRune_raw:
  assumes "decodeRune bs = Some (r, w)" "LF \<in> set (take w bs)"
  shows "r = 10"
proof (cases bs)
  case (Cons b rest)
  note d = assms [unfolded Cons decodeRune_def list.case Let_def]
  show ?thesis
  proof (cases "(of_char b :: nat) < 128")
    case True
    then show ?thesis using d by (auto split: if_splits)
  next
    case False
    then have b: "b \<noteq> LF" by auto
    have "LF \<notin> set (take (w - 1) rest)"
    proof (cases rest rule: remdups_adj.cases)
      case (3 x y more)
      then show ?thesis using False d(1) by (cases more) (auto split: if_splits dest!: cont_LF [rotated])
    qed (use False d(1) in \<open>auto split: if_splits dest!: cont_LF [rotated]\<close>)
    then show ?thesis using d(2) b by (cases w) auto
  qed
qed (use assms in \<open>simp add: decodeRune_def\<close>)

lemma escape_LF: "decodeRune bs = Some (r, w) \<Longrightarrow> \<not> isPrint 10 \<Longrightarrow> LF \<notin> set (escapeRune isPrint r (take w bs))"
  using decodeRune_raw [of bs r w] hex_LF(2) by (auto simp: escapeRune_def)

lemma quote_LF: "\<not> isPrint 10 \<Longrightarrow> LF \<notin> set (quote_body isPrint bs)"
proof (induction isPrint bs rule: quote_body.induct)
  case (1 isPrint bs)
  then show ?case
    using hex_LF(2) escape_LF by (auto simp: quote_body.simps [of isPrint bs] split: option.split)
qed

definition metric_name :: "string \<Rightarrow> string" where
  "metric_name l = takeWhile (\<lambda>c. c \<noteq> CHR '' '' \<and> c \<noteq> CHR ''{'') l"

definition described :: "string \<Rightarrow> bool" where
  "described l \<longleftrightarrow> metric_name l \<in> fqName ` set Describe"

text \<open>A sample as a line of text.\<close>

definition render :: "(nat \<Rightarrow> bool) \<Rightarrow> Metric \<Rightarrow> string" where
  "render isPrint m =
     fqName (m_desc m) @ (case m_labels m of [a, b, c] \<Rightarrow> ''{'' @ label_text isPrint a b c @ ''}'' | _ \<Rightarrow> []) @ '' '' @ fmt_int (m_value m)"

text \<open>The lines of the parts.\<close>

definition head_lines :: "string \<Rightarrow> string \<Rightarrow> string \<Rightarrow> string list" where
  "head_lines name hlp ty = [''# HELP '' @ name @ '' '' @ hlp, ''# TYPE '' @ name @ '' '' @ ty]"

definition global_lines :: "string \<Rightarrow> string \<Rightarrow> string \<Rightarrow> int \<Rightarrow> string list" where
  "global_lines name hlp ty v = head_lines name hlp ty @ [name @ '' '' @ fmt_int v, []]"

definition target_lines :: "(nat \<Rightarrow> bool) \<Rightarrow> string \<Rightarrow> string \<Rightarrow> string \<Rightarrow> int \<Rightarrow> string list" where
  "target_lines isPrint tname name hlp v =
     head_lines name hlp ''gauge'' @ [name @ ''{target='' @ Quote isPrint tname @ ''} '' @ fmt_int v, []]"

definition pool_lines :: "(nat \<Rightarrow> bool) \<Rightarrow> Target \<Rightarrow> Pool \<Rightarrow> string list" where
  "pool_lines isPrint target pool =
     (let labels = label_text isPrint (Name target) (DbName pool) (Username pool);
          line = (\<lambda>name v. name @ ''{'' @ labels @ ''} '' @ fmt_int v) in
      [line ''pgfox_pool_connections_total'' (TotalConnections pool), line ''pgfox_pool_connections_active'' (ActiveConnections pool),
       line ''pgfox_pool_connections_idle'' (IdleConnections pool), line ''pgfox_pool_queries_total'' (int (QueriesExecuted pool)),
       line ''pgfox_pool_errors_total'' (int (ErrorCount pool))])"

definition listener_lines :: "(nat \<Rightarrow> bool) \<Rightarrow> (string \<times> nat) list \<Rightarrow> string list" where
  "listener_lines isPrint ls =
     (if ls = [] then [] else head_lines ''pgfox_listeners'' ''Number of clients listening on channel'' ''gauge'' @
        map (\<lambda>(channel, count). ''pgfox_listeners{channel='' @ Quote isPrint channel @ ''} '' @ fmt_int (int count)) ls @ [[]])"

lemma part_lines:
  "global_text name hlp ty v = lines_text (global_lines name hlp ty v)"
  "target_text isPrint tname name hlp v = lines_text (target_lines isPrint tname name hlp v)"
  "pool_text isPrint x p = lines_text (pool_lines isPrint x p)"
  by (simp_all add: global_text_def global_lines_def target_text_def target_lines_def metric_head_def head_lines_def pool_text_def pool_line_def
      pool_lines_def Let_def)

lemma listener_text_lines: "listener_text isPrint ls = lines_text (listener_lines isPrint ls)"
  by (simp add: listener_text_def listener_lines_def metric_head_def head_lines_def lines_text_def comp_def case_prod_unfold)

definition stats_lines :: "GlobalStats \<Rightarrow> string list" where
  "stats_lines g =
     global_lines ''pgfox_clients_total'' ''Total number of client connections'' ''counter'' (int (TotalClients g)) @
     global_lines ''pgfox_clients_active'' ''Current active client connections'' ''gauge'' (ActiveClients g) @
     global_lines ''pgfox_pools'' ''Total number of pools'' ''gauge'' (int (TotalPools g)) @
     global_lines ''pgfox_queries_total'' ''Total number of queries executed'' ''counter'' (int (TotalQueries g)) @
     global_lines ''pgfox_notifications_sent_total'' ''Total number of notifications sent'' ''counter'' (int (NotificationsSent g)) @
     global_lines ''pgfox_idle_connections_closed_total'' ''Total idle connections closed'' ''counter'' (int (IdleConnectionsClosed g))"

definition own_lines :: "(nat \<Rightarrow> bool) \<Rightarrow> Target \<Rightarrow> string list" where
  "own_lines isPrint x =
     target_lines isPrint (Name x) ''pgfox_target_connections_total'' ''Total open connections on target'' (AtomicTotalOpen x) @
     target_lines isPrint (Name x) ''pgfox_target_server_max_connections'' ''PostgreSQL max_connections'' (ServerMaxConns x) @
     target_lines isPrint (Name x) ''pgfox_target_server_open_connections'' ''PostgreSQL open connections'' (ServerOpenConns x)"

definition metrics_lines :: "(nat \<Rightarrow> bool) \<Rightarrow> Server \<Rightarrow> string list" where
  "metrics_lines isPrint s =
     stats_lines (globalStats s) @
     concat (map (\<lambda>t. own_lines isPrint (targetOf s t) @
       concat (map (\<lambda>p. pool_lines isPrint (targetOf s t) (poolOf s p)) (target_pools t s))) (Targets s)) @
     [[]] @ listener_lines isPrint (GetListenerStats s)"

lemma metrics_text: "handleMetrics isPrint s = lines_text (metrics_lines isPrint s)"
  by (simp add: handleMetrics_def metrics_lines_def stats_lines_def own_lines_def Let_def part_lines listener_text_lines lines_concat
      target_pools_def comp_def case_prod_unfold)

text \<open>No part has a line feed inside a line.\<close>

definition one_line :: "string list \<Rightarrow> bool" where
  "one_line ls \<longleftrightarrow> list_all (\<lambda>l. LF \<notin> set l) ls"

lemma one_line_simps [simp]: "one_line []" "one_line (l # ls) \<longleftrightarrow> LF \<notin> set l \<and> one_line ls" "one_line (ls @ ks) \<longleftrightarrow> one_line ls \<and> one_line ks"
    "one_line (concat xss) \<longleftrightarrow> (\<forall>xs \<in> set xss. one_line xs)"
  by (auto simp: one_line_def list_all_iff)

lemma parts_one_line:
  assumes "\<not> isPrint 10"
  shows "one_line (stats_lines g)" "one_line (own_lines isPrint x)" "one_line (pool_lines isPrint x p)" "one_line (listener_lines isPrint ls)"
proof -
  have q: "LF \<notin> set (Quote isPrint n)" for n using quote_LF [of isPrint n] assms by (simp add: Quote_def)
  note parts = global_lines_def target_lines_def head_lines_def fmt_int_LF q
  show "one_line (stats_lines g)" by (simp add: stats_lines_def parts)
  show "one_line (own_lines isPrint x)" by (simp add: own_lines_def parts)
  show "one_line (pool_lines isPrint x p)" by (simp add: pool_lines_def label_text_def Let_def fmt_int_LF q)
  have "one_line (map (\<lambda>(channel, count). ''pgfox_listeners{channel='' @ Quote isPrint channel @ ''} '' @ fmt_int (int count)) ls)"
    by (induction ls) (auto simp: fmt_int_LF q)
  then show "one_line (listener_lines isPrint ls)" by (simp add: listener_lines_def parts)
qed

lemma metrics_split: "\<not> isPrint 10 \<Longrightarrow> str_split LF (handleMetrics isPrint s) = metrics_lines isPrint s @ [[]]"
  unfolding metrics_text using parts_one_line [of isPrint] by (intro split_lines) (auto simp: metrics_lines_def simp flip: one_line_def)

text \<open>Values up to \<open>2^53\<close> are exact.\<close>

lemma float64_exact: "\<bar>i\<bar> < 2 ^ 53 \<Longrightarrow> float64 i = i"
proof -
  assume i: "\<bar>i\<bar> < 2 ^ 53"
  then have "floorlog 2 (nat \<bar>i\<bar>) \<le> 53" by (intro floorlog_leI) (simp_all add: nat_less_iff)
  then show ?thesis by (simp add: float64_def Let_def sgn_mult_abs)
qed

definition counts_exact :: "Server \<Rightarrow> bool" where
  "counts_exact s \<longleftrightarrow>
     (let g = globalStats s; small = (\<lambda>i :: int. \<bar>i\<bar> < 2 ^ 53) in
      list_all small [int (TotalClients g), ActiveClients g, int (TotalPools g), int (TotalQueries g), int (NotificationsSent g),
        int (IdleConnectionsClosed g)] \<and>
      (\<forall>t \<in> set (Targets s). \<forall>p \<in> set (target_pools t s). let x = poolOf s p in
        list_all small [TotalConnections x, ActiveConnections x, IdleConnections x, int (QueriesExecuted x), int (ErrorCount x)]))"

lemma described_iff:
  "described l \<longleftrightarrow> metric_name l \<in> {''pgfox_clients_total'', ''pgfox_clients_active'', ''pgfox_pools'', ''pgfox_queries_total'',
     ''pgfox_notifications_sent_total'', ''pgfox_idle_connections_closed_total'', ''pgfox_pool_connections_total'',
     ''pgfox_pool_connections_active'', ''pgfox_pool_connections_idle'', ''pgfox_pool_queries_total'', ''pgfox_pool_errors_total''}"
  by (simp add: described_def Describe_def desc_defs)

lemma described_lines:
  "filter described (stats_lines g) =
     [''pgfox_clients_total '' @ fmt_int (int (TotalClients g)), ''pgfox_clients_active '' @ fmt_int (ActiveClients g),
      ''pgfox_pools '' @ fmt_int (int (TotalPools g)), ''pgfox_queries_total '' @ fmt_int (int (TotalQueries g)),
      ''pgfox_notifications_sent_total '' @ fmt_int (int (NotificationsSent g)),
      ''pgfox_idle_connections_closed_total '' @ fmt_int (int (IdleConnectionsClosed g))]"
  "filter described (own_lines isPrint x) = []" "filter described (pool_lines isPrint x p) = pool_lines isPrint x p"
  "filter described (listener_lines isPrint ls) = []" "\<not> described []"
proof -
  note eval = global_lines_def target_lines_def head_lines_def described_iff metric_name_def
  show "filter described (stats_lines g) =
     [''pgfox_clients_total '' @ fmt_int (int (TotalClients g)), ''pgfox_clients_active '' @ fmt_int (ActiveClients g),
      ''pgfox_pools '' @ fmt_int (int (TotalPools g)), ''pgfox_queries_total '' @ fmt_int (int (TotalQueries g)),
      ''pgfox_notifications_sent_total '' @ fmt_int (int (NotificationsSent g)),
      ''pgfox_idle_connections_closed_total '' @ fmt_int (int (IdleConnectionsClosed g))]"
    by (simp add: stats_lines_def eval)
  show "filter described (own_lines isPrint x) = []" by (simp add: own_lines_def eval)
  show "filter described (pool_lines isPrint x p) = pool_lines isPrint x p" by (simp add: pool_lines_def Let_def eval)
  show "filter described (listener_lines isPrint ls) = []" by (auto simp: listener_lines_def eval filter_empty_conv)
  show "\<not> described []" by (simp add: eval)
qed

lemma render_stats:
  assumes "counts_exact s"
  shows "map (render isPrint) (global_samples (globalStats s)) = filter described (stats_lines (globalStats s))"
  using assms by (simp add: described_lines(1) counts_exact_def Let_def global_samples_def render_def metric_def desc_defs float64_exact)

lemma render_pool:
  assumes "counts_exact s" "t \<in> set (Targets s)" "p \<in> set (target_pools t s)"
  shows "map (render isPrint) (pool_samples x (poolOf s p)) = pool_lines isPrint x (poolOf s p)"
proof -
  have "list_all (\<lambda>i. \<bar>i\<bar> < 2 ^ 53) [TotalConnections (poolOf s p), ActiveConnections (poolOf s p), IdleConnections (poolOf s p),
      int (QueriesExecuted (poolOf s p)), int (ErrorCount (poolOf s p))]"
    using assms by (auto simp: counts_exact_def Let_def)
  then show ?thesis by (simp add: pool_samples_def pool_lines_def render_def metric_def desc_defs float64_exact Let_def)
qed

text \<open>The text writer and the collector agree: taken line by line, the text has for the metrics that the collector describes the
  collector's samples, in the same order with the same labels and values, as long as the counts are exact as
  floating-point numbers.\<close>

theorem metrics_agree:
  assumes "const_metric newConst" "names_utf8 s" "counts_exact s" "\<not> isPrint 10"
  shows "\<exists>ms. Collect_metrics newConst s [] = (Ok (), ms) \<and>
    filter described (str_split LF (handleMetrics isPrint s)) = map (render isPrint) ms"
proof -
  have "filter described (own_lines isPrint (targetOf s t) @ concat (map (\<lambda>p. pool_lines isPrint (targetOf s t) (poolOf s p)) (target_pools t s)))
      = map (render isPrint) (target_samples s t)" if "t \<in> set (Targets s)" for t
    using render_pool [OF assms(3) that] by (simp add: described_lines filter_concat target_samples_def map_concat comp_def cong: map_cong)
  then have "filter described (metrics_lines isPrint s) = map (render isPrint) (samples s)"
    by (simp add: metrics_lines_def samples_def described_lines(4,5) render_stats [OF assms(3)] filter_concat map_concat comp_def cong: map_cong)
  then show ?thesis
    using collect_run [OF assms(1,2), of "[]"] by (simp add: metrics_split [of isPrint, OF assms(4)] described_lines(5))
qed

theorem metrics_agree_witness:
  "\<exists>ms. Collect_metrics demo_const demo_pool [] = (Ok (), ms) \<and>
    filter described (str_split LF (handleMetrics (\<lambda>r. 32 \<le> r) demo_pool)) = map (render (\<lambda>r. 32 \<le> r)) ms"
proof -
  have "counts_exact demo_pool"
    using demo_pool_state demo_pool(4,11)
    by (simp add: counts_exact_def Let_def TotalConnections_def ActiveConnections_def IdleConnections_def demo_server_def)
  then show ?thesis by (intro metrics_agree demo_const demo_pool_state(2)) simp_all
qed

end
