(* ===== verification/Pgfox_Server.thy ===== *)
theory Pgfox_Server
  imports Pgfox_Startup Pgfox_Certs
begin

text \<open>
  The start of the server, \<open>NewServer\<close> and \<open>Start\<close> of \<open>server.go\<close> with \<open>Target.run\<close> of \<open>target.go\<close> up to its
  select loop: the bootstrap certificates, one target after the other with its certificate and its
  privileged connection, then the accept loop.

  The state is the server with the disk of \<open>Pgfox_Certs\<close>. Objects that are not yet allocated and the outside
  world come from the argument \<open>fresh\<close> of \<open>NewServer\<close>, \<open>listen\<close> is the outcome of \<open>net.Listen\<close>. Which case of the select in
  \<open>Start\<close> is taken is \<open>wakes\<close>; a target that never becomes ready leaves the timer and the context.
  The accept loop gets a list of what \<open>Accept\<close> returns, with what the other goroutines do meanwhile; at its end it waits.
\<close>

section \<open>NewServer\<close>

definition no_stats :: GlobalStats where
  "no_stats = \<lparr>TotalClients = 0, ActiveClients = 0, TotalPools = 0, TotalQueries = 0, NotificationsSent = 0, IdleConnectionsClosed = 0\<rparr>"

definition NewServer :: "(string \<Rightarrow> goerr option) \<Rightarrow> Config \<Rightarrow> Server \<Rightarrow> goerr + Server" where
  "NewServer listen config fresh =
     (let addr = ListenAddr (cfgServer config); ts = cfgTargets config in
      case listen addr of
        Some e \<Rightarrow> Inl (Wrapf (''failed to listen on '' @ addr) e)
      | None \<Rightarrow> Inr (fresh\<lparr>sv_config := cfgServer config, Targets := [0..<length ts],
          targetOf := (\<lambda>t. if t < length ts then ts ! t else targetOf fresh t),
          Clients := [], Listeners := [], cancelKeys := [], nextCancelPID := 0, globalStats := no_stats, shuttingDown := False\<rparr>))"

section \<open>Start\<close>

definition onDisk :: "(disk, 'a) prog \<Rightarrow> (Server \<times> disk, 'a) prog" where
  "onDisk m = zoomP snd (\<lambda>d (s, _). (s, d)) m"

definition onServer :: "(Server, 'a) prog \<Rightarrow> (Server \<times> disk, 'a) prog" where
  "onServer m = zoomP fst (\<lambda>s (_, d). (s, d)) m"

datatype readyWake = ReadySignal | ConnectTimer | ServerDone

text \<open>The certificate of the role, loaded first by \<open>openPrivilegedConn\<close>.\<close>

definition role_cert :: "(Server \<times> disk, goerr option) prog" where
  "role_cert =
     bindP (getP (\<lambda>(s, _). sv_config s)) (\<lambda>sc.
     tryP (onDisk (loadOrGenerateUserCert sc (PgFoxRole sc))) (\<lambda>e. returnP (Some e)) (\<lambda>_. returnP None))"

text \<open>\<open>Target.run\<close> until its loop: without a connection it returns; \<open>time.NewTicker\<close> panics unless the interval is
  positive.\<close>

definition run_boot :: "targetId \<Rightarrow> (Server \<times> disk, unit) prog" where
  "run_boot t =
     bindP role_cert (\<lambda>cert.
     tryP (onServer (openPrivilegedConn cert t)) (\<lambda>_. returnP ()) (\<lambda>_.
     bindP (getP (\<lambda>(s, _). StatsInterval (sv_config s))) (\<lambda>interval.
     if interval \<le> 0 then panicP else returnP ())))"

text \<open>The context of a target is made from that of the server, so it is cancelled when the server is shutting down.\<close>

definition new_context :: "targetId \<Rightarrow> Server \<Rightarrow> Server" where
  "new_context t s = upd_target t (\<lambda>x. x\<lparr>Cancelled := shuttingDown s\<rparr>) s"

definition boot_target :: "(targetId \<Rightarrow> readyWake) \<Rightarrow> targetId \<Rightarrow> (Server \<times> disk, unit) prog" where
  "boot_target wakes t x =
     (case run_boot t (new_context t (fst x), snd x) of
        (Panic, y) \<Rightarrow> (Panic, y)
      | (_, y) \<Rightarrow>
          if Ready (targetOf (fst y) t) \<and> wakes t = ReadySignal then (Ok (), y)
          else if wakes t = ServerDone then (Err (Errorf ''server shutting down during target init''), y)
          else (Err (Errorf (''timed out waiting for target '' @ Name (targetOf (fst y) t) @ '' to become ready'')), y))"

definition start_boot :: "(string \<Rightarrow> bytes option) \<Rightarrow> (targetId \<Rightarrow> readyWake) \<Rightarrow> (Server \<times> disk, unit) prog" where
  "start_boot parseIP wakes =
     bindP (getP fst) (\<lambda>s.
     wrapP ''failed to ensure bootstrap certificates''
       (onDisk (ensureBootstrapCerts parseIP (sv_config s) (map (targetOf s) (Targets s)))) (\<lambda>_.
     forP (Targets s) (boot_target wakes)))"

datatype acceptEvent = Accepted | AcceptTimeout | AcceptError goerr

text \<open>The handler of an accepted connection runs on its own (\<open>handleClient\<close>).\<close>

fun accept_loop :: "(acceptEvent \<times> (Server \<Rightarrow> Server)) list \<Rightarrow> (Server, unit) prog" where
  "accept_loop [] = bindP (getP shuttingDown) (\<lambda>down. if down then shutdown else blockP)"
| "accept_loop ((ev, others) # evs) =
     bindP (getP shuttingDown) (\<lambda>down.
     if down then shutdown
     else thenP (modifyP others)
       (case ev of
          Accepted \<Rightarrow> thenP (modifyP (upd_stats (\<lambda>g. g\<lparr>TotalClients := TotalClients g + 1, ActiveClients := ActiveClients g + 1\<rparr>)))
                         (accept_loop evs)
        | AcceptTimeout \<Rightarrow> accept_loop evs
        | AcceptError e \<Rightarrow> bindP (getP shuttingDown) (\<lambda>down. if down then shutdown else accept_loop evs)))"

definition Start :: "(string \<Rightarrow> bytes option) \<Rightarrow> (targetId \<Rightarrow> readyWake) \<Rightarrow> (acceptEvent \<times> (Server \<Rightarrow> Server)) list \<Rightarrow> (Server \<times> disk, unit) prog" where
  "Start parseIP wakes evs = thenP (start_boot parseIP wakes) (onServer (accept_loop evs))"

section \<open>What booting one target leaves alone\<close>

definition spared :: "targetId \<Rightarrow> Server \<Rightarrow> Server \<Rightarrow> bool" where
  "spared t s0 s \<longleftrightarrow> agrees t s0 s \<and> targetOf s t = targetOf s0 t \<and> Targets s = Targets s0"

lemma keeps_sparedI:
  assumes "\<And>s. agrees t s (snd (m s)) \<and> targetOf (snd (m s)) t = targetOf s t \<and> Targets (snd (m s)) = Targets s"
  shows "keeps (spared t s0) m"
  using assms agrees_trans unfolding keeps_def spared_def by metis

lemma fresh_conn_rest: "createCertBackend u db usr s = (r, s') \<Longrightarrow> Targets s' = Targets s \<and> targetOf s' = targetOf s"
  by (drule createCertBackend_fresh) (simp add: fresh_conn_def)

lemma keeps_spared_step:
  assumes "u \<noteq> t"
  shows "keeps (spared t s0) (open_priv_step u)"
proof -
  have cert: "keeps (spared t s0) (createCertBackend u db usr)" for db usr
    using createCertBackend_fresh [OF surjective_pairing] fresh_conn_agrees fresh_conn_rest [OF surjective_pairing]
    by (intro keeps_sparedI) metis
  have upd: "keeps (spared t s0) (modifyP (upd_target u f))" "keeps (spared t s0) (modifyP (\<lambda>s. upd_target u (g s) s))" for f g
    using assms by (auto intro!: keeps_sparedI simp: modifyP_def agrees_def same_target_def same_pool_def)
  have dep: "keeps (spared t s0) (on_backend b deployPrivilegedStmts)" for b
    using agrees_on_backend [OF keeps_pool_deploy] by (intro keeps_sparedI) (auto simp: on_backend_def zoomP_def split: prod.split)
  have priv: "keeps (spared t s0) (modifyP (privileged_opened u b))" for b unfolding privileged_opened_def [abs_def] by (rule upd)
  show ?thesis unfolding open_priv_step_def by (intro keeps_intros cert upd dep priv)
qed

lemma keeps_spared_open: "u \<noteq> t \<Longrightarrow> keeps (spared t s0) (openPrivilegedConn cert u)"
  using keeps_loop [OF keeps_spared_step, of u t] unfolding openPrivilegedConn_def keeps_def
  by (auto simp del: loopP.simps split: option.split)

lemma keeps_config_open: "keeps (\<lambda>s. sv_config s = sc) (openPrivilegedConn cert u)"
proof -
  let ?I = "\<lambda>s. sv_config s = sc"
  have ob: "keeps ?I (on_backend b m)" for b and m :: "(Backend, unit) prog"
    unfolding on_backend_def by (rule keeps_zoom [where J = "\<lambda>_. True"]) (auto simp: keeps_def)
  have up: "keeps ?I (modifyP (upd_backend b f))" "keeps ?I (modifyP (upd_target u g))" "keeps ?I (modifyP (\<lambda>s. upd_target u (h s) s))"
    "keeps ?I (modifyP (privileged_opened u b))" for b f g h
    by (auto intro!: keeps_modify simp: privileged_opened_def)
  have run: "keeps ?I (tryP (on_backend n (raw_write w))
      (\<lambda>e. thenP (modifyP (upd_backend n Backend_Close)) (failP (Wrapf ''failed to send startup message'' e)))
      (\<lambda>_. tryP (on_backend n drainBackendStartup)
        (\<lambda>e. thenP (modifyP (upd_backend n Backend_Close)) (failP (Wrapf ''backend startup failed'' e))) (\<lambda>_. returnP n)))" for n w
    by (intro keeps_intros ob up)
  have "keeps ?I (createCertBackend u db usr)" for db usr
    using run unfolding createCertBackend_def keeps_def by (auto simp: Let_def split: list.split sum.split)
  then have "keeps ?I (open_priv_step u)" unfolding open_priv_step_def by (intro keeps_intros ob up)
  from keeps_loop [OF this] show ?thesis unfolding openPrivilegedConn_def keeps_def by (auto simp del: loopP.simps split: option.split)
qed

section \<open>From the configuration to the running targets\<close>

lemma open_ready:
  assumes "openPrivilegedConn cert t s = (Ok (), s')"
  shows "Ready (targetOf s' t)"
proof -
  have step: "open_priv_step t s = (Ok (Some u), s') \<Longrightarrow> Ready (targetOf s' t)" for u s s'
    unfolding open_priv_step_def
    by (auto simp: prog_defs split: if_splits res.splits prod.splits)
  have "loopP n (open_priv_step t) s = (Ok u, s') \<Longrightarrow> Ready (targetOf s' t)" for n u s
    by (induction n arbitrary: s) (auto simp: bindP_def returnP_def split: prod.splits res.splits option.splits dest: step)
  then show ?thesis using assms unfolding openPrivilegedConn_def by (auto simp del: loopP.simps split: option.splits)
qed

lemma open_not_ready:
  assumes "openPrivilegedConn cert t s = (r, s')" "r \<noteq> Ok ()"
  shows "Ready (targetOf s' t) = Ready (targetOf s t)"
proof -
  have step: "r \<noteq> Ok (Some ()) \<Longrightarrow> open_priv_step t s = (r, s') \<Longrightarrow> Ready (targetOf s' t) = Ready (targetOf s t)" for r s s'
  proof -
    assume r: "r \<noteq> Ok (Some ())" and st: "open_priv_step t s = (r, s')"
    obtain r1 s1 where c: "createCertBackend t ''postgres'' (PgFoxRole (sv_config s)) s = (r1, s1)" by (rule prod.exhaust)
    have "targetOf s1 = targetOf s" using fresh_conn_rest [OF c] by simp
    then show ?thesis
      using r st c unfolding open_priv_step_def privileged_opened_def
      by (auto simp: prog_defs on_backend_def split: if_splits res.splits prod.splits)
  qed
  have "loopP n (open_priv_step t) s = (r, s') \<Longrightarrow> r \<noteq> Ok () \<Longrightarrow> Ready (targetOf s' t) = Ready (targetOf s t)" for n s r
  proof (induction n arbitrary: s)
    case (Suc n)
    obtain r1 s1 where st: "open_priv_step t s = (r1, s1)" by (rule prod.exhaust)
    show ?case
    proof (cases "r1 = Ok (Some ())")
      case True
      then show ?thesis using Suc.prems st by (simp add: bindP_def returnP_def)
    next
      case False
      then show ?thesis using Suc step [OF False st] st by (cases r1) (auto simp: bindP_def returnP_def split: option.splits)
    qed
  qed simp
  then show ?thesis using assms unfolding openPrivilegedConn_def by (auto simp del: loopP.simps split: option.splits)
qed

lemma role_cert_server: "fst (snd (role_cert (s, d))) = s"
  by (simp add: role_cert_def bindP_def getP_def tryP_def onDisk_def zoomP_def returnP_def split: prod.split res.split)

text \<open>A target that boots has opened its privileged connection; nothing else changes for other targets.\<close>

lemma boot_target_Ok:
  assumes "boot_target wakes t (s, d) = (Ok (), (s', d'))" "\<not> Ready (targetOf s t)"
  shows "\<exists>cert. openPrivilegedConn cert t (new_context t s) = (Ok (), s')"
proof -
  let ?s = "new_context t s"
  obtain rc s0 d1 where rc: "role_cert (?s, d) = (rc, (s0, d1))" by (metis prod.exhaust)
  have s0: "s0 = ?s" using role_cert_server [of ?s d] rc by simp
  have nr: "\<not> Ready (targetOf ?s t)" using assms(2) by (simp add: new_context_def)
  have "\<exists>cert. rc = Ok cert" using assms(1) nr rc s0 by (cases rc) (auto simp: boot_target_def run_boot_def bindP_def split: if_splits)
  then obtain cert where cert: "rc = Ok cert" by blast
  obtain r s1 where o: "openPrivilegedConn cert t ?s = (r, s1)" by (rule prod.exhaust)
  have "s1 = s' \<and> Ready (targetOf s1 t)"
    using assms(1) rc s0 cert o
    by (cases r) (auto simp: boot_target_def run_boot_def bindP_def tryP_def getP_def panicP_def returnP_def onServer_def zoomP_def split: if_splits)
  moreover from this have "r = Ok ()" using open_not_ready [OF o] nr by auto
  ultimately show ?thesis using o by blast
qed

lemma spared_context: "u \<noteq> t \<Longrightarrow> spared t s (new_context u s)"
  by (simp add: spared_def new_context_def agrees_def same_target_def same_pool_def)

lemma boot_all:
  assumes "forP ts (boot_target wakes) (s, d) = (Ok (), (s', d'))" "distinct ts" "\<And>t. t \<in> set ts \<Longrightarrow> booting t s \<and> \<not> Ready (targetOf s t)"
  shows "(\<forall>t \<in> set ts. target_run t (s', {}) \<and> Ready (targetOf s' t)) \<and> (\<forall>t. t \<notin> set ts \<longrightarrow> spared t s s') \<and> Targets s' = Targets s"
  using assms
proof (induction ts arbitrary: s d)
  case Nil
  then show ?case by (simp add: returnP_def spared_def)
next
  case (Cons u ts)
  obtain s1 d1 where u: "boot_target wakes u (s, d) = (Ok (), (s1, d1))" and rest: "forP ts (boot_target wakes) (s1, d1) = (Ok (), (s', d'))"
    using Cons.prems(1) by (force simp: thenP_def bindP_Ok_iff)
  obtain cert where o: "openPrivilegedConn cert u (new_context u s) = (Ok (), s1)" using boot_target_Ok [OF u] Cons.prems(3) by auto
  have sp: "spared t s s1" if "t \<noteq> u" for t
    using keepsD [OF keeps_spared_open [of u t s cert] o] that spared_context by auto
  have "booting t s1 \<and> \<not> Ready (targetOf s1 t)" if "t \<in> set ts" for t
  proof -
    have "t \<noteq> u" using Cons.prems(2) that by auto
    then show ?thesis using sp [of t] Cons.prems(3) [of t] that booting.elsewhere [of t s s1] by (simp add: spared_def)
  qed
  from Cons.IH [OF rest _ this] Cons.prems(2)
  have IH: "\<forall>t \<in> set ts. target_run t (s', {}) \<and> Ready (targetOf s' t)" "\<forall>t. t \<notin> set ts \<longrightarrow> spared t s1 s'" "Targets s' = Targets s1" by auto
  have us: "spared u s1 s'" using IH(2) Cons.prems(2) by simp
  have "booting u (new_context u s)"
    using Cons.prems(3) [of u] by (auto intro!: booting.elsewhere [of u s] agrees_upd_target simp: new_context_def same_target_def)
  then have "target_run u (s1, {})" using o by (rule target_run.opened)
  then have "target_run u (s', {})" by (rule target_run.step) (use us in \<open>auto simp: spared_def intro: target_step.elsewhere\<close>)
  moreover have "Ready (targetOf s' u)" using us open_ready [OF o] by (simp add: spared_def)
  moreover have "spared t s s'" if "t \<notin> set (u # ts)" for t
    using sp [of t] IH(2) that agrees_trans by (auto simp: spared_def)
  moreover have "Targets s1 = Targets s" using sp [of "Suc u"] by (simp add: spared_def)
  ultimately show ?case using IH by simp
qed

text \<open>What the YAML library leaves alone in a target: the fields without a tag.\<close>

definition untagged :: "Target \<Rightarrow> bool" where
  "untagged x \<longleftrightarrow> Pools x = [] \<and> CachedPools x = [] \<and> TotalOpen x = 0 \<and> t_backend x = None"

lemma initTargets_untagged:
  "initTargets parseCIDR sc ts0 = Ok ts \<Longrightarrow> list_all (\<lambda>x. untagged x \<and> MaxConnections x < 2 ^ 31) ts0 \<Longrightarrow>
     list_all (\<lambda>x. untagged x \<and> MaxConnections x < 2 ^ 31 \<and> \<not> Ready x) ts"
proof (induction ts0 arbitrary: ts)
  case (Cons x ts0)
  obtain y ys where y: "initTarget parseCIDR sc x = Ok y" "initTargets parseCIDR sc ts0 = Ok ys" "ts = y # ys"
    using Cons.prems(1) by (auto split: res.splits)
  have "untagged y \<and> MaxConnections y < 2 ^ 31 \<and> \<not> Ready y"
    using y(1) Cons.prems(2) by (auto simp: initTarget_def Let_def untagged_def split: sum.splits if_splits)
  then show ?case using Cons y by simp
qed simp


text \<open>The server section of the configuration is not validated: with a \<open>stats_interval\<close> that is zero or negative, which
  \<open>validate\<close> lets pass, the first target that opens its privileged connection panics in \<open>time.NewTicker\<close>, and with it the server.\<close>

theorem stats_interval_panics:
  assumes "StatsInterval sc \<le> 0" "NewServer listen (config\<lparr>cfgServer := sc\<rparr>) fresh = Inr s"
    and "ensureBootstrapCerts parseIP sc (map (targetOf s) (Targets s)) d = (Ok (), d1)"
    and "loadOrGenerateUserCert sc (PgFoxRole sc) d1 = (Ok crt, d2)"
    and "openPrivilegedConn None 0 (new_context 0 s) = (Ok (), s')" "cfgTargets config \<noteq> []"
  shows "validate (config\<lparr>cfgServer := sc\<rparr>) = validate config \<and> fst (Start parseIP wakes evs (s, d)) = Panic"
proof -
  have s: "sv_config s = sc" "Targets s = 0 # [1..<length (cfgTargets config)]"
    using assms(2,6) by (auto simp: NewServer_def Let_def upt_rec [of 0] split: option.splits)
  have sc: "sv_config s' = sc" using keepsD [OF keeps_config_open assms(5)] s(1) by (simp add: new_context_def)
  have cert: "role_cert (new_context 0 s, d1) = (Ok None, (new_context 0 s, d2))"
    using assms(4) s(1) by (simp add: new_context_def role_cert_def bindP_def getP_def tryP_def onDisk_def zoomP_def returnP_def)
  have "fst (boot_target wakes 0 (s, d1)) = Panic"
    using assms(1,5) cert sc by (simp add: boot_target_def run_boot_def bindP_def tryP_def getP_def panicP_def onServer_def zoomP_def)
  then obtain y where "boot_target wakes 0 (s, d1) = (Panic, y)" by (metis prod.collapse)
  then have "fst (start_boot parseIP wakes (s, d)) = Panic"
    using assms(3) s by (simp add: start_boot_def bindP_def getP_def tryP_def thenP_def onDisk_def zoomP_def)
  then obtain y where "start_boot parseIP wakes (s, d) = (Panic, y)" by (metis prod.collapse)
  then show ?thesis by (simp add: Start_def thenP_def bindP_def validate_def)
qed

section \<open>The server comes up\<close>

text \<open>A connection to a PostgreSQL server that lets the role in and prepares both statements.\<close>

definition well_behaved :: "conn \<Rightarrow> bool" where
  "well_behaved k \<longleftrightarrow> \<not> c_closed k \<and> c_room k \<noteq> Some 0 \<and>
     (\<exists>a b c d rest. c_in k = (CHR ''R'', PutUint32 AuthenticationOK) # (CHR ''Z'', a) # (CHR ''1'', b) # (CHR ''1'', c) # (CHR ''Z'', d) # rest)"

definition prepares :: "Backend \<Rightarrow> bool" where
  "prepares x \<longleftrightarrow> (\<exists>b c d rest. c_in (b_conn x) = (CHR ''1'', b) # (CHR ''1'', c) # (CHR ''Z'', d) # rest)"

lemma deploy_loop_no_panic:
  assumes "prepares x"
  shows "fst (case loopP (backend_fuel x) deploy_step (x, 0) of (r, (b', _)) \<Rightarrow> (r, b')) \<noteq> Panic"
proof -
  obtain b c d rest where i: "c_in (b_conn x) = (CHR ''1'', b) # (CHR ''1'', c) # (CHR ''Z'', d) # rest" using assms by (auto simp: prepares_def)
  show ?thesis
  proof (cases "c_closed (b_conn x)")
    case True
    then show ?thesis by (simp add: deploy_step_def prog_defs Backend_read_def conn_read_def)
  next
    case False
    then show ?thesis using i by (simp add: deploy_step_def prog_defs privileged_stmts_def MarkStmt_def)
  qed
qed

text \<open>Programs that do not panic there and go on only with such a backend.\<close>

definition deploys :: "(Backend, unit) prog \<Rightarrow> bool" where
  "deploys m \<longleftrightarrow> (\<forall>x r x'. prepares x \<longrightarrow> m x = (r, x') \<longrightarrow> r \<noteq> Panic \<and> (r = Ok () \<longrightarrow> prepares x'))"

lemma deploys_write: "deploys (wrapP msg (Backend_write m) returnP)"
proof -
  have "r \<noteq> Panic \<and> (r = Ok () \<longrightarrow> prepares x')" if x: "prepares x" and run: "wrapP msg (Backend_write m) returnP x = (r, x')" for x r x'
  proof -
    obtain r1 x1 where w: "Backend_write m x = (r1, x1)" by (rule prod.exhaust)
    then show ?thesis
    proof (cases rule: Backend_write_cases)
      case (ok y)
      then show ?thesis using w x run by (auto simp: tryP_def returnP_def prepares_def)
    next
      case (err e)
      then show ?thesis using w run by (auto simp: tryP_def failP_def)
    qed
  qed
  then show ?thesis unfolding deploys_def by blast
qed

lemma deploys_then: "deploys m \<Longrightarrow> deploys k \<Longrightarrow> deploys (thenP m k)"
proof -
  assume m: "deploys m" and k: "deploys k"
  have "r \<noteq> Panic \<and> (r = Ok () \<longrightarrow> prepares x')" if x: "prepares x" and run: "thenP m k x = (r, x')" for x r x'
  proof -
    obtain r1 x1 where m1: "m x = (r1, x1)" by (rule prod.exhaust)
    then have "r1 \<noteq> Panic \<and> (r1 = Ok () \<longrightarrow> prepares x1)" using m x unfolding deploys_def by blast
    then show ?thesis using m1 run k unfolding deploys_def by (cases r1) (auto simp: thenP_def bindP_def)
  qed
  then show ?thesis unfolding deploys_def by blast
qed

lemma deploys_for: "(\<And>x. deploys (body x)) \<Longrightarrow> deploys (forP xs body)"
  by (induction xs) (simp add: deploys_def returnP_def, simp add: deploys_then)

lemma deploys_bind_no_panic:
  assumes "deploys m" "\<And>x. prepares x \<Longrightarrow> fst (k x) \<noteq> Panic" "prepares x"
  shows "fst (bindP m (\<lambda>_. k) x) \<noteq> Panic"
proof -
  obtain r x' where m: "m x = (r, x')" by (rule prod.exhaust)
  then show ?thesis using assms by (cases r) (auto simp: deploys_def bindP_def)
qed

lemma deploy_no_panic:
  assumes "prepares x"
  shows "fst (deployPrivilegedStmts x) \<noteq> Panic"
proof -
  let ?loop = "\<lambda>b. case loopP (backend_fuel b) deploy_step (b, 0) of (r, (b', _)) \<Rightarrow> (r, b')"
  have sync: "wrapP ''failed to send Sync'' (Backend_write (CHR ''S'', SyncBody)) (\<lambda>_. ?loop) =
      bindP (wrapP ''failed to send Sync'' (Backend_write (CHR ''S'', SyncBody)) returnP) (\<lambda>_. ?loop)"
    by (auto simp: fun_eq_iff tryP_def bindP_def returnP_def failP_def simp del: loopP.simps split: prod.split res.split)
  show ?thesis
    unfolding deployPrivilegedStmts_def sync
    by (intro deploys_bind_no_panic deploys_for deploys_write deploy_loop_no_panic assms) (auto intro: deploys_write split: prod.split)
qed

lemma create_well_behaved:
  assumes "dials s = Inr k # ds" "well_behaved k"
  shows "\<exists>s'. createCertBackend t db usr s = (Ok (nextBackend s), s') \<and> dials s' = ds \<and> prepares (backendOf s' (nextBackend s)) \<and>
    shuttingDown s' = shuttingDown s"
proof -
  obtain a b c d rest where k: "\<not> c_closed k" "c_room k \<noteq> Some 0"
      "c_in k = (CHR ''R'', PutUint32 AuthenticationOK) # (CHR ''Z'', a) # (CHR ''1'', b) # (CHR ''1'', c) # (CHR ''Z'', d) # rest"
    using assms(2) by (auto simp: well_behaved_def)
  have "\<exists>n. c_room k = None \<or> c_room k = Some (Suc n)" using k(2) by (metis not0_implies_Suc option.exhaust)
  then show ?thesis
    using assms(1) k
    by (auto simp: createCertBackend_def Let_def prog_defs on_backend_def raw_write_def conn_send_def NewBackend_def
        drainBackendStartup_accepting prepares_def)
qed

lemma open_runs:
  assumes "dials s = Inr k # ds" "well_behaved k" "\<not> Cancelled (targetOf s t)"
  shows "\<exists>s'. openPrivilegedConn None t s = (Ok (), s') \<and> dials s' = ds \<and> shuttingDown s' = shuttingDown s"
proof -
  let ?b = "nextBackend s"
  obtain s1 where s1: "createCertBackend t ''postgres'' (PgFoxRole (sv_config s)) s = (Ok ?b, s1)" "dials s1 = ds" "prepares (backendOf s1 ?b)"
      "shuttingDown s1 = shuttingDown s"
    using create_well_behaved [OF assms(1,2)] by blast
  let ?s2 = "privileged_opened t ?b s1"
  let ?s3 = "upd_target t (\<lambda>x. x\<lparr>Params := fold (\<lambda>(k, v). AList.update k v) (parameters (backendOf ?s2 ?b)) (Params x)\<rparr>) ?s2"
  have pr: "prepares (backendOf ?s3 ?b)" using s1(3) by (simp add: privileged_opened_def)
  obtain r x where d: "deployPrivilegedStmts (backendOf ?s3 ?b) = (r, x)" by (rule prod.exhaust)
  have "fst (deployPrivilegedStmts (backendOf ?s3 ?b)) \<noteq> Blocked" using ends_deploy unfolding ends_def by blast
  then have r: "r \<noteq> Panic" "r \<noteq> Blocked" using deploy_no_panic [OF pr] d by simp_all
  have "open_priv_step t s = (Ok (Some ()), upd_target t (\<lambda>x. x\<lparr>Ready := True\<rparr>) (upd_backend ?b (\<lambda>_. x) ?s3))"
    using s1(1) assms(3) d r by (cases r) (simp_all add: open_priv_step_def prog_defs on_backend_def)
  then show ?thesis
    using s1(2,4) by (simp add: openPrivilegedConn_def bindP_def returnP_def privileged_opened_def)
qed

lemma role_cert_runs:
  assumes "clean_dir sc ps" "SLASH \<notin> set (PgFoxRole sc)" "sv_config s = sc" "ca_on_disk sc ca d" "d_io d = []"
  shows "\<exists>d'. role_cert (s, d) = (Ok None, (s, d')) \<and> ca_on_disk sc ca d' \<and> d_io d' = []"
proof -
  obtain x d' where "loadOrGenerateUserCert sc (PgFoxRole sc) d = (Ok x, d')" "ca_on_disk sc ca d'" "d_io d' = []"
    using load_runs [OF assms(1,2,4,5)] by blast
  then show ?thesis using assms(3) by (simp add: role_cert_def bindP_def getP_def tryP_def onDisk_def zoomP_def returnP_def)
qed

lemma boot_target_runs:
  assumes "clean_dir sc ps" "SLASH \<notin> set (PgFoxRole sc)" "0 < StatsInterval sc" "sv_config s = sc" "ca_on_disk sc ca d" "d_io d = []"
    and "dials s = Inr k # ds" "well_behaved k" "\<not> shuttingDown s"
  shows "\<exists>s' d'. boot_target (\<lambda>_. ReadySignal) t (s, d) = (Ok (), (s', d')) \<and> sv_config s' = sc \<and> ca_on_disk sc ca d' \<and> d_io d' = [] \<and>
    dials s' = ds \<and> \<not> shuttingDown s'"
proof -
  let ?s = "new_context t s"
  have n: "sv_config ?s = sc" "dials ?s = Inr k # ds" "\<not> Cancelled (targetOf ?s t)" "\<not> shuttingDown ?s"
    using assms(4,7,9) by (simp_all add: new_context_def)
  obtain d' where d': "role_cert (?s, d) = (Ok None, (?s, d'))" "ca_on_disk sc ca d'" "d_io d' = []"
    using role_cert_runs [OF assms(1,2) n(1) assms(5,6)] by blast
  obtain s' where s': "openPrivilegedConn None t ?s = (Ok (), s')" "dials s' = ds" "\<not> shuttingDown s'"
    using open_runs [OF n(2) assms(8) n(3)] n(4) by auto
  have c: "sv_config s' = sc" using keepsD [OF keeps_config_open s'(1)] n(1) by simp
  have "boot_target (\<lambda>_. ReadySignal) t (s, d) = (Ok (), (s', d'))"
    using d'(1) s'(1) c assms(3) open_ready [OF s'(1)]
    by (simp add: boot_target_def run_boot_def bindP_def tryP_def getP_def returnP_def onServer_def zoomP_def)
  then show ?thesis using c d' s' by blast
qed

lemma boot_runs:
  assumes "clean_dir sc ps" "SLASH \<notin> set (PgFoxRole sc)" "0 < StatsInterval sc" "sv_config s = sc" "ca_on_disk sc ca d" "d_io d = []"
    and "dials s = map Inr ks @ ds" "length ks = length ts" "list_all well_behaved ks" "\<not> shuttingDown s"
  shows "\<exists>s' d'. forP ts (boot_target (\<lambda>_. ReadySignal)) (s, d) = (Ok (), (s', d'))"
  using assms(4-)
proof (induction ts arbitrary: s d ks)
  case Nil
  then show ?case by (simp add: returnP_def)
next
  case (Cons t ts)
  obtain k ks' where k: "ks = k # ks'" using Cons.prems(5) by (cases ks) auto
  obtain s1 d1 where 1: "boot_target (\<lambda>_. ReadySignal) t (s, d) = (Ok (), (s1, d1))" "sv_config s1 = sc" "ca_on_disk sc ca d1" "d_io d1 = []"
      "dials s1 = map Inr ks' @ ds" "\<not> shuttingDown s1"
    using boot_target_runs [OF assms(1-3) Cons.prems(1-3), of k "map Inr ks' @ ds" t] Cons.prems k by auto
  have "\<exists>s' d'. forP ts (boot_target (\<lambda>_. ReadySignal)) (s1, d1) = (Ok (), (s', d'))"
    by (rule Cons.IH) (use 1 Cons.prems k in auto)
  then show ?case using 1(1) by (simp add: thenP_def bindP_def)
qed

lemma start_runs:
  assumes "clean_dir (cfgServer config) ps" "SLASH \<notin> set (PgFoxRole (cfgServer config))" "24 * Hour + Second \<le> TTL (Certs (cfgServer config))"
    and "0 < StatsInterval (cfgServer config)" "NewServer listen config fresh = Inr s" "d_io d = []"
    and "(\<exists>ca. ca_on_disk (cfgServer config) ca d) \<or>
      caPool d = None \<and> \<not> (fileExists (caCertPath (cfgServer config)) d \<and> fileExists (caKeyPath (cfgServer config)) d)"
    and "dials fresh = map Inr ks @ ds" "length ks = length (cfgTargets config)" "list_all well_behaved ks"
  shows "\<exists>s' d'. start_boot parseIP (\<lambda>_. ReadySignal) (s, d) = (Ok (), (s', d'))"
proof -
  let ?sc = "cfgServer config"
  have s: "sv_config s = ?sc" "dials s = map Inr ks @ ds" "\<not> shuttingDown s" "length (Targets s) = length ks"
    using assms(5,8,9) by (auto simp: NewServer_def Let_def split: option.splits)
  obtain ca d1 where d1: "ensureBootstrapCerts parseIP ?sc (map (targetOf s) (Targets s)) d = (Ok (), d1)" "ca_on_disk ?sc ca d1" "d_io d1 = []"
    using bootstrap_run [OF assms(1,3,6,7)] by blast
  obtain s' d' where "forP (Targets s) (boot_target (\<lambda>_. ReadySignal)) (s, d1) = (Ok (), (s', d'))"
    using boot_runs [OF assms(1,2,4) s(1) d1(2,3) s(2) s(4) [symmetric] assms(10) s(3)] by blast
  then show ?thesis
    using d1(1) s(1) by (simp add: start_boot_def bindP_def getP_def tryP_def onDisk_def zoomP_def)
qed


section \<open>Witnesses\<close>

definition demo_postgres :: conn where
  "demo_postgres = demo_conn\<lparr>c_in := [(CHR ''R'', PutUint32 AuthenticationOK), (CHR ''Z'', ''I''), (CHR ''1'', []), (CHR ''1'', []), (CHR ''Z'', ''I'')],
     c_room := None\<rparr>"

definition demo_fresh :: Server where
  "demo_fresh = demo_server\<lparr>dials := [Inr demo_postgres]\<rparr>"

lemma demo_loaded:
  obtains config s where "LoadConfig demo_unmarshal (\<lambda>_. None) (Inr ''targets'') = Ok config" "cfgServer config = defaultServerConfig"
    "length (cfgTargets config) = 1" "NewServer (\<lambda>_. None) config demo_fresh = Inr s"
  by (simp add: LoadConfig_def demo_unmarshal_def initTarget_def demo_target_def default_rules_def Let_def
      sortTargets_def validate_def rule_action_ok_def NewServer_def)

lemma demo_start:
  assumes "cfgServer config = defaultServerConfig" "length (cfgTargets config) = 1" "NewServer (\<lambda>_. None) config demo_fresh = Inr s"
  shows "clean_dir (cfgServer config) [''etc'', ''pgfox'']" "SLASH \<notin> set (PgFoxRole (cfgServer config))"
    "24 * Hour + Second \<le> TTL (Certs (cfgServer config))" "0 < StatsInterval (cfgServer config)"
    "NewServer (\<lambda>_. None) config demo_fresh = Inr s" "d_io empty_disk = []"
    "(\<exists>ca. ca_on_disk (cfgServer config) ca empty_disk) \<or> caPool empty_disk = None \<and>
       \<not> (fileExists (caCertPath (cfgServer config)) empty_disk \<and> fileExists (caKeyPath (cfgServer config)) empty_disk)"
    "dials demo_fresh = map Inr [demo_postgres] @ []" "length [demo_postgres] = length (cfgTargets config)" "list_all well_behaved [demo_postgres]"
  using assms clean_default
  by (simp_all add: defaultServerConfig_def Hour_def Second_def empty_disk_def fileExists_def demo_fresh_def well_behaved_def demo_postgres_def
      demo_conn_def)



theorem stats_interval_panics_witness:
  "\<exists>s config. NewServer (\<lambda>_. None) config demo_fresh = Inr s \<and> validate config = None \<and> StatsInterval (cfgServer config) = 0 \<and>
    fst (Start (\<lambda>_. None) (\<lambda>_. ReadySignal) [] (s, empty_disk)) = Panic"
proof -
  let ?sc = "defaultServerConfig\<lparr>StatsInterval := 0\<rparr>" and ?c = "\<lparr>cfgServer = defaultServerConfig, cfgTargets = [demo_target []]\<rparr>"
  obtain s where s: "NewServer (\<lambda>_. None) (?c\<lparr>cfgServer := ?sc\<rparr>) demo_fresh = Inr s" by (simp add: NewServer_def)
  have sc: "clean_dir ?sc [''etc'', ''pgfox'']" "24 * Hour + Second \<le> TTL (Certs ?sc)" "SLASH \<notin> set (PgFoxRole ?sc)" "StatsInterval ?sc \<le> 0"
    using clean_default by (simp_all add: clean_dir_def defaultServerConfig_def Hour_def Second_def)
  have e: "d_io empty_disk = []" "caPool empty_disk = None \<and> \<not> (fileExists (caCertPath ?sc) empty_disk \<and> fileExists (caKeyPath ?sc) empty_disk)"
    by (simp_all add: empty_disk_def fileExists_def)
  obtain ca d1 where d1: "ensureBootstrapCerts (\<lambda>_. None) ?sc (map (targetOf s) (Targets s)) empty_disk = (Ok (), d1)" "ca_on_disk ?sc ca d1" "d_io d1 = []"
    using bootstrap_run [OF sc(1,2) e(1)] e(2) by blast
  obtain x d2 where d2: "loadOrGenerateUserCert ?sc (PgFoxRole ?sc) d1 = (Ok x, d2)" using load_runs [OF sc(1,3) d1(2,3)] by blast
  have "dials (new_context 0 s) = [Inr demo_postgres]" "\<not> Cancelled (targetOf (new_context 0 s) 0)" "well_behaved demo_postgres"
    using s by (auto simp: NewServer_def new_context_def demo_fresh_def well_behaved_def demo_postgres_def demo_conn_def)
  from open_runs [OF this(1,3,2)] obtain s' where "openPrivilegedConn None 0 (new_context 0 s) = (Ok (), s')" by blast
  from stats_interval_panics [OF sc(4) s d1(1) d2 this] have p: "fst (Start (\<lambda>_. None) (\<lambda>_. ReadySignal) [] (s, empty_disk)) = Panic" by simp
  have "validate (?c\<lparr>cfgServer := ?sc\<rparr>) = None" by (simp add: validate_def demo_target_def)
  with s p show ?thesis by (intro exI [of _ s] exI [of _ "?c\<lparr>cfgServer := ?sc\<rparr>"]) simp
qed

section \<open>The entry point (main.go)\<close>

text \<open>How \<open>main\<close> ends, or that it still serves; \<open>Done\<close> says whether the web server was started. Signals are among what the other goroutines
  do in \<open>evs\<close>: SIGINT and SIGTERM cancel the context, SIGHUP is a \<open>Reload\<close>.\<close>

datatype exit = VersionShown | Fatal goerr | Crashed | Serving Server | Done bool Server

definition main_run ::
  "bool \<Rightarrow> Config res \<Rightarrow> (string \<Rightarrow> goerr option) \<Rightarrow> Server \<Rightarrow> (string \<Rightarrow> bytes option) \<Rightarrow> (targetId \<Rightarrow> readyWake) \<Rightarrow>
    (acceptEvent \<times> (Server \<Rightarrow> Server)) list \<Rightarrow> bool \<Rightarrow> disk \<Rightarrow> exit" where
  "main_run version loaded listen fresh parseIP wakes evs metricsEnabled d =
     (if version then VersionShown
      else case loaded of
        Err e \<Rightarrow> Fatal (Wrapf ''Failed to load configuration'' e)
      | Panic \<Rightarrow> Crashed
      | Blocked \<Rightarrow> Crashed
      | Ok config \<Rightarrow>
          (case NewServer listen config fresh of
             Inl e \<Rightarrow> Fatal (Wrapf ''Failed to create server'' e)
           | Inr s \<Rightarrow>
               (case Start parseIP wakes evs (s, d) of
                  (Err e, _) \<Rightarrow> Fatal (Wrapf ''Server failed to start'' e)
                | (Panic, _) \<Rightarrow> Crashed
                | (Blocked, (s', _)) \<Rightarrow> Serving s'
                | (Ok _, (s', _)) \<Rightarrow> Done metricsEnabled s')))"

lemma forP_all_Ok:
  assumes "\<And>x s. \<exists>s'. body x s = (Ok (), s') \<and> f s' = f s"
  shows "\<exists>s'. forP xs body s = (Ok (), s') \<and> f s' = f s"
proof (induction xs arbitrary: s)
  case (Cons x xs)
  obtain s1 where s1: "body x s = (Ok (), s1)" "f s1 = f s" using assms by blast
  obtain s2 where "forP xs body s1 = (Ok (), s2)" "f s2 = f s1" using Cons by blast
  then show ?case using s1 by (simp add: thenP_def bindP_def)
qed (simp add: returnP_def)

lemma shutdown_run: "\<exists>s'. shutdown s = (Ok (), s') \<and> shuttingDown s'"
proof -
  let ?s1 = "s\<lparr>shuttingDown := True\<rparr>"
  let ?body = "\<lambda>l. case l_backend l of None \<Rightarrow> returnP () | Some b \<Rightarrow> thenP (modifyP (upd_backend b Backend_Close))
      (bindP (getP (\<lambda>s. b_pool (backendOf s b))) (\<lambda>pool. case pool of None \<Rightarrow> returnP ()
        | Some p \<Rightarrow> modifyP (\<lambda>s. add_listen_open (p_target (poolOf s p)) (- 1) s)))"
  have "\<exists>s'. ?body l s = (Ok (), s') \<and> shuttingDown s' = shuttingDown s" for l s
    by (auto simp: prog_defs add_listen_open_def split: option.split)
  from forP_all_Ok [where f = shuttingDown and body = ?body and xs = "map snd (Listeners s)" and s = "?s1\<lparr>Listeners := []\<rparr>", OF this]
  obtain s2 where s2: "forP (map snd (Listeners s)) ?body (?s1\<lparr>Listeners := []\<rparr>) = (Ok (), s2)" "shuttingDown s2" by auto
  have s2': "shutdownListeners ?s1 = (Ok (), s2)"
    unfolding shutdownListeners_def
    by (rule HOL.trans [OF run_bind [of "getP _", OF run_leaf(1)]], rule HOL.trans [OF run_then [of "modifyP _", OF run_leaf(2)]])
      (use s2(1) in \<open>simp add: upd_listeners_def\<close>)
  have "shuttingDown (fold (\<lambda>c. upd_client c f) cs s) = shuttingDown s" for f cs s by (induction cs arbitrary: s) simp_all
  moreover have "shuttingDown (fold (\<lambda>t s. drain t (upd_target t (\<lambda>x. x\<lparr>Cancelled := True\<rparr>) s)) ts s) = shuttingDown s" for ts s
    by (induction ts arbitrary: s) (simp_all add: same_targets_drain [unfolded same_targets_def])
  ultimately show ?thesis using s2(2) s2' by (simp add: shutdown_def thenP_def bindP_def modifyP_def)
qed

lemma accept_loop_Ok: "accept_loop evs s = (Ok (), s') \<Longrightarrow> shuttingDown s'"
proof (induction evs arbitrary: s)
  case Nil
  then show ?case using shutdown_run [of s] by (auto simp: bindP_def getP_def blockP_def split: if_splits)
next
  case (Cons e evs)
  obtain ev f where e: "e = (ev, f)" by (rule prod.exhaust)
  show ?case
  proof (cases "shuttingDown s")
    case True
    then show ?thesis using Cons.prems e shutdown_run [of s] by (auto simp: bindP_def getP_def)
  next
    case False
    then show ?thesis
      using Cons.prems Cons.IH e shutdown_run [of "f s"]
      by (cases ev) (auto simp: bindP_def thenP_def getP_def modifyP_def split: if_splits)
  qed
qed

text \<open>\<open>main\<close> starts the web server of the metrics only after \<open>Start\<close> has returned, and that returns without an error only when the server is
  shut down: while clients are served there is no metrics endpoint.\<close>

theorem metrics_only_after_shutdown:
  assumes "main_run version loaded listen fresh parseIP wakes evs metricsEnabled d = Done web s'"
  shows "shuttingDown s' \<and> web = metricsEnabled"
proof -
  obtain config s where s: "loaded = Ok config" "NewServer listen config fresh = Inr s"
    using assms by (cases loaded; cases "\<exists>config s. loaded = Ok config \<and> NewServer listen config fresh = Inr s")
      (auto simp: main_run_def split: if_splits sum.splits)
  obtain x s1 d1 where x: "Start parseIP wakes evs (s, d) = (x, (s1, d1))" by (metis prod.exhaust)
  then have r: "Start parseIP wakes evs (s, d) = (Ok (), (s', d1))" "web = metricsEnabled"
    using assms s by (cases x; auto simp: main_run_def split: if_splits)+
  then obtain s1 d2 where "onServer (accept_loop evs) (s1, d2) = (Ok (), (s', d1))"
    by (auto simp: Start_def thenP_def bindP_Ok_iff)
  then have "accept_loop evs s1 = (Ok (), s')" by (cases "accept_loop evs s1") (simp add: onServer_def zoomP_def)
  then show ?thesis using accept_loop_Ok r(2) by blast
qed

theorem metrics_only_after_shutdown_witness:
  "\<exists>s'. main_run False (LoadConfig demo_unmarshal (\<lambda>_. None) (Inr ''targets'')) (\<lambda>_. None) demo_fresh (\<lambda>_. None) (\<lambda>_. ReadySignal)
      [(AcceptTimeout, \<lambda>s. s\<lparr>shuttingDown := True\<rparr>)] True empty_disk = Done True s' \<and> shuttingDown s'"
proof (rule demo_loaded)
  fix config s
  assume l: "LoadConfig demo_unmarshal (\<lambda>_. None) (Inr ''targets'') = Ok config"
    and a: "cfgServer config = defaultServerConfig" "length (cfgTargets config) = 1" "NewServer (\<lambda>_. None) config demo_fresh = Inr s"
  let ?evs = "[(AcceptTimeout, \<lambda>s. s\<lparr>shuttingDown := True\<rparr>)]"
  obtain s1 d1 where "start_boot (\<lambda>_. None) (\<lambda>_. ReadySignal) (s, empty_disk) = (Ok (), (s1, d1))" using start_runs [OF demo_start [OF a]] by blast
  moreover have "\<exists>s2. accept_loop ?evs s1 = (Ok (), s2)"
    using shutdown_run [of s1] shutdown_run [of "s1\<lparr>shuttingDown := True\<rparr>"]
    by (cases "shuttingDown s1") (auto simp: bindP_def thenP_def getP_def modifyP_def)
  then obtain s2 where "accept_loop ?evs s1 = (Ok (), s2)" by blast
  ultimately have "Start (\<lambda>_. None) (\<lambda>_. ReadySignal) ?evs (s, empty_disk) = (Ok (), (s2, d1))"
    by (simp add: Start_def thenP_def bindP_def onServer_def zoomP_def)
  then have m: "main_run False (LoadConfig demo_unmarshal (\<lambda>_. None) (Inr ''targets'')) (\<lambda>_. None) demo_fresh (\<lambda>_. None) (\<lambda>_. ReadySignal) ?evs True
      empty_disk = Done True s2"
    using l a(3) by (simp add: main_run_def)
  from metrics_only_after_shutdown [OF m] m show ?thesis by blast
qed

end
