(* ===== verification/Pgfox_Workspace.thy ===== *)
theory Pgfox_Workspace
  imports Pgfox_Parser
begin

text \<open>
  The pool of parameter workspaces (\<open>sync.go\<close>) and its two users, \<open>ClassifyAndParameterize\<close> and \<open>rewriteLiterals\<close>
  (\<open>parser.go\<close>). A workspace holds two slices that are cut to length 0 and filled again by every query, so here slices
  are what Go makes of them: an array in memory, a length and a capacity, where \<open>append\<close> writes into the array as long as there is
  room. All slices of this code start at the first element of their array. How far an array grows is a choice of the runtime (\<open>grow\<close>).
  The builder is its contents: \<open>strings.Builder\<close> never writes to bytes it has handed out, and \<open>Reset\<close> drops its buffer.
  \<open>Pgfox_Parser\<close> has the same functions without the pool; the theorems here say that it makes no difference.
\<close>

section \<open>Slices over shared arrays\<close>

record gslice =
  s_arr :: nat
  s_len :: nat
  s_cap :: nat

record 'a mem =
  cells :: "nat \<Rightarrow> 'a list"
  m_next :: nat

definition view :: "'a mem \<Rightarrow> gslice \<Rightarrow> 'a list" where
  "view m s = take (s_len s) (cells m (s_arr s))"

definition alloc :: "'a list \<Rightarrow> 'a mem \<Rightarrow> nat \<times> 'a mem" where
  "alloc xs m = (m_next m, m\<lparr>cells := (cells m)(m_next m := xs), m_next := Suc (m_next m)\<rparr>)"

definition make_slice :: "'a \<Rightarrow> nat \<Rightarrow> nat \<Rightarrow> 'a mem \<Rightarrow> gslice \<times> 'a mem" where
  "make_slice z len cap m = (let (a, m') = alloc (replicate cap z) m in (\<lparr>s_arr = a, s_len = len, s_cap = cap\<rparr>, m'))"

definition append_one :: "(nat \<Rightarrow> nat) \<Rightarrow> 'a \<Rightarrow> 'a \<Rightarrow> gslice \<times> 'a mem \<Rightarrow> gslice \<times> 'a mem" where
  "append_one grow z x = (\<lambda>(s, m).
     if s_len s < s_cap s
     then (s\<lparr>s_len := Suc (s_len s)\<rparr>, m\<lparr>cells := (cells m)(s_arr s := (cells m (s_arr s))[s_len s := x])\<rparr>)
     else let cap' = max (Suc (s_len s)) (grow (s_cap s));
              (a, m') = alloc (view m s @ x # replicate (cap' - Suc (s_len s)) z) m
          in (\<lparr>s_arr = a, s_len = Suc (s_len s), s_cap = cap'\<rparr>, m'))"

text \<open>\<open>dst := make([]T, len(src)); copy(dst, src)\<close>.\<close>

definition copy_slice :: "gslice \<Rightarrow> 'a mem \<Rightarrow> gslice \<times> 'a mem" where
  "copy_slice s m = (let (a, m') = alloc (view m s) m in (\<lparr>s_arr = a, s_len = s_len s, s_cap = s_len s\<rparr>, m'))"

section \<open>Workspaces and their pool\<close>

record paramWorkspace =
  w_litValues :: gslice
  w_values :: gslice
  w_sb :: string

record wsheap =
  litMem :: "literalValue mem"
  strMem :: "string mem"
  wsOf :: "nat \<Rightarrow> paramWorkspace"
  nextWs :: nat
  paramWorkspacePool :: "nat list"

definition zero_literal :: literalValue where
  "zero_literal = \<lparr>lkind = litString, lvalue = []\<rparr>"

definition upd_ws :: "nat \<Rightarrow> (paramWorkspace \<Rightarrow> paramWorkspace) \<Rightarrow> wsheap \<Rightarrow> wsheap" where
  "upd_ws w f h = h\<lparr>wsOf := (wsOf h)(w := f (wsOf h w))\<rparr>"

definition new_workspace :: "wsheap \<Rightarrow> nat \<times> wsheap" where
  "new_workspace h =
     (let (ls, lm) = make_slice zero_literal 0 16 (litMem h);
          (vs, sm) = make_slice [] 0 16 (strMem h);
          w = nextWs h
      in (w, h\<lparr>litMem := lm, strMem := sm, wsOf := (wsOf h)(w := \<lparr>w_litValues = ls, w_values = vs, w_sb = []\<rparr>), nextWs := Suc w\<rparr>))"

definition getParamWorkspace :: "nat option \<Rightarrow> wsheap \<Rightarrow> nat \<times> wsheap" where
  "getParamWorkspace pick h =
     (case pick of
        Some i \<Rightarrow>
          if i < length (paramWorkspacePool h)
          then (paramWorkspacePool h ! i,
                h\<lparr>paramWorkspacePool := take i (paramWorkspacePool h) @ drop (Suc i) (paramWorkspacePool h)\<rparr>)
          else new_workspace h
      | None \<Rightarrow> new_workspace h)"

definition reset_ws :: "paramWorkspace \<Rightarrow> paramWorkspace" where
  "reset_ws x = x\<lparr>w_litValues := (w_litValues x)\<lparr>s_len := 0\<rparr>, w_values := (w_values x)\<lparr>s_len := 0\<rparr>, w_sb := []\<rparr>"

definition putParamWorkspace :: "nat \<Rightarrow> wsheap \<Rightarrow> wsheap" where
  "putParamWorkspace w h = (upd_ws w reset_ws h)\<lparr>paramWorkspacePool := w # paramWorkspacePool h\<rparr>"

section \<open>The pooled rewriter\<close>

definition append_lit :: "(nat \<Rightarrow> nat) \<Rightarrow> nat \<Rightarrow> literalValue \<Rightarrow> wsheap \<Rightarrow> wsheap" where
  "append_lit grow w lit h =
     (let (s, m) = append_one grow zero_literal lit (w_litValues (wsOf h w), litMem h)
      in upd_ws w (\<lambda>x. x\<lparr>w_litValues := s\<rparr>) (h\<lparr>litMem := m\<rparr>))"

definition collect_into :: "(nat \<Rightarrow> nat) \<Rightarrow> nat \<Rightarrow> node \<Rightarrow> wsheap \<Rightarrow> wsheap" where
  "collect_into grow w stmt h = fold (append_lit grow w) (collectLiterals stmt False) h"

definition emit_param :: "(nat \<Rightarrow> nat) \<Rightarrow> nat \<Rightarrow> string \<Rightarrow> literalValue \<Rightarrow> wsheap \<Rightarrow> wsheap" where
  "emit_param grow w text lit h =
     (let (s, m) = append_one grow [] (lvalue lit) (w_values (wsOf h w), strMem h)
      in upd_ws w (\<lambda>x. x\<lparr>w_sb := w_sb x @ text, w_values := s\<rparr>) (h\<lparr>strMem := m\<rparr>))"

datatype rewriteRef = RefRewritten string "gslice option" | RefNotFound | RefPanic

fun rewrite_into :: "(nat \<Rightarrow> nat) \<Rightarrow> nat \<Rightarrow> bytes \<Rightarrow> nat \<Rightarrow> nat \<Rightarrow> literalValue list \<Rightarrow> wsheap \<Rightarrow> rewriteRef \<times> wsheap" where
  "rewrite_into grow w src pos paramIdx [] h =
     (let h' = upd_ws w (\<lambda>x. x\<lparr>w_sb := w_sb x @ drop pos src\<rparr>) h
      in (RefRewritten (w_sb (wsOf h' w)) (Some (w_values (wsOf h' w))), h'))"
| "rewrite_into grow w src pos paramIdx (lit # lits) h =
     (case findNextLiteral src pos lit of
        NotFound \<Rightarrow> (RefNotFound, h)
      | FPanic \<Rightarrow> (RefPanic, h)
      | FoundAt start end' \<Rightarrow>
          rewrite_into grow w src end' (paramIdx + 1) lits
            (emit_param grow w (take (start - pos) (drop pos src) @ CHR ''$'' # fmt_nat (paramIdx + 1)) lit h))"

definition pooledRewriteLiterals :: "(nat \<Rightarrow> nat) \<Rightarrow> string \<Rightarrow> literalValue list \<Rightarrow> nat \<Rightarrow> wsheap \<Rightarrow> rewriteRef \<times> wsheap" where
  "pooledRewriteLiterals grow sql lits w h =
     (if length lits = 0 then (RefRewritten sql None, h)
      else rewrite_into grow w sql 0 0 lits (upd_ws w (\<lambda>x. x\<lparr>w_values := (w_values x)\<lparr>s_len := 0\<rparr>\<rparr>) h))"

text \<open>\<open>rewriteLiterals\<close> between the two calls on the pool.\<close>

definition rewrite_in :: "(nat \<Rightarrow> nat) \<Rightarrow> string \<times> literalValue list \<Rightarrow> nat \<Rightarrow> wsheap \<Rightarrow> rewriteRef \<times> wsheap" where
  "rewrite_in grow = (\<lambda>(sql, lits) w h.
     case pooledRewriteLiterals grow sql lits w h of
       (RefRewritten result (Some v), h') \<Rightarrow>
         (let (s, m) = copy_slice v (strMem h') in (RefRewritten result (Some s), h'\<lparr>strMem := m\<rparr>))
     | x \<Rightarrow> x)"

record resultRef =
  rr_CanonicalSQL :: string
  rr_Values :: "gslice option"
  rr_Hash :: string

definition result_ref :: "string \<Rightarrow> gslice option \<Rightarrow> resultRef" where
  "result_ref canonical vs = \<lparr>rr_CanonicalSQL = canonical, rr_Values = vs, rr_Hash = QueryHash canonical\<rparr>"

text \<open>The part of \<open>ClassifyAndParameterize\<close> between the two calls on the pool.\<close>

definition parameterize_in :: "(nat \<Rightarrow> nat) \<Rightarrow> string \<times> node \<Rightarrow> nat \<Rightarrow> wsheap \<Rightarrow> resultRef option res \<times> wsheap" where
  "parameterize_in grow = (\<lambda>(trimmed, stmt) w h0.
     let h1 = collect_into grow w stmt h0; lits = w_litValues (wsOf h1 w) in
     if s_len lits = 0 then (Ok (Some (result_ref trimmed None)), h1)
     else case pooledRewriteLiterals grow trimmed (view (litMem h1) lits) w h1 of
            (RefNotFound, h2) \<Rightarrow> (Ok None, h2)
          | (RefPanic, h2) \<Rightarrow> (Panic, h2)
          | (RefRewritten canonical values, h2) \<Rightarrow>
              (let (s, m) = (case values of None \<Rightarrow> make_slice [] 0 0 (strMem h2) | Some v \<Rightarrow> copy_slice v (strMem h2))
               in (Ok (Some (result_ref canonical (Some s))), h2\<lparr>strMem := m\<rparr>)))"

text \<open>The part before: either the call returns at once, or it comes to the pool with the trimmed query and its statement.\<close>

definition prologue :: "(string \<Rightarrow> node list option) \<Rightarrow> string \<Rightarrow> (SimpleQueryCommand \<times> resultRef option) + (string \<times> node)" where
  "prologue parse sql0 =
     (let sql = TrimSpace sql0 in
      if sql = [] then Inl (SimpleQueryOther, None)
      else let trimmed = trimStmt sql in
        case parse trimmed of
          None \<Rightarrow> Inl (SimpleQueryOther, None)
        | Some [] \<Rightarrow> Inl (SimpleQueryOther, None)
        | Some (_ # _ # _) \<Rightarrow> Inl (SimpleQueryOther, None)
        | Some [stmt] \<Rightarrow>
            if special_command trimmed stmt \<noteq> SimpleQueryOther then Inl (special_command trimmed stmt, None)
            else if \<not> isDMLStatement stmt then Inl (SimpleQueryOther, None)
            else if containsParam stmt then Inl (SimpleQueryOther, Some (result_ref trimmed None))
            else Inr (trimmed, stmt))"

definition pooledClassify ::
  "(nat \<Rightarrow> nat) \<Rightarrow> (string \<Rightarrow> node list option) \<Rightarrow> nat option \<Rightarrow> string \<Rightarrow> wsheap \<Rightarrow> (SimpleQueryCommand \<times> resultRef option) res \<times> wsheap" where
  "pooledClassify grow parse pick sql h =
     (case prologue parse sql of
        Inl r \<Rightarrow> (Ok r, h)
      | Inr c \<Rightarrow>
          (let (w, h1) = getParamWorkspace pick h; (r, h2) = parameterize_in grow c w h1
           in (map_res (Pair SimpleQueryOther) r, putParamWorkspace w h2)))"

definition pooledRewrite ::
  "(nat \<Rightarrow> nat) \<Rightarrow> nat option \<Rightarrow> string \<Rightarrow> literalValue list \<Rightarrow> wsheap \<Rightarrow> rewriteRef \<times> wsheap" where
  "pooledRewrite grow pick sql lits h =
     (let (w, h1) = getParamWorkspace pick h; (r, h2) = rewrite_in grow (sql, lits) w h1 in (r, putParamWorkspace w h2))"

section \<open>Interleavings\<close>

text \<open>Any number of goroutines between their two calls on the pool: \<open>calls\<close> have their workspace, \<open>rets\<close> have run and
  are about to put it back (the deferred call), \<open>dones\<close> have returned. The runtime may drop an item of the pool at any time.\<close>

definition empty_wsheap :: wsheap where
  "empty_wsheap = \<lparr>litMem = \<lparr>cells = (\<lambda>_. []), m_next = 0\<rparr>, strMem = \<lparr>cells = (\<lambda>_. []), m_next = 0\<rparr>,
     wsOf = (\<lambda>_. \<lparr>w_litValues = \<lparr>s_arr = 0, s_len = 0, s_cap = 0\<rparr>, w_values = \<lparr>s_arr = 0, s_len = 0, s_cap = 0\<rparr>, w_sb = []\<rparr>),
     nextWs = 0, paramWorkspacePool = []\<rparr>"

inductive pool_run ::
  "('c \<Rightarrow> nat \<Rightarrow> wsheap \<Rightarrow> 'r \<times> wsheap) \<Rightarrow> wsheap \<Rightarrow> (nat \<times> 'c) list \<Rightarrow> (nat \<times> 'c \<times> 'r) list \<Rightarrow> ('c \<times> 'r) list \<Rightarrow> bool"
  for body where
  start: "pool_run body empty_wsheap [] [] []"
| get: "pool_run body h calls rets dones \<Longrightarrow> getParamWorkspace pick h = (w, h') \<Longrightarrow> pool_run body h' ((w, c) # calls) rets dones"
| work: "pool_run body h (cs1 @ (w, c) # cs2) rets dones \<Longrightarrow> body c w h = (r, h') \<Longrightarrow>
    pool_run body h' (cs1 @ cs2) ((w, c, r) # rets) dones"
| put: "pool_run body h calls (rs1 @ (w, c, r) # rs2) dones \<Longrightarrow>
    pool_run body (putParamWorkspace w h) calls (rs1 @ rs2) ((c, r) # dones)"
| lose: "pool_run body h calls rets dones \<Longrightarrow> paramWorkspacePool h = ws1 @ w # ws2 \<Longrightarrow>
    pool_run body (h\<lparr>paramWorkspacePool := ws1 @ ws2\<rparr>) calls rets dones"

section \<open>Ownership\<close>

definition slice_ok :: "'a mem \<Rightarrow> gslice \<Rightarrow> bool" where
  "slice_ok m s \<longleftrightarrow> s_len s \<le> s_cap s \<and> s_cap s = length (cells m (s_arr s)) \<and> s_arr s < m_next m"

text \<open>A step on memory that leaves alone every array but \<open>a\<close>, the step's own, and those it makes; \<open>s\<close> is the slice it ends with.\<close>

definition mem_step :: "nat \<Rightarrow> 'a mem \<Rightarrow> gslice \<Rightarrow> 'a mem \<Rightarrow> bool" where
  "mem_step a m s m' \<longleftrightarrow> m_next m \<le> m_next m' \<and> slice_ok m' s \<and> (s_arr s = a \<or> m_next m \<le> s_arr s) \<and>
     (\<forall>b < m_next m. b \<noteq> a \<longrightarrow> cells m' b = cells m b)"

definition owns :: "nat \<Rightarrow> wsheap \<Rightarrow> wsheap \<Rightarrow> bool" where
  "owns w h h' \<longleftrightarrow> nextWs h' = nextWs h \<and> paramWorkspacePool h' = paramWorkspacePool h \<and>
     (\<forall>w'. w' \<noteq> w \<longrightarrow> wsOf h' w' = wsOf h w') \<and>
     mem_step (s_arr (w_litValues (wsOf h w))) (litMem h) (w_litValues (wsOf h' w)) (litMem h') \<and>
     mem_step (s_arr (w_values (wsOf h w))) (strMem h) (w_values (wsOf h' w)) (strMem h')"

definition ws_here :: "wsheap \<Rightarrow> nat \<Rightarrow> bool" where
  "ws_here h w \<longleftrightarrow> slice_ok (litMem h) (w_litValues (wsOf h w)) \<and> slice_ok (strMem h) (w_values (wsOf h w))"

definition clean :: "paramWorkspace \<Rightarrow> bool" where
  "clean x \<longleftrightarrow> s_len (w_litValues x) = 0 \<and> s_len (w_values x) = 0 \<and> w_sb x = []"

lemma mem_step_refl: "slice_ok m s \<Longrightarrow> mem_step (s_arr s) m s m"
  by (simp add: mem_step_def)

lemma mem_step_trans: "mem_step a m s m' \<Longrightarrow> mem_step (s_arr s) m' s' m'' \<Longrightarrow> mem_step a m s' m''"
  unfolding mem_step_def by (metis leD le_trans order_less_le_trans)

lemma owns_refl: "ws_here h w \<Longrightarrow> owns w h h"
  by (simp add: owns_def ws_here_def mem_step_refl)

lemma owns_here: "owns w h h' \<Longrightarrow> ws_here h' w"
  by (simp add: owns_def ws_here_def mem_step_def)

lemma owns_trans: "owns w h h' \<Longrightarrow> owns w h' h'' \<Longrightarrow> owns w h h''"
  unfolding owns_def by (metis mem_step_trans)

lemma alloc_step: "alloc xs m = (a, m') \<Longrightarrow> slice_ok m s \<Longrightarrow> mem_step (s_arr s) m s m'"
  by (auto simp: alloc_def mem_step_def slice_ok_def)

lemma append_one_step:
  assumes "slice_ok m s" and "append_one grow z x (s, m) = (s', m')"
  shows "mem_step (s_arr s) m s' m'" "view m' s' = view m s @ [x]" "s_len s' = Suc (s_len s)"
proof -
  have "mem_step (s_arr s) m s' m' \<and> view m' s' = view m s @ [x] \<and> s_len s' = Suc (s_len s)"
  proof (cases "s_len s < s_cap s")
    case True
    with assms show ?thesis
      by (auto simp: append_one_def mem_step_def slice_ok_def view_def take_Suc_conv_app_nth)
  next
    case False
    with assms show ?thesis
      by (auto simp: append_one_def mem_step_def slice_ok_def view_def alloc_def Let_def)
  qed
  then show "mem_step (s_arr s) m s' m'" "view m' s' = view m s @ [x]" "s_len s' = Suc (s_len s)" by auto
qed

lemma length_view: "slice_ok m s \<Longrightarrow> length (view m s) = s_len s"
  by (simp add: view_def slice_ok_def)

lemma append_lit_owns:
  assumes "ws_here h w"
  shows "owns w h (append_lit grow w lit h)"
    "view (litMem (append_lit grow w lit h)) (w_litValues (wsOf (append_lit grow w lit h) w)) =
       view (litMem h) (w_litValues (wsOf h w)) @ [lit]"
    "w_sb (wsOf (append_lit grow w lit h) w) = w_sb (wsOf h w)"
proof -
  obtain s m where a: "append_one grow zero_literal lit (w_litValues (wsOf h w), litMem h) = (s, m)" by fastforce
  have h: "slice_ok (litMem h) (w_litValues (wsOf h w))" "slice_ok (strMem h) (w_values (wsOf h w))"
    using assms by (auto simp: ws_here_def)
  have e: "append_lit grow w lit h = upd_ws w (\<lambda>x. x\<lparr>w_litValues := s\<rparr>) (h\<lparr>litMem := m\<rparr>)" by (simp add: append_lit_def a)
  show "owns w h (append_lit grow w lit h)"
    using append_one_step(1) [OF h(1) a] mem_step_refl [OF h(2)] by (simp add: e owns_def upd_ws_def)
  show "view (litMem (append_lit grow w lit h)) (w_litValues (wsOf (append_lit grow w lit h) w)) =
       view (litMem h) (w_litValues (wsOf h w)) @ [lit]"
    using append_one_step(2) [OF h(1) a] by (simp add: e upd_ws_def)
  show "w_sb (wsOf (append_lit grow w lit h) w) = w_sb (wsOf h w)" by (simp add: e upd_ws_def)
qed

lemma fold_append_lit:
  "ws_here h w \<Longrightarrow> owns w h (fold (append_lit grow w) lits h) \<and>
     view (litMem (fold (append_lit grow w) lits h)) (w_litValues (wsOf (fold (append_lit grow w) lits h) w)) =
       view (litMem h) (w_litValues (wsOf h w)) @ lits \<and>
     w_sb (wsOf (fold (append_lit grow w) lits h) w) = w_sb (wsOf h w)"
proof (induction lits arbitrary: h)
  case Nil then show ?case by (simp add: owns_refl)
next
  case (Cons lit lits)
  note s = append_lit_owns [OF Cons.prems, of grow lit]
  show ?case using Cons.IH [OF owns_here [OF s(1)]] s by (auto intro: owns_trans)
qed

lemma emit_param_owns:
  assumes "ws_here h w"
  shows "owns w h (emit_param grow w t lit h)"
    "view (strMem (emit_param grow w t lit h)) (w_values (wsOf (emit_param grow w t lit h) w)) =
       view (strMem h) (w_values (wsOf h w)) @ [lvalue lit]"
    "w_sb (wsOf (emit_param grow w t lit h) w) = w_sb (wsOf h w) @ t"
proof -
  obtain s m where a: "append_one grow [] (lvalue lit) (w_values (wsOf h w), strMem h) = (s, m)" by fastforce
  have h: "slice_ok (litMem h) (w_litValues (wsOf h w))" "slice_ok (strMem h) (w_values (wsOf h w))"
    using assms by (auto simp: ws_here_def)
  have e: "emit_param grow w t lit h = upd_ws w (\<lambda>x. x\<lparr>w_sb := w_sb x @ t, w_values := s\<rparr>) (h\<lparr>strMem := m\<rparr>)"
    by (simp add: emit_param_def a)
  show "owns w h (emit_param grow w t lit h)"
    using append_one_step(1) [OF h(2) a] mem_step_refl [OF h(1)] by (simp add: e owns_def upd_ws_def)
  show "view (strMem (emit_param grow w t lit h)) (w_values (wsOf (emit_param grow w t lit h) w)) =
       view (strMem h) (w_values (wsOf h w)) @ [lvalue lit]"
    using append_one_step(2) [OF h(2) a] by (simp add: e upd_ws_def)
  show "w_sb (wsOf (emit_param grow w t lit h) w) = w_sb (wsOf h w) @ t" by (simp add: e upd_ws_def)
qed

text \<open>What a result by reference stands for.\<close>

fun read_rewrite :: "string mem \<Rightarrow> rewriteRef \<Rightarrow> rewrite" where
  "read_rewrite m (RefRewritten sql vs) = Rewritten sql (case vs of None \<Rightarrow> [] | Some s \<Rightarrow> view m s)"
| "read_rewrite m RefNotFound = LiteralNotFound"
| "read_rewrite m RefPanic = RPanic"

fun ref_values :: "rewriteRef \<Rightarrow> gslice option" where
  "ref_values (RefRewritten sql vs) = vs"
| "ref_values _ = None"

lemma owns_sb: "ws_here h w \<Longrightarrow> owns w h (upd_ws w (\<lambda>x. x\<lparr>w_sb := f x\<rparr>) h)"
  by (auto simp: owns_def upd_ws_def ws_here_def intro: mem_step_refl)

lemma owns_trim: "ws_here h w \<Longrightarrow> owns w h (upd_ws w (\<lambda>x. x\<lparr>w_values := (w_values x)\<lparr>s_len := 0\<rparr>\<rparr>) h)"
  by (auto simp: owns_def upd_ws_def ws_here_def mem_step_def slice_ok_def)

lemma rewrite_into_sound:
  "ws_here h w \<Longrightarrow> rewrite_into grow w src pos idx lits h = (r, h') \<Longrightarrow>
     owns w h h' \<and>
     read_rewrite (strMem h') r = rewrite_loop src pos idx (w_sb (wsOf h w)) (view (strMem h) (w_values (wsOf h w))) lits \<and>
     (\<forall>s. ref_values r = Some s \<longrightarrow> s = w_values (wsOf h' w))"
proof (induction lits arbitrary: pos idx h)
  case Nil
  then show ?case by (auto simp: Let_def owns_sb upd_ws_def intro: owns_sb [unfolded upd_ws_def])
next
  case (Cons lit lits)
  show ?case
  proof (cases "findNextLiteral src pos lit")
    case (FoundAt start end')
    let ?t = "take (start - pos) (drop pos src) @ CHR ''$'' # fmt_nat (idx + 1)"
    note e = emit_param_owns [OF Cons.prems(1), of grow ?t lit]
    have "owns w (emit_param grow w ?t lit h) h' \<and>
       read_rewrite (strMem h') r = rewrite_loop src end' (idx + 1) (w_sb (wsOf h w) @ ?t)
          (view (strMem h) (w_values (wsOf h w)) @ [lvalue lit]) lits \<and>
       (\<forall>s. ref_values r = Some s \<longrightarrow> s = w_values (wsOf h' w))"
      using Cons.IH [OF owns_here [OF e(1)], of end' "idx + 1"] Cons.prems(2) FoundAt e(2,3) by simp
    then show ?thesis using FoundAt owns_trans [OF e(1)] by simp
  qed (use Cons.prems in \<open>auto intro: owns_refl\<close>)
qed

lemma pooledRewriteLiterals_sound:
  assumes "ws_here h w" and "w_sb (wsOf h w) = []" and "pooledRewriteLiterals grow sql lits w h = (r, h')"
  shows "owns w h h'" "read_rewrite (strMem h') r = rewriteLiteralsWS sql lits"
    "\<And>s. ref_values r = Some s \<Longrightarrow> s = w_values (wsOf h' w)"
proof -
  let ?h = "upd_ws w (\<lambda>x. x\<lparr>w_values := (w_values x)\<lparr>s_len := 0\<rparr>\<rparr>) h"
  note t = owns_trim [OF assms(1)]
  have "owns w h h' \<and> read_rewrite (strMem h') r = rewriteLiteralsWS sql lits \<and>
     (\<forall>s. ref_values r = Some s \<longrightarrow> s = w_values (wsOf h' w))"
  proof (cases "lits = []")
    case True
    then show ?thesis using assms by (auto simp: pooledRewriteLiterals_def rewriteLiteralsWS_def owns_refl)
  next
    case False
    then have "rewrite_into grow w sql 0 0 lits ?h = (r, h')" using assms(3) by (simp add: pooledRewriteLiterals_def)
    from rewrite_into_sound [OF owns_here [OF t] this] show ?thesis
      using False assms(2) owns_trans [OF t] by (auto simp: rewriteLiteralsWS_def upd_ws_def view_def)
  qed
  then show "owns w h h'" "read_rewrite (strMem h') r = rewriteLiteralsWS sql lits"
    "\<And>s. ref_values r = Some s \<Longrightarrow> s = w_values (wsOf h' w)" by auto
qed

text \<open>A slice that escapes: none of the workspace's own, made by this very call.\<close>

definition escapes :: "nat \<Rightarrow> wsheap \<Rightarrow> gslice \<Rightarrow> wsheap \<Rightarrow> bool" where
  "escapes w h s h' \<longleftrightarrow> slice_ok (strMem h') s \<and> m_next (strMem h) \<le> s_arr s \<and> s_arr s \<noteq> s_arr (w_values (wsOf h' w))"

lemma alloc_escapes:
  assumes "owns w h h'" and "alloc xs (strMem h') = (a, m)" and "s = \<lparr>s_arr = a, s_len = length xs, s_cap = length xs\<rparr>"
  shows "owns w h (h'\<lparr>strMem := m\<rparr>)" "escapes w h s (h'\<lparr>strMem := m\<rparr>)" "view m s = xs"
proof -
  have here: "ws_here h' w" using owns_here [OF assms(1)] .
  have "owns w h' (h'\<lparr>strMem := m\<rparr>)"
    using here alloc_step [OF assms(2)] by (auto simp: owns_def ws_here_def intro: mem_step_refl)
  from owns_trans [OF assms(1) this] show "owns w h (h'\<lparr>strMem := m\<rparr>)" .
  show "escapes w h s (h'\<lparr>strMem := m\<rparr>)" "view m s = xs"
    using here assms by (auto simp: escapes_def alloc_def slice_ok_def ws_here_def owns_def mem_step_def view_def)
qed

lemma copy_escapes:
  assumes "owns w h h'" and "copy_slice v (strMem h') = (s, m)" and "slice_ok (strMem h') v"
  shows "owns w h (h'\<lparr>strMem := m\<rparr>)" "escapes w h s (h'\<lparr>strMem := m\<rparr>)" "view m s = view (strMem h') v"
proof -
  obtain a where "alloc (view (strMem h') v) (strMem h') = (a, m)" "s = \<lparr>s_arr = a, s_len = s_len v, s_cap = s_len v\<rparr>"
    using assms(2) by (auto simp: copy_slice_def split: prod.splits)
  with alloc_escapes [OF assms(1) this(1)] length_view [OF assms(3)]
  show "owns w h (h'\<lparr>strMem := m\<rparr>)" "escapes w h s (h'\<lparr>strMem := m\<rparr>)" "view m s = view (strMem h') v" by auto
qed

lemma make_escapes:
  assumes "owns w h h'" and "make_slice [] 0 0 (strMem h') = (s, m)"
  shows "owns w h (h'\<lparr>strMem := m\<rparr>)" "escapes w h s (h'\<lparr>strMem := m\<rparr>)" "view m s = []"
proof -
  obtain a where "alloc [] (strMem h') = (a, m)" "s = \<lparr>s_arr = a, s_len = 0, s_cap = 0\<rparr>"
    using assms(2) by (auto simp: make_slice_def split: prod.splits)
  with alloc_escapes [OF assms(1) this(1)]
  show "owns w h (h'\<lparr>strMem := m\<rparr>)" "escapes w h s (h'\<lparr>strMem := m\<rparr>)" "view m s = []" by auto
qed

text \<open>No array in two workspaces; no workspace in two places, pooled workspaces and those just taken are clean.\<close>

definition apart :: "wsheap \<Rightarrow> bool" where
  "apart h \<longleftrightarrow> (\<forall>w < nextWs h. ws_here h w) \<and>
     (\<forall>w < nextWs h. \<forall>w' < nextWs h. w \<noteq> w' \<longrightarrow>
        s_arr (w_litValues (wsOf h w)) \<noteq> s_arr (w_litValues (wsOf h w')) \<and> s_arr (w_values (wsOf h w)) \<noteq> s_arr (w_values (wsOf h w')))"

definition disciplined :: "wsheap \<Rightarrow> nat list \<Rightarrow> nat list \<Rightarrow> bool" where
  "disciplined h taken used \<longleftrightarrow> apart h \<and>
     distinct (paramWorkspacePool h @ taken @ used) \<and>
     (\<forall>w \<in> set (paramWorkspacePool h @ taken @ used). w < nextWs h) \<and>
     (\<forall>w \<in> set (paramWorkspacePool h @ taken). clean (wsOf h w))"

lemma apart_owns:
  assumes a: "apart h" and o: "owns w h h'" and w: "w < nextWs h"
  shows "apart h'"
proof -
  have same: "wsOf h' w' = wsOf h w'" if "w' \<noteq> w" for w' using o that by (auto simp: owns_def)
  have here: "ws_here h' w'" if "w' < nextWs h" for w'
  proof (cases "w' = w")
    case True then show ?thesis using owns_here [OF o] by simp
  next
    case False
    have "ws_here h w'" "s_arr (w_litValues (wsOf h w)) \<noteq> s_arr (w_litValues (wsOf h w'))" "s_arr (w_values (wsOf h w)) \<noteq> s_arr (w_values (wsOf h w'))"
      using a that w False by (auto simp: apart_def)
    then show ?thesis using o same [OF False] by (auto simp: owns_def mem_step_def ws_here_def slice_ok_def)
  qed
  have "s_arr (w_litValues (wsOf h' x)) \<noteq> s_arr (w_litValues (wsOf h' y)) \<and> s_arr (w_values (wsOf h' x)) \<noteq> s_arr (w_values (wsOf h' y))"
    if "x < nextWs h" "y < nextWs h" "x \<noteq> y" for x y
  proof -
    have old: "s_arr (w_litValues (wsOf h z)) < m_next (litMem h)" "s_arr (w_values (wsOf h z)) < m_next (strMem h)" if "z < nextWs h" for z
      using a that by (auto simp: apart_def ws_here_def slice_ok_def)
    have ne: "s_arr (w_litValues (wsOf h x)) \<noteq> s_arr (w_litValues (wsOf h y))" "s_arr (w_values (wsOf h x)) \<noteq> s_arr (w_values (wsOf h y))"
      using a that by (auto simp: apart_def)
    have w': "s_arr (w_litValues (wsOf h' w)) = s_arr (w_litValues (wsOf h w)) \<or> m_next (litMem h) \<le> s_arr (w_litValues (wsOf h' w))"
      "s_arr (w_values (wsOf h' w)) = s_arr (w_values (wsOf h w)) \<or> m_next (strMem h) \<le> s_arr (w_values (wsOf h' w))"
      using o by (auto simp: owns_def mem_step_def)
    show ?thesis using same [of x] same [of y] old [of x] old [of y] ne w' that by (cases "x = w"; cases "y = w") auto
  qed
  moreover have "nextWs h' = nextWs h" using o by (simp add: owns_def)
  ultimately show ?thesis using here by (simp add: apart_def)
qed

lemma disciplined_work:
  assumes d: "disciplined h (f1 @ w # f2) used" and o: "owns w h h'"
  shows "disciplined h' (f1 @ f2) (w # used)"
proof -
  have w: "w < nextWs h" using d by (simp add: disciplined_def)
  have "wsOf h' w' = wsOf h w'" if "w' \<in> set (paramWorkspacePool h @ f1 @ f2)" for w'
    using d o that by (auto simp: disciplined_def owns_def)
  then show ?thesis
    using d o apart_owns [OF _ o w] by (auto simp: disciplined_def owns_def)
qed

lemma owns_reset: "ws_here h w \<Longrightarrow> owns w h (upd_ws w reset_ws h)"
  by (auto simp: owns_def upd_ws_def ws_here_def reset_ws_def mem_step_def slice_ok_def)

lemma disciplined_put:
  assumes d: "disciplined h taken (u1 @ w # u2)"
  shows "disciplined (putParamWorkspace w h) taken (u1 @ u2)"
proof -
  let ?h = "upd_ws w reset_ws h"
  have w: "w < nextWs h" "ws_here h w" using d by (auto simp: disciplined_def apart_def)
  have a: "apart ?h" using apart_owns [OF _ owns_reset [OF w(2)] w(1)] d by (simp add: disciplined_def)
  have n: "nextWs ?h = nextWs h" "paramWorkspacePool ?h = paramWorkspacePool h" "litMem ?h = litMem h" "strMem ?h = strMem h"
    by (simp_all add: upd_ws_def)
  have c: "clean (wsOf ?h w)" "w' \<noteq> w \<Longrightarrow> wsOf ?h w' = wsOf h w'" for w' by (auto simp: upd_ws_def reset_ws_def clean_def)
  have "apart (putParamWorkspace w h)" using a by (simp add: putParamWorkspace_def apart_def ws_here_def)
  moreover have "wsOf (putParamWorkspace w h) = wsOf ?h" "nextWs (putParamWorkspace w h) = nextWs h"
    "paramWorkspacePool (putParamWorkspace w h) = w # paramWorkspacePool h" by (simp_all add: putParamWorkspace_def upd_ws_def)
  ultimately show ?thesis using d c by (fastforce simp: disciplined_def)
qed

lemma disciplined_lose:
  assumes "disciplined h taken used" and "paramWorkspacePool h = ws1 @ w # ws2"
  shows "disciplined (h\<lparr>paramWorkspacePool := ws1 @ ws2\<rparr>) taken used"
  using assms by (auto simp: disciplined_def apart_def ws_here_def)

lemma disciplined_pick:
  assumes d: "disciplined h taken used" and "i < length (paramWorkspacePool h)"
  shows "disciplined (h\<lparr>paramWorkspacePool := take i (paramWorkspacePool h) @ drop (Suc i) (paramWorkspacePool h)\<rparr>)
    (paramWorkspacePool h ! i # taken) used"
proof -
  define xs where "xs = take i (paramWorkspacePool h)"
  define y where "y = paramWorkspacePool h ! i"
  define zs where "zs = drop (Suc i) (paramWorkspacePool h)"
  have "paramWorkspacePool h = xs @ y # zs" unfolding xs_def y_def zs_def using assms(2) by (simp add: id_take_nth_drop [symmetric])
  with d show ?thesis
    unfolding xs_def [symmetric] y_def [symmetric] zs_def [symmetric] by (auto simp: disciplined_def apart_def ws_here_def)
qed

lemma new_workspace_frame:
  assumes "apart h" and "new_workspace h = (w, h')"
  shows "apart h'" "w = nextWs h" "nextWs h' = Suc (nextWs h)" "clean (wsOf h' w)" "paramWorkspacePool h' = paramWorkspacePool h"
    "\<And>w'. w' < nextWs h \<Longrightarrow> wsOf h' w' = wsOf h w'" "\<And>a. a < m_next (strMem h) \<Longrightarrow> cells (strMem h') a = cells (strMem h) a"
    "m_next (strMem h') = Suc (m_next (strMem h))" "s_arr (w_values (wsOf h' w)) = m_next (strMem h)"
proof -
  show b: "w = nextWs h" "nextWs h' = Suc (nextWs h)" "clean (wsOf h' w)" "paramWorkspacePool h' = paramWorkspacePool h"
    "\<And>w'. w' < nextWs h \<Longrightarrow> wsOf h' w' = wsOf h w'" "\<And>a. a < m_next (strMem h) \<Longrightarrow> cells (strMem h') a = cells (strMem h) a"
    "m_next (strMem h') = Suc (m_next (strMem h))" "s_arr (w_values (wsOf h' w)) = m_next (strMem h)"
    using assms(2) by (auto simp: new_workspace_def make_slice_def alloc_def Let_def clean_def)
  have l: "m_next (litMem h') = Suc (m_next (litMem h))" "s_arr (w_litValues (wsOf h' w)) = m_next (litMem h)"
    "\<And>a. a < m_next (litMem h) \<Longrightarrow> cells (litMem h') a = cells (litMem h) a" "ws_here h' w"
    using assms(2) by (auto simp: new_workspace_def make_slice_def alloc_def Let_def ws_here_def slice_ok_def)
  have old: "s_arr (w_litValues (wsOf h x)) < m_next (litMem h)" "s_arr (w_values (wsOf h x)) < m_next (strMem h)" "ws_here h x" if "x < nextWs h" for x
    using assms(1) that by (auto simp: apart_def ws_here_def slice_ok_def)
  have here: "ws_here h' x" if "x < nextWs h" for x
    using old [OF that] b l that by (auto simp: ws_here_def slice_ok_def)
  have "s_arr (w_litValues (wsOf h' x)) \<noteq> s_arr (w_litValues (wsOf h' y)) \<and> s_arr (w_values (wsOf h' x)) \<noteq> s_arr (w_values (wsOf h' y))"
    if "x \<le> nextWs h" "y \<le> nextWs h" "x \<noteq> y" for x y
  proof -
    have z: "z = w \<or> z < nextWs h" if "z \<le> nextWs h" for z using that b(1) by auto
    have ne: "s_arr (w_litValues (wsOf h x)) \<noteq> s_arr (w_litValues (wsOf h y))" "s_arr (w_values (wsOf h x)) \<noteq> s_arr (w_values (wsOf h y))"
      if "x < nextWs h" "y < nextWs h" using assms(1) that \<open>x \<noteq> y\<close> by (auto simp: apart_def)
    show ?thesis using z [OF that(1)] z [OF that(2)] old [of x] old [of y] b l ne \<open>x \<noteq> y\<close> by (elim disjE) auto
  qed
  then show "apart h'" using here l(4) b(1,2) by (auto simp: apart_def less_Suc_eq_le le_less)
qed

lemma disciplined_get:
  assumes d: "disciplined h taken used" and g: "getParamWorkspace pick h = (w, h')"
  shows "disciplined h' (w # taken) used"
proof (cases "\<exists>i. pick = Some i \<and> i < length (paramWorkspacePool h)")
  case True
  then show ?thesis using disciplined_pick [OF d] g by (auto simp: getParamWorkspace_def)
next
  case False
  then have n: "new_workspace h = (w, h')" using g by (auto simp: getParamWorkspace_def split: option.splits)
  have a: "apart h" using d by (simp add: disciplined_def)
  note f = new_workspace_frame [OF a n]
  have "\<forall>w' \<in> set (paramWorkspacePool h @ taken @ used). w' < nextWs h \<and> wsOf h' w' = wsOf h w'" using d f(6) by (auto simp: disciplined_def)
  then show ?thesis using d f(1-5) by (auto simp: disciplined_def less_Suc_eq)
qed

section \<open>Every client of the pool\<close>

text \<open>What the pool asks of a call that runs on a workspace, and what follows for any interleaving of such calls.\<close>

locale pooled_call =
  fixes body :: "'c \<Rightarrow> nat \<Rightarrow> wsheap \<Rightarrow> 'r \<times> wsheap"
    and out :: "'r \<Rightarrow> gslice option"
    and read :: "string mem \<Rightarrow> 'r \<Rightarrow> 'b"
    and spec :: "'c \<Rightarrow> 'b"
  assumes body_owns: "ws_here h w \<Longrightarrow> clean (wsOf h w) \<Longrightarrow> body c w h = (r, h') \<Longrightarrow> owns w h h'"
    and body_reads: "ws_here h w \<Longrightarrow> clean (wsOf h w) \<Longrightarrow> body c w h = (r, h') \<Longrightarrow> read (strMem h') r = spec c"
    and body_escapes: "ws_here h w \<Longrightarrow> clean (wsOf h w) \<Longrightarrow> body c w h = (r, h') \<Longrightarrow> out r = Some s \<Longrightarrow> escapes w h s h'"
    and read_view: "(\<And>s. out r = Some s \<Longrightarrow> view m' s = view m s) \<Longrightarrow> read m' r = read m r"
begin

definition settled :: "wsheap \<Rightarrow> 'c \<Rightarrow> 'r \<Rightarrow> bool" where
  "settled h c r \<longleftrightarrow> read (strMem h) r = spec c \<and>
     (\<forall>s. out r = Some s \<longrightarrow> slice_ok (strMem h) s \<and> (\<forall>w < nextWs h. s_arr (w_values (wsOf h w)) \<noteq> s_arr s))"

definition pool_inv :: "wsheap \<Rightarrow> (nat \<times> 'c) list \<Rightarrow> (nat \<times> 'c \<times> 'r) list \<Rightarrow> ('c \<times> 'r) list \<Rightarrow> bool" where
  "pool_inv h calls rets dones \<longleftrightarrow> disciplined h (map fst calls) (map fst rets) \<and>
     (\<forall>(w, c, r) \<in> set rets. settled h c r) \<and> (\<forall>(c, r) \<in> set dones. settled h c r)"

lemma settled_frame:
  assumes "settled h c r" "\<And>s. out r = Some s \<Longrightarrow> cells (strMem h') (s_arr s) = cells (strMem h) (s_arr s)"
    and "\<And>s w. out r = Some s \<Longrightarrow> w < nextWs h' \<Longrightarrow> s_arr (w_values (wsOf h' w)) \<noteq> s_arr s"
    and "m_next (strMem h) \<le> m_next (strMem h')"
  shows "settled h' c r"
proof -
  have "read (strMem h') r = read (strMem h) r" using assms(2) by (intro read_view) (simp add: view_def)
  then show ?thesis using assms by (fastforce simp: settled_def slice_ok_def)
qed

lemma settled_owns:
  assumes "settled h c r" and "owns w h h'" and "w < nextWs h"
  shows "settled h' c r"
proof (rule settled_frame [OF assms(1)])
  have n: "nextWs h' = nextWs h" using assms(2) by (simp add: owns_def)
  show "m_next (strMem h) \<le> m_next (strMem h')" using assms(2) by (auto simp: owns_def mem_step_def)
  fix s assume s: "out r = Some s"
  then have o: "slice_ok (strMem h) s" "\<forall>w < nextWs h. s_arr (w_values (wsOf h w)) \<noteq> s_arr s" using assms(1) by (auto simp: settled_def)
  then have "s_arr s < m_next (strMem h)" "s_arr s \<noteq> s_arr (w_values (wsOf h w))" using assms(3) by (auto simp: slice_ok_def)
  then show "cells (strMem h') (s_arr s) = cells (strMem h) (s_arr s)" using assms(2) by (auto simp: owns_def mem_step_def)
  fix w' assume "w' < nextWs h'"
  with n o assms(2) show "s_arr (w_values (wsOf h' w')) \<noteq> s_arr s"
    unfolding owns_def mem_step_def slice_ok_def by (metis leD)
qed

lemma settled_get:
  assumes "settled h c r" and "apart h" and "getParamWorkspace pick h = (w, h')"
  shows "settled h' c r"
proof (cases "\<exists>i. pick = Some i \<and> i < length (paramWorkspacePool h)")
  case True
  then show ?thesis using assms(1,3) by (intro settled_frame [OF assms(1)]) (auto simp: getParamWorkspace_def settled_def)
next
  case False
  then have n: "new_workspace h = (w, h')" using assms(3) by (auto simp: getParamWorkspace_def split: option.splits)
  note f = new_workspace_frame [OF assms(2) n]
  show ?thesis
  proof (rule settled_frame [OF assms(1)])
    fix s assume "out r = Some s"
    then have s: "s_arr s < m_next (strMem h)" "\<forall>w < nextWs h. s_arr (w_values (wsOf h w)) \<noteq> s_arr s"
      using assms(1) by (auto simp: settled_def slice_ok_def)
    show "cells (strMem h') (s_arr s) = cells (strMem h) (s_arr s)" using f(7) s by simp
    fix w' assume "w' < nextWs h'"
    then show "s_arr (w_values (wsOf h' w')) \<noteq> s_arr s"
      using s f(2,3,6,9) by (cases "w' = w") auto
  qed (use f(8) in simp)
qed

theorem interleaved: "pool_run body h calls rets dones \<Longrightarrow> pool_inv h calls rets dones"
proof (induction rule: pool_run.induct)
  case start
  show ?case by (simp add: pool_inv_def disciplined_def apart_def empty_wsheap_def)
next
  case (get h calls rets dones pick w h' c)
  then have "apart h" by (simp add: pool_inv_def disciplined_def)
  then show ?case
    using get disciplined_get [OF _ get.hyps(2)] settled_get [OF _ _ get.hyps(2)] by (fastforce simp: pool_inv_def)
next
  case (work h cs1 w c cs2 rets dones r h')
  have d: "disciplined h (map fst cs1 @ w # map fst cs2) (map fst rets)" using work.IH by (simp add: pool_inv_def)
  then have w: "w < nextWs h" "ws_here h w" "clean (wsOf h w)" by (auto simp: disciplined_def apart_def)
  note o = body_owns [OF w(2,3) work.hyps(2)]
  have "settled h' c r"
  proof -
    have "slice_ok (strMem h') s \<and> (\<forall>w' < nextWs h'. s_arr (w_values (wsOf h' w')) \<noteq> s_arr s)" if "out r = Some s" for s
    proof -
      have e: "slice_ok (strMem h') s" "m_next (strMem h) \<le> s_arr s" "s_arr s \<noteq> s_arr (w_values (wsOf h' w))"
        using body_escapes [OF w(2,3) work.hyps(2) that] by (auto simp: escapes_def)
      have "s_arr (w_values (wsOf h' w')) < m_next (strMem h)" if "w' < nextWs h'" "w' \<noteq> w" for w'
        using that o d by (auto simp: owns_def disciplined_def apart_def ws_here_def slice_ok_def)
      with e show ?thesis by (metis leD)
    qed
    then show ?thesis using body_reads [OF w(2,3) work.hyps(2)] by (simp add: settled_def)
  qed
  then show ?case
    using work.IH disciplined_work [OF d o] settled_owns [OF _ o w(1)] by (fastforce simp: pool_inv_def)
next
  case (put h calls rs1 w c r rs2 dones)
  have d: "disciplined h (map fst calls) (map fst rs1 @ w # map fst rs2)" using put.IH by (simp add: pool_inv_def)
  then have w: "w < nextWs h" "ws_here h w" by (auto simp: disciplined_def apart_def)
  have "settled (putParamWorkspace w h) c' r'" if "settled h c' r'" for c' r'
    using settled_owns [OF that owns_reset [OF w(2)] w(1)] by (simp add: settled_def putParamWorkspace_def)
  then show ?case using put.IH disciplined_put [OF d] by (fastforce simp: pool_inv_def)
next
  case (lose h calls rets dones ws1 w ws2)
  then show ?case using disciplined_lose [OF _ lose.hyps(2)] by (fastforce simp: pool_inv_def settled_def)
qed

lemma finished_reads: "pool_run body h calls rets dones \<Longrightarrow> (c, r) \<in> set dones \<Longrightarrow> read (strMem h) r = spec c"
  using interleaved by (fastforce simp: pool_inv_def settled_def)

lemma owners_distinct: "pool_run body h calls rets dones \<Longrightarrow> distinct (paramWorkspacePool h @ map fst calls @ map fst rets)"
  using interleaved by (auto simp: pool_inv_def disciplined_def)

end

section \<open>The two clients\<close>

lemma rewrite_in_sound:
  assumes "ws_here h w" and "clean (wsOf h w)" and "rewrite_in grow c w h = (r, h')"
  shows "owns w h h'" "read_rewrite (strMem h') r = (case c of (sql, lits) \<Rightarrow> rewriteLiteralsWS sql lits)"
    "ref_values r = Some s \<Longrightarrow> escapes w h s h'"
proof -
  obtain sql lits where c: "c = (sql, lits)" by fastforce
  obtain r1 h1 where p: "pooledRewriteLiterals grow sql lits w h = (r1, h1)" by fastforce
  note q = pooledRewriteLiterals_sound [OF assms(1) _ p]
  have sb: "w_sb (wsOf h w) = []" using assms(2) by (simp add: clean_def)
  have "owns w h h' \<and> read_rewrite (strMem h') r = rewriteLiteralsWS sql lits \<and> (\<forall>s. ref_values r = Some s \<longrightarrow> escapes w h s h')"
  proof (cases "ref_values r1")
    case None
    then have "r = r1" "h' = h1" using assms(3) c p by (cases r1; auto simp: rewrite_in_def)+
    then show ?thesis using q [OF sb] None by simp
  next
    case (Some v)
    then obtain canon where r1: "r1 = RefRewritten canon (Some v)" by (cases r1) auto
    obtain s m where cp: "copy_slice v (strMem h1) = (s, m)" by fastforce
    have v: "slice_ok (strMem h1) v" using q(3) [OF sb Some] owns_here [OF q(1) [OF sb]] by (simp add: ws_here_def)
    have "r = RefRewritten canon (Some s)" "h' = h1\<lparr>strMem := m\<rparr>" using assms(3) c p r1 cp by (auto simp: rewrite_in_def)
    then show ?thesis using copy_escapes [OF q(1) [OF sb] cp v] q(2) [OF sb] r1 by auto
  qed
  then show "owns w h h'" "read_rewrite (strMem h') r = (case c of (sql, lits) \<Rightarrow> rewriteLiteralsWS sql lits)"
    "ref_values r = Some s \<Longrightarrow> escapes w h s h'" by (auto simp: c)
qed

lemma read_rewrite_view: "(\<And>s. ref_values r = Some s \<Longrightarrow> view m' s = view m s) \<Longrightarrow> read_rewrite m' r = read_rewrite m r"
  by (cases r) (auto split: option.splits)

definition read_result :: "string mem \<Rightarrow> resultRef \<Rightarrow> ParameterizeResult" where
  "read_result m r = \<lparr>CanonicalSQL = rr_CanonicalSQL r, Values = (case rr_Values r of None \<Rightarrow> [] | Some s \<Rightarrow> view m s), Hash = rr_Hash r\<rparr>"

fun result_values :: "resultRef option res \<Rightarrow> gslice option" where
  "result_values (Ok (Some r)) = rr_Values r"
| "result_values _ = None"

definition read_call :: "string mem \<Rightarrow> resultRef option res \<Rightarrow> ParameterizeResult option res" where
  "read_call m r = map_res (map_option (read_result m)) r"

text \<open>\<open>ClassifyAndParameterize\<close> without the pool, from the point where it would take a workspace.\<close>

definition parameterize_stmt :: "string \<times> node \<Rightarrow> ParameterizeResult option res" where
  "parameterize_stmt = (\<lambda>(trimmed, stmt).
     let litValues = collectLiterals stmt False in
     if length litValues = 0 then Ok (Some (parameterize trimmed []))
     else case rewriteLiteralsWS trimmed litValues of
            LiteralNotFound \<Rightarrow> Ok None
          | RPanic \<Rightarrow> Panic
          | Rewritten canonical vs \<Rightarrow> Ok (Some (parameterize canonical vs)))"

lemma classify_prologue:
  "ClassifyAndParameterize parse sql =
     (case prologue parse sql of
        Inl (cmd, r) \<Rightarrow> Ok (cmd, map_option (read_result m) r)
      | Inr c \<Rightarrow> map_res (Pair SimpleQueryOther) (parameterize_stmt c))"
  by (auto simp: ClassifyAndParameterize_def prologue_def parameterize_stmt_def Let_def read_result_def result_ref_def parameterize_def
      split: option.splits list.splits rewrite.splits)

lemma read_call_view: "(\<And>s. result_values r = Some s \<Longrightarrow> view m' s = view m s) \<Longrightarrow> read_call m' r = read_call m r"
  by (cases r rule: result_values.cases) (auto simp: read_call_def read_result_def split: option.splits)

lemma parameterize_in_sound:
  assumes "ws_here h w" and "clean (wsOf h w)" and "parameterize_in grow c w h = (r, h')"
  shows "owns w h h'" "read_call (strMem h') r = parameterize_stmt c" "result_values r = Some s \<Longrightarrow> escapes w h s h'"
proof -
  obtain trimmed stmt where c: "c = (trimmed, stmt)" by fastforce
  let ?lits = "collectLiterals stmt False"
  define h1 where "h1 = collect_into grow w stmt h"
  have v0: "view (litMem h) (w_litValues (wsOf h w)) = []" using assms(2) by (simp add: clean_def view_def)
  have o1: "owns w h h1" and lits: "view (litMem h1) (w_litValues (wsOf h1 w)) = ?lits" and sb: "w_sb (wsOf h1 w) = []"
    using fold_append_lit [OF assms(1), of grow ?lits] v0 assms(2) by (auto simp: h1_def collect_into_def clean_def)
  note here = owns_here [OF o1]
  have len: "s_len (w_litValues (wsOf h1 w)) = length ?lits" using lits length_view [of "litMem h1"] here by (simp add: ws_here_def flip: lits)
  obtain r1 h2 where p: "pooledRewriteLiterals grow trimmed ?lits w h1 = (r1, h2)" by fastforce
  note q = pooledRewriteLiterals_sound [OF here sb p]
  note o2 = owns_trans [OF o1 q(1)]
  have "owns w h h' \<and> read_call (strMem h') r = parameterize_stmt c \<and> (\<forall>s. result_values r = Some s \<longrightarrow> escapes w h s h')"
  proof (cases "?lits = []")
    case True
    then show ?thesis using assms(3) o1 len
      by (auto simp: c parameterize_in_def Let_def h1_def [symmetric] parameterize_stmt_def read_call_def read_result_def result_ref_def parameterize_def)
  next
    case False
    show ?thesis
    proof (cases r1)
      case (RefRewritten canon vs)
      obtain s m where cp: "(case vs of None \<Rightarrow> make_slice [] 0 0 (strMem h2) | Some v \<Rightarrow> copy_slice v (strMem h2)) = (s, m)" by fastforce
      have e: "r = Ok (Some (result_ref canon (Some s)))" "h' = h2\<lparr>strMem := m\<rparr>"
        using assms(3) False len lits p RefRewritten cp by (auto simp: c parameterize_in_def Let_def h1_def [symmetric])
      have "owns w h h' \<and> escapes w h s h' \<and> view m s = (case vs of None \<Rightarrow> [] | Some v \<Rightarrow> view (strMem h2) v)"
      proof (cases vs)
        case None
        then show ?thesis using make_escapes [OF o2, of s m] cp e(2) by simp
      next
        case (Some v)
        then have "slice_ok (strMem h2) v" using q(3) RefRewritten owns_here [OF q(1)] by (simp add: ws_here_def)
        then show ?thesis using copy_escapes [OF o2, of v s m] cp e(2) Some by simp
      qed
      then show ?thesis
        using q(2) [symmetric] False RefRewritten e
        by (auto simp: c parameterize_stmt_def read_call_def read_result_def result_ref_def parameterize_def)
    qed (use assms(3) False len lits p q(2) o2 in \<open>auto simp: c parameterize_in_def Let_def h1_def [symmetric] parameterize_stmt_def read_call_def split: rewrite.splits\<close>)
  qed
  then show "owns w h h'" "read_call (strMem h') r = parameterize_stmt c" "result_values r = Some s \<Longrightarrow> escapes w h s h'" by auto
qed

interpretation rw: pooled_call "rewrite_in grow" ref_values read_rewrite "\<lambda>(sql, lits). rewriteLiteralsWS sql lits"
proof
  show "read_rewrite m' r = read_rewrite m r" if "\<And>s. ref_values r = Some s \<Longrightarrow> view m' s = view m s" for m m' r
    using that by (rule read_rewrite_view)
qed (erule (2) rewrite_in_sound, assumption?)+

interpretation cp: pooled_call "parameterize_in grow" result_values read_call parameterize_stmt
proof
  show "read_call m' r = read_call m r" if "\<And>s. result_values r = Some s \<Longrightarrow> view m' s = view m s" for m m' r
    using that by (rule read_call_view)
qed (erule (2) parameterize_in_sound, assumption?)+

text \<open>A whole call is the three steps of a run, whatever other calls are under way.\<close>

lemma pooledClassify_run:
  assumes "pool_run (parameterize_in grow) h calls rets dones" and "pooledClassify grow parse pick sql h = (r, h')"
    and "prologue parse sql = Inr c"
  obtains r' where "r = map_res (Pair SimpleQueryOther) r'" "pool_run (parameterize_in grow) h' calls rets ((c, r') # dones)"
proof -
  obtain w h1 where g: "getParamWorkspace pick h = (w, h1)" by fastforce
  obtain r' h2 where b: "parameterize_in grow c w h1 = (r', h2)" by fastforce
  have "pool_run (parameterize_in grow) h1 ([] @ (w, c) # calls) rets dones" using pool_run.get [OF assms(1) g] by simp
  then have "pool_run (parameterize_in grow) h2 calls ([] @ (w, c, r') # rets) dones" using pool_run.work b by fastforce
  then have "pool_run (parameterize_in grow) (putParamWorkspace w h2) calls rets ((c, r') # dones)" using pool_run.put by fastforce
  then show ?thesis using that assms(2,3) g b by (auto simp: pooledClassify_def)
qed

text \<open>C8: The pooled workspaces are invisible. However the calls of \<open>ClassifyAndParameterize\<close> that use one are interleaved, whatever
  the runtime takes from the pool or drops, and however \<open>append\<close> grows its arrays: every result that was ever returned reads, now and
  after all later calls, as the result of the function without any pool, although the values were built in an array that other
  queries overwrite; and no two calls under way share a workspace.\<close>

theorem workspaces_invisible:
  assumes "pool_run (parameterize_in grow) h calls rets dones"
  shows "(\<forall>parse sql c r. prologue parse sql = Inr c \<longrightarrow> (c, r) \<in> set dones \<longrightarrow>
      map_res (Pair SimpleQueryOther) (read_call (strMem h) r) = ClassifyAndParameterize parse sql) \<and>
    distinct (paramWorkspacePool h @ map fst calls @ map fst rets)"
  using cp.finished_reads [OF assms] cp.owners_distinct [OF assms] by (auto simp: classify_prologue [where m = "strMem h"])

lemma demo_prologue:
  "prologue demo_parse '' SELECT x FROM t WHERE n = 42; '' = Inr (''SELECT x FROM t WHERE n = 42'',
     SelectStmt [ResTarget (Some OtherNode)] [OtherNode]
       (Some (A_Expr (Some OtherNode) (Some (A_Const False (Integer 42))))) [] None [] None None None None)"
  by (simp add: prologue_def Let_def demo_trims demo_parse_def special_command_def demo_not_notify)

theorem workspaces_invisible_witness:
  "\<exists>h c r r'. pool_run (parameterize_in (\<lambda>n. 2 * n)) h [] [] [(c, r'), (c, r)] \<and>
     read_call (strMem h) r = Ok (Some (parameterize ''SELECT x FROM t WHERE n = $1'' [''42'']))"
proof -
  let ?sql = "'' SELECT x FROM t WHERE n = 42; ''" and ?g = "\<lambda>n::nat. 2 * n"
  obtain c where c: "prologue demo_parse ?sql = Inr c" using demo_prologue by blast
  obtain x1 h1 where 1: "pooledClassify ?g demo_parse None ?sql empty_wsheap = (x1, h1)" by fastforce
  obtain r where r: "pool_run (parameterize_in ?g) h1 [] [] [(c, r)]" using pooledClassify_run [OF pool_run.start 1 c] by blast
  obtain x2 h2 where 2: "pooledClassify ?g demo_parse (Some 0) ?sql h1 = (x2, h2)" by fastforce
  obtain r' where r': "pool_run (parameterize_in ?g) h2 [] [] [(c, r'), (c, r)]" using pooledClassify_run [OF r 2 c] by blast
  have "map_res (Pair SimpleQueryOther) (read_call (strMem h2) r) = ClassifyAndParameterize demo_parse ?sql"
    using conjunct1 [OF workspaces_invisible [OF r'], rule_format, OF c] by simp
  then have "read_call (strMem h2) r = Ok (Some (parameterize ''SELECT x FROM t WHERE n = $1'' [''42'']))"
    by (cases "read_call (strMem h2) r") (simp_all add: demo_classify)
  with r' show ?thesis by blast
qed

text \<open>\<open>rewriteLiterals\<close>, the other function that works in a pooled workspace.\<close>

lemma pooled_rewrites:
  "pool_run (rewrite_in grow) h calls rets dones \<Longrightarrow> ((sql, lits), r) \<in> set dones \<Longrightarrow>
     read_rewrite (strMem h) r = rewriteLiterals sql lits"
  using rw.finished_reads by (fastforce simp: rewriteLiterals_def)

end
