(* ===== verification/Pgfox_Password.thy ===== *)
theory Pgfox_Password
  imports Pgfox_Run
begin

text \<open>
  Password authentication of a backend connection: \<open>buildMD5Response\<close> (\<open>protocol.go\<close>) with \<open>crypto/md5\<close>
  (RFC 1321), and \<open>authenticateBackendWithPassword\<close> (\<open>startup.go\<close>), which the source keeps for paths without certificates.
\<close>

section \<open>MD5\<close>

definition md5_K :: "32 word list" where
  "md5_K =
    [0xd76aa478, 0xe8c7b756, 0x242070db, 0xc1bdceee, 0xf57c0faf, 0x4787c62a, 0xa8304613, 0xfd469501,
     0x698098d8, 0x8b44f7af, 0xffff5bb1, 0x895cd7be, 0x6b901122, 0xfd987193, 0xa679438e, 0x49b40821,
     0xf61e2562, 0xc040b340, 0x265e5a51, 0xe9b6c7aa, 0xd62f105d, 0x02441453, 0xd8a1e681, 0xe7d3fbc8,
     0x21e1cde6, 0xc33707d6, 0xf4d50d87, 0x455a14ed, 0xa9e3e905, 0xfcefa3f8, 0x676f02d9, 0x8d2a4c8a,
     0xfffa3942, 0x8771f681, 0x6d9d6122, 0xfde5380c, 0xa4beea44, 0x4bdecfa9, 0xf6bb4b60, 0xbebfbc70,
     0x289b7ec6, 0xeaa127fa, 0xd4ef3085, 0x04881d05, 0xd9d4d039, 0xe6db99e5, 0x1fa27cf8, 0xc4ac5665,
     0xf4292244, 0x432aff97, 0xab9423a7, 0xfc93a039, 0x655b59c3, 0x8f0ccc92, 0xffeff47d, 0x85845dd1,
     0x6fa87e4f, 0xfe2ce6e0, 0xa3014314, 0x4e0811a1, 0xf7537e82, 0xbd3af235, 0x2ad7d2bb, 0xeb86d391]"

definition md5_shifts :: "nat list" where
  "md5_shifts = concat (map (\<lambda>r. concat (replicate 4 r)) [[7, 12, 17, 22], [5, 9, 14, 20], [4, 11, 16, 23], [6, 10, 15, 21]])"

record md5_state =
  mA :: "32 word"
  mB :: "32 word"
  mC :: "32 word"
  mD :: "32 word"

definition md5_init :: md5_state where
  "md5_init = \<lparr>mA = 0x67452301, mB = 0xefcdab89, mC = 0x98badcfe, mD = 0x10325476\<rparr>"

definition rotl32 :: "nat \<Rightarrow> 32 word \<Rightarrow> 32 word" where
  "rotl32 n x = push_bit n x OR drop_bit (32 - n) x"

text \<open>The function and the index of the message word of round \<open>i\<close>.\<close>

definition md5_mix :: "nat \<Rightarrow> 32 word \<Rightarrow> 32 word \<Rightarrow> 32 word \<Rightarrow> 32 word \<times> nat" where
  "md5_mix i b c d =
     (if i < 16 then ((b AND c) OR (NOT b AND d), i)
      else if i < 32 then ((d AND b) OR (NOT d AND c), (5 * i + 1) mod 16)
      else if i < 48 then (b XOR c XOR d, (3 * i + 5) mod 16)
      else (c XOR (b OR NOT d), 7 * i mod 16))"

definition md5_round :: "32 word list \<Rightarrow> nat \<Rightarrow> md5_state \<Rightarrow> md5_state" where
  "md5_round ws i s =
     (let (f, g) = md5_mix i (mB s) (mC s) (mD s)
      in \<lparr>mA = mD s, mB = mB s + rotl32 (md5_shifts ! i) (mA s + f + md5_K ! i + ws ! g), mC = mB s, mD = mC s\<rparr>)"

text \<open>Words are little-endian.\<close>

fun md5_words :: "bytes \<Rightarrow> 32 word list" where
  "md5_words (a # b # c # d # bs) = Uint32 [d, c, b, a] # md5_words bs"
| "md5_words _ = []"

definition md5_block :: "bytes \<Rightarrow> md5_state \<Rightarrow> md5_state" where
  "md5_block blk s =
     (let t = fold (md5_round (md5_words blk)) [0..<64] s
      in \<lparr>mA = mA s + mA t, mB = mB s + mB t, mC = mC s + mC t, mD = mD s + mD t\<rparr>)"

definition md5_pad :: "bytes \<Rightarrow> bytes" where
  "md5_pad m =
     (let n = length m
      in m @ CHR 0x80 # replicate ((119 - n mod 64) mod 64) NUL @
         rev (PutUint32 (of_nat (8 * n))) @ rev (PutUint32 (of_nat (8 * n div 2 ^ 32))))"

function md5_blocks :: "bytes \<Rightarrow> md5_state \<Rightarrow> md5_state" where
  "md5_blocks m s = (if m = [] then s else md5_blocks (drop 64 m) (md5_block (take 64 m) s))"
  by pat_completeness auto
termination
  by (relation "measure (\<lambda>(m, s). length m)") auto

declare md5_blocks.simps [simp del]

definition md5_sum :: "bytes \<Rightarrow> bytes" where
  "md5_sum m =
     (let s = md5_blocks (md5_pad m) md5_init
      in rev (PutUint32 (mA s)) @ rev (PutUint32 (mB s)) @ rev (PutUint32 (mC s)) @ rev (PutUint32 (mD s)))"

lemma length_md5 [simp]: "length (md5_sum m) = 16"
  by (simp add: md5_sum_def Let_def)

section \<open>The exchange\<close>

definition buildMD5Response :: "string \<Rightarrow> string \<Rightarrow> bytes \<Rightarrow> string" where
  "buildMD5Response usr pass slt =
     (let hexStr = fmt_hex (md5_sum (pass @ usr)) in ''md5'' @ fmt_hex (md5_sum (hexStr @ slt)))"

text \<open>The body of the loop; the state is the backend and \<open>authComplete\<close>. The SASL exchange ends the loop, whatever comes of it.\<close>

definition passwordP :: "string \<Rightarrow> (Backend \<times> bool, unit option) prog" where
  "passwordP response =
     wrapP ''failed to send password'' (zoomP fst (\<lambda>b s. (b, snd s)) (Backend_write (CHR ''p'', response @ [NUL]))) (\<lambda>_. returnP None)"

definition password_step :: "kdf \<Rightarrow> bytes \<Rightarrow> string \<Rightarrow> string \<Rightarrow> (Backend \<times> bool, unit option) prog" where
  "password_step pbkdf2 rnd usr pw =
     wrapP ''failed to read auth response'' (zoomP fst (\<lambda>b s. (b, snd s)) Backend_read) (\<lambda>(msgType, body).
     bindP (getP snd) (\<lambda>authComplete.
     if msgType = CHR ''R'' then
       (if length body < 4 then failP (Errorf ''invalid authentication response'')
        else let authType = Uint32 body in
          if authType = AuthenticationOK then thenP (modifyP (\<lambda>s. (fst s, True))) (returnP None)
          else if authType = AuthenticationCleartextPassword then passwordP pw
          else if authType = AuthenticationMD5 then
            (if length body < 8 then failP (Errorf ''invalid MD5 auth response'')
             else passwordP (buildMD5Response usr pw (take 4 (drop 4 body))))
          else if authType = AuthenticationSASL then
            bindP (zoomP fst (\<lambda>b s. (b, snd s)) (HandleSCRAMAuth pbkdf2 rnd usr pw (drop 4 body))) (\<lambda>_. returnP (Some ()))
          else failP (Errorf (''unsupported authentication type: '' @ fmt_nat (unat authType))))
     else if msgType = CHR ''K'' then
       (if \<not> authComplete then failP (Errorf ''received BackendKeyData before AuthenticationOK'')
        else thenP (modifyP (\<lambda>s. (key_data body (fst s), snd s))) (returnP None))
     else if msgType = CHR ''S'' then returnP None
     else if msgType = CHR ''Z'' then
       (if \<not> authComplete then failP (Errorf ''received ReadyForQuery before AuthenticationOK'') else returnP (Some ()))
     else if msgType = CHR ''E'' then failP (Errorf (''authentication failed: '' @ ParseErrorMessage body))
     else if msgType = CHR ''N'' then returnP None
     else failP (Errorf (''unexpected message type during auth: '' @ fmt_c msgType))))"

definition authenticateBackendWithPassword :: "kdf \<Rightarrow> bytes \<Rightarrow> string \<Rightarrow> string \<Rightarrow> (Backend, unit) prog" where
  "authenticateBackendWithPassword pbkdf2 rnd usr pw b =
     (case loopP (backend_fuel b) (password_step pbkdf2 rnd usr pw) (b, False) of (r, (b', _)) \<Rightarrow> (r, b'))"

section \<open>Properties\<close>

lemma ends_resP: "r \<noteq> Blocked \<Longrightarrow> ends (resP r)"
  by (simp add: ends_def resP_def)

lemma ends_wrapP: "ends m \<Longrightarrow> (\<And>x. ends (k x)) \<Longrightarrow> ends (wrapP w m k)"
  by (intro ends_intros)

lemma ends_ProcessServerFirst: "ends (ProcessServerFirst pbkdf2 d)"
proof -
  have "ends (buildClientFinal pbkdf2)" by (auto simp: ends_def buildClientFinal_def Let_def split: option.split)
  then show ?thesis unfolding ProcessServerFirst_def by (intro ends_intros)
qed

lemma ends_HandleSCRAMAuth: "ends (HandleSCRAMAuth pbkdf2 rnd usr pw d)"
proof -
  have r: "ends (read_sasl w1 w2 w3 w4 t)" for w1 w2 w3 w4 t unfolding read_sasl_def by (intro ends_intros)
  have p: "ends (resP (fst (ProcessServerFirst pbkdf2 x s)))" for x s
    using ends_ProcessServerFirst [of pbkdf2 x] by (intro ends_resP) (simp add: ends_def)
  have w: "ends await_ready" using await_ready_returns by (simp add: ends_def)
  show ?thesis
    unfolding HandleSCRAMAuth_def case_prod_unfold Let_def by (intro ends_intros r p w)
qed

definition sasl_request :: "msg \<Rightarrow> bool" where
  "sasl_request m \<longleftrightarrow> fst m = CHR ''R'' \<and> Uint32 (snd m) = AuthenticationSASL"

text \<open>What a message of the server is answered with.\<close>

definition answer :: "string \<Rightarrow> string \<Rightarrow> msg \<Rightarrow> msg list" where
  "answer usr pw m =
     (if fst m = CHR ''R'' \<and> Uint32 (snd m) = AuthenticationCleartextPassword then [(CHR ''p'', pw @ [NUL])]
      else if fst m = CHR ''R'' \<and> Uint32 (snd m) = AuthenticationMD5
      then [(CHR ''p'', buildMD5Response usr pw (take 4 (drop 4 (snd m))) @ [NUL])]
      else [])"

lemma auth_types_distinct [simp]:
  "AuthenticationCleartextPassword \<noteq> AuthenticationOK" "AuthenticationMD5 \<noteq> AuthenticationOK" "AuthenticationSASL \<noteq> AuthenticationOK"
  "AuthenticationMD5 \<noteq> AuthenticationCleartextPassword" "AuthenticationSASL \<noteq> AuthenticationCleartextPassword" "AuthenticationSASL \<noteq> AuthenticationMD5"
  "AuthenticationOK \<noteq> AuthenticationCleartextPassword" "AuthenticationOK \<noteq> AuthenticationMD5" "AuthenticationOK \<noteq> AuthenticationSASL"
  "AuthenticationCleartextPassword \<noteq> AuthenticationMD5" "AuthenticationCleartextPassword \<noteq> AuthenticationSASL" "AuthenticationMD5 \<noteq> AuthenticationSASL"
  by (simp_all add: AuthenticationCleartextPassword_def AuthenticationOK_def AuthenticationMD5_def AuthenticationSASL_def)

lemma passwordP_Ok:
  "passwordP resp (b, ac) = (Ok x, s') \<Longrightarrow> x = None \<and> c_in (b_conn (fst s')) = c_in (b_conn b) \<and>
     c_out (b_conn (fst s')) = c_out (b_conn b) @ [(CHR ''p'', resp @ [NUL])] \<and> snd s' = ac"
  by (auto simp: passwordP_def wrapP_Ok_iff leafP_iffs zoomP_def split: prod.splits dest: Backend_write_Ok)

lemma password_step_Ok:
  assumes "password_step pbkdf2 rnd usr pw (b, ac) = (Ok x, (b', ac'))"
  obtains (next_msg) m where "x = None" "c_in (b_conn b) = m # c_in (b_conn b')" "c_out (b_conn b') = c_out (b_conn b) @ answer usr pw m"
      "ac' = (ac \<or> auth_ok m)" "fst m \<noteq> CHR ''E''" "\<not> sasl_request m"
    | (ready) m where "x = Some ()" "c_in (b_conn b) = m # c_in (b_conn b')" "c_out (b_conn b') = c_out (b_conn b)" "fst m = CHR ''Z''" ac
    | (sasl) m b1 where "x = Some ()" "c_in (b_conn b) = m # c_in (b_conn b1)" "c_out (b_conn b1) = c_out (b_conn b)" "sasl_request m"
      "HandleSCRAMAuth pbkdf2 rnd usr pw (drop 4 (snd m)) b1 = (Ok (), b')"
proof -
  obtain t body ms where m: "c_in (b_conn b) = (t, body) # ms" "\<not> c_closed (b_conn b)"
    using assms by (auto simp: password_step_def wrapP_Ok_iff zoomP_def Backend_read_Ok split: prod.splits)
  let ?b1 = "b\<lparr>b_conn := b_conn b\<lparr>c_in := ms\<rparr>\<rparr>"
  have step: "(if t = CHR ''R'' then
       (if length body < 4 then failP (Errorf ''invalid authentication response'')
        else let authType = Uint32 body in
          if authType = AuthenticationOK then thenP (modifyP (\<lambda>s. (fst s, True))) (returnP None)
          else if authType = AuthenticationCleartextPassword then passwordP pw
          else if authType = AuthenticationMD5 then
            (if length body < 8 then failP (Errorf ''invalid MD5 auth response'')
             else passwordP (buildMD5Response usr pw (take 4 (drop 4 body))))
          else if authType = AuthenticationSASL then
            bindP (zoomP fst (\<lambda>b s. (b, snd s)) (HandleSCRAMAuth pbkdf2 rnd usr pw (drop 4 body))) (\<lambda>_. returnP (Some ()))
          else failP (Errorf (''unsupported authentication type: '' @ fmt_nat (unat authType))))
     else if t = CHR ''K'' then
       (if \<not> ac then failP (Errorf ''received BackendKeyData before AuthenticationOK'')
        else thenP (modifyP (\<lambda>s. (key_data body (fst s), snd s))) (returnP None))
     else if t = CHR ''S'' then returnP None
     else if t = CHR ''Z'' then
       (if \<not> ac then failP (Errorf ''received ReadyForQuery before AuthenticationOK'') else returnP (Some ()))
     else if t = CHR ''E'' then failP (Errorf (''authentication failed: '' @ ParseErrorMessage body))
     else if t = CHR ''N'' then returnP None
     else failP (Errorf (''unexpected message type during auth: '' @ fmt_c t))) (?b1, ac) = (Ok x, (b', ac'))"
    using assms m by (simp add: password_step_def wrapP_Ok_iff bindP_Ok_iff zoomP_def getP_def)
  consider "t = CHR ''R''" "Uint32 body = AuthenticationSASL" | "t = CHR ''Z''" | "t \<noteq> CHR ''Z''" "\<not> (t = CHR ''R'' \<and> Uint32 body = AuthenticationSASL)" by blast
  then show ?thesis
  proof cases
    case 1
    then show ?thesis using step m sasl [of "(t, body)" ?b1] 
      by (auto simp: bindP_Ok_iff zoomP_def leafP_iffs sasl_request_def Let_def split: if_splits prod.splits)
  next
    case 2
    then show ?thesis using step m ready [of "(t, body)"] by (auto simp: leafP_iffs split: if_splits)
  next
    case 3
    then show ?thesis using step m next_msg [of "(t, body)"]
      by (auto simp: leafP_iffs Let_def answer_def auth_ok_def sasl_request_def thenP_def bindP_Ok_iff modifyP_def split: if_splits dest!: passwordP_Ok)
  qed
qed

lemma password_reads_on: "reads_on (password_step pbkdf2 rnd usr pw)"
proof -
  have "ends (password_step pbkdf2 rnd usr pw)"
    unfolding password_step_def passwordP_def Let_def by (intro ends_intros ends_HandleSCRAMAuth)
  moreover have "length (c_in (b_conn (fst s'))) < length (c_in (b_conn (fst s)))"
    if "password_step pbkdf2 rnd usr pw s = (Ok None, s')" for s s'
  proof -
    have "password_step pbkdf2 rnd usr pw (fst s, snd s) = (Ok None, (fst s', snd s'))" using that by simp
    then show ?thesis by (cases rule: password_step_Ok) simp_all
  qed
  ultimately show ?thesis by (simp add: reads_on_def ends_def)
qed

text \<open>What was read up to the end of the exchange, and how it ended.\<close>

definition signed_on :: "kdf \<Rightarrow> bytes \<Rightarrow> string \<Rightarrow> string \<Rightarrow> Backend \<Rightarrow> bool \<Rightarrow> msg list \<Rightarrow> msg \<Rightarrow> Backend \<Rightarrow> bool" where
  "signed_on pbkdf2 rnd usr pw b ac pre z b' \<longleftrightarrow>
     (\<forall>m \<in> set pre. fst m \<noteq> CHR ''E'' \<and> \<not> sasl_request m) \<and>
     (\<exists>b1. c_in (b_conn b) = pre @ z # c_in (b_conn b1) \<and>
        c_out (b_conn b1) = c_out (b_conn b) @ concat (map (answer usr pw) pre) \<and>
        (fst z = CHR ''Z'' \<and> (ac \<or> (\<exists>m \<in> set pre. auth_ok m)) \<and> b' = b1 \<or>
         sasl_request z \<and> HandleSCRAMAuth pbkdf2 rnd usr pw (drop 4 (snd z)) b1 = (Ok (), b')))"

lemma password_loop:
  "loopP n (password_step pbkdf2 rnd usr pw) (b, ac) = (Ok (), (b', ac')) \<Longrightarrow> \<exists>pre z. signed_on pbkdf2 rnd usr pw b ac pre z b'"
proof (induction n arbitrary: b ac)
  case 0
  then show ?case by simp
next
  case (Suc n)
  then obtain x b1 ac1 where 1: "password_step pbkdf2 rnd usr pw (b, ac) = (Ok x, (b1, ac1))"
      and 2: "(case x of Some y \<Rightarrow> returnP y | None \<Rightarrow> loopP n (password_step pbkdf2 rnd usr pw)) (b1, ac1) = (Ok (), (b', ac'))"
    by (auto simp: bindP_Ok_iff)
  from 1 show ?case
  proof (cases rule: password_step_Ok)
    case (next_msg m)
    then have "loopP n (password_step pbkdf2 rnd usr pw) (b1, ac1) = (Ok (), (b', ac'))" using 2 by simp
    from Suc.IH [OF this] obtain pre z where "signed_on pbkdf2 rnd usr pw b1 ac1 pre z b'" by blast
    then have "signed_on pbkdf2 rnd usr pw b ac (m # pre) z b'" using next_msg by (auto simp: signed_on_def)
    then show ?thesis by blast
  next
    case (ready m)
    then have "signed_on pbkdf2 rnd usr pw b ac [] m b'" using 2 by (auto simp: signed_on_def leafP_iffs)
    then show ?thesis by blast
  next
    case (sasl m b2)
    then have "signed_on pbkdf2 rnd usr pw b ac [] m b'" using 2 by (auto simp: signed_on_def leafP_iffs)
    then show ?thesis by blast
  qed
qed


text \<open>A server that asks for the hashed password gets it and the session is ready.\<close>

lemma password_md5_accepted:
  assumes "sound_conn (b_conn b)" and "length slt = 4" and "36 \<le> c_max (b_conn b)"
    and "c_in (b_conn b) = [SendAuthenticationMD5 slt, SendAuthenticationOK, SendReadyForQuery (CHR ''I'')]"
  shows "\<exists>b'. authenticateBackendWithPassword pbkdf2 rnd usr pw b = (Ok (), b') \<and>
    c_out (b_conn b') = c_out (b_conn b) @ [(CHR ''p'', buildMD5Response usr pw slt @ [NUL])]"
proof -
  have len: "length (buildMD5Response usr pw slt) = 35"
    by (simp add: buildMD5Response_def Let_def fmt_hex_def length_concat o_def sum_list_triv)
  show ?thesis
    using assms len
    by (simp add: authenticateBackendWithPassword_def password_step_def passwordP_def SendAuthenticationMD5_def SendAuthenticationOK_def
        SendReadyForQuery_def prog_defs sound_conn_def numeral_eq_Suc Backend_write_sound)
qed

end
