(* ===== verification/Pgfox_Dial.thy ===== *)
theory Pgfox_Dial
  imports Pgfox_Server
begin

text \<open>
  How a connection to PostgreSQL comes about: \<open>Pool.newConn\<close> (\<open>pool.go\<close>) and \<open>createCertBackend\<close>, \<open>upgradeToCertTLS\<close>
  (\<open>startup.go\<close>) down to the bytes sent before TLS, on top of the certificates of \<open>Pgfox_Certs\<close>. \<open>Pgfox_State\<close> has the same
  operations with one outcome for all of this; here that abstraction is justified.

  A bare TCP connection (\<open>tcp\<close>) is what will happen on it: the outcome of writing, what the first read gives, whether the
  handshake breaks, the certificate the server shows, and the session that follows, which may depend on the certificate shown to
  it. \<open>n_conns\<close> has for every connection dialled what was sent on it unencrypted and whether it is open. How a host name is matched with a
  certificate (\<open>x509.VerifyHostname\<close>) is a parameter. A record \<open>world\<close> is the server with its disk and network.
\<close>

section \<open>The network\<close>

record tcp =
  k_write :: "goerr option"
  k_reply :: "goerr + bytes"
  k_broken :: "goerr option"
  k_cert :: Certificate
  k_session :: "(Certificate \<times> keyId) list \<Rightarrow> conn"

record net =
  n_dials :: "(goerr + tcp) list"
  n_conns :: "(bytes \<times> bool) list"

definition DialTimeout :: "string \<Rightarrow> (net, tcp) prog" where
  "DialTimeout addr n =
     (case n_dials n of
        [] \<Rightarrow> (Err (Errorf (''dial tcp '' @ addr @ '': connect: connection refused'')), n)
      | Inl e # ds \<Rightarrow> (Err e, n\<lparr>n_dials := ds\<rparr>)
      | Inr k # ds \<Rightarrow> (Ok k, n\<lparr>n_dials := ds, n_conns := n_conns n @ [([], True)]\<rparr>))"

text \<open>Writing on the bare connection, and closing it: that is the last one dialled.\<close>

definition on_last :: "(bytes \<times> bool \<Rightarrow> bytes \<times> bool) \<Rightarrow> net \<Rightarrow> net" where
  "on_last f n = n\<lparr>n_conns := butlast (n_conns n) @ [f (last (n_conns n))]\<rparr>"

definition tcp_Write :: "tcp \<Rightarrow> bytes \<Rightarrow> (net, unit) prog" where
  "tcp_Write k bs =
     (case k_write k of
        Some e \<Rightarrow> failP e
      | None \<Rightarrow> modifyP (on_last (\<lambda>(sent, opened). (sent @ bs, opened))))"

definition tcp_Close :: "(net, unit) prog" where
  "tcp_Close = modifyP (on_last (\<lambda>(sent, opened). (sent, False)))"

text \<open>\<open>Handshake\<close> of \<open>tls.Client\<close>: the server's certificate must verify against the roots, for server authentication, and
  fit the server name. What the server does with the client's certificate shows in the session.\<close>

definition Handshake :: "(Certificate \<Rightarrow> string \<Rightarrow> bool) \<Rightarrow> int \<Rightarrow> tlsConfig \<Rightarrow> tcp \<Rightarrow> goerr + conn" where
  "Handshake verifyHostname t cfg k =
     (case k_broken k of
        Some e \<Rightarrow> Inl e
      | None \<Rightarrow>
          if \<not> InsecureSkipVerify cfg \<and>
             \<not> (Verify (RootCAs cfg) t ExtKeyUsageServerAuth (k_cert k) \<and> verifyHostname (k_cert k) (ServerName cfg))
          then Inl (Errorf ''tls: failed to verify certificate'')
          else Inr (k_session k (tlsCertificates cfg)))"

section \<open>Opening a backend connection (startup.go, pool.go)\<close>

definition sslRequest :: bytes where
  "sslRequest = PutUint32 8 @ PutUint32 SSLRequestCode"

text \<open>\<open>%q\<close> of a string of one byte.\<close>

definition quote_byte :: "byte \<Rightarrow> string" where
  "quote_byte c =
     (let n = of_char c :: nat; esc = zip [7, 8, 9, 10, 11, 12, 13, 34, 92] [''a'', ''b'', ''t'', ''n'', ''v'', ''f'', ''r'', [CHR 0x22], [CHR 0x5C]]
      in [CHR 0x22] @ (case map_of esc n of
                         Some x \<Rightarrow> CHR 0x5C # x
                       | None \<Rightarrow> if 32 \<le> n \<and> n < 127 then [c] else CHR 0x5C # CHR ''x'' # fmt_hex [c]) @ [CHR 0x22])"

definition ssl_rejected :: "byte \<Rightarrow> goerr" where
  "ssl_rejected response =
     Errorf (''backend rejected SSL (response='' @ quote_byte response @ '') '' @ [CHR 0xE2, CHR 0x80, CHR 0x94] @
       '' ensure postgresql.conf has ssl=on and pg_hba.conf uses hostssl with clientcert=verify-full'')"

text \<open>\<open>response\<close> is a buffer of one byte, 0 at first.\<close>

definition upgradeToCertTLS :: "(Certificate \<Rightarrow> string \<Rightarrow> bool) \<Rightarrow> int \<Rightarrow> tlsConfig \<Rightarrow> tcp \<Rightarrow> (net, conn) prog" where
  "upgradeToCertTLS verifyHostname t tlsCfg k =
     wrapP ''failed to send SSL request'' (tcp_Write k sslRequest) (\<lambda>_.
     wrapP ''failed to read SSL response'' (liftP (k_reply k)) (\<lambda>got.
     let response = hd (got @ [NUL]) in
     if response \<noteq> CHR ''S''
     then thenP tcp_Close (failP (ssl_rejected response))
     else wrapP ''TLS handshake failed'' (liftP (Handshake verifyHostname t tlsCfg k)) returnP))"

record world =
  w_srv :: Server
  w_disk :: disk
  w_net :: net

definition wSrv :: "(Server, 'a) prog \<Rightarrow> (world, 'a) prog" where
  "wSrv m = zoomP w_srv (\<lambda>s w. w\<lparr>w_srv := s\<rparr>) m"

definition wDisk :: "(disk, 'a) prog \<Rightarrow> (world, 'a) prog" where
  "wDisk m = zoomP w_disk (\<lambda>d w. w\<lparr>w_disk := d\<rparr>) m"

definition wNet :: "(net, 'a) prog \<Rightarrow> (world, 'a) prog" where
  "wNet m = zoomP w_net (\<lambda>n w. w\<lparr>w_net := n\<rparr>) m"

text \<open>\<open>NewBackend\<close> allocates; its connection is closed together with the bare one.\<close>

definition alloc_backend :: "(backendId \<Rightarrow> Server \<Rightarrow> Backend) \<Rightarrow> (Server, backendId) prog" where
  "alloc_backend mk s =
     (let n = nextBackend s in (Ok n, upd_backend n (\<lambda>_. mk n s) (s\<lparr>nextBackend := n + 1\<rparr>)))"

definition closeTLS :: "backendId \<Rightarrow> (world, unit) prog" where
  "closeTLS n = thenP (wSrv (modifyP (upd_backend n Backend_Close))) (wNet tcp_Close)"

definition startSessionTLS :: "backendId \<Rightarrow> string \<Rightarrow> string \<Rightarrow> (world, backendId) prog" where
  "startSessionTLS n db usr =
     tryP (wSrv (on_backend n (raw_write (buildStartupMessage usr db))))
       (\<lambda>e. thenP (closeTLS n) (failP (Wrapf ''failed to send startup message'' e))) (\<lambda>_.
     tryP (wSrv (on_backend n drainBackendStartup))
       (\<lambda>e. thenP (closeTLS n) (failP (Wrapf ''backend startup failed'' e))) (\<lambda>_.
     returnP n))"

definition createCertBackendTLS ::
  "(Certificate \<Rightarrow> string \<Rightarrow> bool) \<Rightarrow> targetId \<Rightarrow> string \<Rightarrow> string \<Rightarrow> Certificate \<times> keyId \<Rightarrow> (world, backendId) prog" where
  "createCertBackendTLS verifyHostname t db usr cert =
     bindP (getP w_srv) (\<lambda>s0.
     let target = targetOf s0 t; addr = Host target @ '':'' @ fmt_int (Port target) in
     wrapP (''failed to connect to '' @ addr) (wNet (DialTimeout addr)) (\<lambda>k.
     tryP (wDisk (backendTLSConfig (sv_config s0) (Host target) cert))
       (\<lambda>e. thenP (wNet tcp_Close) (failP (Wrapf ''failed to build TLS config'' e))) (\<lambda>tlsCfg.
     bindP (getP (\<lambda>w. d_now (w_disk w))) (\<lambda>time.
     tryP (wNet (upgradeToCertTLS verifyHostname time tlsCfg k))
       (\<lambda>e. thenP (wNet tcp_Close) (failP (Wrapf ''TLS upgrade failed'' e))) (\<lambda>tlsConn.
     bindP (wSrv (alloc_backend (\<lambda>n s. NewBackend (tlsConn\<lparr>c_max := MaxMessageSize (sv_config s)\<rparr>) db (Name target) usr (now s)))) (\<lambda>n.
     startSessionTLS n db usr))))))"

definition newConnTLS :: "(Certificate \<Rightarrow> string \<Rightarrow> bool) \<Rightarrow> poolId \<Rightarrow> (world, backendId) prog" where
  "newConnTLS verifyHostname p =
     bindP (getP w_srv) (\<lambda>s.
     wrapP (''failed to get cert for '' @ Username (poolOf s p))
       (wDisk (loadOrGenerateUserCert (sv_config s) (Username (poolOf s p)))) (\<lambda>cert.
     createCertBackendTLS verifyHostname (p_target (poolOf s p)) (DbName (poolOf s p)) (Username (poolOf s p)) cert))"

section \<open>Disk operations return\<close>

named_theorems returns_intros

definition returns :: "('s, 'a) prog \<Rightarrow> bool" where
  "returns m \<longleftrightarrow> (\<forall>s. fst (m s) \<noteq> Panic \<and> fst (m s) \<noteq> Blocked)"

lemma returns_leaf [returns_intros]: "returns (returnP x)" "returns (failP e)" "returns (getP f)" "returns (modifyP g)" "returns (liftP l)"
  by (simp_all add: returns_def prog_defs liftP_def split: sum.split)

lemma returns_bind [returns_intros]:
  "returns m \<Longrightarrow> (\<And>x. returns (k x)) \<Longrightarrow> returns (bindP m k)" "returns m \<Longrightarrow> returns m' \<Longrightarrow> returns (thenP m m')"
  "returns m \<Longrightarrow> (\<And>e. returns (h e)) \<Longrightarrow> (\<And>x. returns (k x)) \<Longrightarrow> returns (tryP m h k)"
  by (auto simp: returns_def bindP_def thenP_def tryP_def split: prod.split res.split) (metis fst_conv)+

lemma returns_branch [returns_intros]:
  "(b \<Longrightarrow> returns m) \<Longrightarrow> (\<not> b \<Longrightarrow> returns m') \<Longrightarrow> returns (if b then m else m')"
  "returns m \<Longrightarrow> (\<And>y. returns (k y)) \<Longrightarrow> returns (case x of None \<Rightarrow> m | Some y \<Rightarrow> k y)"
  "(\<And>a b. returns (g a b)) \<Longrightarrow> returns (case q of (a, b) \<Rightarrow> g a b)"
  by (auto split: option.split prod.split)

lemma returns_fileData [returns_intros]:
  "(\<And>c. returns (f1 c)) \<Longrightarrow> (\<And>f k. returns (f2 f k)) \<Longrightarrow> returns f3 \<Longrightarrow> returns f4 \<Longrightarrow>
     returns (case x of CertPEM c \<Rightarrow> f1 c | KeyPEM f k \<Rightarrow> f2 f k | OtherPEM \<Rightarrow> f3 | NoPEM \<Rightarrow> f4)"
  by (cases x) auto

lemma returns_keyFormat [returns_intros]:
  "returns f1 \<Longrightarrow> returns f2 \<Longrightarrow> returns f3 \<Longrightarrow> returns f4 \<Longrightarrow>
     returns (case x of PKCS8_RSA \<Rightarrow> f1 | PKCS8_other \<Rightarrow> f2 | PKCS1 \<Rightarrow> f3 | UnknownKey \<Rightarrow> f4)"
  by (cases x) auto

lemma returns_zoom: "returns m \<Longrightarrow> returns (zoomP f g m)"
  by (auto simp: returns_def zoomP_def split: prod.split) (metis fst_conv)+

lemma returns_disk [returns_intros]: "returns sysP" "returns (ReadFile path)"
  by (simp_all add: returns_def sysP_def ReadFile_def split: list.split option.split)

lemma returns_keys [returns_intros]:
  "returns (LoadX509KeyPair c k)" "returns (loadCA sc)" "returns (caCertPool sc)" "returns GenerateKey"
  "returns (CreateCertificate template parent pub priv)" "returns (OpenFile path)" "returns (pem_Encode path f)"
  unfolding LoadX509KeyPair_def loadCA_def caCertPool_def GenerateKey_def CreateCertificate_def OpenFile_def pem_Encode_def
  by (intro returns_intros)+

lemma returns_cert [returns_intros]: "returns (loadOrGenerateUserCert sc usr)" "returns (backendTLSConfig sc host cert)"
  unfolding loadOrGenerateUserCert_def isCertValidForCA_def generateAndCacheUserCert_def backendTLSConfig_def Let_def
  by (intro returns_intros)+

lemma returns_net [returns_intros]: "returns (DialTimeout a)" "returns (tcp_Write k bs)" "returns tcp_Close"
proof -
  show "returns (DialTimeout a)" by (simp add: returns_def DialTimeout_def split: list.split sum.split)
  show "returns (tcp_Write k bs)" "returns tcp_Close" unfolding tcp_Write_def tcp_Close_def by (intro returns_intros)+
qed

lemma returns_upgrade [returns_intros]: "returns (upgradeToCertTLS vh t cfg k)"
  unfolding upgradeToCertTLS_def Let_def by (intro returns_intros)

lemma returns_cases:
  assumes "returns m" and "m s = (r, s')"
  obtains x where "r = Ok x" | e where "r = Err e"
  using assms by (cases r) (auto simp: returns_def dest: spec [of _ s])

section \<open>The abstraction used by the rest of the development\<close>

text \<open>Everything between the server and PostgreSQL before the session, as one outcome: an error, or a connection.\<close>

lemma zoom_runs:
  "wNet m w = (let (r, n) = m (w_net w) in (r, w\<lparr>w_net := n\<rparr>))"
  "wDisk m' w = (let (r, d) = m' (w_disk w) in (r, w\<lparr>w_disk := d\<rparr>))"
  "wSrv m'' w = (let (r, s) = m'' (w_srv w) in (r, w\<lparr>w_srv := s\<rparr>))"
  by (simp_all add: wNet_def wDisk_def wSrv_def zoomP_def Let_def split: prod.split)

lemma zoom_reads [simp]:
  "w_srv (w\<lparr>w_net := n\<rparr>) = w_srv w" "w_srv (w\<lparr>w_disk := d\<rparr>) = w_srv w" "w_disk (w\<lparr>w_net := n\<rparr>) = w_disk w"
  "w_disk (w\<lparr>w_srv := s\<rparr>) = w_disk w" "w_net (w\<lparr>w_srv := s\<rparr>) = w_net w" "w_net (w\<lparr>w_disk := d\<rparr>) = w_net w"
  by simp_all

lemma closeTLS_run: "closeTLS n w = (Ok (), w\<lparr>w_srv := upd_backend n Backend_Close (w_srv w), w_net := on_last (\<lambda>(sent, opened). (sent, False)) (w_net w)\<rparr>)"
  by (simp add: closeTLS_def tcp_Close_def thenP_def bindP_def zoom_runs modifyP_def)

lemma startSession_refines:
  assumes "startSessionTLS n db usr w = (r, w')"
  shows "tryP (on_backend n (raw_write (buildStartupMessage usr db)))
      (\<lambda>e. thenP (modifyP (upd_backend n Backend_Close)) (failP (Wrapf ''failed to send startup message'' e)))
      (\<lambda>_. tryP (on_backend n drainBackendStartup)
        (\<lambda>e. thenP (modifyP (upd_backend n Backend_Close)) (failP (Wrapf ''backend startup failed'' e)))
        (\<lambda>_. returnP n)) (w_srv w) = (r, w_srv w')"
proof -
  obtain r1 s1 where a: "on_backend n (raw_write (buildStartupMessage usr db)) (w_srv w) = (r1, s1)" by fastforce
  obtain r2 s2 where b: "on_backend n drainBackendStartup s1 = (r2, s2)" by fastforce
  show ?thesis using assms
    by (cases r1; cases r2)
      (auto simp: startSessionTLS_def a b zoom_runs closeTLS_run tryP_def thenP_def bindP_def modifyP_def failP_def returnP_def)
qed

text \<open>A closed connection that has carried no more than the request for TLS.\<close>

definition gone :: "bytes \<times> bool \<Rightarrow> bool" where
  "gone = (\<lambda>(sent, opened). sent \<in> {[], sslRequest} \<and> \<not> opened)"

lemma DialTimeout_net:
  "DialTimeout a n = (Ok k, n') \<Longrightarrow> (\<exists>ds. n_dials n = Inr k # ds) \<and> n_conns n' = n_conns n @ [([], True)]"
  "DialTimeout a n = (Err e, n') \<Longrightarrow> n_conns n' = n_conns n"
  by (auto simp: DialTimeout_def split: list.splits sum.splits)

lemma upgrade_net:
  assumes "upgradeToCertTLS vh t cfg k n = (r, n')" and "n_conns n = cs @ [([], True)]"
  shows "\<exists>sent opened. n_conns n' = cs @ [(sent, opened)] \<and> sent \<in> {[], sslRequest}"
    "r = Ok tc \<Longrightarrow> n_conns n' = cs @ [(sslRequest, True)] \<and> Handshake vh t cfg k = Inr tc"
  using assms
  by (auto simp: upgradeToCertTLS_def tcp_Write_def tcp_Close_def on_last_def Let_def prog_defs liftP_def
      split: option.splits sum.splits if_splits)

lemma tcp_Close_net: "n_conns n = cs @ [(sent, opened)] \<Longrightarrow> tcp_Close n = (Ok (), n\<lparr>n_conns := cs @ [(sent, False)]\<rparr>)"
  by (simp add: tcp_Close_def on_last_def modifyP_def)

text \<open>How a call can go: the certificate for the session's configuration cannot be had, or the peer cannot be reached or upgraded, or the
  session is started on the connection the handshake gave.\<close>

lemma createCertBackendTLS_cases:
  assumes "createCertBackendTLS vh t db usr cert w = (r, w')"
  obtains (failed) e new where "r = Err e" "w_srv w' = w_srv w" "n_conns (w_net w') = n_conns (w_net w) @ new" "list_all gone new"
    | (session) k cfg d' n' tc n s where
        "DialTimeout (Host (targetOf (w_srv w) t) @ '':'' @ fmt_int (Port (targetOf (w_srv w) t))) (w_net w) = (Ok k, n')"
        "backendTLSConfig (sv_config (w_srv w)) (Host (targetOf (w_srv w) t)) cert (w_disk w) = (Ok cfg, d')"
        "upgradeToCertTLS vh (d_now d') cfg k n' = (Ok tc, n)"
        "s = upd_backend (nextBackend (w_srv w)) (\<lambda>_. NewBackend (tc\<lparr>c_max := MaxMessageSize (sv_config (w_srv w))\<rparr>) db
           (Name (targetOf (w_srv w) t)) usr (now (w_srv w))) ((w_srv w)\<lparr>nextBackend := nextBackend (w_srv w) + 1\<rparr>)"
        "startSessionTLS (nextBackend (w_srv w)) db usr \<lparr>w_srv = s, w_disk = d', w_net = n\<rparr> = (r, w')"
proof -
  let ?s = "w_srv w" and ?target = "targetOf (w_srv w) t"
  let ?addr = "Host ?target @ '':'' @ fmt_int (Port ?target)"
  obtain r1 n1 where d: "DialTimeout ?addr (w_net w) = (r1, n1)" by fastforce
  note run = assms [unfolded createCertBackendTLS_def Let_def run_bind [OF run_leaf(1)]]
  show thesis
  proof (rule returns_cases [OF returns_net(1) d])
    fix e assume "r1 = Err e"
    then show thesis using run d DialTimeout_net(2) [of ?addr "w_net w"] by (intro failed [of _ "[]"]) (auto simp: zoom_runs tryP_def failP_def)
  next
    fix k assume r1: "r1 = Ok k"
    let ?w1 = "w\<lparr>w_net := n1\<rparr>"
    have n1: "n_conns n1 = n_conns (w_net w) @ [([], True)]" using DialTimeout_net(1) d r1 by blast
    have 1: "wNet (DialTimeout ?addr) w = (Ok k, ?w1)" using d r1 by (simp add: zoom_runs)
    note run1 = run [unfolded run_try [where m = "wNet (DialTimeout ?addr)" and s = w, OF 1]]
    obtain r2 d2 where c: "backendTLSConfig (sv_config ?s) (Host ?target) cert (w_disk w) = (r2, d2)" by fastforce
    show thesis
    proof (rule returns_cases [OF returns_cert(2) c])
      fix e assume "r2 = Err e"
      then show thesis using run1 c
        by (intro failed [of _ "[([], False)]"]) (auto simp: zoom_runs tryP_def thenP_def failP_def bindP_def tcp_Close_net [OF n1] gone_def)
    next
      fix cfg assume r2: "r2 = Ok cfg"
      let ?w2 = "?w1\<lparr>w_disk := d2\<rparr>"
      have 2: "wDisk (backendTLSConfig (sv_config ?s) (Host ?target) cert) ?w1 = (Ok cfg, ?w2)" using c r2 by (simp add: zoom_runs)
      note run2 = run1 [unfolded run_try [where m = "wDisk (backendTLSConfig (sv_config ?s) (Host ?target) cert)" and s = ?w1, OF 2] run_bind [OF run_leaf(1)]]
      obtain r3 n3 where u: "upgradeToCertTLS vh (d_now d2) cfg k n1 = (r3, n3)" by fastforce
      have u': "wNet (upgradeToCertTLS vh (d_now (w_disk ?w2)) cfg k) ?w2 = (r3, ?w2\<lparr>w_net := n3\<rparr>)" using u by (simp add: zoom_runs)
      show thesis
      proof (rule returns_cases [OF returns_upgrade u])
        fix e assume "r3 = Err e"
        obtain sent opened where "n_conns n3 = n_conns (w_net w) @ [(sent, opened)]" "sent \<in> {[], sslRequest}" using upgrade_net(1) [OF u n1] by blast
        then show thesis using run2 u' \<open>r3 = Err e\<close>
          by (intro failed [of _ "[(sent, False)]"]) (auto simp: zoom_runs tryP_def thenP_def failP_def bindP_def tcp_Close_net gone_def)
      next
        fix tc assume r3: "r3 = Ok tc"
        note run3 = run2 [unfolded run_try [where m = "wNet (upgradeToCertTLS vh (d_now (w_disk ?w2)) cfg k)" and s = ?w2, OF u' [unfolded r3]]]
        let ?st = "upd_backend (nextBackend ?s) (\<lambda>_. NewBackend (tc\<lparr>c_max := MaxMessageSize (sv_config ?s)\<rparr>) db
           (Name ?target) usr (now ?s)) (?s\<lparr>nextBackend := nextBackend ?s + 1\<rparr>)"
        have 4: "wSrv (alloc_backend (\<lambda>n s. NewBackend (tc\<lparr>c_max := MaxMessageSize (sv_config s)\<rparr>) db (Name ?target) usr (now s)))
            (?w2\<lparr>w_net := n3\<rparr>) = (Ok (nextBackend ?s), \<lparr>w_srv = ?st, w_disk = d2, w_net = n3\<rparr>)"
          by (cases w) (simp add: zoom_runs alloc_backend_def Let_def)
        show thesis
          by (rule session [OF d [unfolded r1] c [unfolded r2] u [unfolded r3] HOL.refl]) (use run3 in \<open>simp only: bindP_def 4 prod.case res.case\<close>)
      qed
    qed
  qed
qed

lemma createCertBackendTLS_refines:
  assumes "createCertBackendTLS vh t db usr cert w = (r, w')"
  shows "\<exists>out. createCertBackend t db usr ((w_srv w)\<lparr>dials := out # dials (w_srv w)\<rparr>) = (r, w_srv w')"
  using assms
proof (cases rule: createCertBackendTLS_cases)
  case (failed e new)
  then show ?thesis by (intro exI [of _ "Inl e"]) (simp add: createCertBackend_def)
next
  case (session k cfg d' n' tc n s)
  have "createCertBackend t db usr ((w_srv w)\<lparr>dials := Inr tc # dials (w_srv w)\<rparr>) = (r, w_srv w')"
    using startSession_refines [OF session(5)] session(4) by (simp add: createCertBackend_def Let_def)
  then show ?thesis by blast
qed

lemma newConnTLS_cases:
  assumes "newConnTLS vh p w = (r, w')"
  obtains (no_cert) e d' where "loadOrGenerateUserCert (sv_config (w_srv w)) (Username (poolOf (w_srv w) p)) (w_disk w) = (Err e, d')"
      "r = Err (Wrapf (''failed to get cert for '' @ Username (poolOf (w_srv w) p)) e)" "w' = w\<lparr>w_disk := d'\<rparr>"
    | (cert) c d' where "loadOrGenerateUserCert (sv_config (w_srv w)) (Username (poolOf (w_srv w) p)) (w_disk w) = (Ok c, d')"
      "createCertBackendTLS vh (p_target (poolOf (w_srv w) p)) (DbName (poolOf (w_srv w) p)) (Username (poolOf (w_srv w) p)) c (w\<lparr>w_disk := d'\<rparr>) = (r, w')"
proof -
  let ?s = "w_srv w" and ?pool = "poolOf (w_srv w) p"
  obtain r1 d1 where c: "loadOrGenerateUserCert (sv_config ?s) (Username ?pool) (w_disk w) = (r1, d1)" by fastforce
  have u: "wDisk (loadOrGenerateUserCert (sv_config ?s) (Username ?pool)) w = (r1, w\<lparr>w_disk := d1\<rparr>)" using c by (simp add: zoom_runs)
  show thesis
  proof (rule returns_cases [OF returns_cert(1) c])
    fix e assume "r1 = Err e"
    then show thesis using assms u c by (intro no_cert) (auto simp: newConnTLS_def bindP_def getP_def tryP_def failP_def)
  next
    fix x assume "r1 = Ok x"
    then show thesis using assms u c by (intro cert) (simp_all add: newConnTLS_def bindP_def getP_def tryP_def)
  qed
qed

lemma newConnTLS_abstract:
  assumes "newConnTLS vh p w = (r, w')"
  shows "\<exists>out. newConn p ((w_srv w)\<lparr>dials := out # dials (w_srv w)\<rparr>) = (r, w_srv w')"
  using assms
proof (cases rule: newConnTLS_cases)
  case (no_cert e d')
  then show ?thesis by (intro exI [of _ "Inl (case r of Err x \<Rightarrow> x)"]) (simp add: newConn_def bindP_def getP_def createCertBackend_def)
next
  case (cert c d')
  from createCertBackendTLS_refines [OF cert(2)] show ?thesis by (simp add: newConn_def bindP_def getP_def)
qed

text \<open>C9: All theorems about pools and targets rest on \<open>newConn\<close>, which takes the outcome of everything that happens before a session
  (certificate, dialling, TLS) from a list. The detailed code refines it: whatever the disk and the network do, there is an outcome
  with which the abstract operation gives the same result and leaves the same server.\<close>

theorem newConn_refined:
  "\<exists>out. newConn p ((w_srv w)\<lparr>dials := out # dials (w_srv w)\<rparr>) = (fst (newConnTLS vh p w), w_srv (snd (newConnTLS vh p w)))"
  by (rule newConnTLS_abstract) (rule surjective_pairing)

section \<open>What a new connection guarantees\<close>

lemma drain_out: "c_out (b_conn (snd (drainBackendStartup b))) = c_out (b_conn b)"
proof -
  have "keeps (\<lambda>x. c_out (b_conn (fst x)) = c_out (b_conn b)) startup_step"
  proof -
    have "keeps (\<lambda>x. c_out (b_conn (fst x)) = c_out (b_conn b)) (zoomP fst (\<lambda>y s. (y, snd s)) Backend_read)" for b :: Backend
      by (auto simp: keeps_def zoomP_def split: prod.split elim!: Backend_read_cases)
    then show ?thesis unfolding startup_step_def
      by (intro keeps_intros keeps_modify) (auto simp: startup_param_def split: list.split)
  qed
  then have "keeps (\<lambda>x. c_out (b_conn (fst x)) = c_out (b_conn b)) (loopP n startup_step)" for n by (rule keeps_loop)
  then have "c_out (b_conn (fst (snd (loopP (backend_fuel b) startup_step (b, False))))) = c_out (b_conn b)"
    unfolding keeps_def by (metis fst_conv)
  then show ?thesis by (auto simp: drainBackendStartup_def split: prod.split simp del: loopP.simps)
qed

lemma startSession_Ok:
  assumes "startSessionTLS n db usr w = (Ok b, w')"
  shows "b = n \<and> w_net w' = w_net w \<and>
    c_out (b_conn (backendOf (w_srv w') n)) = c_out (b_conn (backendOf (w_srv w) n)) @ [(NUL, buildStartupMessage usr db)]"
proof -
  let ?b = "backendOf (w_srv w) n"
  obtain r1 b1 where a: "raw_write (buildStartupMessage usr db) ?b = (r1, b1)" by fastforce
  obtain r2 b2 where d: "drainBackendStartup b1 = (r2, b2)" by fastforce
  have "c_out (b_conn b1) = c_out (b_conn ?b) @ [(NUL, buildStartupMessage usr db)]" if "r1 = Ok ()"
    using a that by (auto simp: raw_write_def zoomP_def conn_send_def split: prod.splits if_splits option.splits nat.splits)
  moreover have "c_out (b_conn b2) = c_out (b_conn b1)" using drain_out [of b1] d by simp
  ultimately show ?thesis
    using assms a d
    by (cases r1; cases r2)
      (auto simp: startSessionTLS_def zoom_runs on_backend_eq tryP_def thenP_def bindP_def closeTLS_run failP_def returnP_def)
qed

lemma startSession_Err:
  assumes "startSessionTLS n db usr w = (Err e, w')" and "n_conns (w_net w) = cs @ [(sent, opened)]"
  shows "n_conns (w_net w') = cs @ [(sent, False)]"
proof -
  obtain r1 s1 where a: "on_backend n (raw_write (buildStartupMessage usr db)) (w_srv w) = (r1, s1)" by fastforce
  obtain r2 s2 where b: "on_backend n drainBackendStartup s1 = (r2, s2)" by fastforce
  show ?thesis using assms a b
    by (cases r1; cases r2)
      (auto simp: startSessionTLS_def zoom_runs tryP_def thenP_def bindP_def closeTLS_run failP_def returnP_def on_last_def)
qed

lemma keeps_clock: "keeps (\<lambda>d. d_now d = t) (loadOrGenerateUserCert sc usr)" "keeps (\<lambda>d. d_now d = t) (backendTLSConfig sc host cert)"
proof -
  have sys [keeps_intros]: "keeps (\<lambda>d. d_now d = t) sysP" "keeps (\<lambda>d. d_now d = t) (ReadFile path)" for path
    by (auto simp: keeps_def sysP_def ReadFile_def split: list.split option.split)
  have put: "keeps (\<lambda>d. d_now d = t) (modifyP (put_file path f))" for path f by (rule keeps_modify) (simp add: put_file_def)
  have key: "keeps (\<lambda>d. d_now d = t) (modifyP (\<lambda>d. d\<lparr>d_nextKey := k\<rparr>))" "keeps (\<lambda>d. d_now d = t) (modifyP (\<lambda>d. d\<lparr>caPool := x\<rparr>))" for k x
    by (rule keeps_modify; simp)+
  have pair: "keeps (\<lambda>d. d_now d = t) (LoadX509KeyPair c k)" "keeps (\<lambda>d. d_now d = t) (loadCA sc)" "keeps (\<lambda>d. d_now d = t) (caCertPool sc)" for c k
    using LoadX509KeyPair_state loadCA_state caCertPool_frame by (auto simp: keeps_def) (metis disk.select_convs(3) disk.surjective disk.update_convs(5))
  show "keeps (\<lambda>d. d_now d = t) (loadOrGenerateUserCert sc usr)" "keeps (\<lambda>d. d_now d = t) (backendTLSConfig sc host cert)"
    unfolding loadOrGenerateUserCert_def isCertValidForCA_def generateAndCacheUserCert_def backendTLSConfig_def Let_def GenerateKey_def
      CreateCertificate_def OpenFile_def pem_Encode_def
    by (intro keeps_intros pair put key; (auto split: fileData.split intro!: keeps_intros pair))+
qed


lemma backendTLSConfig_run:
  assumes "ca_on_disk sc ca d" and "backendTLSConfig sc host cert d = (Ok cfg, d')"
  shows "cfg = \<lparr>ServerName = host, RootCAs = [ca], tlsCertificates = [cert], InsecureSkipVerify = False\<rparr>"
  using assms by (simp add: backendTLSConfig_def caCertPool_run [OF assms(1)] tryP_def returnP_def)

lemma Handshake_verified:
  "Handshake vh t \<lparr>ServerName = host, RootCAs = roots, tlsCertificates = certs, InsecureSkipVerify = False\<rparr> k = Inr tc \<Longrightarrow>
     Verify roots t ExtKeyUsageServerAuth (k_cert k) \<and> vh (k_cert k) host \<and> tc = k_session k certs"
  by (auto simp: Handshake_def split: option.splits if_splits)


text \<open>The other direction: with a server that speaks TLS, has a certificate from our authority for the target's host and lets the
  user in, and a disk that works, there is a connection.\<close>

definition cooperative :: "(Certificate \<Rightarrow> string \<Rightarrow> bool) \<Rightarrow> Certificate \<Rightarrow> int \<Rightarrow> string \<Rightarrow> tcp \<Rightarrow> bool" where
  "cooperative vh ca t host k \<longleftrightarrow> k_write k = None \<and> k_reply k = Inr ''S'' \<and> k_broken k = None \<and>
     Verify [ca] t ExtKeyUsageServerAuth (k_cert k) \<and> vh (k_cert k) host \<and> (\<forall>certs. accepting (k_session k certs))"

lemma accepting_max [simp]: "accepting (k\<lparr>c_max := m\<rparr>) = accepting k"
  by (simp add: accepting_def)

lemma startSession_accepting:
  assumes "accepting (b_conn (backendOf (w_srv w) n))"
  shows "fst (startSessionTLS n db usr w) = Ok n"
proof -
  let ?b = "backendOf (w_srv w) n" and ?m = "(NUL, buildStartupMessage usr db)"
  obtain x rest where k: "\<not> c_closed (b_conn ?b)" "c_room (b_conn ?b) \<noteq> Some 0"
      "c_in (b_conn ?b) = (CHR ''R'', PutUint32 AuthenticationOK) # (CHR ''Z'', x) # rest"
    using assms by (auto simp: accepting_def)
  obtain b1 where b1: "raw_write (buildStartupMessage usr db) ?b = (Ok (), b1)" "\<not> c_closed (b_conn b1)" "c_in (b_conn b1) = c_in (b_conn ?b)"
    using k(1,2) by (cases "c_room (b_conn ?b)") (auto simp: raw_write_def zoomP_def conn_send_def gr0_conv_Suc split: nat.split)
  have "fst (drainBackendStartup b1) = Ok ()" using drainBackendStartup_accepting [of b1] b1 k(3) by simp
  then show ?thesis using b1(1)
    by (cases "drainBackendStartup b1") (simp add: startSessionTLS_def zoom_runs on_backend_eq tryP_def returnP_def)
qed

lemma newConnTLS_connects:
  assumes "clean_dir (sv_config (w_srv w)) ps" "SLASH \<notin> set (Username (poolOf (w_srv w) p))" "store_ok (sv_config (w_srv w)) ca (w_disk w)"
    "Second \<le> TTL (Certs (sv_config (w_srv w)))" "d_io (w_disk w) = []"
    and "n_dials (w_net w) = Inr k # ds"
    and "cooperative vh ca (d_now (w_disk w)) (Host (targetOf (w_srv w) (p_target (poolOf (w_srv w) p)))) k"
  shows "fst (newConnTLS vh p w) = Ok (nextBackend (w_srv w))"
proof -
  let ?s = "w_srv w" and ?pool = "poolOf (w_srv w) p" and ?sc = "sv_config (w_srv w)"
  let ?host = "Host (targetOf ?s (p_target ?pool))"
  obtain r1 d1 where l: "loadOrGenerateUserCert ?sc (Username ?pool) (w_disk w) = (r1, d1)" by fastforce
  obtain c where r1: "r1 = Ok c" and ca: "ca_on_disk ?sc ca d1"
    using user_cert_ok [OF assms(1-4) l] assms(5) by (auto simp: store_ok_def)
  have t1: "d_now d1 = d_now (w_disk w)" using keepsD [OF keeps_clock(1) l] by blast
  let ?cfg = "\<lparr>ServerName = ?host, RootCAs = [ca], tlsCertificates = [c], InsecureSkipVerify = False\<rparr>"
  obtain d2 where cfg: "backendTLSConfig ?sc ?host c d1 = (Ok ?cfg, d2)"
    by (simp add: backendTLSConfig_def caCertPool_run [OF ca] tryP_def returnP_def)
  have t2: "d_now d2 = d_now (w_disk w)" using keepsD [OF keeps_clock(2) cfg] t1 by simp
  note co = assms(7) [unfolded cooperative_def]
  have d: "DialTimeout a (w_net w) = (Ok k, (w_net w)\<lparr>n_dials := ds, n_conns := n_conns (w_net w) @ [([], True)]\<rparr>)" for a
    using assms(6) by (simp add: DialTimeout_def)
  have hs: "Handshake vh (d_now d2) ?cfg k = Inr (k_session k [c])" using co t2 by (simp add: Handshake_def)
  have up: "fst (upgradeToCertTLS vh (d_now d2) ?cfg k n) = Ok (k_session k [c])" for n
    using co hs by (simp add: upgradeToCertTLS_def tcp_Write_def tryP_def liftP_def modifyP_def returnP_def)
  obtain r w' where run: "createCertBackendTLS vh (p_target ?pool) (DbName ?pool) (Username ?pool) c (w\<lparr>w_disk := d1\<rparr>) = (r, w')" by fastforce
  have "fst (createCertBackendTLS vh (p_target ?pool) (DbName ?pool) (Username ?pool) c (w\<lparr>w_disk := d1\<rparr>)) = Ok (nextBackend ?s)"
    using d cfg up [of "(w_net w)\<lparr>n_dials := ds, n_conns := n_conns (w_net w) @ [([], True)]\<rparr>"] co
    by (cases "upgradeToCertTLS vh (d_now d2) ?cfg k ((w_net w)\<lparr>n_dials := ds, n_conns := n_conns (w_net w) @ [([], True)]\<rparr>)")
      (simp add: createCertBackendTLS_def Let_def bindP_def getP_def tryP_def zoom_runs alloc_backend_def startSession_accepting NewBackend_def)
  moreover have "newConnTLS vh p w = createCertBackendTLS vh (p_target ?pool) (DbName ?pool) (Username ?pool) c (w\<lparr>w_disk := d1\<rparr>)"
    using l r1 by (simp add: newConnTLS_def bindP_def getP_def tryP_def zoom_runs)
  ultimately show ?thesis by simp
qed

definition demo_server_cert :: Certificate where
  "demo_server_cert = (user_template defaultServerConfig ''db'' 0)\<lparr>Issuer := Subject demo_ca, PublicKey := 9, SignedBy := 7,
     ExtKeyUsage := [ExtKeyUsageServerAuth], DNSNames := [''localhost'']\<rparr>"

definition demo_tcp :: tcp where
  "demo_tcp = \<lparr>k_write = None, k_reply = Inr ''S'', k_broken = None, k_cert = demo_server_cert, k_session = (\<lambda>_. demo_conn)\<rparr>"

definition demo_world :: world where
  "demo_world = \<lparr>w_srv = demo_server\<lparr>poolOf := (\<lambda>_. new_pool 0 (demo_target []) ''app'' ''bob'')\<rparr>, w_disk = demo_disk,
     w_net = \<lparr>n_dials = [Inr demo_tcp], n_conns = []\<rparr>\<rparr>"

lemma demo_cooperative: "cooperative (\<lambda>c h. h \<in> set (DNSNames c)) demo_ca 0 ''localhost'' demo_tcp"
  by (simp add: cooperative_def demo_tcp_def demo_accepting Verify_def time_ok_def usage_ok_def signed_from_def demo_server_cert_def demo_ca_def
      user_template_def signed_def ca_template_def whole_seconds_def Second_def Hour_def defaultServerConfig_def)

lemma demo_world_ok:
  "clean_dir (sv_config (w_srv demo_world)) [''etc'', ''pgfox'']" "SLASH \<notin> set (Username (poolOf (w_srv demo_world) 0))"
  "store_ok (sv_config (w_srv demo_world)) demo_ca (w_disk demo_world)" "Second \<le> TTL (Certs (sv_config (w_srv demo_world)))"
  "d_io (w_disk demo_world) = []" "n_dials (w_net demo_world) = Inr demo_tcp # []"
  "cooperative (\<lambda>c h. h \<in> set (DNSNames c)) demo_ca (d_now (w_disk demo_world)) (Host (targetOf (w_srv demo_world) (p_target (poolOf (w_srv demo_world) 0)))) demo_tcp"
  using clean_default demo_store demo_cooperative
  by (simp_all add: demo_world_def demo_server_def new_pool_def demo_target_def demo_disk_def empty_disk_def defaultServerConfig_def Hour_def Second_def)


end
