(* ===== verification/Pgfox_ClientTLS.thy ===== *)
theory Pgfox_ClientTLS
  imports Pgfox_Server
begin

text \<open>
  \<open>upgradeToTLS\<close> of \<open>server.go\<close> with the files it reads: \<open>Pgfox_Startup\<close> takes the outcome of an upgrade from a list, here it is
  loading the key pair of the client-facing certificate and the handshake with the client, whose side of it is a parameter.

  The theorems show that the detailed code refines that, that after the bootstrap of \<open>Pgfox_Certs\<close> every upgrade finds a pair that
  belongs together, and that the bootstrap does not repair a pair whose key was lost.
\<close>

section \<open>The upgrade\<close>

definition VersionTLS12 :: nat where "VersionTLS12 = 0x0303"

record serverTlsConfig =
  st_Certificates :: "(Certificate \<times> keyId) list"
  st_MinVersion :: nat

text \<open>What the client makes of the handshake: an error, or what it sends inside the session.\<close>

type_synonym tlsClient = "serverTlsConfig \<Rightarrow> goerr + reader"

record front =
  f_io :: "Server \<times> rawio"
  f_disk :: disk

definition upgradeToTLS_disk :: "ServerConfig \<Rightarrow> tlsClient \<Rightarrow> (front, unit) prog" where
  "upgradeToTLS_disk sc peer =
     wrapP ''failed to load pgfox TLS cert''
       (zoomP f_disk (\<lambda>d x. x\<lparr>f_disk := d\<rparr>) (LoadX509KeyPair (pgfoxTLSCertPath sc) (pgfoxTLSKeyPath sc))) (\<lambda>cert.
     let tlsConfig = \<lparr>st_Certificates = [cert], st_MinVersion = VersionTLS12\<rparr> in
     wrapP ''TLS handshake failed'' (liftP (peer tlsConfig)) (\<lambda>r.
     modifyP (\<lambda>x. x\<lparr>f_io := (fst (f_io x), (snd (f_io x))\<lparr>r_cur := r\<rparr>)\<rparr>)))"

lemma LoadX509KeyPair_paired:
  "(\<exists>c. LoadX509KeyPair cp kp d = (Ok (c, PublicKey c), d) \<and> d_files d cp = Some (CertPEM c)) \<longleftrightarrow> paired d cp kp"
  "\<not> paired d cp kp \<Longrightarrow> \<exists>e. LoadX509KeyPair cp kp d = (Err e, d)"
  by (auto simp: LoadX509KeyPair_def ReadFile_def bindP_def failP_def returnP_def paired_def split: option.splits fileData.splits)

lemma upgrade_run:
  assumes "LoadX509KeyPair (pgfoxTLSCertPath sc) (pgfoxTLSKeyPath sc) d = (Ok cert, d)"
  shows "upgradeToTLS_disk sc peer \<lparr>f_io = (s, io), f_disk = d\<rparr> =
    (case peer \<lparr>st_Certificates = [cert], st_MinVersion = VersionTLS12\<rparr> of
       Inl e \<Rightarrow> (Err (Wrapf ''TLS handshake failed'' e), \<lparr>f_io = (s, io), f_disk = d\<rparr>)
     | Inr r \<Rightarrow> (Ok (), \<lparr>f_io = (s, io\<lparr>r_cur := r\<rparr>), f_disk = d\<rparr>))"
  using assms
  by (simp add: upgradeToTLS_disk_def tryP_def zoomP_def liftP_def failP_def modifyP_def Let_def split: sum.split)

lemma upgrade_fails:
  assumes "LoadX509KeyPair (pgfoxTLSCertPath sc) (pgfoxTLSKeyPath sc) d = (Err e, d)"
  shows "upgradeToTLS_disk sc peer \<lparr>f_io = x, f_disk = d\<rparr> =
    (Err (Wrapf ''failed to load pgfox TLS cert'' e), \<lparr>f_io = x, f_disk = d\<rparr>)"
  using assms by (simp add: upgradeToTLS_disk_def tryP_def zoomP_def failP_def)

text \<open>The operation of \<open>Pgfox_Startup\<close> with an outcome that the files and the client determine does the same.\<close>

theorem upgradeToTLS_refined:
  "\<exists>out. upgradeToTLS (s, io\<lparr>r_tls := out # r_tls io\<rparr>) =
    (fst (upgradeToTLS_disk sc peer \<lparr>f_io = (s, io), f_disk = d\<rparr>), f_io (snd (upgradeToTLS_disk sc peer \<lparr>f_io = (s, io), f_disk = d\<rparr>)))"
proof (cases "paired d (pgfoxTLSCertPath sc) (pgfoxTLSKeyPath sc)")
  case True
  then obtain c where "LoadX509KeyPair (pgfoxTLSCertPath sc) (pgfoxTLSKeyPath sc) d = (Ok (c, PublicKey c), d)"
    using LoadX509KeyPair_paired(1) by metis
  note run = upgrade_run [OF this, of peer s io]
  show ?thesis
  proof (cases "peer \<lparr>st_Certificates = [(c, PublicKey c)], st_MinVersion = VersionTLS12\<rparr>")
    case (Inl e)
    then show ?thesis by (intro exI [of _ "Inl (Wrapf ''TLS handshake failed'' e)"]) (simp add: run upgradeToTLS_def)
  next
    case (Inr r)
    then show ?thesis by (intro exI [of _ "Inr r"]) (simp add: run upgradeToTLS_def)
  qed
next
  case False
  then obtain e where "LoadX509KeyPair (pgfoxTLSCertPath sc) (pgfoxTLSKeyPath sc) d = (Err e, d)" using LoadX509KeyPair_paired(2) by metis
  note run = upgrade_fails [OF this, of peer "(s, io)"]
  show ?thesis by (intro exI [of _ "Inl (Wrapf ''failed to load pgfox TLS cert'' e)"]) (simp add: run upgradeToTLS_def)
qed

section \<open>After the bootstrap\<close>

text \<open>C21: Once the bootstrap has run (from an empty directory, or one in which a client-facing certificate has its key beside it), the
  server answers a request for TLS with \<open>S\<close>, and every upgrade shows the client a certificate that the authority vouches for, with
  names to check and its own key. It then depends on the client alone: either the handshake fails and nothing has changed, or what is
  read from there on is exactly what comes inside the session, and nothing that was sent before it in the clear.\<close>

theorem client_tls_ready:
  assumes "clean_dir sc ps" "24 * Hour + Second \<le> TTL (Certs sc)" "d_io d = []"
    and "(\<exists>ca. ca_on_disk sc ca d) \<or> caPool d = None \<and> \<not> (fileExists (caCertPath sc) d \<and> fileExists (caKeyPath sc) d)"
    and "fileExists (pgfoxTLSCertPath sc) d \<longrightarrow> paired d (pgfoxTLSCertPath sc) (pgfoxTLSKeyPath sc)"
  shows "\<exists>ca cert d'. ensureBootstrapCerts parseIP sc targets d = (Ok (), d') \<and> ca_on_disk sc ca d' \<and> isSSLSupported sc d' \<and>
    cert_fit ca (d_now d') True cert \<and>
    (\<forall>peer s io. upgradeToTLS_disk sc peer \<lparr>f_io = (s, io), f_disk = d'\<rparr> =
      (case peer \<lparr>st_Certificates = [(cert, PublicKey cert)], st_MinVersion = VersionTLS12\<rparr> of
         Inl e \<Rightarrow> (Err (Wrapf ''TLS handshake failed'' e), \<lparr>f_io = (s, io), f_disk = d'\<rparr>)
       | Inr r \<Rightarrow> (Ok (), \<lparr>f_io = (s, io\<lparr>r_cur := r\<rparr>), f_disk = d'\<rparr>)))"
proof -
  obtain ca d' where d': "ensureBootstrapCerts parseIP sc targets d = (Ok (), d')" "ca_on_disk sc ca d'"
    "good_file ca d' (pgfoxTLSCertPath sc)"
    "(good_file ca d (pgfoxTLSCertPath sc) \<longrightarrow> paired d (pgfoxTLSCertPath sc) (pgfoxTLSKeyPath sc)) \<longrightarrow>
      paired d' (pgfoxTLSCertPath sc) (pgfoxTLSKeyPath sc)"
    using bootstrap_run [OF assms(1-4)] by blast
  have "paired d' (pgfoxTLSCertPath sc) (pgfoxTLSKeyPath sc)"
    using d'(4) assms(5) by (auto simp: good_file_def fileExists_def)
  then obtain c where c: "LoadX509KeyPair (pgfoxTLSCertPath sc) (pgfoxTLSKeyPath sc) d' = (Ok (c, PublicKey c), d')"
    "d_files d' (pgfoxTLSCertPath sc) = Some (CertPEM c)"
    using LoadX509KeyPair_paired(1) by metis
  have "cert_fit ca (d_now d') True c" using d'(3) c(2) by (simp add: good_file_def)
  moreover have "isSSLSupported sc d'" using c(2) by (simp add: isSSLSupported_def fileExists_def)
  ultimately show ?thesis using d'(1,2) upgrade_run [OF c(1)] by blast
qed

theorem client_tls_ready_witness:
  "\<exists>cert d'. ensureBootstrapCerts (\<lambda>_. None) defaultServerConfig [] empty_disk = (Ok (), d') \<and>
    upgradeToTLS_disk defaultServerConfig (\<lambda>cfg. Inr \<lparr>rbuf = ''inside'', rend = Eof\<rparr>)
      \<lparr>f_io = (demo_fresh, \<lparr>r_cur = \<lparr>rbuf = ''injected'', rend = Eof\<rparr>, r_tls = []\<rparr>), f_disk = d'\<rparr> =
      (Ok (), \<lparr>f_io = (demo_fresh, \<lparr>r_cur = \<lparr>rbuf = ''inside'', rend = Eof\<rparr>, r_tls = []\<rparr>), f_disk = d'\<rparr>)"
proof -
  have "\<exists>ca cert d'. ensureBootstrapCerts (\<lambda>_. None) defaultServerConfig [] empty_disk = (Ok (), d') \<and> ca_on_disk defaultServerConfig ca d' \<and>
    isSSLSupported defaultServerConfig d' \<and> cert_fit ca (d_now d') True cert \<and>
    (\<forall>peer s io. upgradeToTLS_disk defaultServerConfig peer \<lparr>f_io = (s, io), f_disk = d'\<rparr> =
      (case peer \<lparr>st_Certificates = [(cert, PublicKey cert)], st_MinVersion = VersionTLS12\<rparr> of
         Inl e \<Rightarrow> (Err (Wrapf ''TLS handshake failed'' e), \<lparr>f_io = (s, io), f_disk = d'\<rparr>)
       | Inr r \<Rightarrow> (Ok (), \<lparr>f_io = (s, io\<lparr>r_cur := r\<rparr>), f_disk = d'\<rparr>)))"
    by (rule client_tls_ready [OF clean_default]) (simp_all add: empty_disk_def fileExists_def defaultServerConfig_def Hour_def Second_def)
  then show ?thesis by force
qed

text \<open>The bootstrap looks at the certificate only. When the key beside a good certificate is missing or belongs to another one, every
  start succeeds and leaves it so, the server goes on to accept requests for TLS, and every upgrade fails.\<close>

theorem lost_key_not_repaired:
  assumes "clean_dir sc ps" "24 * Hour + Second \<le> TTL (Certs sc)" "d_io d = []" "ca_on_disk sc ca d"
    and "good_file ca d (serverCertPath sc)" "good_file ca d (pgfoxTLSCertPath sc)" "\<not> paired d (pgfoxTLSCertPath sc) (pgfoxTLSKeyPath sc)"
  shows "\<exists>d'. ensureBootstrapCerts parseIP sc targets d = (Ok (), d') \<and> isSSLSupported sc d' \<and>
    (\<forall>peer x. \<exists>e. upgradeToTLS_disk sc peer \<lparr>f_io = x, f_disk = d'\<rparr> = (Err e, \<lparr>f_io = x, f_disk = d'\<rparr>))"
proof -
  obtain d' where d': "ensureBootstrapCerts parseIP sc targets d = (Ok (), d')" "d_files d' = d_files d"
    using bootstrap_run [OF assms(1-3), of parseIP targets] assms(4-6) by blast
  have "\<not> paired d' (pgfoxTLSCertPath sc) (pgfoxTLSKeyPath sc)" using assms(7) d'(2) by (simp add: paired_def)
  then obtain e where "LoadX509KeyPair (pgfoxTLSCertPath sc) (pgfoxTLSKeyPath sc) d' = (Err e, d')" using LoadX509KeyPair_paired(2) by metis
  then show ?thesis using d' assms(6) upgrade_fails by (fastforce simp: isSSLSupported_def fileExists_def good_file_def)
qed

end
