(* ===== verification/Pgfox_Reload.thy ===== *)
theory Pgfox_Reload
  imports Pgfox_Startup
begin

text \<open>
  \<open>Reload\<close> of \<open>server.go\<close> and \<open>waitDrained\<close> of \<open>target.go\<close>: removed targets are marked, waited for and cancelled, existing ones
  get their new rules and limits, added ones are started, and the listener moves. The state is the server with the address its listener is
  bound to.
\<close>

section \<open>Waiting for a target to drain (target.go)\<close>

text \<open>\<open>naps\<close> is what the other goroutines do while the loop sleeps; with no nap left it is still waiting.\<close>

definition nap_time :: int where
  "nap_time = 50 * 1000000"

fun drain_wait :: "targetId \<Rightarrow> int \<Rightarrow> (Server \<Rightarrow> Server) list \<Rightarrow> (Server, unit) prog" where
  "drain_wait t deadline [] = bindP (getP (\<lambda>s. now s < deadline \<and> target_ActiveConnections t s \<noteq> 0)) (\<lambda>wait. if wait then blockP else returnP ())"
| "drain_wait t deadline (nap # naps) =
     bindP (getP (\<lambda>s. now s < deadline \<and> target_ActiveConnections t s \<noteq> 0)) (\<lambda>wait.
     if wait then thenP (modifyP nap) (drain_wait t deadline naps) else returnP ())"

definition waitDrained :: "targetId \<Rightarrow> int \<Rightarrow> (Server \<Rightarrow> Server) list \<Rightarrow> (Server, unit) prog" where
  "waitDrained t timeout naps =
     (if timeout \<le> 0 then returnP ()
      else bindP (getP (\<lambda>s. now s + timeout)) (\<lambda>deadline. drain_wait t deadline naps))"

section \<open>Reload (server.go)\<close>

text \<open>\<open>new\<close> are the targets of the new configuration with their identities; \<open>boot\<close> is what a new target's goroutine does until it is
  ready or its start times out. The listener is the address it is bound to; \<open>listen\<close> is the outcome of \<open>net.Listen\<close>. A removed target is
  cancelled and left to its goroutine, which drains it: \<open>Target.Wg\<close> is never added to, so waiting for it returns at once.\<close>

definition removed_targets :: "(targetId \<times> Target) list \<Rightarrow> Server \<Rightarrow> targetId list" where
  "removed_targets new s = filter (\<lambda>t. Name (targetOf s t) \<notin> Name ` snd ` set new) (Targets s)"

definition remove_target :: "(targetId \<Rightarrow> (Server \<Rightarrow> Server) list) \<Rightarrow> targetId \<Rightarrow> (Server, unit) prog" where
  "remove_target naps t =
     bindP (getP (\<lambda>s. QueryTimeout (sv_config s))) (\<lambda>timeout.
     thenP (if timeout > 0 then waitDrained t timeout (naps t) else returnP ())
       (modifyP (upd_target t (\<lambda>x. x\<lparr>Cancelled := True\<rparr>))))"

definition drop_targets :: "(targetId \<Rightarrow> (Server \<Rightarrow> Server) list) \<Rightarrow> (targetId \<times> Target) list \<Rightarrow> (Server, unit) prog" where
  "drop_targets naps new =
     bindP (getP (removed_targets new)) (\<lambda>gone.
     thenP (modifyP (fold (\<lambda>t. upd_target t (\<lambda>x. x\<lparr>Draining := True\<rparr>)) gone))
     (thenP (forP gone (remove_target naps))
       (modifyP (\<lambda>s. s\<lparr>Targets := filter (\<lambda>t. t \<notin> set gone) (Targets s)\<rparr>))))"

definition refresh_target :: "(targetId \<times> Target) list \<Rightarrow> targetId \<Rightarrow> Server \<Rightarrow> Server" where
  "refresh_target new t s =
     (case find (\<lambda>(_, y). Name y = Name (targetOf s t)) new of
        None \<Rightarrow> s
      | Some (_, fresh) \<Rightarrow>
          upd_target t (\<lambda>x. x\<lparr>Rules := Rules fresh, MaxConnections := MaxConnections fresh,
                              ConnectTimeout := ConnectTimeout fresh, Parameters := Parameters fresh\<rparr>) s)"

fun start_targets :: "(targetId \<Rightarrow> Server \<Rightarrow> Server) \<Rightarrow> string list \<Rightarrow> (targetId \<times> Target) list \<Rightarrow> Server \<Rightarrow> bool \<times> Server" where
  "start_targets boot old [] s = (True, s)"
| "start_targets boot old ((t, fresh) # new) s =
     (if Name fresh \<in> set old then start_targets boot old new s
      else let s1 = boot t (upd_target t (\<lambda>_. fresh) s)
           in if \<not> Ready (targetOf s1 t) \<and> shuttingDown s1 then (False, s1)
              else start_targets boot old new (s1\<lparr>Targets := Targets s1 @ [t]\<rparr>))"

definition move_listener :: "(string \<Rightarrow> goerr option) \<Rightarrow> string \<Rightarrow> string \<Rightarrow> string \<Rightarrow> string" where
  "move_listener listen configured new bound =
     (if new \<noteq> configured then (case listen new of Some _ \<Rightarrow> bound | None \<Rightarrow> new) else bound)"

definition new_settings :: "ServerConfig \<Rightarrow> ServerConfig \<Rightarrow> ServerConfig" where
  "new_settings sc old =
     old\<lparr>sc_ConnectTimeout := sc_ConnectTimeout sc, IdleTimeout := IdleTimeout sc, QueryTimeout := QueryTimeout sc,
         MaxMessageSize := MaxMessageSize sc, StatsInterval := StatsInterval sc, PeakWindow := PeakWindow sc\<rparr>"

text \<open>The state is the server and the address its listener is bound to.\<close>

definition Reload ::
  "(targetId \<Rightarrow> (Server \<Rightarrow> Server) list) \<Rightarrow> (targetId \<Rightarrow> Server \<Rightarrow> Server) \<Rightarrow> (string \<Rightarrow> goerr option) \<Rightarrow> ServerConfig \<Rightarrow>
    (targetId \<times> Target) list \<Rightarrow> (Server \<times> string, unit) prog" where
  "Reload naps boot listen sc new =
     bindP (getP (\<lambda>(s, _). map (\<lambda>t. Name (targetOf s t)) (Targets s))) (\<lambda>old.
     thenP (zoomP fst (\<lambda>s (_, a). (s, a)) (drop_targets naps new))
     (modifyP (\<lambda>(s1, bound).
        let s2 = fold (refresh_target new) (Targets s1) s1 in
        case start_targets boot old new s2 of
          (False, s3) \<Rightarrow> (s3, bound)
        | (True, s3) \<Rightarrow>
            (s3\<lparr>sv_config := new_settings sc (sv_config s3), Targets := sort_key (\<lambda>t. target_key (targetOf s3 t)) (Targets s3)\<rparr>,
             move_listener listen (ListenAddr (sv_config s3)) (ListenAddr sc) bound))))"

section \<open>Waiting ends\<close>

text \<open>Naps last at least as long as they should, and there are enough of them for the timeout.\<close>

definition patient :: "int \<Rightarrow> (Server \<Rightarrow> Server) list \<Rightarrow> bool" where
  "patient timeout naps \<longleftrightarrow> timeout \<le> int (length naps) * nap_time \<and> (\<forall>nap \<in> set naps. \<forall>s. now s + nap_time \<le> now (nap s))"

lemma drain_wait_returns:
  assumes "patient (deadline - now s) naps"
  shows "\<exists>s'. drain_wait t deadline naps s = (Ok (), s') \<and> (target_ActiveConnections t s' = 0 \<or> deadline \<le> now s')"
  using assms
proof (induction naps arbitrary: s)
  case Nil
  then show ?case by (auto simp: patient_def prog_defs)
next
  case (Cons nap naps)
  have n: "now s + nap_time \<le> now (nap s)" using Cons.prems by (simp add: patient_def)
  have "deadline - now s \<le> int (Suc (length naps)) * nap_time" using Cons.prems by (simp add: patient_def)
  then have "deadline - now (nap s) \<le> int (length naps) * nap_time" using n by (simp add: algebra_simps)
  then have "patient (deadline - now (nap s)) naps" using Cons.prems by (simp add: patient_def)
  from Cons.IH [OF this] show ?case by (auto simp: bindP_def getP_def thenP_def modifyP_def returnP_def)
qed

lemma waitDrained_ok:
  assumes "patient timeout naps"
  shows "\<exists>s'. waitDrained t timeout naps s = (Ok (), s') \<and>
    (0 < timeout \<longrightarrow> target_ActiveConnections t s' = 0 \<or> now s + timeout \<le> now s')"
  using drain_wait_returns [of "now s + timeout" s naps t] assms
  by (auto simp: waitDrained_def bindP_def getP_def returnP_def)

lemma drain_wait_keeps: "(\<And>nap. nap \<in> set naps \<Longrightarrow> keeps I (modifyP nap)) \<Longrightarrow> keeps I (drain_wait t deadline naps)"
  by (induction naps) (auto intro!: keeps_intros)

section \<open>What a reload leaves\<close>

text \<open>While the reload waits, the list of targets and the configuration stay as they are.\<close>

definition calm_naps :: "int \<Rightarrow> (targetId \<Rightarrow> (Server \<Rightarrow> Server) list) \<Rightarrow> bool" where
  "calm_naps timeout naps \<longleftrightarrow> (\<forall>t. patient timeout (naps t) \<and> (\<forall>nap \<in> set (naps t). \<forall>s. same_targets s (nap s) \<and> sv_config (nap s) = sv_config s))"

definition unmoved :: "Server \<Rightarrow> Server \<Rightarrow> bool" where
  "unmoved s s' \<longleftrightarrow> same_targets s s' \<and> sv_config s' = sv_config s"

lemma unmoved_trans: "unmoved s s' \<Longrightarrow> unmoved s' s'' \<Longrightarrow> unmoved s s''"
  by (auto simp: unmoved_def intro: same_targets_trans)

lemma remove_target_runs:
  assumes "calm_naps (QueryTimeout (sv_config s)) naps"
  shows "\<exists>s'. remove_target naps t s = (Ok (), s') \<and> unmoved s s' \<and> Cancelled (targetOf s' t)"
proof -
  let ?tm = "QueryTimeout (sv_config s)"
  have p: "patient ?tm (naps t)" using assms by (simp add: calm_naps_def)
  obtain s1 where s1: "(if ?tm > 0 then waitDrained t ?tm (naps t) else returnP ()) s = (Ok (), s1)"
    using waitDrained_ok [OF p, of t s] by (cases "?tm > 0") (auto simp: returnP_def)
  have "keeps (unmoved s) (modifyP nap)" if "nap \<in> set (naps t)" for nap
    using assms that by (intro keeps_modify) (auto simp: calm_naps_def unmoved_def intro: same_targets_trans)
  then have "keeps (unmoved s) (if ?tm > 0 then waitDrained t ?tm (naps t) else returnP ())"
    unfolding waitDrained_def by (intro keeps_intros drain_wait_keeps)
  then have u: "unmoved s s1" using s1 by (auto dest: keepsD simp: unmoved_def)
  have "unmoved s1 (upd_target t (\<lambda>x. x\<lparr>Cancelled := True\<rparr>) s1)" by (simp add: unmoved_def same_targets_def upd_target_def)
  then show ?thesis using s1 unmoved_trans [OF u] by (simp add: remove_target_def bindP_def getP_def thenP_def modifyP_def)
qed

lemma remove_all_run:
  assumes "calm_naps (QueryTimeout (sv_config s)) naps"
  shows "\<exists>s'. forP ts (remove_target naps) s = (Ok (), s') \<and> unmoved s s'"
  using assms
proof (induction ts arbitrary: s)
  case Nil
  then show ?case by (simp add: prog_defs unmoved_def)
next
  case (Cons t ts)
  obtain s1 where s1: "remove_target naps t s = (Ok (), s1)" "unmoved s s1" using remove_target_runs [OF Cons.prems] by blast
  then have "calm_naps (QueryTimeout (sv_config s1)) naps" using Cons.prems by (simp add: unmoved_def)
  from Cons.IH [OF this] s1 show ?case by (auto simp: thenP_def bindP_def intro: unmoved_trans)
qed

lemma drop_targets_run:
  assumes "calm_naps (QueryTimeout (sv_config s)) naps"
  shows "\<exists>s1. unmoved s s1 \<and>
    drop_targets naps new s = (Ok (), s1\<lparr>Targets := filter (\<lambda>t. Name (targetOf s t) \<in> Name ` snd ` set new) (Targets s)\<rparr>)"
proof -
  let ?gone = "removed_targets new s"
  define s0 where "s0 = fold (\<lambda>t. upd_target t (\<lambda>x. x\<lparr>Draining := True\<rparr>)) ?gone s"
  have "sv_config (fold (\<lambda>t. upd_target t (\<lambda>x. x\<lparr>Draining := True\<rparr>)) ts x) = sv_config x" for ts x
    by (induction ts arbitrary: x) simp_all
  then have s0: "unmoved s s0" unfolding s0_def unmoved_def by (simp add: same_targets_fold same_targets_leaf)
  then have "calm_naps (QueryTimeout (sv_config s0)) naps" using assms by (simp add: unmoved_def)
  from remove_all_run [OF this] obtain s1 where s1: "forP ?gone (remove_target naps) s0 = (Ok (), s1)" "unmoved s0 s1" by blast
  have u: "unmoved s s1" by (rule unmoved_trans [OF s0 s1(2)])
  have "filter (\<lambda>t. t \<notin> set ?gone) (Targets s) = filter (\<lambda>t. Name (targetOf s t) \<in> Name ` snd ` set new) (Targets s)"
    by (rule filter_cong) (auto simp: removed_targets_def)
  then show ?thesis using u s1(1)
    by (intro exI [of _ s1]) (simp add: drop_targets_def bindP_def getP_def thenP_def modifyP_def s0_def [symmetric] unmoved_def same_targets_def)
qed

lemma refresh_run:
  "Targets (fold (refresh_target new) ts s) = Targets s \<and> shuttingDown (fold (refresh_target new) ts s) = shuttingDown s \<and>
   Name (targetOf (fold (refresh_target new) ts s) t) = Name (targetOf s t) \<and>
   Rules (targetOf (fold (refresh_target new) ts s) t) =
     (case find (\<lambda>(_, y). Name y = Name (targetOf s t)) new of
        Some (_, y) \<Rightarrow> if t \<in> set ts then Rules y else Rules (targetOf s t)
      | None \<Rightarrow> Rules (targetOf s t))"
proof (induction ts arbitrary: s)
  case (Cons u ts)
  have "Targets (refresh_target new u s) = Targets s" "shuttingDown (refresh_target new u s) = shuttingDown s"
    "Name (targetOf (refresh_target new u s) t) = Name (targetOf s t)"
    "Rules (targetOf (refresh_target new u s) t) =
      (case find (\<lambda>(_, y). Name y = Name (targetOf s t)) new of
        Some (_, y) \<Rightarrow> if t = u then Rules y else Rules (targetOf s t)
      | None \<Rightarrow> Rules (targetOf s t))"
    by (auto simp: refresh_target_def split: option.split)
  then show ?case using Cons.IH [of "refresh_target new u s"] by (auto split: option.split)
qed (simp split: option.split)

lemma refresh_config: "sv_config (fold (refresh_target new) ts s) = sv_config s"
proof (induction ts arbitrary: s)
  case (Cons t ts)
  have "sv_config (refresh_target new t s) = sv_config s" by (auto simp: refresh_target_def split: option.split)
  then show ?case using Cons by simp
qed simp

lemma start_config:
  assumes "\<And>t s. sv_config (boot t s) = sv_config s"
  shows "sv_config (snd (start_targets boot old new s)) = sv_config s"
  using assms by (induction boot old new s rule: start_targets.induct) (simp_all add: Let_def)

lemma find_named:
  "distinct (map (\<lambda>n. Name (snd n)) new) \<Longrightarrow> n \<in> set new \<Longrightarrow> find (\<lambda>(_, y). Name y = Name (snd n)) new = Some n"
  by (induction new) (auto simp: rev_image_eqI)

text \<open>The targets that are added, with the identities they get.\<close>

definition added :: "string list \<Rightarrow> (targetId \<times> Target) list \<Rightarrow> (targetId \<times> Target) list" where
  "added old new = filter (\<lambda>(_, y). Name y \<notin> set old) new"

lemma start_targets_run:
  assumes "\<And>t s. same_targets s (boot t s)" "\<not> shuttingDown s" "distinct (map fst new)"
    and "\<forall>(t, y) \<in> set new. Name y \<notin> set old \<longrightarrow> t \<notin> set (Targets s)"
  shows "\<exists>s'. start_targets boot old new s = (True, s') \<and> Targets s' = Targets s @ map fst (added old new) \<and>
    (\<forall>t. t \<notin> fst ` set (added old new) \<longrightarrow> Name (targetOf s' t) = Name (targetOf s t) \<and> Rules (targetOf s' t) = Rules (targetOf s t)) \<and>
    (\<forall>(t, y) \<in> set (added old new). Name (targetOf s' t) = Name y \<and> Rules (targetOf s' t) = Rules y)"
  using assms(2-)
proof (induction new arbitrary: s)
  case (Cons n new)
  obtain t y where n: "n = (t, y)" by (rule prod.exhaust)
  show ?case
  proof (cases "Name y \<in> set old")
    case True
    then show ?thesis using Cons.IH [of s] Cons.prems n by (simp add: added_def)
  next
    case False
    define s1 where "s1 = boot t (upd_target t (\<lambda>_. y) s)"
    let ?s2 = "s1\<lparr>Targets := Targets s1 @ [t]\<rparr>"
    have s1: "same_targets (upd_target t (\<lambda>_. y) s) s1" unfolding s1_def by (rule assms(1))
    have "\<forall>(u, z) \<in> set new. Name z \<notin> set old \<longrightarrow> u \<notin> set (Targets ?s2)"
      using Cons.prems s1 by (force simp: n same_targets_def)
    then obtain s' where s': "start_targets boot old new ?s2 = (True, s')" "Targets s' = Targets ?s2 @ map fst (added old new)"
      "\<forall>t. t \<notin> fst ` set (added old new) \<longrightarrow> Name (targetOf s' t) = Name (targetOf ?s2 t) \<and> Rules (targetOf s' t) = Rules (targetOf ?s2 t)"
      "\<forall>(t, y) \<in> set (added old new). Name (targetOf s' t) = Name y \<and> Rules (targetOf s' t) = Rules y"
      using Cons.IH [of ?s2] Cons.prems s1 by (auto simp: n same_targets_def)
    have "t \<notin> fst ` set (added old new)" using Cons.prems(2) by (auto simp: n added_def)
    moreover have "added old (n # new) = n # added old new" using False by (simp add: added_def n)
    moreover have "start_targets boot old (n # new) s = (True, s')"
      using False s1 s'(1) Cons.prems(1) by (simp add: n Let_def s1_def [symmetric] same_targets_def)
    ultimately show ?thesis using s' s1 by (auto simp: n same_targets_def)
  qed
qed (simp add: added_def)

text \<open>What happens elsewhere while removed targets drain and new ones start leaves the target list alone and naps last as long as they
  should; the identities of added targets are fresh.\<close>

definition reload_ok :: "(targetId \<Rightarrow> (Server \<Rightarrow> Server) list) \<Rightarrow> (targetId \<Rightarrow> Server \<Rightarrow> Server) \<Rightarrow> (targetId \<times> Target) list \<Rightarrow> Server \<Rightarrow> bool" where
  "reload_ok naps boot new s \<longleftrightarrow> calm_naps (QueryTimeout (sv_config s)) naps \<and>
     (\<forall>t s. same_targets s (boot t s) \<and> sv_config (boot t s) = sv_config s) \<and> \<not> shuttingDown s \<and>
     distinct (map fst new) \<and> distinct (map (\<lambda>n. Name (snd n)) new) \<and> (\<forall>n \<in> set new. fst n \<notin> set (Targets s))"

lemma reload_run:
  assumes "reload_ok naps boot new s"
  shows "\<exists>s'. Reload naps boot listen sc new (s, bound) = (Ok (), (s', move_listener listen (ListenAddr (sv_config s)) (ListenAddr sc) bound)) \<and>
    sv_config s' = new_settings sc (sv_config s) \<and>
    Name ` targetOf s' ` set (Targets s') = Name ` snd ` set new \<and>
    (\<forall>n \<in> set new. \<exists>t \<in> set (Targets s'). Name (targetOf s' t) = Name (snd n) \<and> Rules (targetOf s' t) = Rules (snd n)) \<and>
    sorted (map (\<lambda>t. target_key (targetOf s' t)) (Targets s'))"
proof -
  have assms: "calm_naps (QueryTimeout (sv_config s)) naps" "\<And>t s. same_targets s (boot t s) \<and> sv_config (boot t s) = sv_config s" "\<not> shuttingDown s"
      "distinct (map fst new)" "distinct (map (\<lambda>n. Name (snd n)) new)" "\<forall>n \<in> set new. fst n \<notin> set (Targets s)"
    using assms by (simp_all add: reload_ok_def)
  define old where "old = map (\<lambda>t. Name (targetOf s t)) (Targets s)"
  define kept where "kept = filter (\<lambda>t. Name (targetOf s t) \<in> Name ` snd ` set new) (Targets s)"
  obtain s0 where s0': "unmoved s s0" and s0: "same_targets s s0" "drop_targets naps new s = (Ok (), s0\<lparr>Targets := kept\<rparr>)"
    using drop_targets_run [of s naps new, OF assms(1)] unfolding kept_def by (auto simp: unmoved_def)
  define s2 where "s2 = fold (refresh_target new) kept (s0\<lparr>Targets := kept\<rparr>)"
  note r = refresh_run [of new kept "s0\<lparr>Targets := kept\<rparr>", folded s2_def]
  have c2: "sv_config s2 = sv_config s" using s0' refresh_config [of new kept "s0\<lparr>Targets := kept\<rparr>"] by (simp add: s2_def unmoved_def)
  have fresh: "\<forall>(t, y) \<in> set new. Name y \<notin> set old \<longrightarrow> t \<notin> set (Targets s2)" using assms(6) r by (auto simp: kept_def)
  have nd: "\<not> shuttingDown s2" using assms(3) s0(1) r by (simp add: same_targets_def)
  have boot: "\<And>t s. same_targets s (boot t s)" using assms(2) by simp
  obtain s3 where s3: "start_targets boot old new s2 = (True, s3)" "Targets s3 = kept @ map fst (added old new)"
      "\<And>t. t \<notin> fst ` set (added old new) \<Longrightarrow> Name (targetOf s3 t) = Name (targetOf s2 t) \<and> Rules (targetOf s3 t) = Rules (targetOf s2 t)"
      "\<forall>(t, y) \<in> set (added old new). Name (targetOf s3 t) = Name y \<and> Rules (targetOf s3 t) = Rules y"
    using start_targets_run [of boot s2 new old, OF boot nd assms(4) fresh] r by auto
  have c3: "sv_config s3 = sv_config s" using start_config [of boot old new s2] assms(2) s3(1) c2 by simp
  define s' where "s' = s3\<lparr>sv_config := new_settings sc (sv_config s3), Targets := sort_key (\<lambda>t. target_key (targetOf s3 t)) (Targets s3)\<rparr>"
  have run: "Reload naps boot listen sc new (s, bound) = (Ok (), (s', move_listener listen (ListenAddr (sv_config s)) (ListenAddr sc) bound))"
    using s0(2) s3(1) c3
    by (simp add: Reload_def bindP_def getP_def thenP_def zoomP_def modifyP_def Let_def old_def [symmetric] s2_def [symmetric] s'_def)
  have kept: "Name (targetOf s3 t) = Name (targetOf s t) \<and> Rules (targetOf s3 t) = Rules (targetOf s2 t)" if "t \<in> set kept" for t
    using that s3(3) [of t] assms(6) r [of t] s0(1) by (auto simp: kept_def added_def same_targets_def)
  have rules: "Rules (targetOf s3 t) = Rules (snd n)" if "t \<in> set kept" "n \<in> set new" "Name (snd n) = Name (targetOf s t)" for t n
    using find_named [OF assms(5) that(2)] that kept [OF that(1)] r [of t] s0(1) by (auto simp: same_targets_def split: prod.splits)
  have all: "\<exists>t \<in> set (Targets s3). Name (targetOf s3 t) = Name (snd n) \<and> Rules (targetOf s3 t) = Rules (snd n)" if n: "n \<in> set new" for n
  proof (cases "Name (snd n) \<in> set old")
    case True
    then obtain t where t: "t \<in> set (Targets s)" "Name (snd n) = Name (targetOf s t)" by (auto simp: old_def)
    then have "t \<in> set kept" using n by (simp add: kept_def t(2) [symmetric])
    then show ?thesis using rules n t(2) kept s3(2) by (intro bexI [of _ t]) auto
  next
    case False
    then have "n \<in> set (added old new)" using n by (auto simp: added_def)
    then show ?thesis using s3(2,4) by (intro bexI [of _ "fst n"]) auto
  qed
  have "Name (targetOf s3 t) \<in> Name ` snd ` set new" if "t \<in> set (Targets s3)" for t
  proof (cases "t \<in> set kept")
    case True
    then show ?thesis using kept [OF True] by (auto simp: kept_def)
  next
    case False
    then have "t \<in> fst ` set (added old new)" using that s3(2) by simp
    then obtain n where "n \<in> set (added old new)" "t = fst n" by blast
    then show ?thesis using s3(4) by (force simp: added_def)
  qed
  then have "Name ` targetOf s3 ` set (Targets s3) = Name ` snd ` set new" using all by (auto, metis image_eqI snd_conv)
  then show ?thesis using all run c3 by (intro exI [of _ s']) (simp add: s'_def image_image)
qed



text \<open>The address is not among the settings that are taken over, so the configuration keeps the first one: after a reload to
  another address, a reload back to the first leaves the listener where it is, although the first address could be bound.\<close>

theorem listen_addr_forgotten:
  assumes "reload_ok naps boot new s" "ListenAddr (sv_config s) = a" "ListenAddr there = b" "a \<noteq> b" "listen b = None"
    and "Reload naps boot listen there new (s, a) = (r, (s1, bound))"
    and "reload_ok naps boot new' s1" "ListenAddr home = a"
  shows "bound = b \<and> (\<exists>s2. Reload naps boot listen home new' (s1, bound) = (Ok (), (s2, b)))"
proof -
  have 1: "sv_config s1 = new_settings there (sv_config s)" "bound = b"
    using reload_run [OF assms(1), of listen there a] assms(2-6) by (auto simp: move_listener_def)
  then have "ListenAddr (sv_config s1) = a" using assms(2) by (simp add: new_settings_def)
  then show ?thesis using reload_run [OF assms(7), of listen home bound] 1(2) assms(8) by (auto simp: move_listener_def)
qed

end
