(* ===== verification/Pgfox_Logger.thy ===== *)
theory Pgfox_Logger
  imports Pgfox_Prelude "HOL-Library.Multiset"
begin

text \<open>
  \<open>logger.go\<close>: the choice of level, format and destination in \<open>NewLogger\<close>, the derived loggers and \<open>Fatal\<close>, over the part of
  \<open>log/slog\<close> that they use: a handler with a lowest level, the attributes a logger carries, and the records it has written. How a
  handler spells a record is left out.

  The lemmas show that every configuration gives a logger that reports errors, that \<open>Fatal\<close> ends the process after its message has
  been written, and that the order in which \<open>WithFields\<close> ranges over its map decides only the order of the attributes.
\<close>

section \<open>The logging library\<close>

text \<open>The levels of \<open>log/slog\<close>.\<close>

definition LevelDebug :: int where "LevelDebug = -4"
definition LevelInfo :: int where "LevelInfo = 0"
definition LevelWarn :: int where "LevelWarn = 4"
definition LevelError :: int where "LevelError = 8"

lemmas level_defs = LevelDebug_def LevelInfo_def LevelWarn_def LevelError_def

datatype logFormat = JSONHandler | TextHandler
datatype dest = Stdout | OpenedFile string

text \<open>The values of type \<open>any\<close> that the code passes as fields.\<close>

datatype any = AString string | AInt int | AError goerr

type_synonym attr = "string \<times> any"

record Handler =
  h_format :: logFormat
  h_output :: dest
  h_level :: int

record Logger =
  handler :: Handler
  attrs :: "attr list"

text \<open>A record that was written: where, its level, message and attributes.\<close>

record entry =
  e_output :: dest
  e_level :: int
  e_msg :: string
  e_attrs :: "attr list"

text \<open>\<open>argsToAttr\<close>: a string and what follows it are a field; what has no key gets the key \<open>!BADKEY\<close>.\<close>

fun argsToAttrs :: "any list \<Rightarrow> attr list" where
  "argsToAttrs [] = []"
| "argsToAttrs [AString k] = [(''!BADKEY'', AString k)]"
| "argsToAttrs (AString k # v # as) = (k, v) # argsToAttrs as"
| "argsToAttrs (x # as) = (''!BADKEY'', x) # argsToAttrs as"

text \<open>\<open>slog.Logger.With\<close>, and \<open>slog.Logger.Log\<close> behind \<open>Debug\<close>, \<open>Info\<close>, \<open>Warn\<close> and \<open>Error\<close>.\<close>

definition With :: "Logger \<Rightarrow> any list \<Rightarrow> Logger" where
  "With l as = l\<lparr>attrs := attrs l @ argsToAttrs as\<rparr>"

definition log_at :: "int \<Rightarrow> Logger \<Rightarrow> string \<Rightarrow> any list \<Rightarrow> entry list \<Rightarrow> entry list" where
  "log_at lv l msg as out =
     (if h_level (handler l) \<le> lv
      then out @ [\<lparr>e_output = h_output (handler l), e_level = lv, e_msg = msg, e_attrs = attrs l @ argsToAttrs as\<rparr>] else out)"

text \<open>\<open>strings.ToLower\<close>, as far as a comparison with ASCII text can tell: besides the ASCII letters there are two runes whose lower
  case is ASCII, the dotted capital I and the Kelvin sign; every other rune above ASCII stays above it.\<close>

definition lower_byte :: "byte \<Rightarrow> byte" where
  "lower_byte c = (if 65 \<le> (of_char c :: nat) \<and> (of_char c :: nat) \<le> 90 then char_of (of_char c + 32 :: nat) else c)"

function ToLower :: "string \<Rightarrow> string" where
  "ToLower s =
     (if s = [] then []
      else if take 2 s = [CHR 0xC4, CHR 0xB0] then CHR ''i'' # ToLower (drop 2 s)
      else if take 3 s = [CHR 0xE2, CHR 0x84, CHR 0xAA] then CHR ''k'' # ToLower (drop 3 s)
      else lower_byte (hd s) # ToLower (tl s))"
  by pat_completeness auto
termination by (relation "measure length") auto

declare ToLower.simps [simp del]

section \<open>logger.go\<close>

record LoggingConfig =
  Level :: string
  Format :: string
  File :: string

definition parse_level :: "string \<Rightarrow> int" where
  "parse_level lv =
     (let lv = ToLower lv in
      if lv = ''debug'' then LevelDebug
      else if lv = ''info'' then LevelInfo
      else if lv = ''warn'' \<or> lv = ''warning'' then LevelWarn
      else if lv = ''error'' then LevelError
      else LevelInfo)"

text \<open>The destination, and what is written to the standard error when the file cannot be opened.\<close>

definition log_output :: "(string \<Rightarrow> goerr option) \<Rightarrow> string \<Rightarrow> dest \<times> string list" where
  "log_output openFile file =
     (if file = [] then (Stdout, [])
      else case openFile file of
        Some e \<Rightarrow> (Stdout, [''Failed to open log file '' @ file @ '': '' @ err_text e @ '', using stdout'' @ [CHR 0x0A]])
      | None \<Rightarrow> (OpenedFile file, []))"

definition log_format :: "string \<Rightarrow> logFormat" where
  "log_format f =
     (let f = ToLower f; f = (if f = [] then ''json'' else f) in
      if f = ''json'' then JSONHandler else if f = ''text'' then TextHandler else TextHandler)"

definition NewLogger :: "(string \<Rightarrow> goerr option) \<Rightarrow> LoggingConfig \<Rightarrow> Logger \<times> string list" where
  "NewLogger openFile config =
     (let level = parse_level (Level config); (out, stderr) = log_output openFile (File config)
      in (\<lparr>handler = \<lparr>h_format = log_format (Format config), h_output = out, h_level = level\<rparr>, attrs = []\<rparr>, stderr))"

text \<open>\<open>WithFields\<close> ranges over a map; the list is the fields in the order the range takes.\<close>

definition WithFields :: "Logger \<Rightarrow> (string \<times> any) list \<Rightarrow> Logger" where
  "WithFields l flds = With l (concat (map (\<lambda>(k, v). [AString k, v]) flds))"

definition WithField :: "Logger \<Rightarrow> string \<Rightarrow> any \<Rightarrow> Logger" where
  "WithField l key v = With l [AString key, v]"

definition WithError :: "Logger \<Rightarrow> goerr \<Rightarrow> Logger" where
  "WithError l err = WithField l ''error'' (AError err)"

definition WithDatabase :: "Logger \<Rightarrow> string \<Rightarrow> Logger" where
  "WithDatabase l database = WithField l ''database'' (AString database)"

definition WithUser :: "Logger \<Rightarrow> string \<Rightarrow> Logger" where
  "WithUser l user = WithField l ''user'' (AString user)"

definition WithClient :: "Logger \<Rightarrow> string \<Rightarrow> Logger" where
  "WithClient l clientAddr = WithField l ''client'' (AString clientAddr)"

definition WithTarget :: "Logger \<Rightarrow> string \<Rightarrow> Logger" where
  "WithTarget l target = WithField l ''target'' (AString target)"

text \<open>\<open>Fatal\<close>: the records written and the exit status of the process.\<close>

definition Logger_Fatal :: "Logger \<Rightarrow> string \<Rightarrow> any list \<Rightarrow> entry list \<Rightarrow> nat \<times> entry list" where
  "Logger_Fatal l msg as out = (1, log_at LevelError l msg as out)"

section \<open>What the logger promises\<close>

text \<open>Whatever derives a logger keeps its handler.\<close>

lemma derived_handler [simp]:
  "handler (With l as) = handler l" "handler (WithFields l fs) = handler l" "handler (WithField l k v) = handler l"
  "handler (WithError l e) = handler l" "handler (WithDatabase l d) = handler l" "handler (WithUser l u) = handler l"
  "handler (WithClient l c) = handler l" "handler (WithTarget l t) = handler l"
  by (simp_all add: With_def WithFields_def WithField_def WithError_def WithDatabase_def WithUser_def WithClient_def WithTarget_def)

lemma args_of_fields: "argsToAttrs (concat (map (\<lambda>(k, v). [AString k, v]) fs)) = fs"
  by (induction fs) auto

lemma WithField_attrs: "attrs (WithField l k v) = attrs l @ [(k, v)]"
  by (simp add: WithField_def With_def)

lemma WithFields_attrs: "attrs (WithFields l fs) = attrs l @ fs"
  by (simp add: WithFields_def With_def args_of_fields)

text \<open>The order of the range does not matter for the fields themselves, and one call is as good as a call for each field.\<close>

lemma WithFields_order:
  assumes "mset fs = mset gs"
  shows "mset (attrs (WithFields l fs)) = mset (attrs (WithFields l gs))" "handler (WithFields l fs) = handler (WithFields l gs)"
  using assms by (simp_all add: WithFields_attrs)

lemma WithFields_fold: "WithFields l fs = fold (\<lambda>(k, v) l. WithField l k v) fs l"
proof (induction fs arbitrary: l)
  case Nil then show ?case by (simp add: WithFields_def With_def)
next
  case (Cons f fs)
  have "WithFields l (f # fs) = WithFields (WithField l (fst f) (snd f)) fs"
    by (cases f) (simp add: WithFields_def WithField_def With_def)
  with Cons show ?case by (simp add: split_def)
qed

lemma NewLogger_level: "h_level (handler (fst (NewLogger openFile config))) \<in> {LevelDebug, LevelInfo, LevelWarn, LevelError}"
  by (auto simp: NewLogger_def parse_level_def Let_def split: prod.splits)

text \<open>With every configuration, errors are written; and a failure to open the file is the only case in which the file is not used.\<close>

lemma errors_are_written:
  "handler l = handler (fst (NewLogger openFile config)) \<Longrightarrow>
   log_at LevelError l msg as out = out @ [\<lparr>e_output = h_output (handler l), e_level = LevelError, e_msg = msg, e_attrs = attrs l @ argsToAttrs as\<rparr>]"
  using NewLogger_level [of openFile config] by (auto simp: log_at_def level_defs)

lemma NewLogger_output:
  "h_output (handler (fst (NewLogger openFile config))) =
     (if File config \<noteq> [] \<and> openFile (File config) = None then OpenedFile (File config) else Stdout)"
  "snd (NewLogger openFile config) = [] \<longleftrightarrow> (File config \<noteq> [] \<longrightarrow> openFile (File config) = None)"
  by (auto simp: NewLogger_def log_output_def Let_def split: prod.splits option.splits if_splits)

text \<open>A fatal error ends the process with status 1 and, whatever the configuration and the fields added since, is the last record written.\<close>

theorem fatal_is_reported:
  assumes "handler l = handler (fst (NewLogger openFile config))"
  shows "Logger_Fatal l msg as out =
    (1, out @ [\<lparr>e_output = h_output (handler l), e_level = LevelError, e_msg = msg, e_attrs = attrs l @ argsToAttrs as\<rparr>])"
  using errors_are_written [OF assms] by (simp add: Logger_Fatal_def)

text \<open>The level and the format do not depend on the case of the letters; a level that is not known is \<open>info\<close>, a format that is not known
  is text, and no format is JSON.\<close>

lemma logger_choices:
  "parse_level ''WARNING'' = LevelWarn" "parse_level ''Debug'' = LevelDebug" "parse_level ''verbose'' = LevelInfo" "parse_level [] = LevelInfo"
  "log_format [] = JSONHandler" "log_format ''JSON'' = JSONHandler" "log_format ''yaml'' = TextHandler"
  by code_simp+

end
