(* ===== verification/Pgfox_WebServer.thy ===== *)
theory Pgfox_WebServer
  imports Pgfox_Web Pgfox_Logger
begin

text \<open>
  The web server of \<open>web.go\<close>: \<open>NewWebServer\<close> with the registration of the collector, the routes, the index page, \<open>Start\<close>, and the
  goroutine of \<open>main\<close> that runs it. The registry is \<open>prometheus\<close>' and a parameter, and so is what \<open>net/http\<close> makes of
  \<open>ListenAndServe\<close> and \<open>Shutdown\<close>.

  The lemmas show that the collector is one that the registry accepts, so that \<open>NewWebServer\<close> does not panic, that the index page
  links to routes that exist and to every other one, and that \<open>Start\<close> neither returns before the context ends nor returns the error
  of a listener that could not be opened.
\<close>

section \<open>The server\<close>

datatype route = handleIndex | handlerFor "Desc list"

record WebServer =
  ws_addr :: string
  ws_routes :: "(string \<times> route) list"
  ws_logger :: Logger
  ws_registry :: "Desc list"

definition registerRoutes :: "WebServer \<Rightarrow> WebServer" where
  "registerRoutes ws = ws\<lparr>ws_routes := ws_routes ws @ [(''/'', handleIndex), (''/metrics'', handlerFor (ws_registry ws))]\<rparr>"

text \<open>\<open>register\<close> is the \<open>Register\<close> of an empty registry: an error, or none.\<close>

definition NewWebServer :: "(Desc list \<Rightarrow> goerr option) \<Rightarrow> string \<Rightarrow> Logger \<Rightarrow> WebServer res" where
  "NewWebServer register addr lg =
     (case register Describe of
        Some e \<Rightarrow> Panic
      | None \<Rightarrow> Ok (registerRoutes
          \<lparr>ws_addr = addr, ws_routes = [], ws_logger = WithField lg ''component'' (AString ''webserver''), ws_registry = Describe\<rparr>))"

text \<open>How \<open>ListenAndServe\<close> ends: with \<open>http.ErrServerClosed\<close>, or with another error, before the context is done or after it. The
  goroutine logs only the latter kind.\<close>

datatype listened = ServerClosed | ListenFailed goerr bool

definition serve_log :: "listened \<Rightarrow> bool \<Rightarrow> WebServer \<Rightarrow> entry list \<Rightarrow> entry list" where
  "serve_log r early ws out =
     (case r of ListenFailed e b \<Rightarrow> if b = early then log_at LevelError (WithError (ws_logger ws) e) ''Web server failed'' [] out else out
      | ServerClosed \<Rightarrow> out)"

definition WebServer_Start :: "bool \<Rightarrow> listened \<Rightarrow> goerr option \<Rightarrow> WebServer \<Rightarrow> (entry list, unit) prog" where
  "WebServer_Start ctxDone r shutdownErr ws out =
     (let out = log_at LevelInfo (ws_logger ws) ''Starting web server'' [AString ''addr'', AString (ws_addr ws)] out;
          out = serve_log r True ws out
      in if \<not> ctxDone then (Blocked, out)
         else let out = serve_log r False ws (log_at LevelInfo (ws_logger ws) ''Shutting down web server'' [] out)
              in (case shutdownErr of Some e \<Rightarrow> (Err e, out) | None \<Rightarrow> (Ok (), out)))"

text \<open>The goroutine of \<open>main\<close>.\<close>

definition serve_metrics ::
  "(Desc list \<Rightarrow> goerr option) \<Rightarrow> int \<Rightarrow> Logger \<Rightarrow> bool \<Rightarrow> listened \<Rightarrow> goerr option \<Rightarrow> (entry list, unit) prog" where
  "serve_metrics register port lg ctxDone r shutdownErr out =
     (let addr = '':'' @ fmt_int port in
      case NewWebServer register addr lg of
        Ok ws \<Rightarrow>
          (let out = log_at LevelInfo lg ''Starting web server'' [AString ''addr'', AString addr] out in
           case WebServer_Start ctxDone r shutdownErr ws out of
             (Err e, out) \<Rightarrow> (Ok (), log_at LevelError (WithError lg e) ''Web server failed'' [] out)
           | r \<Rightarrow> r)
      | _ \<Rightarrow> (Panic, out))"

section \<open>The index page\<close>

definition page_lines :: "string list" where
  \<open>page_lines =
    [''<!DOCTYPE html>'',
     ''<html>'',
     ''<head>'',
     ''    <title>PgFox - PostgreSQL Connection Pooler</title>'',
     ''    <style>'',
     ''        body { font-family: Arial, sans-serif; max-width: 800px; margin: 50px auto; padding: 20px; }'',
     ''        h1 { color: #2c3e50; }'',
     ''        .info { background: #ecf0f1; padding: 15px; border-radius: 5px; margin: 20px 0; }'',
     ''        .endpoints { list-style: none; padding: 0; }'',
     ''        .endpoints li { padding: 10px; margin: 5px 0; background: #3498db; color: white; border-radius: 3px; }'',
     ''        .endpoints a { color: white; text-decoration: none; }'',
     ''        .endpoints a:hover { text-decoration: underline; }'',
     ''    </style>'',
     ''</head>'',
     ''<body>'',
     ''    <h1>'' @ [CHR 0xF0, CHR 0x9F, CHR 0xA6, CHR 0x8A] @ '' PgFox</h1>'',
     ''    <div class="info">'',
     ''        <p><strong>Description:</strong> PostgreSQL Connection Pooler with Wildcard Database Support</p>'',
     ''    </div>'',
     ''    <h2>Available Endpoints</h2>'',
     ''    <ul class="endpoints">'',
     ''        <li><a href="/metrics">/metrics</a> - Prometheus metrics</li>'',
     ''    </ul>'',
     ''</body>'',
     ''</html>'']\<close>

fun join_lines :: "string list \<Rightarrow> string" where
  "join_lines [] = []"
| "join_lines [l] = l"
| "join_lines (l # ls) = l @ LF # join_lines ls"

record response =
  status :: nat
  contentType :: string
  body :: string

definition index_response :: response where
  "index_response = \<lparr>status = 200, contentType = ''text/html; charset=utf-8'', body = join_lines page_lines\<rparr>"

text \<open>The targets of the links on a page.\<close>

fun hrefs :: "string \<Rightarrow> string list" where
  "hrefs [] = []"
| "hrefs (c # s) =
     (if c = CHR ''h'' \<and> take 5 s = ''ref='' @ [CHR 0x22] then takeWhile (\<lambda>c. c \<noteq> CHR 0x22) (drop 5 s) # hrefs s else hrefs s)"

lemma index_links: "hrefs (body index_response) = [''/metrics'']"
  by code_simp

text \<open>The page has a link for every route but its own, and for nothing else.\<close>

lemma index_links_routes:
  "NewWebServer register addr lg = Ok ws \<Longrightarrow> map fst (ws_routes ws) = ''/'' # hrefs (body index_response)"
  by (auto simp: NewWebServer_def registerRoutes_def index_links split: option.splits)

section \<open>Registration\<close>

text \<open>What the registry documents: it takes a collector whose descriptors have valid names, different ones, and for each a list of
  different valid label names.\<close>

definition name_start :: "byte \<Rightarrow> bool" where
  "name_start c \<longleftrightarrow> (let n = of_char c :: nat in n = 95 \<or> 65 \<le> n \<and> n \<le> 90 \<or> 97 \<le> n \<and> n \<le> 122)"

definition name_byte :: "byte \<Rightarrow> bool" where
  "name_byte c \<longleftrightarrow> name_start c \<or> (let n = of_char c :: nat in 48 \<le> n \<and> n \<le> 57)"

definition valid_name :: "string \<Rightarrow> bool" where
  "valid_name s \<longleftrightarrow> s \<noteq> [] \<and> name_start (hd s) \<and> list_all name_byte s"

definition describes :: "Desc list \<Rightarrow> bool" where
  "describes ds \<longleftrightarrow> distinct (map fqName ds) \<and>
     list_all (\<lambda>d. valid_name (fqName d) \<and> distinct (variableLabels d) \<and> list_all valid_name (variableLabels d)) ds"

definition registry :: "(Desc list \<Rightarrow> goerr option) \<Rightarrow> bool" where
  "registry register \<longleftrightarrow> (\<forall>ds. ds \<noteq> [] \<and> describes ds \<longrightarrow> register ds = None)"

lemma collector_described: "describes Describe"
  by code_simp

lemma NewWebServer_ok:
  assumes "registry register"
  shows "NewWebServer register addr lg = Ok
    \<lparr>ws_addr = addr, ws_routes = [(''/'', handleIndex), (''/metrics'', handlerFor Describe)],
     ws_logger = WithField lg ''component'' (AString ''webserver''), ws_registry = Describe\<rparr>"
proof -
  have "register Describe = None" using assms collector_described by (auto simp: registry_def Describe_def)
  then show ?thesis by (simp add: NewWebServer_def registerRoutes_def)
qed

text \<open>There is a registry of that kind: one that checks just this.\<close>

lemma registry_possible: "registry (\<lambda>ds. if describes ds then None else Some (Errorf ''invalid descriptor''))"
  by (simp add: registry_def)

section \<open>Running\<close>

text \<open>\<open>Start\<close> returns exactly when the context is done, with what \<open>Shutdown\<close> returns: the error of a listener that could not be opened
  is logged, and the caller does not learn of it.\<close>

lemma web_start_result:
  "fst (WebServer_Start ctxDone r shutdownErr ws out) =
     (if ctxDone then case shutdownErr of Some e \<Rightarrow> Err e | None \<Rightarrow> Ok () else Blocked)"
  by (auto simp: WebServer_Start_def Let_def split: option.splits)

text \<open>A failed listener is reported, whatever level was configured.\<close>

lemma log_at_grows: "set out \<subseteq> set (log_at lv l msg as out)"
  by (auto simp: log_at_def)

lemma serve_log_grows: "set out \<subseteq> set (serve_log r early ws out)"
  using log_at_grows by (auto simp: serve_log_def split: listened.splits)

lemma serve_log_fails:
  assumes "handler (ws_logger ws) = handler (fst (NewLogger openFile config))"
  shows "\<exists>x\<in>set (serve_log (ListenFailed e b) b ws out). e_msg x = ''Web server failed'' \<and> (''error'', AError e) \<in> set (e_attrs x)"
proof -
  let ?l = "WithError (ws_logger ws) e"
  have h: "handler ?l = handler (fst (NewLogger openFile config))" using assms by simp
  have "(''error'', AError e) \<in> set (attrs ?l)" by (simp add: WithError_def WithField_attrs)
  then show ?thesis by (simp add: serve_log_def errors_are_written [OF h])
qed

lemma listen_failure_logged:
  assumes "handler (ws_logger ws) = handler (fst (NewLogger openFile config))" "early \<or> ctxDone"
  shows "\<exists>x\<in>set (snd (WebServer_Start ctxDone (ListenFailed e early) shutdownErr ws out)).
    e_msg x = ''Web server failed'' \<and> (''error'', AError e) \<in> set (e_attrs x)"
proof -
  let ?o = "log_at LevelInfo (ws_logger ws) ''Starting web server'' [AString ''addr'', AString (ws_addr ws)] out"
  let ?o1 = "serve_log (ListenFailed e early) True ws ?o"
  let ?o2 = "serve_log (ListenFailed e early) False ws (log_at LevelInfo (ws_logger ws) ''Shutting down web server'' [] ?o1)"
  have s: "snd (WebServer_Start ctxDone (ListenFailed e early) shutdownErr ws out) = (if ctxDone then ?o2 else ?o1)"
    by (simp add: WebServer_Start_def Let_def split: option.splits)
  have "set ?o1 \<subseteq> set ?o2" using log_at_grows serve_log_grows by (meson subset_trans)
  then show ?thesis using serve_log_fails [OF assms(1)] assms(2) unfolding s by (cases early; cases ctxDone) (simp_all, blast+)
qed

text \<open>The metrics goroutine of \<open>main\<close> returns as soon as the context is done and never panics.\<close>

lemma serve_metrics_result:
  assumes "registry register"
  shows "fst (serve_metrics register port lg ctxDone r shutdownErr out) = (if ctxDone then Ok () else Blocked)"
proof -
  let ?addr = "'':'' @ fmt_int port"
  let ?out = "log_at LevelInfo lg ''Starting web server'' [AString ''addr'', AString ?addr] out"
  obtain ws where ws: "NewWebServer register ?addr lg = Ok ws" using NewWebServer_ok [OF assms] by blast
  obtain x o1 where x: "WebServer_Start ctxDone r shutdownErr ws ?out = (x, o1)" by fastforce
  then have "x = (if ctxDone then case shutdownErr of Some e \<Rightarrow> Err e | None \<Rightarrow> Ok () else Blocked)"
    using web_start_result [of ctxDone r shutdownErr ws ?out] by simp
  then show ?thesis using ws x by (simp add: serve_metrics_def split: option.splits)
qed

end
